(* ===== verification/Prelude.thy ===== *)
theory Prelude
  imports Main
begin

text \<open>
  What every component of the development shares: results that are either a raised
  error or a value, the three SQL statements the repositories are made of (an UPDATE
  with its WHERE clause, a SELECT of at most one row by its key, an upsert on a unique
  key) over tables kept as lists of rows, and the contract of a keyed table as the
  locales \<open>row_write\<close> and \<open>row_upsert\<close>.
\<close>

section \<open>Collections of facts\<close>

named_theorems table_simps \<open>lookups in a table after a statement\<close>
named_theorems frame_simps \<open>fields an operation leaves alone\<close>

section \<open>Results: an error or a value\<close>

type_synonym ('e, 'a) result = "'e + 'a"

definition result_bind :: "('e, 'a) result \<Rightarrow> ('a \<Rightarrow> ('e, 'b) result) \<Rightarrow> ('e, 'b) result" where
  "result_bind r f = (case r of Inl e \<Rightarrow> Inl e | Inr x \<Rightarrow> f x)"

lemma result_bind_simps [simp]:
  "result_bind (Inl e) f = Inl e"
  "result_bind (Inr x) f = f x"
  by (simp_all add: result_bind_def)

lemma result_bind_eq_Inr:
  "result_bind r f = Inr y \<longleftrightarrow> (\<exists>x. r = Inr x \<and> f x = Inr y)"
  by (cases r) auto

lemma result_bind_eq_Inl:
  "result_bind r f = Inl e \<longleftrightarrow> r = Inl e \<or> (\<exists>x. r = Inr x \<and> f x = Inl e)"
  by (cases r) auto

lemma option_all_None: "(\<forall>y. x \<noteq> Some y) \<longleftrightarrow> x = None"
  by (cases x) auto

section \<open>Tables as lists of rows\<close>

text \<open>\<^verbatim>\<open>UPDATE t SET f WHERE p\<close>.\<close>

definition sql_update :: "('r \<Rightarrow> bool) \<Rightarrow> ('r \<Rightarrow> 'r) \<Rightarrow> 'r list \<Rightarrow> 'r list" where
  "sql_update p f rows = map (\<lambda>r. if p r then f r else r) rows"

text \<open>\<^verbatim>\<open>result.rowcount\<close> of an UPDATE, and \<^verbatim>\<open>SELECT count(*) WHERE p\<close>.\<close>

definition sql_count :: "('r \<Rightarrow> bool) \<Rightarrow> 'r list \<Rightarrow> nat" where
  "sql_count p rows = length (filter p rows)"

text \<open>\<^verbatim>\<open>SELECT ... WHERE key = k\<close> with \<^verbatim>\<open>scalar_one_or_none()\<close>.\<close>

definition lookup_by :: "('r \<Rightarrow> 'k) \<Rightarrow> 'k \<Rightarrow> 'r list \<Rightarrow> 'r option" where
  "lookup_by key k rows = find (\<lambda>r. key r = k) rows"

text \<open>\<^verbatim>\<open>INSERT ... ON CONFLICT (key) DO UPDATE\<close>: \<open>new\<close> is the inserted row and
  \<open>upd\<close> what the conflict clause makes of a row that is there already.\<close>

definition sql_upsert :: "('r \<Rightarrow> 'k) \<Rightarrow> ('r \<Rightarrow> 'r) \<Rightarrow> 'r \<Rightarrow> 'r list \<Rightarrow> 'r list" where
  "sql_upsert key upd new rows =
     (if \<exists>r \<in> set rows. key r = key new
      then sql_update (\<lambda>r. key r = key new) upd rows
      else rows @ [new])"

text \<open>What a PRIMARY KEY or UNIQUE constraint says of a table.\<close>

definition unique_on :: "('r \<Rightarrow> 'k) \<Rightarrow> 'r list \<Rightarrow> bool" where
  "unique_on key rows \<longleftrightarrow> distinct (map key rows)"

lemma unique_on_Nil [simp]: "unique_on key []"
  by (simp add: unique_on_def)

lemma lookup_by_Nil [simp]: "lookup_by key k [] = None"
  by (simp add: lookup_by_def)

lemma lookup_by_Cons [simp]:
  "lookup_by key k (r # rows) = (if key r = k then Some r else lookup_by key k rows)"
  by (simp add: lookup_by_def)

lemma lookup_by_key: "lookup_by key k rows = Some r \<Longrightarrow> key r = k"
  by (induction rows) (auto split: if_splits)

lemma lookup_by_mem: "lookup_by key k rows = Some r \<Longrightarrow> r \<in> set rows"
  by (induction rows) (auto split: if_splits)

lemma lookup_by_None: "lookup_by key k rows = None \<longleftrightarrow> (\<forall>r \<in> set rows. key r \<noteq> k)"
  by (induction rows) auto

lemma lookup_by_append:
  "lookup_by key k (xs @ ys) = (case lookup_by key k xs of None \<Rightarrow> lookup_by key k ys | Some r \<Rightarrow> Some r)"
  by (induction xs) auto

lemma lookup_by_unique:
  "unique_on key rows \<Longrightarrow> r \<in> set rows \<Longrightarrow> lookup_by key (key r) rows = Some r"
  by (induction rows) (auto simp: unique_on_def)

lemma map_key_sql_update:
  "(\<And>r. key (f r) = key r) \<Longrightarrow> map key (sql_update p f rows) = map key rows"
  by (auto simp: sql_update_def)

lemma lookup_by_sql_update:
  assumes "\<And>r. key (f r) = key r"
  shows "lookup_by key k (sql_update p f rows)
    = map_option (\<lambda>r. if p r then f r else r) (lookup_by key k rows)"
  using assms by (induction rows) (auto simp: sql_update_def)

lemma length_sql_update [simp]: "length (sql_update p f rows) = length rows"
  by (simp add: sql_update_def)

lemma sql_update_mem:
  "r \<in> set (sql_update p f rows) \<longleftrightarrow> (\<exists>r0 \<in> set rows. r = (if p r0 then f r0 else r0))"
  by (auto simp: sql_update_def)

lemma sql_update_all:
  "(\<forall>r \<in> set (sql_update p f rows). P r) \<longleftrightarrow> (\<forall>r \<in> set rows. P (if p r then f r else r))"
  by (induction rows) (auto simp: sql_update_def)

lemma unique_on_append_new:
  "unique_on key rows \<Longrightarrow> (\<forall>r \<in> set rows. key r \<noteq> key new) \<Longrightarrow> unique_on key (rows @ [new])"
  by (auto simp: unique_on_def)

lemma sql_update_twice:
  assumes "\<And>r. p (f r) = p r" and "\<And>r. f (f r) = f r"
  shows "sql_update p f (sql_update p f rows) = sql_update p f rows"
  using assms by (simp add: sql_update_def)

lemma sql_upsert_twice:
  assumes "\<And>r. key (upd r) = key r" and "\<And>r. upd (upd r) = upd r" and "upd new = new"
  shows "sql_upsert key upd new (sql_upsert key upd new rows) = sql_upsert key upd new rows"
proof (cases "\<exists>r \<in> set rows. key r = key new")
  case True
  then obtain r where r: "r \<in> set rows" "key r = key new" by blast
  then have "upd r \<in> set (sql_update (\<lambda>r. key r = key new) upd rows)" by (auto simp: sql_update_mem)
  with r assms(1) have "\<exists>r \<in> set (sql_update (\<lambda>r. key r = key new) upd rows). key r = key new" by metis
  with True show ?thesis by (simp add: sql_upsert_def sql_update_twice assms)
next
  case False
  then have "map (\<lambda>r. if key r = key new then upd r else r) rows = rows" by (intro map_idI) auto
  with False assms(3) show ?thesis by (simp add: sql_upsert_def sql_update_def)
qed

section \<open>The contract of a row write\<close>

text \<open>
  A statement that assigns columns other than the key. What the clients rely on: the
  constraint of the key survives it, the row it names changes and every other stays.
\<close>

locale row_write =
  fixes key :: "'r \<Rightarrow> 'k" and upd :: "'r \<Rightarrow> 'r"
  assumes key_upd: "key (upd r) = key r"
begin

lemma unique: "unique_on key rows \<Longrightarrow> unique_on key (sql_update p upd rows)"
  by (simp add: unique_on_def map_key_sql_update key_upd)

lemma lookup:
  "lookup_by key k (sql_update p upd rows)
    = map_option (\<lambda>r. if p r then upd r else r) (lookup_by key k rows)"
  by (simp add: lookup_by_sql_update key_upd)

lemma lookup_same:
  "lookup_by key k (sql_update (\<lambda>r. key r = k) upd rows) = map_option upd (lookup_by key k rows)"
  by (cases "lookup_by key k rows") (auto simp: lookup dest: lookup_by_key)

lemma lookup_other:
  "k' \<noteq> k \<Longrightarrow> lookup_by key k' (sql_update (\<lambda>r. key r = k) upd rows) = lookup_by key k' rows"
  by (cases "lookup_by key k' rows") (auto simp: lookup dest: lookup_by_key)

lemma keys: "map key (sql_update p upd rows) = map key rows"
  by (simp add: map_key_sql_update key_upd)

end

text \<open>An upsert adds to that the row it inserts where there was none.\<close>

locale row_upsert = row_write key upd for key :: "'r \<Rightarrow> 'k" and upd :: "'r \<Rightarrow> 'r" +
  fixes new :: 'r
begin

lemma upsert_unique: "unique_on key rows \<Longrightarrow> unique_on key (sql_upsert key upd new rows)"
  by (auto simp: sql_upsert_def unique intro: unique_on_append_new)

lemma upsert_lookup_same:
  "lookup_by key (key new) (sql_upsert key upd new rows)
    = Some (case lookup_by key (key new) rows of None \<Rightarrow> new | Some r \<Rightarrow> upd r)"
proof (cases "lookup_by key (key new) rows")
  case None
  then have "\<not> (\<exists>r \<in> set rows. key r = key new)" by (simp add: lookup_by_None)
  with None show ?thesis by (simp add: sql_upsert_def lookup_by_append)
next
  case (Some r)
  then have "\<exists>r \<in> set rows. key r = key new" by (meson lookup_by_key lookup_by_mem)
  with Some show ?thesis by (simp add: sql_upsert_def lookup_same)
qed

lemma upsert_lookup_other:
  assumes "k \<noteq> key new"
  shows "lookup_by key k (sql_upsert key upd new rows) = lookup_by key k rows"
  using assms by (auto simp: sql_upsert_def lookup_other lookup_by_append split: option.split)

end

section \<open>Ordering and bounding a result\<close>

text \<open>\<^verbatim>\<open>max(rows, key=f)\<close>: the first of the rows whose key is the largest. None stands
  for the \<^verbatim>\<open>ValueError\<close> of an empty sequence, which every caller rules out.\<close>

fun max_by :: "('r \<Rightarrow> 'k::linorder) \<Rightarrow> 'r list \<Rightarrow> 'r option" where
  "max_by f [] = None"
| "max_by f (r # rows) =
     (case max_by f rows of None \<Rightarrow> Some r | Some s \<Rightarrow> Some (if f s > f r then s else r))"

lemma max_by_None [simp]: "max_by f rows = None \<longleftrightarrow> rows = []"
  by (cases rows) (auto split: option.split)

lemma max_by_mem: "max_by f rows = Some r \<Longrightarrow> r \<in> set rows"
  by (induction rows arbitrary: r) (auto split: option.splits if_splits)

lemma max_by_ge: "max_by f rows = Some r \<Longrightarrow> s \<in> set rows \<Longrightarrow> f s \<le> f r"
proof (induction rows arbitrary: r)
  case Nil
  then show ?case by simp
next
  case (Cons x rows)
  show ?case
  proof (cases "max_by f rows")
    case None
    with Cons.prems show ?thesis by simp
  next
    case (Some t)
    with Cons.prems(2) Cons.IH[OF Some] have "f s \<le> max (f x) (f t)"
      by (auto simp: max_def intro: order_trans)
    with Cons.prems(1) Some show ?thesis by (auto simp: max_def split: if_splits)
  qed
qed

lemma map_filter_mem: "y \<in> set (List.map_filter f xs) \<longleftrightarrow> (\<exists>x\<in>set xs. f x = Some y)"
  by (induction xs) (auto simp: map_filter_simps split: option.split)

lemma map_filter_append: "List.map_filter f (xs @ ys) = List.map_filter f xs @ List.map_filter f ys"
  by (simp add: List.map_filter_def)

end
