(* ===== verification/Py_Values.thy ===== *)
theory Py_Values
  imports Prelude
begin

text \<open>
  The Python values that cross the boundary of the program: what \<^verbatim>\<open>json.loads\<close>
  returns, read with \<^verbatim>\<open>dict.get\<close>, tested for truth, printed by \<^verbatim>\<open>str\<close> and
  parsed by \<^verbatim>\<open>int\<close>; and the string methods the code uses on them. A \<open>char\<close> is a
  code point below 256. A float is kept as the text \<^verbatim>\<open>repr\<close> prints for it, which is
  all the code ever asks of one.
\<close>

section \<open>Values\<close>

datatype json =
    JNull
  | JBool bool
  | JInt int
  | JFloat string
  | JStr string
  | JList "json list"
  | JObj "(string \<times> json) list"

text \<open>\<^verbatim>\<open>d.get(k)\<close>: absent is None.\<close>

definition get :: "(string \<times> json) list \<Rightarrow> string \<Rightarrow> json" where
  "get d k = (case map_of d k of None \<Rightarrow> JNull | Some v \<Rightarrow> v)"

fun truthy :: "json \<Rightarrow> bool" where
  "truthy JNull = False"
| "truthy (JBool b) = b"
| "truthy (JInt i) = (i \<noteq> 0)"
| "truthy (JFloat r) = (r \<noteq> ''0.0'' \<and> r \<noteq> ''-0.0'')"
| "truthy (JStr s) = (s \<noteq> [])"
| "truthy (JList xs) = (xs \<noteq> [])"
| "truthy (JObj d) = (d \<noteq> [])"

text \<open>\<^verbatim>\<open>isinstance(v, dict)\<close>, as the dictionary where it is one.\<close>

fun as_dict :: "json \<Rightarrow> (string \<times> json) list option" where
  "as_dict (JObj d) = Some d"
| "as_dict _ = None"

text \<open>\<^verbatim>\<open>v.get(k) if isinstance(v, dict) else None\<close>.\<close>

definition get_in :: "json \<Rightarrow> string \<Rightarrow> json" where
  "get_in v k = (case as_dict v of None \<Rightarrow> JNull | Some d \<Rightarrow> get d k)"

text \<open>Hashing a value: lists and dictionaries raise \<^verbatim>\<open>TypeError\<close>.\<close>

fun hashable :: "json \<Rightarrow> bool" where
  "hashable (JList _) = False"
| "hashable (JObj _) = False"
| "hashable _ = True"

section \<open>Strings\<close>

definition py_space :: "char \<Rightarrow> bool" where
  "py_space c = (let n = (of_char c :: nat) in n \<in> {9..13} \<or> n \<in> {28..32} \<or> n = 133 \<or> n = 160)"

definition lstrip :: "string \<Rightarrow> string" where
  "lstrip s = dropWhile py_space s"

definition strip :: "string \<Rightarrow> string" where
  "strip s = rev (dropWhile py_space (rev (dropWhile py_space s)))"

text \<open>\<^verbatim>\<open>s.split(c)\<close> and \<^verbatim>\<open>s.partition(c)\<close> for a one-character separator.\<close>

fun split_on :: "char \<Rightarrow> string \<Rightarrow> string list" where
  "split_on c [] = [[]]"
| "split_on c (x # xs) =
     (if x = c then [] # split_on c xs
      else (case split_on c xs of [] \<Rightarrow> [[x]] | w # ws \<Rightarrow> (x # w) # ws))"

definition partition_on :: "char \<Rightarrow> string \<Rightarrow> string \<times> bool \<times> string" where
  "partition_on c s =
     (takeWhile (\<lambda>x. x \<noteq> c) s, c \<in> set s, drop 1 (dropWhile (\<lambda>x. x \<noteq> c) s))"

fun join_with :: "string \<Rightarrow> string list \<Rightarrow> string" where
  "join_with sep [] = []"
| "join_with sep [w] = w"
| "join_with sep (w # ws) = w @ sep @ join_with sep ws"

lemma split_on_nonempty [simp]: "split_on c s \<noteq> []"
  by (cases s) (auto split: list.split)

lemma join_split: "join_with [c] (split_on c s) = s"
proof (induction s)
  case Nil
  then show ?case by simp
next
  case (Cons x xs)
  show ?case
  proof (cases "split_on c xs")
    case Nil
    then show ?thesis by simp
  next
    case (Cons w ws)
    with Cons.IH show ?thesis by (cases ws) auto
  qed
qed

lemma partition_on_eq:
  "\<forall>x \<in> set k. x \<noteq> c \<Longrightarrow> partition_on c (k @ c # v) = (k, True, v)"
  by (simp add: partition_on_def takeWhile_append2 dropWhile_append2 takeWhile_eq_all_conv[THEN iffD2])

lemma split_on_no_sep: "c \<notin> set s \<Longrightarrow> split_on c s = [s]"
  by (induction s) auto

lemma split_on_append_sep:
  "c \<notin> set s \<Longrightarrow> split_on c (s @ c # t) = s # split_on c t"
  by (induction s) auto

lemma split_on_join:
  assumes "ws \<noteq> []" "\<forall>w\<in>set ws. c \<notin> set w"
  shows "split_on c (join_with [c] ws) = ws"
  using assms
proof (induction ws rule: induct_list012)
  case (3 v w ws)
  then show ?case by (simp add: split_on_append_sep)
qed (simp_all add: split_on_no_sep)

section \<open>Decimal numerals\<close>

definition digit_char :: "nat \<Rightarrow> char" where
  "digit_char d = char_of (48 + d)"

definition is_digit :: "char \<Rightarrow> bool" where
  "is_digit c = (let n = (of_char c :: nat) in 48 \<le> n \<and> n \<le> 57)"

definition digit_val :: "char \<Rightarrow> nat" where
  "digit_val c = of_char c - 48"

fun show_nat :: "nat \<Rightarrow> string" where
  "show_nat n = (if n < 10 then [digit_char n] else show_nat (n div 10) @ [digit_char (n mod 10)])"

declare show_nat.simps [simp del]

definition show_int :: "int \<Rightarrow> string" where
  "show_int i = (if i < 0 then CHR ''-'' # show_nat (nat (- i)) else show_nat (nat i))"

definition digits_val :: "string \<Rightarrow> nat" where
  "digits_val s = foldl (\<lambda>acc c. acc * 10 + digit_val c) 0 s"

text \<open>The digits of an \<^verbatim>\<open>int\<close> literal: underscores may stand between digits.\<close>

fun int_digits :: "string \<Rightarrow> string option" where
  "int_digits [] = None"
| "int_digits [c] = (if is_digit c then Some [c] else None)"
| "int_digits (c # d # s) =
     (if is_digit c
      then (if d = CHR ''_'' then map_option (Cons c) (int_digits s)
            else map_option (Cons c) (int_digits (d # s)))
      else None)"

text \<open>\<^verbatim>\<open>int(s)\<close>; None is the \<^verbatim>\<open>ValueError\<close>, which a literal of more than 4300
  digits raises too.\<close>

definition py_int :: "string \<Rightarrow> int option" where
  "py_int s =
     (let t = strip s;
          neg = (t \<noteq> [] \<and> hd t = CHR ''-'');
          body = (if t \<noteq> [] \<and> (hd t = CHR ''-'' \<or> hd t = CHR ''+'') then tl t else t)
      in case int_digits body of
           None \<Rightarrow> None
         | Some ds \<Rightarrow>
             if length ds > 4300 then None
             else Some (if neg then - int (digits_val ds) else int (digits_val ds)))"

lemma of_char_digit: "d < 10 \<Longrightarrow> of_char (digit_char d) = 48 + d"
  by (simp add: digit_char_def)

lemma is_digit_digit_char [simp]: "d < 10 \<Longrightarrow> is_digit (digit_char d)"
  by (simp add: is_digit_def of_char_digit)

lemma digit_val_digit_char [simp]: "d < 10 \<Longrightarrow> digit_val (digit_char d) = d"
  by (simp add: digit_val_def of_char_digit)

lemma digits_val_snoc: "digits_val (s @ [c]) = digits_val s * 10 + digit_val c"
  by (simp add: digits_val_def)

lemma show_nat_digits: "\<forall>c \<in> set (show_nat n). is_digit c"
proof (induction n rule: show_nat.induct)
  case (1 n)
  then show ?case by (auto simp: show_nat.simps[of n])
qed

lemma show_nat_nonempty [simp]: "show_nat n \<noteq> []"
  by (simp add: show_nat.simps[of n])

lemma digits_val_show_nat [simp]: "digits_val (show_nat n) = n"
proof (induction n rule: show_nat.induct)
  case (1 n)
  show ?case
  proof (cases "n < 10")
    case True
    then show ?thesis by (simp add: show_nat.simps[of n] digits_val_def)
  next
    case False
    with 1 show ?thesis by (simp add: show_nat.simps[of n] digits_val_snoc)
  qed
qed

lemma show_nat_inject [simp]: "show_nat m = show_nat n \<longleftrightarrow> m = n"
  by (metis digits_val_show_nat)

lemma int_digits_all:
  "s \<noteq> [] \<Longrightarrow> \<forall>c \<in> set s. is_digit c \<Longrightarrow> int_digits s = Some s"
proof (induction s rule: int_digits.induct)
  case (3 c d s)
  then have "d \<noteq> CHR ''_''" by (auto simp: is_digit_def)
  with 3 show ?case by auto
qed auto

lemma digit_not_space: "is_digit c \<Longrightarrow> \<not> py_space c"
  by (auto simp: is_digit_def py_space_def Let_def)

lemma strip_id: "(s \<noteq> [] \<Longrightarrow> \<not> py_space (hd s) \<and> \<not> py_space (last s)) \<Longrightarrow> strip s = s"
proof -
  assume h: "s \<noteq> [] \<Longrightarrow> \<not> py_space (hd s) \<and> \<not> py_space (last s)"
  show ?thesis
  proof (cases "s = []")
    case True
    then show ?thesis by (simp add: strip_def)
  next
    case False
    with h have "dropWhile py_space s = s" and "dropWhile py_space (rev s) = rev s"
      by (cases s; simp) (metis False h hd_rev dropWhile_eq_self_iff)
    then show ?thesis by (simp add: strip_def)
  qed
qed

text \<open>Printing a natural number and reading it back is the identity, within the
  interpreter's limit on the length of a literal.\<close>

lemma py_int_show_nat:
  assumes "length (show_nat n) \<le> 4300"
  shows "py_int (show_nat n) = Some (int n)"
proof -
  have ds: "\<forall>c \<in> set (show_nat n). is_digit c" by (rule show_nat_digits)
  have "hd (show_nat n) \<in> set (show_nat n)" and "last (show_nat n) \<in> set (show_nat n)"
    by simp_all
  with ds have hl: "is_digit (hd (show_nat n))" "is_digit (last (show_nat n))" by blast+
  then have "strip (show_nat n) = show_nat n"
    by (intro strip_id) (simp add: digit_not_space)
  moreover from hl have "hd (show_nat n) \<noteq> CHR ''-''" and "hd (show_nat n) \<noteq> CHR ''+''"
    by (auto simp: is_digit_def)
  ultimately show ?thesis
    using assms ds by (simp add: py_int_def int_digits_all)
qed

section \<open>\<^verbatim>\<open>str\<close> and \<^verbatim>\<open>repr\<close>\<close>

definition hex_digit :: "nat \<Rightarrow> char" where
  "hex_digit d = (if d < 10 then char_of (48 + d) else char_of (87 + d))"

definition hex_byte :: "char \<Rightarrow> string" where
  "hex_byte c = [hex_digit (of_char c div 16), hex_digit (of_char c mod 16)]"

definition py_printable :: "char \<Rightarrow> bool" where
  "py_printable c = (let n = (of_char c :: nat) in (32 \<le> n \<and> n \<le> 126) \<or> (161 \<le> n \<and> n \<noteq> 173))"

definition repr_char :: "char \<Rightarrow> char \<Rightarrow> string" where
  "repr_char q c =
     (if c = q \<or> c = CHR 0x5C then [CHR 0x5C, c]
      else if c = CHR 0x0A then [CHR 0x5C, CHR ''n'']
      else if c = CHR 0x0D then [CHR 0x5C, CHR ''r'']
      else if c = CHR 0x09 then [CHR 0x5C, CHR ''t'']
      else if py_printable c then [c]
      else [CHR 0x5C, CHR ''x''] @ hex_byte c)"

definition repr_str :: "string \<Rightarrow> string" where
  "repr_str s =
     (let q = (if CHR 0x27 \<in> set s \<and> CHR 0x22 \<notin> set s then CHR 0x22 else CHR 0x27)
      in [q] @ concat (map (repr_char q) s) @ [q])"

fun py_repr :: "json \<Rightarrow> string" where
  "py_repr JNull = ''None''"
| "py_repr (JBool b) = (if b then ''True'' else ''False'')"
| "py_repr (JInt i) = show_int i"
| "py_repr (JFloat r) = r"
| "py_repr (JStr s) = repr_str s"
| "py_repr (JList xs) = ''['' @ join_with '', '' (map py_repr xs) @ '']''"
| "py_repr (JObj d) =
     ''{'' @ join_with '', '' (map (\<lambda>kv. repr_str (fst kv) @ '': '' @ py_repr (snd kv)) d) @ ''}''"

definition py_str :: "json \<Rightarrow> string" where
  "py_str v = (case v of JStr s \<Rightarrow> s | _ \<Rightarrow> py_repr v)"

text \<open>\<^verbatim>\<open>str(v or "")\<close>.\<close>

definition str_or_empty :: "json \<Rightarrow> string" where
  "str_or_empty v = (if truthy v then py_str v else [])"

section \<open>Values a database column takes\<close>

text \<open>
  The driver checks every bound parameter against its column. A \<^verbatim>\<open>String\<close> column takes
  a string or None, an \<^verbatim>\<open>Integer\<close> column a 32-bit integer; PostgreSQL stores no NUL
  character, in text or inside \<^verbatim>\<open>jsonb\<close>, and no float that is not a number. Everything else
  raises.
\<close>

definition no_nul :: "string \<Rightarrow> bool" where
  "no_nul s \<longleftrightarrow> CHR 0x00 \<notin> set s"

fun jsonb_ok :: "json \<Rightarrow> bool" where
  "jsonb_ok (JStr s) = no_nul s"
| "jsonb_ok (JFloat r) = (r \<notin> {''nan'', ''inf'', ''-inf''})"
| "jsonb_ok (JList xs) = (\<forall>v \<in> set xs. jsonb_ok v)"
| "jsonb_ok (JObj d) = (\<forall>kv \<in> set d. no_nul (fst kv) \<and> jsonb_ok (snd kv))"
| "jsonb_ok _ = True"

definition int4 :: "int \<Rightarrow> bool" where
  "int4 i \<longleftrightarrow> - 2147483648 \<le> i \<and> i \<le> 2147483647"

fun text_ok :: "json \<Rightarrow> bool" where
  "text_ok JNull = True"
| "text_ok (JStr s) = no_nul s"
| "text_ok _ = False"

fun text_of :: "json \<Rightarrow> string option" where
  "text_of (JStr s) = Some s"
| "text_of _ = None"

end
