(* ===== verification/Errors.thy ===== *)
theory Errors
  imports Py_Values
begin

text \<open>
  Every error the modelled code raises, as one datatype: the exceptions the program
  defines, those of the standard library that reach a caller, and those of the HTTP
  client and the database driver, by the names they are caught under.
\<close>

datatype exn =
    FlashUnavailable string      \<comment> \<open>core/flash.py: Flash could not be read\<close>
  | FlashCredentialError nat     \<comment> \<open>Flash answered 401 or 403\<close>
  | FlashRefused nat             \<comment> \<open>Flash declined a write with a 4xx\<close>
  | FlashServiceMissing string   \<comment> \<open>Flash holds no such service\<close>
  | FlashSignatureError string nat
  | FlashConfigError string
  | HTTPException nat string     \<comment> \<open>FastAPI: a status and a detail\<close>
  | TransportError string        \<comment> \<open>an httpx error no retry clause names, by its repr\<close>
  | IntegrityError               \<comment> \<open>a row that would break a constraint\<close>
  | DataError                    \<comment> \<open>a bound parameter its column does not take\<close>
  | OperationalError
  | InterfaceError
  | OverflowError
  | TypeError
  | AttributeError
  | KeyError
  | AssertionError
  | ZeroDivisionError
  | ValueError string
  | RuntimeError string
  | RedisError string            \<comment> \<open>a command Redis did not answer\<close>
  | RotationFailed string        \<comment> \<open>services/nsec_encryption_service.py\<close>
  | InvalidToken                 \<comment> \<open>a ciphertext that no loaded key opens\<close>

text \<open>\<^verbatim>\<open>str(exc)\<close> of the one error whose text the code stores.\<close>

fun exn_text :: "exn \<Rightarrow> string" where
  "exn_text (FlashUnavailable m) = m"
| "exn_text (FlashCredentialError n) = ''Flash refused our credentials ('' @ show_nat n @ '')''"
| "exn_text (FlashRefused n) = ''Flash refused the change ('' @ show_nat n @ '')''"
| "exn_text (FlashServiceMissing s) = ''Flash holds no service '' @ repr_str s"
| "exn_text (FlashSignatureError r n) = r"
| "exn_text (FlashConfigError m) = m"
| "exn_text (HTTPException n d) = show_nat n @ '': '' @ d"
| "exn_text (TransportError m) = m"
| "exn_text (ValueError m) = m"
| "exn_text (RuntimeError m) = m"
| "exn_text (RedisError m) = m"
| "exn_text (RotationFailed m) = m"
| "exn_text _ = []"

text \<open>\<^verbatim>\<open>type(err).__name__\<close>, for the reason a failed delivery is given.\<close>

fun exn_class :: "exn \<Rightarrow> string" where
  "exn_class (FlashUnavailable _) = ''FlashUnavailable''"
| "exn_class (FlashCredentialError _) = ''FlashCredentialError''"
| "exn_class (FlashRefused _) = ''FlashRefused''"
| "exn_class (FlashServiceMissing _) = ''FlashServiceMissing''"
| "exn_class (FlashSignatureError _ _) = ''FlashSignatureError''"
| "exn_class (FlashConfigError _) = ''FlashConfigError''"
| "exn_class (HTTPException _ _) = ''HTTPException''"
| "exn_class (TransportError _) = ''TransportError''"
| "exn_class IntegrityError = ''IntegrityError''"
| "exn_class DataError = ''DBAPIError''"
| "exn_class OperationalError = ''OperationalError''"
| "exn_class InterfaceError = ''InterfaceError''"
| "exn_class OverflowError = ''OverflowError''"
| "exn_class TypeError = ''TypeError''"
| "exn_class AttributeError = ''AttributeError''"
| "exn_class KeyError = ''KeyError''"
| "exn_class AssertionError = ''AssertionError''"
| "exn_class ZeroDivisionError = ''ZeroDivisionError''"
| "exn_class (ValueError _) = ''ValueError''"
| "exn_class (RuntimeError _) = ''RuntimeError''"
| "exn_class (RedisError _) = ''RedisError''"
| "exn_class (RotationFailed _) = ''RotationFailed''"
| "exn_class InvalidToken = ''InvalidToken''"

end
