(* ===== verification/Py_Datetime.thy ===== *)
theory Py_Datetime
  imports Py_Values
begin

text \<open>
  Naive datetimes and the ISO 8601 reader of the standard library. A naive datetime is
  its distance in microseconds from \<^verbatim>\<open>datetime.min\<close> (0001-01-01 00:00:00), a timedelta a
  number of microseconds, so comparing and subtracting are those of the integers. The
  reader follows \<^verbatim>\<open>datetime.fromisoformat\<close> of Python 3.12: calendar dates, ISO week
  dates, both in extended and basic form, times down to microseconds, and offsets.
\<close>

type_synonym datetime = int
type_synonym timedelta = int

abbreviation (input) second_us :: int where "second_us \<equiv> 1000000"
abbreviation (input) day_us :: int where "day_us \<equiv> 86400000000"

definition timedelta_seconds :: "int \<Rightarrow> timedelta" where
  "timedelta_seconds s = s * second_us"

definition timedelta_hours :: "int \<Rightarrow> timedelta" where
  "timedelta_hours h = h * 3600 * second_us"

text \<open>One past the last ordinal a date can have (9999-12-31 is 3652059).\<close>

definition datetime_ok :: "int \<Rightarrow> bool" where
  "datetime_ok t \<longleftrightarrow> 0 \<le> t \<and> t < 3652059 * day_us"

section \<open>The calendar\<close>

definition is_leap :: "int \<Rightarrow> bool" where
  "is_leap y \<longleftrightarrow> y mod 4 = 0 \<and> (y mod 100 \<noteq> 0 \<or> y mod 400 = 0)"

definition days_before_year :: "int \<Rightarrow> int" where
  "days_before_year year = (let y = year - 1 in y * 365 + y div 4 - y div 100 + y div 400)"

definition days_in_month :: "int \<Rightarrow> int \<Rightarrow> int" where
  "days_in_month y m =
     (if m = 2 then (if is_leap y then 29 else 28)
      else if m = 4 \<or> m = 6 \<or> m = 9 \<or> m = 11 then 30 else 31)"

definition days_before_month :: "int \<Rightarrow> int \<Rightarrow> int" where
  "days_before_month y m =
     ([0, 31, 59, 90, 120, 151, 181, 212, 243, 273, 304, 334] ! nat (m - 1))
       + (if m > 2 \<and> is_leap y then 1 else 0)"

definition ymd2ord :: "int \<Rightarrow> int \<Rightarrow> int \<Rightarrow> int" where
  "ymd2ord y m d = days_before_year y + days_before_month y m + d"

text \<open>The ordinal of a calendar date, None where \<^verbatim>\<open>date(y, m, d)\<close> raises.\<close>

definition ord_of_ymd :: "int \<Rightarrow> int \<Rightarrow> int \<Rightarrow> int option" where
  "ord_of_ymd y m d =
     (if 1 \<le> y \<and> y \<le> 9999 \<and> 1 \<le> m \<and> m \<le> 12 \<and> 1 \<le> d \<and> d \<le> days_in_month y m
      then Some (ymd2ord y m d) else None)"

definition isoweek1monday :: "int \<Rightarrow> int" where
  "isoweek1monday y =
     (let firstday = ymd2ord y 1 1; firstweekday = (firstday + 6) mod 7
      in firstday - firstweekday + (if firstweekday > 3 then 7 else 0))"

definition ord_of_isoweek :: "int \<Rightarrow> int \<Rightarrow> int \<Rightarrow> int option" where
  "ord_of_isoweek y w d =
     (let first = ymd2ord y 1 1 mod 7;
          week_ok = (0 < w \<and> w < 53 \<or> w = 53 \<and> (first = 4 \<or> first = 3 \<and> is_leap y));
          n = isoweek1monday y + (w - 1) * 7 + (d - 1)
      in if 1 \<le> y \<and> y \<le> 9999 \<and> week_ok \<and> 0 < d \<and> d < 8 \<and> 1 \<le> n \<and> n \<le> 3652059
         then Some n else None)"

section \<open>Reading ISO 8601\<close>

definition take_digits :: "nat \<Rightarrow> string \<Rightarrow> (int \<times> string) option" where
  "take_digits n s =
     (if n \<le> length s \<and> list_all is_digit (take n s)
      then Some (int (digits_val (take n s)), drop n s) else None)"

definition starts_with :: "char \<Rightarrow> string \<Rightarrow> bool" where
  "starts_with c s \<longleftrightarrow> s \<noteq> [] \<and> hd s = c"

definition parse_iso_date :: "string \<Rightarrow> int option" where
  "parse_iso_date s =
     (case take_digits 4 s of None \<Rightarrow> None | Some (y, r0) \<Rightarrow>
      let has_sep = starts_with (CHR ''-'') r0;
          r = (if has_sep then tl r0 else r0)
      in if starts_with (CHR ''W'') r then
           (case take_digits 2 (tl r) of None \<Rightarrow> None | Some (w, r1) \<Rightarrow>
              if r1 = [] then ord_of_isoweek y w 1
              else if starts_with (CHR ''-'') r1 \<noteq> has_sep then None
              else (case take_digits 1 (if has_sep then tl r1 else r1) of
                      None \<Rightarrow> None
                    | Some (d, r2) \<Rightarrow> if r2 = [] then ord_of_isoweek y w d else None))
         else
           (case take_digits 2 r of None \<Rightarrow> None | Some (m, r1) \<Rightarrow>
              if starts_with (CHR ''-'') r1 \<noteq> has_sep then None
              else (case take_digits 2 (if has_sep then tl r1 else r1) of
                      None \<Rightarrow> None
                    | Some (d, r2) \<Rightarrow> if r2 = [] then ord_of_ymd y m d else None)))"

text \<open>Where the date part ends, None for the strings it gives up on.\<close>

definition iso_separator :: "string \<Rightarrow> nat option" where
  "iso_separator s =
     (let n = length s in
      if n = 7 then Some 7
      else if s ! 4 = CHR ''-'' then
        (if s ! 5 = CHR ''W'' then
           (if n > 8 \<and> s ! 8 = CHR ''-''
            then (if n = 9 then None else if n > 10 \<and> is_digit (s ! 10) then Some 8 else Some 10)
            else Some 8)
         else Some 10)
      else if s ! 4 = CHR ''W'' then
        (let idx = 7 + length (takeWhile is_digit (drop 7 s))
         in Some (if idx < 9 then idx else if idx mod 2 = 0 then 7 else 8))
      else Some 8)"

text \<open>
  \<^verbatim>\<open>HH[:?MM[:?SS[{.,}f+]]]\<close>, one two-digit component at a time. The result is the
  components and, where a decimal mark was met, the digits after it. With \<open>lax\<close> the
  reader is in front of an offset, and then, as the interpreter's own loop does, it lets
  one stray character stand there.
\<close>

fun clock_loop :: "bool \<Rightarrow> nat \<Rightarrow> bool option \<Rightarrow> string \<Rightarrow> int list \<Rightarrow> (int list \<times> string option) option" where
  "clock_loop lax 0 sep s acc = None"
| "clock_loop lax (Suc left) sep s acc =
     (case take_digits 2 s of None \<Rightarrow> None | Some (v, r) \<Rightarrow>
      if r = [] then Some (acc @ [v], None)
      else let c = hd r; sep' = (case sep of None \<Rightarrow> c = CHR '':'' | Some b \<Rightarrow> b) in
        if tl r = [] then (if lax then Some (acc @ [v], None) else None)
        else if sep' \<and> c = CHR '':'' then
          (if left = 0 then Some (acc @ [v], Some (tl r))
           else clock_loop lax left (Some sep') (tl r) (acc @ [v]))
        else if c = CHR ''.'' \<or> c = CHR '','' then Some (acc @ [v], Some (tl r))
        else if \<not> sep' then
          (if left = 0 then Some (acc @ [v], Some r)
           else clock_loop lax left (Some sep') r (acc @ [v]))
        else None)"

definition parse_fraction :: "bool \<Rightarrow> string \<Rightarrow> int option" where
  "parse_fraction lax s =
     (let n = min 6 (length s) in
      case take_digits n s of None \<Rightarrow> None | Some (v, r) \<Rightarrow>
      if lax \<or> list_all is_digit r then Some (v * 10 ^ (6 - n)) else None)"

definition parse_clock :: "bool \<Rightarrow> string \<Rightarrow> (int \<times> int \<times> int \<times> int) option" where
  "parse_clock lax s =
     (case clock_loop lax 3 None s [] of None \<Rightarrow> None | Some (comps, frac) \<Rightarrow>
      let us = (case frac of None \<Rightarrow> Some 0 | Some f \<Rightarrow> parse_fraction lax f);
          h = comps ! 0;
          m = (if length comps > 1 then comps ! 1 else 0);
          x = (if length comps > 2 then comps ! 2 else 0)
      in map_option (\<lambda>u. (h, m, x, u)) us)"

definition clock_us :: "int \<times> int \<times> int \<times> int \<Rightarrow> int" where
  "clock_us t = (case t of (h, m, x, us) \<Rightarrow> ((h * 60 + m) * 60 + x) * second_us + us)"

text \<open>The time of day and, where the string names one, the offset from UTC. An offset of
  no whole second is UTC, whatever its fraction.\<close>

definition parse_iso_time :: "string \<Rightarrow> (int \<times> int option) option" where
  "parse_iso_time s =
     (let ts = takeWhile (\<lambda>c. c \<noteq> CHR ''-'' \<and> c \<noteq> CHR ''+'' \<and> c \<noteq> CHR ''Z'') s;
          rest = drop (length ts) s
      in case parse_clock (rest \<noteq> []) ts of None \<Rightarrow> None | Some (h, m, x, us) \<Rightarrow>
      if h > 23 \<or> m > 59 \<or> x > 59 then None else
      let t = clock_us (h, m, x, us) in
      if rest = [] then Some (t, None)
      else if rest = ''Z'' then Some (t, Some 0)
      else if hd rest = CHR ''Z'' then None
      else (case parse_clock False (tl rest) of None \<Rightarrow> None | Some (zh, zm, zx, zus) \<Rightarrow>
              let off = clock_us (zh, zm, zx, zus) in
              if clock_us (zh, zm, zx, 0) = 0 then Some (t, Some 0)
              else if off \<ge> day_us then None
              else Some (t, Some (if hd rest = CHR ''-'' then - off else off))))"

definition fromisoformat :: "string \<Rightarrow> (datetime \<times> timedelta option) option" where
  "fromisoformat s =
     (if length s < 7 then None else
      case iso_separator s of None \<Rightarrow> None | Some n \<Rightarrow>
      (case parse_iso_date (take n s) of None \<Rightarrow> None | Some d \<Rightarrow>
       if length s \<le> n then Some ((d - 1) * day_us, None)
       else (case parse_iso_time (drop (n + 1) s) of None \<Rightarrow> None
             | Some (t, off) \<Rightarrow> Some ((d - 1) * day_us + t, off))))"

section \<open>Printing ISO 8601\<close>

text \<open>The calendar date of an ordinal, by cycles of 400, 100, 4 and 1 years.\<close>

definition ord2ymd :: "int \<Rightarrow> int \<times> int \<times> int" where
  "ord2ymd ord =
     (let n0 = ord - 1; n400 = n0 div 146097; a = n0 mod 146097;
          n100 = a div 36524; b = a mod 36524;
          n4 = b div 1461; c = b mod 1461;
          n1 = c div 365; n = c mod 365;
          year = n400 * 400 + 1 + n100 * 100 + n4 * 4 + n1
      in if n1 = 4 \<or> n100 = 4 then (year - 1, 12, 31)
         else let est = (n + 50) div 32;
                  month = (if days_before_month year est > n then est - 1 else est)
              in (year, month, n - days_before_month year month + 1))"

definition pad_left :: "nat \<Rightarrow> string \<Rightarrow> string" where
  "pad_left n s = replicate (n - length s) (CHR ''0'') @ s"

definition show_padded :: "nat \<Rightarrow> int \<Rightarrow> string" where
  "show_padded n i = pad_left n (show_nat (nat i))"

text \<open>\<^verbatim>\<open>value.isoformat(timespec="milliseconds")\<close>.\<close>

definition isoformat_millis :: "datetime \<Rightarrow> string" where
  "isoformat_millis t =
     (case ord2ymd (t div day_us + 1) of (y, m, d) \<Rightarrow>
      let ms = t mod day_us div 1000; x = ms div 1000
      in show_padded 4 y @ ''-'' @ show_padded 2 m @ ''-'' @ show_padded 2 d @ ''T''
         @ show_padded 2 (x div 3600) @ '':'' @ show_padded 2 (x div 60 mod 60) @ '':''
         @ show_padded 2 (x mod 60) @ ''.'' @ show_padded 3 (ms mod 1000))"

section \<open>Bounds of what the reader returns\<close>

lemma take_digits_nonneg: "take_digits n s = Some (v, r) \<Longrightarrow> 0 \<le> v"
  by (auto simp: take_digits_def split: if_splits)

lemma days_before_year_bounds:
  assumes "1 \<le> y" and "y \<le> 9999"
  shows "0 \<le> days_before_year y" and "days_before_year y \<le> 3651694"
    and "is_leap y \<Longrightarrow> days_before_year y \<le> 3651329"
proof -
  define p where "p = y - 1"
  have p: "0 \<le> p" "p \<le> 9998" using assms by (simp_all add: p_def)
  have eq: "days_before_year y = p * 365 + p div 4 - p div 100 + p div 400"
    by (simp add: days_before_year_def p_def Let_def)
  have b: "0 \<le> p div 4" "p div 4 \<le> 2499" "0 \<le> p div 400" "p div 400 \<le> 24" "0 \<le> p div 100" "p div 100 \<le> p"
    using p zdiv_mono1[of p 9998 4] zdiv_mono1[of p 9998 400] by (simp_all add: pos_imp_zdiv_nonneg_iff)
  show "0 \<le> days_before_year y" using b p eq by linarith
  show "days_before_year y \<le> 3651694"
  proof (cases "p = 9998")
    case True
    then show ?thesis by (simp add: eq)
  next
    case False
    with b p eq show ?thesis by linarith
  qed
  assume "is_leap y"
  then have "y mod 4 = 0" by (simp add: is_leap_def)
  then have "p \<le> 9995" using assms unfolding p_def by presburger
  with b p eq show "days_before_year y \<le> 3651329" by linarith
qed

lemma month_cases:
  "1 \<le> (m::int) \<Longrightarrow> m \<le> 12 \<Longrightarrow> m \<in> {1, 2, 3, 4, 5, 6, 7, 8, 9, 10, 11, 12}"
  by (simp; arith)

lemma ord_of_ymd_bounds:
  assumes "ord_of_ymd y m d = Some n"
  shows "1 \<le> n \<and> n \<le> 3652059"
proof -
  from assms have r: "1 \<le> y" "y \<le> 9999" "1 \<le> m" "m \<le> 12" "1 \<le> d" "d \<le> days_in_month y m"
    and n: "n = days_before_year y + days_before_month y m + d"
    by (auto simp: ord_of_ymd_def ymd2ord_def split: if_splits)
  have md: "0 \<le> days_before_month y m"
    "days_before_month y m + d \<le> 365 + (if is_leap y then 1 else 0)"
    using month_cases[OF r(3,4)] r(5,6)
    by (auto simp: days_before_month_def days_in_month_def)
  show ?thesis using md days_before_year_bounds[OF r(1,2)] r(5) n by (auto split: if_splits)
qed

lemma parse_iso_date_bounds: "parse_iso_date s = Some n \<Longrightarrow> 1 \<le> n \<and> n \<le> 3652059"
  by (auto simp: parse_iso_date_def ord_of_isoweek_def Let_def
      split: option.splits if_splits prod.splits dest: ord_of_ymd_bounds)

lemma clock_loop_nonneg:
  "clock_loop lax n sep s acc = Some (cs, f) \<Longrightarrow> \<forall>v \<in> set acc. 0 \<le> v \<Longrightarrow>
     cs \<noteq> [] \<and> (\<forall>v \<in> set cs. 0 \<le> v)"
proof (induction n arbitrary: sep s acc)
  case 0
  then show ?case by simp
next
  case (Suc n)
  from Suc.prems(1) obtain v r where td: "take_digits 2 s = Some (v, r)"
    by (auto split: option.splits)
  have nonneg: "\<forall>u \<in> set (acc @ [v]). 0 \<le> u"
    using Suc.prems(2) take_digits_nonneg[OF td] by simp
  from Suc.prems(1) td consider "cs = acc @ [v]"
    | sep' s' where "clock_loop lax n sep' s' (acc @ [v]) = Some (cs, f)"
    by (auto simp: Let_def split: if_splits)
  then show ?case
  proof cases
    case 1
    with nonneg show ?thesis by simp
  next
    case 2
    from Suc.IH[OF this nonneg] show ?thesis .
  qed
qed

lemma parse_clock_nonneg:
  assumes "parse_clock lax s = Some (h, m, x, us)"
  shows "0 \<le> h \<and> 0 \<le> m \<and> 0 \<le> x \<and> 0 \<le> us"
proof -
  from assms obtain cs f where cl: "clock_loop lax 3 None s [] = Some (cs, f)"
    and h: "h = cs ! 0" and m: "m = (if length cs > 1 then cs ! 1 else 0)"
    and x: "x = (if length cs > 2 then cs ! 2 else 0)"
    and us: "(case f of None \<Rightarrow> Some 0 | Some f \<Rightarrow> parse_fraction lax f) = Some us"
    by (auto simp: parse_clock_def Let_def split: option.splits)
  from clock_loop_nonneg[OF cl] have ne: "cs \<noteq> []" and all: "\<And>i. i < length cs \<Longrightarrow> 0 \<le> cs ! i"
    by auto
  from us have "0 \<le> us"
    by (auto simp: parse_fraction_def Let_def split: option.splits if_splits dest!: take_digits_nonneg intro!: mult_nonneg_nonneg)
  with ne all h m x show ?thesis by auto
qed

lemma parse_iso_time_offset:
  "parse_iso_time s = Some (t, Some off) \<Longrightarrow> - day_us < off \<and> off < day_us"
  by (auto simp: parse_iso_time_def clock_us_def Let_def
      split: option.splits if_splits prod.splits dest!: parse_clock_nonneg)

lemma fromisoformat_offset:
  "fromisoformat s = Some (t, Some off) \<Longrightarrow> - day_us < off \<and> off < day_us"
  by (auto simp: fromisoformat_def split: option.splits if_splits dest: parse_iso_time_offset)

end
