(* ===== verification/Flash_Client.thy ===== *)
theory Flash_Client
  imports Errors Py_Datetime
begin

text \<open>
  The client of the payment provider: \<^verbatim>\<open>app/core/flash.py\<close> and its in-process stand-in
  \<^verbatim>\<open>app/core/flash_mock.py\<close>. Parsing Flash's JSON into subscriptions, plans and
  services; one request with its retries; what an answer means; the lookups and the two
  writes. The HTTP client is a parameter, the function \<open>send\<close> of a \<open>flash_env\<close>: what
  comes back for the n-th request sent.
\<close>

section \<open>What Flash reports\<close>

record flash_pricing =
  pricing_amount_minor :: "int option"
  pricing_currency :: "string option"
  pricing_billing_interval :: "string option"

record flash_lifecycle_policy =
  cancellation_mode :: "string option"
  dunning_max_attempts :: "int option"
  dunning_attempts :: "int option"
  dunning_cancels_after_final_failure :: "bool option"

definition CANCELLATION_END_OF_PERIOD :: string where
  "CANCELLATION_END_OF_PERIOD = ''end_of_period''"

definition CANCELLATION_IMMEDIATE :: string where
  "CANCELLATION_IMMEDIATE = ''immediate''"

definition RECOGNISED_CANCELLATION_MODES :: "string set" where
  "RECOGNISED_CANCELLATION_MODES = {CANCELLATION_END_OF_PERIOD, CANCELLATION_IMMEDIATE}"

definition UNKNOWN_LIFECYCLE_POLICY :: flash_lifecycle_policy where
  "UNKNOWN_LIFECYCLE_POLICY =
     \<lparr>cancellation_mode = None, dunning_max_attempts = None, dunning_attempts = None,
      dunning_cancels_after_final_failure = None\<rparr>"

definition ENTITLING_STATUSES :: "string set" where
  "ENTITLING_STATUSES = {''active'', ''trial''}"

definition ENDED_STATUSES :: "string set" where
  "ENDED_STATUSES = {''expired'', ''paused''}"

definition CANCELLED_STATUS :: string where "CANCELLED_STATUS = ''canceled''"

definition PAST_DUE_STATUS :: string where "PAST_DUE_STATUS = ''past_due''"

definition PENDING_STATUS :: string where "PENDING_STATUS = ''pending''"

text \<open>\<open>fs_ref\<close> and \<open>fs_subscriber_id\<close> are carried as they arrived: the code reads them
  with a bare \<^verbatim>\<open>raw.get\<close>.\<close>

record flash_subscription =
  fs_id :: string
  fs_status :: string
  fs_ref :: json
  fs_subscriber_id :: json
  fs_service_id :: string
  fs_plan_id :: string
  fs_current_period_start :: "datetime option"
  fs_current_period_end :: "datetime option"
  fs_next_billing_date :: "datetime option"
  fs_trial_end_date :: "datetime option"
  fs_cancel_effective_date :: "datetime option"
  fs_portal_url :: "string option"
  fs_pricing :: "flash_pricing option"
  fs_policy :: flash_lifecycle_policy

section \<open>Reading timestamps\<close>

text \<open>\<^verbatim>\<open>START_OF_DAY\<close> and \<^verbatim>\<open>END_OF_DAY\<close>, as offsets into a day.\<close>

definition START_OF_DAY :: int where "START_OF_DAY = 0"

definition END_OF_DAY :: int where "END_OF_DAY = day_us - 1"

definition is_date_only :: "string \<Rightarrow> bool" where
  "is_date_only raw \<longleftrightarrow> parse_iso_date raw \<noteq> None"

definition is_whole_day_boundary :: "datetime \<Rightarrow> bool" where
  "is_whole_day_boundary v \<longleftrightarrow> v mod day_us = START_OF_DAY \<or> v mod day_us = END_OF_DAY"

definition replace_Z :: "string \<Rightarrow> string" where
  "replace_Z s = concat (map (\<lambda>c. if c = CHR ''Z'' then ''+00:00'' else [c]) s)"

text \<open>Converting an aware time to UTC raises where the result is not a date any more.\<close>

definition parse_flash_timestamp :: "json \<Rightarrow> bool \<Rightarrow> (exn, datetime option) result" where
  "parse_flash_timestamp raw deadline =
     (case raw of
        JStr s \<Rightarrow>
          (case fromisoformat (replace_Z s) of
             None \<Rightarrow> Inr None
           | Some (t, off) \<Rightarrow>
               let utc = (case off of None \<Rightarrow> t | Some z \<Rightarrow> t - z) in
               if off \<noteq> None \<and> \<not> datetime_ok utc then Inl OverflowError
               else if deadline \<and> is_date_only s then Inr (Some (utc div day_us * day_us + END_OF_DAY))
               else Inr (Some utc))
      | _ \<Rightarrow> Inr None)"

section \<open>Reading the other fields\<close>

definition text_field :: "json \<Rightarrow> string option" where
  "text_field v =
     (case v of JStr s \<Rightarrow> if strip s = [] then None else Some (strip s) | _ \<Rightarrow> None)"

definition whole_number :: "json \<Rightarrow> int option" where
  "whole_number v = (case v of JInt i \<Rightarrow> Some i | _ \<Rightarrow> None)"

definition flag :: "json \<Rightarrow> bool option" where
  "flag v = (case v of JBool b \<Rightarrow> Some b | _ \<Rightarrow> None)"

definition minor_units :: "json \<Rightarrow> int option" where
  "minor_units v = py_int (py_str v)"

definition text_lines :: "json \<Rightarrow> string list option" where
  "text_lines v =
     (case v of
        JList items \<Rightarrow>
          (let ls = [strip s. JStr s \<leftarrow> items, strip s \<noteq> []] in if ls = [] then None else Some ls)
      | _ \<Rightarrow> None)"

definition parse_pricing :: "json \<Rightarrow> flash_pricing option" where
  "parse_pricing raw =
     (case raw of
        JObj d \<Rightarrow> Some \<lparr>pricing_amount_minor = minor_units (get d ''amount''),
                       pricing_currency = text_field (get d ''currency''),
                       pricing_billing_interval = text_field (get d ''billingInterval'')\<rparr>
      | _ \<Rightarrow> None)"

definition parse_lifecycle_policy :: "(string \<times> json) list \<Rightarrow> flash_lifecycle_policy" where
  "parse_lifecycle_policy raw =
     (let cancellation = get raw ''cancellationPolicy''; dunning = get raw ''dunningPolicy'' in
      \<lparr>cancellation_mode = text_field (get_in cancellation ''mode''),
       dunning_max_attempts = whole_number (get_in dunning ''maxAttempts''),
       dunning_attempts = whole_number (get raw ''dunningAttempts''),
       dunning_cancels_after_final_failure = flag (get_in dunning ''cancelAfterFinalFailure'')\<rparr>)"

definition parse_subscription :: "(string \<times> json) list \<Rightarrow> (exn, flash_subscription) result" where
  "parse_subscription raw =
     result_bind (parse_flash_timestamp (get raw ''currentPeriodStart'') False) (\<lambda>start.
     result_bind (parse_flash_timestamp (get raw ''currentPeriodEnd'') True) (\<lambda>pend.
     result_bind (parse_flash_timestamp (get raw ''nextBillingDate'') False) (\<lambda>nextb.
     result_bind (parse_flash_timestamp (get raw ''trialEndDate'') True) (\<lambda>trial.
     result_bind (parse_flash_timestamp (get raw ''cancelEffectiveDate'') True) (\<lambda>cancel.
     Inr \<lparr>fs_id = str_or_empty (get raw ''id''),
          fs_status = str_or_empty (get raw ''status''),
          fs_ref = get raw ''ref'',
          fs_subscriber_id = get raw ''subscriberId'',
          fs_service_id = str_or_empty (get raw ''serviceId''),
          fs_plan_id = str_or_empty (get raw ''planId''),
          fs_current_period_start = start,
          fs_current_period_end = pend,
          fs_next_billing_date = nextb,
          fs_trial_end_date = trial,
          fs_cancel_effective_date = cancel,
          fs_portal_url = text_field (get raw ''portalUrl''),
          fs_pricing = parse_pricing (get raw ''pricingSnapshot''),
          fs_policy = parse_lifecycle_policy raw\<rparr>)))))"

text \<open>
  The differences worth a warning, by the key each is reported under once. Testing an
  unhashable \<open>mode\<close> against the recognised modes raises.
\<close>

definition report_policy_differences :: "(string \<times> json) list \<Rightarrow> (exn, string list) result" where
  "report_policy_differences raw =
     (let mode = get_in (get raw ''cancellationPolicy'') ''mode'';
          dunning = (case as_dict (get raw ''dunningPolicy'') of None \<Rightarrow> [] | Some d \<Rightarrow> d);
          dun = (if get dunning ''cancelAfterFinalFailure'' = JBool False
                    \<and> (whole_number (get dunning ''maxAttempts'') = None
                       \<or> whole_number (get raw ''dunningAttempts'') = None)
                 then [''dunning-unreadable''] else [])
      in if mode = JNull then Inr dun
         else if \<not> hashable mode then Inl TypeError
         else if mode \<in> JStr ` RECOGNISED_CANCELLATION_MODES then Inr dun
         else Inr ((''cancellation:'' @ py_str mode) # dun))"

definition report_once :: "string list \<Rightarrow> string \<Rightarrow> string list \<times> bool" where
  "report_once reported k = (if k \<in> set reported then (reported, False) else (k # reported, True))"

definition subscription_from :: "json \<Rightarrow> (exn, flash_subscription option) result" where
  "subscription_from raw =
     (case raw of
        JNull \<Rightarrow> Inr None
      | JObj d \<Rightarrow>
          (case result_bind (report_policy_differences d) (\<lambda>_. parse_subscription d) of
             Inr s \<Rightarrow> Inr (Some s)
           | Inl e \<Rightarrow> if e = TypeError \<or> e = AttributeError
                      then Inl (FlashUnavailable ''Flash sent a subscription we could not read'')
                      else Inl e)
      | _ \<Rightarrow> Inl (FlashUnavailable ''Flash sent a subscription we could not read''))"

section \<open>Choosing among the rows under one reference\<close>

definition runs_until :: "(string \<times> json) list \<Rightarrow> (exn, datetime) result" where
  "runs_until row =
     result_bind (parse_flash_timestamp (get row ''currentPeriodEnd'') True)
       (\<lambda>t. Inr (case t of None \<Rightarrow> 0 | Some m \<Rightarrow> m))"

definition row_entitles :: "(string \<times> json) list \<Rightarrow> bool" where
  "row_entitles row \<longleftrightarrow> get row ''status'' \<in> JStr ` ENTITLING_STATUSES"

definition dict_rows :: "json list \<Rightarrow> (string \<times> json) list list" where
  "dict_rows rows = List.map_filter as_dict rows"

definition or_else :: "'a list \<Rightarrow> 'a list \<Rightarrow> 'a list" where
  "or_else xs ys = (if xs = [] then ys else xs)"

definition until_of :: "(string \<times> json) list \<Rightarrow> datetime" where
  "until_of row = (case runs_until row of Inl _ \<Rightarrow> 0 | Inr t \<Rightarrow> t)"

definition choose_row :: "(string \<times> json) list list \<Rightarrow> (string \<times> json) list option" where
  "choose_row rows = max_by until_of (or_else (filter row_entitles rows) rows)"

definition choose_subscription :: "json list \<Rightarrow> (exn, (string \<times> json) list option) result" where
  "choose_subscription subscriptions =
     (let rows = dict_rows subscriptions;
          live = or_else (filter row_entitles rows) rows
      in if rows = [] then Inr None
         else if \<exists>row \<in> set rows. \<not> hashable (get row ''status'') then Inl TypeError
         else if \<exists>row \<in> set live. isl (runs_until row) then Inl OverflowError
         else Inr (choose_row rows))"

section \<open>One request, and its retries\<close>

datatype http_outcome =
    Response nat "json option"   \<comment> \<open>a status, and the body where it is JSON\<close>
  | ConnectTimeout string
  | ConnectError string
  | PoolTimeout string
  | ReadTimeout string
  | ReadError string
  | OtherFailure string

record http_request =
  http_method :: string
  http_url :: string
  http_params :: "(string \<times> string) list"
  http_payload :: "json option"

type_synonym transport = "nat \<Rightarrow> http_request \<Rightarrow> http_outcome"

fun failure_text :: "http_outcome \<Rightarrow> string" where
  "failure_text (Response _ _) = []"
| "failure_text (ConnectTimeout m) = m"
| "failure_text (ConnectError m) = m"
| "failure_text (PoolTimeout m) = m"
| "failure_text (ReadTimeout m) = m"
| "failure_text (ReadError m) = m"
| "failure_text (OtherFailure m) = m"

definition CONNECT_RETRIES :: nat where "CONNECT_RETRIES = 3"

fun RETRYABLE :: "http_outcome \<Rightarrow> bool" where
  "RETRYABLE (ConnectTimeout _) = True"
| "RETRYABLE (ConnectError _) = True"
| "RETRYABLE (PoolTimeout _) = True"
| "RETRYABLE (ReadTimeout _) = True"
| "RETRYABLE (ReadError _) = True"
| "RETRYABLE _ = False"

fun WRITE_RETRYABLE :: "http_outcome \<Rightarrow> bool" where
  "WRITE_RETRYABLE (ConnectTimeout _) = True"
| "WRITE_RETRYABLE (ConnectError _) = True"
| "WRITE_RETRYABLE (PoolTimeout _) = True"
| "WRITE_RETRYABLE _ = False"

text \<open>\<open>left\<close> counts the attempts after this one; the second component of the result is
  how many requests have been sent in all.\<close>

fun attempts_from ::
  "(http_outcome \<Rightarrow> bool) \<Rightarrow> bool \<Rightarrow> transport \<Rightarrow> http_request \<Rightarrow> nat \<Rightarrow> nat
     \<Rightarrow> (exn, nat \<times> json option) result \<times> nat" where
  "attempts_from retryable retry_5xx send req left sent =
     (case send sent req of
        Response st body \<Rightarrow>
          (case left of
             0 \<Rightarrow> (Inr (st, body), sent + 1)
           | Suc k \<Rightarrow> if \<not> retry_5xx \<or> st < 500 then (Inr (st, body), sent + 1)
                      else attempts_from retryable retry_5xx send req k (sent + 1))
      | failed \<Rightarrow>
          if retryable failed
          then (case left of
                  0 \<Rightarrow> (Inl (FlashUnavailable (''Could not reach Flash: '' @ failure_text failed)), sent + 1)
                | Suc k \<Rightarrow> attempts_from retryable retry_5xx send req k (sent + 1))
          else (Inl (TransportError (failure_text failed)), sent + 1))"

declare attempts_from.simps [simp del]

definition with_retries ::
  "(http_outcome \<Rightarrow> bool) \<Rightarrow> bool \<Rightarrow> transport \<Rightarrow> http_request \<Rightarrow> nat
     \<Rightarrow> (exn, nat \<times> json option) result \<times> nat" where
  "with_retries retryable retry_5xx send req sent =
     attempts_from retryable retry_5xx send req CONNECT_RETRIES sent"

definition get_with_retries ::
  "transport \<Rightarrow> string \<Rightarrow> (string \<times> string) list \<Rightarrow> nat \<Rightarrow> (exn, nat \<times> json option) result \<times> nat" where
  "get_with_retries send url params sent =
     with_retries RETRYABLE True send
       \<lparr>http_method = ''GET'', http_url = url, http_params = params, http_payload = None\<rparr> sent"

definition write_request :: "string \<Rightarrow> string \<Rightarrow> json \<Rightarrow> http_request" where
  "write_request method url payload =
     \<lparr>http_method = method, http_url = url, http_params = [], http_payload = Some payload\<rparr>"

definition send_with_retries ::
  "transport \<Rightarrow> string \<Rightarrow> string \<Rightarrow> json \<Rightarrow> nat \<Rightarrow> (exn, nat \<times> json option) result \<times> nat" where
  "send_with_retries send method url payload sent =
     with_retries WRITE_RETRYABLE False send (write_request method url payload) sent"

section \<open>What an answer means\<close>

definition body_of :: "nat \<times> json option \<Rightarrow> bool \<Rightarrow> bool \<Rightarrow> (exn, (string \<times> json) list option) result" where
  "body_of response absent_on_404 refusal_on_4xx =
     (case response of (st, body) \<Rightarrow>
        if st = 401 \<or> st = 403 then Inl (FlashCredentialError st)
        else if st = 404 \<and> absent_on_404 then Inr None
        else if refusal_on_4xx \<and> 400 \<le> st \<and> st < 500 then Inl (FlashRefused st)
        else if st \<ge> 400 then Inl (FlashUnavailable (''Flash answered '' @ show_nat st))
        else (case body of
                Some (JObj d) \<Rightarrow> Inr (Some d)
              | _ \<Rightarrow> Inl (FlashUnavailable ''Flash sent a body we could not read'')))"

text \<open>The catch-all of both callers: whatever is not FlashUnavailable becomes it.\<close>

definition as_unavailable :: "(exn, 'a) result \<Rightarrow> (exn, 'a) result" where
  "as_unavailable r =
     (case r of
        Inl (FlashUnavailable m) \<Rightarrow> Inl (FlashUnavailable m)
      | Inl e \<Rightarrow> Inl (FlashUnavailable (''Could not reach Flash: '' @ exn_text e))
      | Inr x \<Rightarrow> Inr x)"

definition read_body ::
  "transport \<Rightarrow> string \<Rightarrow> (string \<times> string) list \<Rightarrow> bool \<Rightarrow> nat
     \<Rightarrow> (exn, (string \<times> json) list option) result \<times> nat" where
  "read_body send url params absent_on_404 sent =
     (case get_with_retries send url params sent of (r, sent') \<Rightarrow>
        (result_bind (as_unavailable r) (\<lambda>resp. body_of resp absent_on_404 False), sent'))"

definition write_body ::
  "transport \<Rightarrow> string \<Rightarrow> string \<Rightarrow> json \<Rightarrow> nat
     \<Rightarrow> (exn, (string \<times> json) list option) result \<times> nat" where
  "write_body send method url payload sent =
     (case send_with_retries send method url payload sent of (r, sent') \<Rightarrow>
        (result_bind (as_unavailable r) (\<lambda>resp. body_of resp True True), sent'))"

section \<open>Addresses\<close>

text \<open>\<^verbatim>\<open>urllib.parse.quote(s, safe="")\<close>.\<close>

definition unreserved :: "char \<Rightarrow> bool" where
  "unreserved c =
     (let n = (of_char c :: nat) in
      is_digit c \<or> 65 \<le> n \<and> n \<le> 90 \<or> 97 \<le> n \<and> n \<le> 122 \<or> c \<in> set ''_.-~'')"

definition upper_hex :: "nat \<Rightarrow> char" where
  "upper_hex d = (if d < 10 then char_of (48 + d) else char_of (55 + d))"

definition percent :: "nat \<Rightarrow> string" where
  "percent n = [CHR ''%'', upper_hex (n div 16), upper_hex (n mod 16)]"

definition utf8 :: "char \<Rightarrow> nat list" where
  "utf8 c = (let n = of_char c in if n < 128 then [n] else [192 + n div 64, 128 + n mod 64])"

definition quote :: "string \<Rightarrow> string" where
  "quote s = concat (map (\<lambda>c. if unreserved c then [c] else concat (map percent (utf8 c))) s)"

definition rstrip_slash :: "string \<Rightarrow> string" where
  "rstrip_slash s = rev (dropWhile (\<lambda>c. c = CHR ''/'') (rev s))"

definition SUBSCRIPTIONS_PATH :: string where
  "SUBSCRIPTIONS_PATH = ''/api/v1/external/subscriptions''"

definition SERVICES_PATH :: string where
  "SERVICES_PATH = ''/api/v1/external/services''"

definition subscriptions_url :: "string \<Rightarrow> string list \<Rightarrow> string" where
  "subscriptions_url base segments =
     join_with ''/'' ((rstrip_slash base @ SUBSCRIPTIONS_PATH) # map quote segments)"

definition services_url :: "string \<Rightarrow> string list \<Rightarrow> string" where
  "services_url base segments =
     join_with ''/'' ((rstrip_slash base @ SERVICES_PATH) # map quote segments)"

section \<open>The stand-in\<close>

text \<open>
  \<^verbatim>\<open>flash_mock._subscriptions\<close>: a dictionary keyed by subscription id, as the list of
  its values in insertion order. Plans are kept in Flash's own field names.
\<close>

type_synonym flash_plan_row = "(string \<times> json) list"

record flash_state =
  sent :: nat
  mock_subscriptions :: "flash_subscription list"
  mock_plans :: "((string \<times> string) \<times> flash_plan_row) list"

definition mock_set_subscription :: "flash_subscription \<Rightarrow> flash_state \<Rightarrow> flash_state" where
  "mock_set_subscription sub st =
     st\<lparr>mock_subscriptions := sql_upsert fs_id (\<lambda>_. sub) sub (mock_subscriptions st)\<rparr>"

definition mock_remove_subscription :: "string \<Rightarrow> flash_state \<Rightarrow> bool \<times> flash_state" where
  "mock_remove_subscription sid st =
     (lookup_by fs_id sid (mock_subscriptions st) \<noteq> None,
      st\<lparr>mock_subscriptions := filter (\<lambda>r. fs_id r \<noteq> sid) (mock_subscriptions st)\<rparr>)"

definition mock_set_plan :: "flash_plan_row \<Rightarrow> flash_state \<Rightarrow> flash_state" where
  "mock_set_plan plan st =
     (let k = (str_or_empty (get plan ''serviceId''), str_or_empty (get plan ''id'')) in
      st\<lparr>mock_plans := sql_upsert fst (\<lambda>_. (k, plan)) (k, plan) (mock_plans st)\<rparr>)"

definition mock_remove_plan :: "string \<Rightarrow> string \<Rightarrow> flash_state \<Rightarrow> bool \<times> flash_state" where
  "mock_remove_plan service_id plan_id st =
     (lookup_by fst (service_id, plan_id) (mock_plans st) \<noteq> None,
      st\<lparr>mock_plans := filter (\<lambda>r. fst r \<noteq> (service_id, plan_id)) (mock_plans st)\<rparr>)"

definition mock_plans_for :: "string \<Rightarrow> flash_state \<Rightarrow> flash_plan_row list" where
  "mock_plans_for service_id st = map snd (filter (\<lambda>r. fst (fst r) = service_id) (mock_plans st))"

fun mock_services_from :: "((string \<times> string) \<times> flash_plan_row) list \<Rightarrow> string list \<Rightarrow> flash_plan_row list" where
  "mock_services_from [] seen = []"
| "mock_services_from (((service, pid), plan) # rest) seen =
     (if service \<in> set seen then mock_services_from rest seen
      else [(''id'', JStr service),
            (''name'', if truthy (get plan ''serviceName'') then get plan ''serviceName'' else JStr service),
            (''description'', JNull), (''signupUrl'', JNull)]
           # mock_services_from rest (service # seen))"

definition mock_services :: "flash_state \<Rightarrow> flash_plan_row list" where
  "mock_services st = mock_services_from (mock_plans st) []"

definition mock_clear :: "flash_state \<Rightarrow> flash_state" where
  "mock_clear st = st\<lparr>mock_subscriptions := [], mock_plans := []\<rparr>"

definition mock_cancel :: "string \<Rightarrow> flash_state \<Rightarrow> flash_subscription option \<times> flash_state" where
  "mock_cancel sid st =
     (case lookup_by fs_id sid (mock_subscriptions st) of
        None \<Rightarrow> (None, st)
      | Some found \<Rightarrow>
          let cancelled = found\<lparr>fs_cancel_effective_date :=
                (case fs_cancel_effective_date found of
                   Some d \<Rightarrow> Some d | None \<Rightarrow> fs_current_period_end found)\<rparr>
          in (Some cancelled, mock_set_subscription cancelled st))"

definition mock_set_status :: "string \<Rightarrow> string \<Rightarrow> flash_state \<Rightarrow> flash_subscription option \<times> flash_state" where
  "mock_set_status sid status st =
     (case lookup_by fs_id sid (mock_subscriptions st) of
        None \<Rightarrow> (None, st)
      | Some found \<Rightarrow>
          let changed = found\<lparr>fs_status := status\<rparr>
          in (Some changed, mock_set_subscription changed st))"

text \<open>A handle is given where it is a non-empty string.\<close>

definition given :: "string option \<Rightarrow> bool" where
  "given h = (case h of None \<Rightarrow> False | Some s \<Rightarrow> s \<noteq> [])"

definition ref_json :: "string option \<Rightarrow> json" where
  "ref_json r = (case r of None \<Rightarrow> JNull | Some s \<Rightarrow> JStr s)"

definition mock_matches :: "string option \<Rightarrow> string option \<Rightarrow> flash_state \<Rightarrow> flash_subscription list" where
  "mock_matches sid ref st =
     (if given sid
      then (case lookup_by fs_id (the sid) (mock_subscriptions st) of None \<Rightarrow> [] | Some r \<Rightarrow> [r])
      else filter (\<lambda>r. fs_ref r = ref_json ref) (mock_subscriptions st))"

definition subscription_entitles :: "flash_subscription \<Rightarrow> bool" where
  "subscription_entitles sub \<longleftrightarrow> fs_status sub \<in> ENTITLING_STATUSES"

definition subscription_until :: "flash_subscription \<Rightarrow> datetime" where
  "subscription_until sub = (case fs_current_period_end sub of None \<Rightarrow> 0 | Some t \<Rightarrow> t)"

definition choose_live :: "flash_subscription list \<Rightarrow> flash_subscription option" where
  "choose_live rows = max_by subscription_until (or_else (filter subscription_entitles rows) rows)"

definition mock_lookup :: "string option \<Rightarrow> string option \<Rightarrow> flash_state \<Rightarrow> flash_subscription option" where
  "mock_lookup sid ref st =
     (let matches = mock_matches sid ref st in if matches = [] then None else choose_live matches)"

definition mock_iso :: "datetime option \<Rightarrow> json" where
  "mock_iso t = (case t of None \<Rightarrow> JNull | Some d \<Rightarrow> JStr (isoformat_millis d @ ''Z''))"

definition opt_json :: "string option \<Rightarrow> json" where
  "opt_json s = (case s of None \<Rightarrow> JNull | Some v \<Rightarrow> JStr v)"

definition as_pricing_snapshot :: "flash_pricing option \<Rightarrow> json" where
  "as_pricing_snapshot p =
     (case p of None \<Rightarrow> JNull
      | Some pr \<Rightarrow> JObj [(''amount'', case pricing_amount_minor pr of None \<Rightarrow> JNull | Some a \<Rightarrow> JStr (show_int a)),
                        (''currency'', opt_json (pricing_currency pr)),
                        (''billingInterval'', opt_json (pricing_billing_interval pr))])"

definition as_flash_row :: "flash_subscription \<Rightarrow> (string \<times> json) list" where
  "as_flash_row row =
     [(''id'', JStr (fs_id row)), (''status'', JStr (fs_status row)), (''ref'', fs_ref row),
      (''subscriberId'', fs_subscriber_id row), (''serviceId'', JStr (fs_service_id row)),
      (''planId'', JStr (fs_plan_id row)),
      (''currentPeriodStart'', mock_iso (fs_current_period_start row)),
      (''currentPeriodEnd'', mock_iso (fs_current_period_end row)),
      (''nextBillingDate'', mock_iso (fs_next_billing_date row)),
      (''trialEndDate'', mock_iso (fs_trial_end_date row)),
      (''cancelEffectiveDate'', mock_iso (fs_cancel_effective_date row)),
      (''portalUrl'', opt_json (fs_portal_url row)),
      (''pricingSnapshot'', as_pricing_snapshot (fs_pricing row))]"

definition mock_lookup_raw :: "string option \<Rightarrow> string option \<Rightarrow> flash_state \<Rightarrow> (string \<times> json) list list" where
  "mock_lookup_raw sid ref st = map as_flash_row (mock_matches sid ref st)"

section \<open>Lookups and writes\<close>

record flash_env =
  flash_mock_enabled :: bool
  flash_base_url :: string
  send :: transport

type_synonym 'a flash_op = "flash_env \<Rightarrow> flash_state \<Rightarrow> (exn, 'a) result \<times> flash_state"

definition require_a_handle :: "string option \<Rightarrow> string option \<Rightarrow> (exn, unit) result" where
  "require_a_handle sid ref =
     (if \<not> given sid \<and> \<not> given ref
      then Inl (FlashUnavailable ''A subscription lookup needs a subscriptionId or a ref'')
      else Inr ())"

definition read_for :: "string option \<Rightarrow> string option \<Rightarrow> (string \<times> json) list option flash_op" where
  "read_for sid ref env st =
     (case (if given sid
            then read_body (send env) (subscriptions_url (flash_base_url env) [the sid]) [] True (sent st)
            else read_body (send env) (subscriptions_url (flash_base_url env) [])
                   [(''ref'', case ref of None \<Rightarrow> [] | Some r \<Rightarrow> r)] False (sent st))
      of (r, n) \<Rightarrow> (r, st\<lparr>sent := n\<rparr>))"

definition fetch_subscription :: "string option \<Rightarrow> string option \<Rightarrow> flash_subscription option flash_op" where
  "fetch_subscription sid ref env st =
     (case require_a_handle sid ref of
        Inl e \<Rightarrow> (Inl e, st)
      | Inr _ \<Rightarrow>
          if flash_mock_enabled env then (Inr (mock_lookup sid ref st), st)
          else (case read_for sid ref env st of
                  (Inl e, st') \<Rightarrow> (Inl e, st')
                | (Inr None, st') \<Rightarrow> (Inr None, st')
                | (Inr (Some body), st') \<Rightarrow>
                    (if given sid then subscription_from (get body ''subscription'')
                     else (case get body ''subscriptions'' of
                             JList (x # xs) \<Rightarrow>
                               result_bind (choose_subscription (x # xs))
                                 (\<lambda>row. subscription_from (case row of None \<Rightarrow> JNull | Some d \<Rightarrow> JObj d))
                           | _ \<Rightarrow> Inr None),
                     st')))"

definition fetch_subscription_raw :: "string option \<Rightarrow> string option \<Rightarrow> (string \<times> json) list option flash_op" where
  "fetch_subscription_raw sid ref env st =
     (case require_a_handle sid ref of
        Inl e \<Rightarrow> (Inl e, st)
      | Inr _ \<Rightarrow>
          if flash_mock_enabled env
          then (let rows = mock_lookup_raw sid ref st in
                (Inr (if rows = [] then None
                      else Some [(''livemode'', JBool True), (''subscriptions'', JList (map JObj rows))]), st))
          else (case read_for sid ref env st of
             (Inl e, st') \<Rightarrow> (Inl e, st')
           | (Inr None, st') \<Rightarrow> (Inr None, st')
           | (Inr (Some body), st') \<Rightarrow>
               (if given sid
                then (let one = get body ''subscription'' in
                      Inr (if one = JNull then None
                           else Some ((''subscriptions'', JList [one])
                                      # filter (\<lambda>kv. fst kv \<noteq> ''subscriptions'') body)))
                else (case get body ''subscriptions'' of
                        JList (x # xs) \<Rightarrow> Inr (Some body)
                      | _ \<Rightarrow> Inr None),
                st')))"

definition cancel_payload :: "string option \<Rightarrow> json" where
  "cancel_payload reason =
     (let why = strip (case reason of None \<Rightarrow> [] | Some r \<Rightarrow> r)
      in JObj (if why = [] then [] else [(''reason'', JStr why)]))"

definition cancel_subscription :: "string \<Rightarrow> string option \<Rightarrow> flash_subscription option flash_op" where
  "cancel_subscription sid reason env st =
     (if sid = [] then (Inl (FlashUnavailable ''A cancellation needs a subscriptionId''), st)
      else if flash_mock_enabled env
      then (case mock_cancel sid st of (r, st') \<Rightarrow> (Inr r, st'))
      else
        (case write_body (send env) ''POST'' (subscriptions_url (flash_base_url env) [sid, ''cancel''])
                (cancel_payload reason) (sent st)
         of (r, n) \<Rightarrow>
           (result_bind r (\<lambda>body. case body of None \<Rightarrow> Inr None
              | Some d \<Rightarrow> subscription_from (get d ''subscription'')), st\<lparr>sent := n\<rparr>)))"

definition SETTABLE_STATUSES :: "string list" where
  "SETTABLE_STATUSES = [''paused'', ''active'']"

definition set_subscription_status :: "string \<Rightarrow> string \<Rightarrow> flash_subscription option flash_op" where
  "set_subscription_status sid status env st =
     (if sid = [] then (Inl (FlashUnavailable ''A status change needs a subscriptionId''), st)
      else if status \<notin> set SETTABLE_STATUSES
      then (Inl (FlashUnavailable (''Flash does not take a status of '' @ repr_str status @ '' here'')), st)
      else if flash_mock_enabled env
      then (case mock_set_status sid status st of (r, st') \<Rightarrow> (Inr r, st'))
      else
        (case write_body (send env) ''PATCH'' (subscriptions_url (flash_base_url env) [sid])
                (JObj [(''status'', JStr status)]) (sent st)
         of (r, n) \<Rightarrow>
           (result_bind r (\<lambda>body. case body of None \<Rightarrow> Inr None
              | Some d \<Rightarrow> subscription_from (get d ''subscription'')), st\<lparr>sent := n\<rparr>)))"

section \<open>Plans and services\<close>

record flash_plan =
  fplan_id :: string
  fplan_service_id :: string
  fplan_name :: string
  fplan_description :: "string option"
  fplan_amount_minor :: "int option"
  fplan_currency :: string
  fplan_billing_interval :: "string option"
  fplan_sort_order :: int
  fplan_features :: "string list option"
  fplan_not_included :: "string list option"
  fplan_status :: string
  fplan_signup_url :: "string option"

text \<open>\<^verbatim>\<open>isinstance(sort_order, int)\<close> holds of a bool, which counts as 0 or 1.\<close>

definition sort_order_of :: "json \<Rightarrow> int" where
  "sort_order_of v = (case v of JInt i \<Rightarrow> i | JBool b \<Rightarrow> of_bool b | _ \<Rightarrow> 0)"

definition parse_plan :: "flash_plan_row \<Rightarrow> flash_plan" where
  "parse_plan raw =
     \<lparr>fplan_id = str_or_empty (get raw ''id''),
      fplan_service_id = str_or_empty (get raw ''serviceId''),
      fplan_name = str_or_empty (get raw ''name''),
      fplan_description = text_field (get raw ''description''),
      fplan_amount_minor = minor_units (get raw ''amount''),
      fplan_currency = str_or_empty (get raw ''currency''),
      fplan_billing_interval = text_field (get raw ''billingInterval''),
      fplan_sort_order = sort_order_of (get raw ''sortOrder''),
      fplan_features = text_lines (get raw ''features''),
      fplan_not_included = text_lines (get raw ''notIncluded''),
      fplan_status = str_or_empty (get raw ''status''),
      fplan_signup_url = text_field (get raw ''signupUrl'')\<rparr>"

definition fetch_service_plans_raw :: "string \<Rightarrow> flash_plan_row flash_op" where
  "fetch_service_plans_raw service_id env st =
     (if service_id = [] then (Inl (FlashUnavailable ''A service read needs a serviceId''), st)
      else (case read_body (send env) (services_url (flash_base_url env) [service_id]) [] True (sent st)
            of (r, n) \<Rightarrow>
              (result_bind r (\<lambda>body. case body of None \<Rightarrow> Inl (FlashServiceMissing service_id)
                 | Some d \<Rightarrow> Inr d), st\<lparr>sent := n\<rparr>)))"

record flash_service =
  fsvc_id :: string
  fsvc_name :: string
  fsvc_description :: "string option"
  fsvc_signup_url :: "string option"

definition parse_service :: "(string \<times> json) list \<Rightarrow> flash_service" where
  "parse_service raw =
     \<lparr>fsvc_id = str_or_empty (get raw ''id''),
      fsvc_name = str_or_empty (get raw ''name''),
      fsvc_description = text_field (get raw ''description''),
      fsvc_signup_url = text_field (get raw ''signupUrl'')\<rparr>"

definition fetch_services :: "flash_service list flash_op" where
  "fetch_services env st =
     (if flash_mock_enabled env then (Inr (map parse_service (mock_services st)), st)
      else (case read_body (send env) (services_url (flash_base_url env) []) [] False (sent st) of (r, n) \<Rightarrow>
              (result_bind r (\<lambda>body.
                 Inr (case get (case body of None \<Rightarrow> [] | Some d \<Rightarrow> d) ''services'' of
                        JList raw \<Rightarrow> map parse_service (dict_rows raw)
                      | _ \<Rightarrow> [])), st\<lparr>sent := n\<rparr>)))"

section \<open>Choosing: the contract and its two providers\<close>

text \<open>
  What a caller may rely on of the row picked among everything held under one
  reference: it is one of the rows, it entitles where any row does, and no row of the
  same kind runs longer.
\<close>

locale entitling_choice =
  fixes live :: "'r \<Rightarrow> bool" and until :: "'r \<Rightarrow> 'k::linorder" and pick :: "'r list \<Rightarrow> 'r option"
  assumes pick_none: "pick rows = None \<longleftrightarrow> rows = []"
    and pick_mem: "pick rows = Some r \<Longrightarrow> r \<in> set rows"
    and pick_live: "pick rows = Some r \<Longrightarrow> s \<in> set rows \<Longrightarrow> live s \<Longrightarrow> live r"
    and pick_longest: "pick rows = Some r \<Longrightarrow> s \<in> set rows \<Longrightarrow> live s = live r \<Longrightarrow> until s \<le> until r"
begin

lemma entitles_iff: "(\<exists>r. pick rows = Some r \<and> live r) \<longleftrightarrow> (\<exists>r \<in> set rows. live r)"
  by (metis pick_live pick_mem pick_none empty_iff list.set(1) option.exhaust)

text \<open>The order Flash lists the rows in decides nothing but the name of the row.\<close>

lemma order_irrelevant:
  assumes "pick xs = Some r" and "set ys = set xs"
  obtains r' where "pick ys = Some r'" "live r' = live r" "until r' = until r"
proof -
  from assms have "ys \<noteq> []" using pick_mem by fastforce
  then obtain r' where r': "pick ys = Some r'" by (cases "pick ys") (auto simp: pick_none)
  have mem: "r \<in> set ys" "r' \<in> set xs" using pick_mem[OF assms(1)] pick_mem[OF r'] assms(2) by simp_all
  have live: "live r' = live r" using pick_live[OF r' mem(1)] pick_live[OF assms(1) mem(2)] by blast
  have "until r' = until r"
    by (rule antisym[OF pick_longest[OF assms(1) mem(2) live] pick_longest[OF r' mem(1) live[symmetric]]])
  then show thesis by (rule that[OF r' live])
qed

end

lemma max_by_or_else_laws:
  fixes until :: "'r \<Rightarrow> 'k::linorder" and live :: "'r \<Rightarrow> bool"
  defines "ch \<equiv> \<lambda>rows. max_by until (or_else (filter live rows) rows)"
  shows "ch rows = None \<longleftrightarrow> rows = []"
    and "ch rows = Some r \<Longrightarrow> r \<in> set rows"
    and "ch rows = Some r \<Longrightarrow> s \<in> set rows \<Longrightarrow> live s \<Longrightarrow> live r"
    and "ch rows = Some r \<Longrightarrow> s \<in> set rows \<Longrightarrow> live s = live r \<Longrightarrow> until s \<le> until r"
proof -
  show "ch rows = None \<longleftrightarrow> rows = []" by (auto simp: ch_def or_else_def)
  show "r \<in> set rows" if "ch rows = Some r"
    using that by (auto simp: ch_def or_else_def split: if_splits dest: max_by_mem)
  show "live r" if "ch rows = Some r" "s \<in> set rows" "live s"
    using that by (auto simp: ch_def or_else_def filter_empty_conv split: if_splits dest: max_by_mem)
  show "until s \<le> until r" if "ch rows = Some r" "s \<in> set rows" "live s = live r"
  proof (cases "filter live rows = []")
    case True
    with that show ?thesis by (auto simp: ch_def or_else_def dest: max_by_ge)
  next
    case False
    with that(1) have m: "max_by until (filter live rows) = Some r" by (simp add: ch_def or_else_def)
    with max_by_mem[OF m] that have "s \<in> set (filter live rows)" by simp
    with m show ?thesis by (rule max_by_ge)
  qed
qed

lemma entitling_choice_max_by:
  "entitling_choice live until (\<lambda>rows. max_by until (or_else (filter live rows) rows))"
proof (unfold_locales, goal_cases)
  case (1 rows)
  show ?case by (rule max_by_or_else_laws(1))
next
  case (2 rows r)
  then show ?case by (rule max_by_or_else_laws(2))
next
  case (3 rows r s)
  then show ?case by (rule max_by_or_else_laws(3))
next
  case (4 rows r s)
  then show ?case by (rule max_by_or_else_laws(4))
qed

interpretation raw_rows: entitling_choice row_entitles until_of choose_row
  unfolding choose_row_def[abs_def] by (rule entitling_choice_max_by)

interpretation mock_rows: entitling_choice subscription_entitles subscription_until choose_live
  unfolding choose_live_def[abs_def] by (rule entitling_choice_max_by)

lemma choose_subscription_Some:
  assumes "choose_subscription rows = Inr (Some r)"
  shows "choose_row (dict_rows rows) = Some r"
    and "\<forall>row \<in> set (dict_rows rows). hashable (get row ''status'')"
    and "\<forall>row \<in> set (or_else (filter row_entitles (dict_rows rows)) (dict_rows rows)). \<exists>t. runs_until row = Inr t"
  using assms by (auto simp: choose_subscription_def isl_def Let_def split: if_splits) (meson sum.exhaust)

section \<open>Retries\<close>

lemma attempts_from_bounds:
  "attempts_from retryable f tr req left n = (r, n') \<Longrightarrow> n < n' \<and> n' \<le> n + left + 1"
proof (induction left arbitrary: n)
  case 0
  then show ?case
    by (subst (asm) attempts_from.simps) (auto split: http_outcome.splits if_splits)
next
  case (Suc left)
  from Suc.prems consider "n' = n + 1" | "attempts_from retryable f tr req left (n + 1) = (r, n')"
    by (subst (asm) attempts_from.simps) (auto split: http_outcome.splits if_splits)
  then show ?case using Suc.IH by cases fastforce+
qed

lemma attempts_from_answer:
  "attempts_from retryable f tr req left n = (Inr (st, body), n') \<Longrightarrow> tr (n' - 1) req = Response st body"
proof (induction left arbitrary: n)
  case 0
  then show ?case
    by (subst (asm) attempts_from.simps) (auto split: http_outcome.splits if_splits)
next
  case (Suc left)
  from Suc.prems consider "n' = n + 1 \<and> tr n req = Response st body"
    | "attempts_from retryable f tr req left (n + 1) = (Inr (st, body), n')"
    by (subst (asm) attempts_from.simps) (auto split: http_outcome.splits if_splits)
  then show ?case using Suc.IH by cases auto
qed

lemma attempts_from_repeats:
  "attempts_from retryable False tr req left n = (r, n') \<Longrightarrow> n \<le> k \<Longrightarrow> k + 1 < n' \<Longrightarrow> retryable (tr k req)"
proof (induction left arbitrary: n)
  case 0
  then show ?case using attempts_from_bounds[OF 0(1)] by simp
next
  case (Suc left)
  from Suc.prems(1) consider "n' = n + 1"
    | "retryable (tr n req)" "attempts_from retryable False tr req left (n + 1) = (r, n')"
    by (subst (asm) attempts_from.simps) (auto split: http_outcome.splits if_splits)
  then show ?case
  proof cases
    case 1
    with Suc.prems show ?thesis by simp
  next
    case 2
    with Suc.IH[OF 2(2)] Suc.prems show ?thesis by (cases "k = n") auto
  qed
qed

lemma attempts_from_eventually:
  "\<forall>i < j. RETRYABLE (tr (n + i) req) \<or> (\<exists>st b. tr (n + i) req = Response st b \<and> st \<ge> 500) \<Longrightarrow>
   tr (n + j) req = Response st body \<Longrightarrow> st < 500 \<Longrightarrow> j \<le> left \<Longrightarrow>
   attempts_from RETRYABLE True tr req left n = (Inr (st, body), n + j + 1)"
proof (induction j arbitrary: n left)
  case 0
  then show ?case by (subst attempts_from.simps) (auto split: nat.splits)
next
  case (Suc j)
  then obtain k where left: "left = Suc k" by (cases left) auto
  from Suc.prems(1) have first: "RETRYABLE (tr n req) \<or> (\<exists>st b. tr n req = Response st b \<and> st \<ge> 500)"
    by (metis add.right_neutral zero_less_Suc)
  have "\<forall>i < j. RETRYABLE (tr (n + 1 + i) req) \<or> (\<exists>st b. tr (n + 1 + i) req = Response st b \<and> st \<ge> 500)"
    using Suc.prems(1) by (metis Suc_less_eq add.assoc plus_1_eq_Suc)
  then have "attempts_from RETRYABLE True tr req k (n + 1) = (Inr (st, body), n + 1 + j + 1)"
    using Suc.IH[of "n + 1" k] Suc.prems left by simp
  with first left show ?case
    by (subst attempts_from.simps) (auto split: http_outcome.splits)
qed

section \<open>What a caller may conclude from an answer\<close>

lemma as_unavailable_Inr [simp]: "as_unavailable r = Inr x \<longleftrightarrow> r = Inr x"
  by (auto simp: as_unavailable_def split: sum.splits exn.splits)

lemma body_of_None:
  "body_of (st, body) absent refusal = Inr None \<longleftrightarrow> st = 404 \<and> absent"
  by (auto simp: body_of_def split: option.splits json.splits)

lemma body_of_Some:
  "body_of (st, body) absent refusal = Inr (Some d) \<longleftrightarrow> st < 400 \<and> body = Some (JObj d)"
  by (auto simp: body_of_def split: option.splits json.splits)

lemma read_body_answer:
  assumes "read_body tr url params absent n = (Inr r, n')"
  obtains k req st body where "n \<le> k" "k < n'" "tr k req = Response st body"
    "body_of (st, body) absent False = Inr r"
proof -
  from assms obtain st body where
    w: "attempts_from RETRYABLE True tr
          \<lparr>http_method = ''GET'', http_url = url, http_params = params, http_payload = None\<rparr>
          CONNECT_RETRIES n = (Inr (st, body), n')"
    and b: "body_of (st, body) absent False = Inr r"
    by (auto simp: read_body_def get_with_retries_def with_retries_def result_bind_eq_Inr split: prod.splits)
  from attempts_from_bounds[OF w] have "n \<le> n' - 1" "n' - 1 < n'" by auto
  with attempts_from_answer[OF w] b that show thesis by blast
qed

lemma subscription_from_None [simp]: "subscription_from raw = Inr None \<longleftrightarrow> raw = JNull"
  by (auto simp: subscription_from_def split: json.splits sum.splits if_splits)

lemma choose_subscription_None: "choose_subscription rows = Inr None \<longleftrightarrow> dict_rows rows = []"
  by (auto simp: choose_subscription_def isl_def Let_def raw_rows.pick_none split: if_splits)

text \<open>The body says that nobody is subscribed: no subscription under an id, no row
  under a reference.\<close>

definition says_absent :: "bool \<Rightarrow> (string \<times> json) list \<Rightarrow> bool" where
  "says_absent by_id body \<longleftrightarrow>
     (if by_id then get body ''subscription'' = JNull
      else (case get body ''subscriptions'' of JList rows \<Rightarrow> dict_rows rows = [] | _ \<Rightarrow> True))"

lemma read_for_answer:
  assumes "read_for sid ref env st = (Inr r, st')"
  obtains k req status body where "sent st \<le> k" "k < sent st'" "send env k req = Response status body"
    "body_of (status, body) (given sid) False = Inr r"
  using assms
  by (auto simp: read_for_def split: prod.splits if_splits elim!: read_body_answer)

lemma fetch_subscription_None:
  assumes "fetch_subscription sid ref env st = (Inr None, st')" and "\<not> flash_mock_enabled env"
  obtains r where "read_for sid ref env st = (Inr r, st')"
    "case r of None \<Rightarrow> True | Some d \<Rightarrow> says_absent (given sid) d"
  using assms
  by (auto simp: fetch_subscription_def says_absent_def choose_subscription_None result_bind_eq_Inr dict_rows_def
      split: sum.splits prod.splits option.splits if_splits json.splits list.splits)



lemma write_body_once:
  assumes "write_body tr method url payload n = (r, n')"
  shows "n' \<le> n + 4" and "n \<le> k \<Longrightarrow> k + 1 < n' \<Longrightarrow> WRITE_RETRYABLE (tr k (write_request method url payload))"
proof -
  from assms obtain r' where
    w: "attempts_from WRITE_RETRYABLE False tr (write_request method url payload) CONNECT_RETRIES n = (r', n')"
    by (auto simp: write_body_def send_with_retries_def with_retries_def split: prod.splits)
  show "n' \<le> n + 4" using attempts_from_bounds[OF w] by (simp add: CONNECT_RETRIES_def)
  show "n \<le> k \<Longrightarrow> k + 1 < n' \<Longrightarrow> WRITE_RETRYABLE (tr k (write_request method url payload))"
    by (rule attempts_from_repeats[OF w])
qed

lemma mock_writes_send_nothing:
  "mock_cancel sid st = (r, st') \<Longrightarrow> sent st' = sent st"
  "mock_set_status sid status st = (r, st') \<Longrightarrow> sent st' = sent st"
  by (auto simp: mock_cancel_def mock_set_status_def mock_set_subscription_def Let_def split: option.splits)

lemma cancel_subscription_once:
  assumes "cancel_subscription sid reason env st = (r, st')"
  shows "sent st' \<le> sent st + 4 \<and> (\<forall>k. sent st \<le> k \<and> k + 1 < sent st' \<longrightarrow> WRITE_RETRYABLE (send env k
    (write_request ''POST'' (subscriptions_url (flash_base_url env) [sid, ''cancel'']) (cancel_payload reason))))"
  using assms
  by (auto simp: cancel_subscription_def split: if_splits prod.splits dest: write_body_once mock_writes_send_nothing)

lemma set_subscription_status_once:
  assumes "set_subscription_status sid status env st = (r, st')"
  shows "sent st' \<le> sent st + 4 \<and> (\<forall>k. sent st \<le> k \<and> k + 1 < sent st' \<longrightarrow> WRITE_RETRYABLE (send env k
    (write_request ''PATCH'' (subscriptions_url (flash_base_url env) [sid]) (JObj [(''status'', JStr status)]))))"
  using assms
  by (auto simp: set_subscription_status_def split: if_splits prod.splits dest: write_body_once mock_writes_send_nothing)

text \<open>
  C2. A write is never repeated once it may have landed: cancelling or changing the status
  sends at most four requests, and every request but the last one failed before a
  connection existed. So Flash receives the change at most once.
\<close>

theorem writes_never_repeated:
  "(cancel_subscription sid reason env st = (r, st') \<longrightarrow> sent st' \<le> sent st + 4 \<and>
      (\<forall>k. sent st \<le> k \<and> k + 1 < sent st' \<longrightarrow> WRITE_RETRYABLE (send env k (write_request ''POST''
         (subscriptions_url (flash_base_url env) [sid, ''cancel'']) (cancel_payload reason)))))
   \<and> (set_subscription_status sid status env st = (r', st'') \<longrightarrow> sent st'' \<le> sent st + 4 \<and>
      (\<forall>k. sent st \<le> k \<and> k + 1 < sent st'' \<longrightarrow> WRITE_RETRYABLE (send env k (write_request ''PATCH''
         (subscriptions_url (flash_base_url env) [sid]) (JObj [(''status'', JStr status)])))))"
  using cancel_subscription_once[of sid reason env st r st']
    set_subscription_status_once[of sid status env st r' st''] by blast

theorem writes_never_repeated_witness:
  "cancel_subscription ''s'' None
      \<lparr>flash_mock_enabled = False, flash_base_url = [],
       send = (\<lambda>n req. if n = 0 then ConnectError ''c'' else ReadTimeout ''t'')\<rparr>
      \<lparr>sent = 0, mock_subscriptions = [], mock_plans = []\<rparr>
     = (Inl (FlashUnavailable ''Could not reach Flash: t''), \<lparr>sent = 2, mock_subscriptions = [], mock_plans = []\<rparr>)
   \<and> WRITE_RETRYABLE (ConnectError ''c'')"
proof -
  let ?env = "\<lparr>flash_mock_enabled = False, flash_base_url = [],
       send = (\<lambda>n req. if n = 0 then ConnectError ''c'' else ReadTimeout ''t'')\<rparr>"
  let ?st = "\<lparr>sent = 0, mock_subscriptions = [], mock_plans = []\<rparr>"
  have run: "cancel_subscription ''s'' None ?env ?st
      = (Inl (FlashUnavailable ''Could not reach Flash: t''), \<lparr>sent = 2, mock_subscriptions = [], mock_plans = []\<rparr>)"
    by (simp add: cancel_subscription_def write_body_def send_with_retries_def with_retries_def
        attempts_from.simps CONNECT_RETRIES_def numeral_3_eq_3 as_unavailable_def strip_def)
  show ?thesis
    using writes_never_repeated[THEN conjunct1, THEN mp, OF run] run by auto
qed

text \<open>
  A read survives up to three transient failures: where each of the first \<open>j \<le> 3\<close>
  attempts fails to connect, times out or is answered 5xx and the next one is answered
  below 500, the read ends with the meaning of that answer, after exactly \<open>j + 1\<close>
  requests.
\<close>

lemma read_outlasts_transient_failures:
  fixes tr :: transport
  defines "req \<equiv> \<lambda>url params. \<lparr>http_method = ''GET'', http_url = url, http_params = params, http_payload = None\<rparr>"
  assumes "j \<le> 3"
    and "\<forall>i < j. RETRYABLE (tr (n + i) (req url params))
           \<or> (\<exists>s b. tr (n + i) (req url params) = Response s b \<and> s \<ge> 500)"
    and "tr (n + j) (req url params) = Response status body" and "status < 500"
  shows "read_body tr url params absent n = (body_of (status, body) absent False, n + j + 1)"
  using attempts_from_eventually[of j tr n "req url params" status body 3] assms(2-5)
  by (simp add: read_body_def get_with_retries_def with_retries_def CONNECT_RETRIES_def as_unavailable_def req_def)

lemma choose_subscription_eq:
  "(\<forall>row \<in> set (dict_rows rows). hashable (get row ''status'')) \<Longrightarrow>
   (\<forall>row \<in> set (or_else (filter row_entitles (dict_rows rows)) (dict_rows rows)). \<exists>t. runs_until row = Inr t) \<Longrightarrow>
   choose_subscription rows = Inr (choose_row (dict_rows rows))"
  by (fastforce simp: choose_subscription_def isl_def Let_def choose_row_def or_else_def)

lemma set_dict_rows: "set (dict_rows rows) = {d. JObj d \<in> set rows}"
  by (induction rows) (auto simp: dict_rows_def List.map_filter_def elim: as_dict.elims)

lemma set_or_else_cong:
  "set xs = set ys \<Longrightarrow> set (or_else (filter p xs) xs) = set (or_else (filter p ys) ys)"
  by (auto simp: or_else_def filter_empty_conv)

text \<open>
  The subscription that decides: among everything Flash holds under one reference, the
  row picked entitles exactly where some row does, it is one of Flash's rows, no row of
  the same kind runs longer, and listing the same rows in any other order (or repeating
  some) picks a row that entitles alike and runs as long.
\<close>

lemma chosen_row_decides:
  assumes "choose_subscription rows = Inr (Some r)" and "set rows' = set rows"
  shows "JObj r \<in> set rows
    \<and> (row_entitles r \<longleftrightarrow> (\<exists>s. JObj s \<in> set rows \<and> row_entitles s))
    \<and> (\<forall>s. JObj s \<in> set rows \<and> row_entitles s = row_entitles r \<longrightarrow> until_of s \<le> until_of r)
    \<and> (\<exists>r'. choose_subscription rows' = Inr (Some r') \<and> row_entitles r' = row_entitles r \<and> until_of r' = until_of r)"
proof -
  note c = choose_subscription_Some[OF assms(1)]
  have same: "set (dict_rows rows') = set (dict_rows rows)" using assms(2) by (simp add: set_dict_rows)
  obtain r' where r': "choose_row (dict_rows rows') = Some r'" "row_entitles r' = row_entitles r"
    "until_of r' = until_of r"
    by (rule raw_rows.order_irrelevant[OF c(1) same])
  have "choose_subscription rows' = Inr (Some r')"
    using choose_subscription_eq[of rows'] c(2,3) r'(1) same set_or_else_cong[OF same, of row_entitles] by simp
  moreover have "JObj r \<in> set rows" using raw_rows.pick_mem[OF c(1)] by (simp add: set_dict_rows)
  moreover have "row_entitles r \<longleftrightarrow> (\<exists>s. JObj s \<in> set rows \<and> row_entitles s)"
    using raw_rows.pick_live[OF c(1)] calculation(2) by (auto simp: set_dict_rows)
  moreover have "\<forall>s. JObj s \<in> set rows \<and> row_entitles s = row_entitles r \<longrightarrow> until_of s \<le> until_of r"
    using raw_rows.pick_longest[OF c(1)] by (auto simp: set_dict_rows)
  ultimately show ?thesis using r'(2,3) by blast
qed

text \<open>
  Reading a deadline: a deadline is the moment itself unless Flash sent a bare date,
  and then it is the last microsecond of that same day. So reading a timestamp as a
  deadline never moves it earlier and never into another day, and both readings raise on
  the same inputs.
\<close>

lemma deadline_is_end_of_day:
  "(parse_flash_timestamp raw True = Inl e \<longleftrightarrow> parse_flash_timestamp raw False = Inl e)
   \<and> (parse_flash_timestamp raw True = Inr None \<longleftrightarrow> parse_flash_timestamp raw False = Inr None)
   \<and> (parse_flash_timestamp raw False = Inr (Some t) \<longrightarrow>
      (\<exists>u. parse_flash_timestamp raw True = Inr (Some u) \<and> t \<le> u \<and> u div day_us = t div day_us \<and>
         (u \<noteq> t \<longrightarrow> (\<exists>s. raw = JStr s \<and> is_date_only s) \<and> u mod day_us = END_OF_DAY)))"
proof -
  have e: "v div day_us * day_us + END_OF_DAY \<ge> v" "(v div day_us * day_us + END_OF_DAY) div day_us = v div day_us"
    "(v div day_us * day_us + END_OF_DAY) mod day_us = END_OF_DAY"
    "END_OF_DAY mod day_us = END_OF_DAY" for v :: int
    using div_mult_mod_eq[of v day_us] pos_mod_bound[of day_us v] by (simp_all add: END_OF_DAY_def)
  show ?thesis
    by (auto simp: parse_flash_timestamp_def Let_def e split: json.splits option.splits if_splits)
qed

text \<open>An id or a service name of any content stays one path segment of the URL.\<close>

lemma upper_hex_plain: "d < 16 \<Longrightarrow> upper_hex d \<notin> set ''/?#''"
proof -
  assume "d < 16"
  then have "d \<in> {0..<16}" by simp
  also have "{0..<16} = set [0..<16]" by simp
  finally have "d \<in> set [0..<16]" .
  moreover have "\<forall>d \<in> set [0..<16]. upper_hex d \<notin> set ''/?#''" by code_simp
  ultimately show ?thesis by blast
qed

lemma quote_one_segment: "set (quote s) \<inter> set ''/?#'' = {}"
proof -
  have u: "\<not> unreserved c" if "c \<in> set ''/?#''" for c
    using that by (auto simp: unreserved_def is_digit_def)
  have p: "set (percent n) \<inter> set ''/?#'' = {}" if "n < 256" for n
    using upper_hex_plain[of "n div 16"] upper_hex_plain[of "n mod 16"] that by (auto simp: percent_def)
  have "n < 256" if "n \<in> set (utf8 c)" for n c
  proof -
    have "(of_char c :: nat) < 64 * 4" using nat_of_char_less_256[of c] by simp
    then have "(of_char c :: nat) div 64 < 4" by (simp add: less_mult_imp_div_less)
    with that show ?thesis by (auto simp: utf8_def Let_def split: if_splits)
  qed
  with u p show ?thesis by (fastforce simp: quote_def)
qed

end
