(* ===== verification/Billing_Store.thy ===== *)
theory Billing_Store
  imports Flash_Client "HOL-Library.Option_ord"
begin

text \<open>
  The tables billing and the scheduler work on (\<^verbatim>\<open>app/db_models/__init__.py\<close>) and the
  statements of their repositories: \<^verbatim>\<open>app/repos/brainstorm_nsec.py\<close>,
  \<^verbatim>\<open>user_subscription_repo.py\<close>, \<^verbatim>\<open>flash_webhook_event_repo.py\<close>,
  \<^verbatim>\<open>billing_plan_repo.py\<close> and \<^verbatim>\<open>scheduling_repo.py\<close>. A table is the list of its rows
  in insertion order. An UPDATE is a \<open>sql_update\<close>, a SELECT a filter, its ORDER BY a
  stable sort and its LIMIT a \<open>take\<close>. Rows that tie in an ORDER BY keep insertion order,
  one of the orders PostgreSQL may return. The server-side \<^verbatim>\<open>updated_at\<close> is left out: no
  statement reads it.
\<close>

section \<open>Rows\<close>

text \<open>\<^verbatim>\<open>SchedulingSource\<close>.\<close>

definition SOURCE_DEFAULT :: string where "SOURCE_DEFAULT = ''default''"
definition SOURCE_BILLING :: string where "SOURCE_BILLING = ''billing''"
definition SOURCE_ADMIN :: string where "SOURCE_ADMIN = ''admin''"

lemma sources_distinct [simp]:
  "SOURCE_DEFAULT \<noteq> SOURCE_ADMIN" "SOURCE_BILLING \<noteq> SOURCE_ADMIN" "SOURCE_DEFAULT \<noteq> SOURCE_BILLING"
  "SOURCE_ADMIN \<noteq> SOURCE_DEFAULT" "SOURCE_ADMIN \<noteq> SOURCE_BILLING" "SOURCE_BILLING \<noteq> SOURCE_DEFAULT"
  "SOURCE_ADMIN \<noteq> []" "SOURCE_DEFAULT \<noteq> []" "SOURCE_BILLING \<noteq> []"
  by (simp_all add: SOURCE_DEFAULT_def SOURCE_ADMIN_def SOURCE_BILLING_def)

record brainstorm_nsec =
  bn_nsec :: string
  bn_encrypted_nsec :: "string option"
  bn_pubkey :: string
  bn_last_time_triggered_graperank :: "datetime option"
  bn_last_time_calculated_graperank :: "datetime option"
  bn_last_time_published_graperank :: "datetime option"
  bn_assistant_kind0_published_at :: "datetime option"
  bn_graperank_preset :: "string option"
  bn_graperank_custom_params :: "json option"
  bn_last_published_pubkeys :: "string option"
  bn_last_published_graperank_request_id :: "int option"
  bn_runs_since_full :: int
  bn_last_neo4j_cleanup_at :: "datetime option"
  bn_scheduling_id :: "int option"
  bn_billing_blocked :: bool
  bn_session_version :: int
  bn_treasure_map_on :: bool
  bn_scheduling_source :: string

record scheduling =
  sc_id :: int
  sc_name :: string
  sc_schedule_interval_seconds :: int
  sc_priority :: int
  sc_enabled :: bool
  sc_manual_quota_limit :: int
  sc_manual_quota_window_seconds :: int
  sc_is_default :: bool
  sc_is_public :: bool
  sc_support_included :: bool

record billing_plan =
  bp_id :: int
  bp_flash_service_id :: string
  bp_flash_plan_id :: string
  bp_scheduling_id :: int
  bp_is_active :: bool

record user_subscription =
  us_pubkey :: string
  us_flash_subscription_id :: string
  us_flash_subscriber_id :: "string option"
  us_billing_plan_id :: int
  us_granted_scheduling_id :: "int option"
  us_flash_status :: string
  us_current_period_start :: "datetime option"
  us_current_period_end :: "datetime option"
  us_next_billing_date :: "datetime option"
  us_trial_end_date :: "datetime option"
  us_cancel_effective_date :: "datetime option"
  us_portal_url :: "string option"
  us_pricing_amount_minor :: "int option"
  us_pricing_currency :: "string option"
  us_pricing_billing_interval :: "string option"
  us_rail :: "string option"
  us_last_event_at :: "datetime option"
  us_last_synced_at :: "datetime option"
  us_last_sync_error :: "string option"
  us_sync_error_since :: "datetime option"
  us_created_at :: datetime

record flash_webhook_event =
  we_id :: int
  we_event :: string
  we_event_timestamp :: "datetime option"
  we_delivery_timestamp :: int
  we_subscription_id :: "string option"
  we_payload :: "json option"
  we_processing_started_at :: "datetime option"
  we_processed_at :: "datetime option"
  we_attempts :: int
  we_process_error :: "string option"
  we_resolved_by :: "string option"
  we_resolution :: "string option"
  we_dedupe_key :: string
  we_created_at :: datetime

record db =
  nsecs :: "brainstorm_nsec list"
  schedulings :: "scheduling list"
  billing_plans :: "billing_plan list"
  user_subscriptions :: "user_subscription list"
  webhook_events :: "flash_webhook_event list"
  next_event_id :: int
  next_plan_id :: int

text \<open>The constraints the tables declare: primary keys, the unique pair of Flash ids, the
  unique dedupe key, and sequences that are ahead of every id they handed out.\<close>

definition db_wf :: "db \<Rightarrow> bool" where
  "db_wf d \<longleftrightarrow> unique_on bn_pubkey (nsecs d)
     \<and> unique_on bp_id (billing_plans d)
     \<and> unique_on (\<lambda>p. (bp_flash_service_id p, bp_flash_plan_id p)) (billing_plans d)
     \<and> unique_on us_pubkey (user_subscriptions d)
     \<and> unique_on we_id (webhook_events d)
     \<and> unique_on we_dedupe_key (webhook_events d)
     \<and> (\<forall>e \<in> set (webhook_events d). we_id e < next_event_id d)
     \<and> (\<forall>p \<in> set (billing_plans d). bp_id p < next_plan_id d)"

section \<open>Users\<close>

definition nsec_of :: "string \<Rightarrow> db \<Rightarrow> brainstorm_nsec option" where
  "nsec_of pubkey d = lookup_by bn_pubkey pubkey (nsecs d)"

text \<open>
  The key material of a new row is a parameter: \<open>keys\<close> gives for a pubkey the random
  nsec \<^verbatim>\<open>generate_random_nsec\<close> draws and its ciphertext.
\<close>

type_synonym keygen = "string \<Rightarrow> string \<times> string"

definition fresh_nsec :: "keygen \<Rightarrow> string \<Rightarrow> brainstorm_nsec" where
  "fresh_nsec keys pubkey =
     \<lparr>bn_nsec = fst (keys pubkey), bn_encrypted_nsec = Some (snd (keys pubkey)), bn_pubkey = pubkey,
      bn_last_time_triggered_graperank = None, bn_last_time_calculated_graperank = None,
      bn_last_time_published_graperank = None, bn_assistant_kind0_published_at = None,
      bn_graperank_preset = None, bn_graperank_custom_params = None, bn_last_published_pubkeys = None,
      bn_last_published_graperank_request_id = None, bn_runs_since_full = 0, bn_last_neo4j_cleanup_at = None,
      bn_scheduling_id = None, bn_billing_blocked = False, bn_session_version = 0,
      bn_treasure_map_on = False, bn_scheduling_source = SOURCE_DEFAULT\<rparr>"

definition get_or_create_brainstorm_observer_nsec_by_pubkey_on_db ::
  "keygen \<Rightarrow> string \<Rightarrow> db \<Rightarrow> (brainstorm_nsec \<times> bool) \<times> db" where
  "get_or_create_brainstorm_observer_nsec_by_pubkey_on_db keys pubkey d =
     (case nsec_of pubkey d of
        Some row \<Rightarrow> ((row, False), d)
      | None \<Rightarrow> let row = fresh_nsec keys pubkey in ((row, True), d\<lparr>nsecs := nsecs d @ [row]\<rparr>))"

definition update_nsec :: "string \<Rightarrow> (brainstorm_nsec \<Rightarrow> brainstorm_nsec) \<Rightarrow> db \<Rightarrow> db" where
  "update_nsec pubkey f d = d\<lparr>nsecs := sql_update (\<lambda>r. bn_pubkey r = pubkey) f (nsecs d)\<rparr>"

definition update_last_time_triggered_graperank_on_db :: "string \<Rightarrow> datetime \<Rightarrow> db \<Rightarrow> db" where
  "update_last_time_triggered_graperank_on_db pubkey at =
     update_nsec pubkey (\<lambda>r. r\<lparr>bn_last_time_triggered_graperank := Some at\<rparr>)"

definition update_last_time_calculated_graperank_on_db :: "string \<Rightarrow> datetime \<Rightarrow> db \<Rightarrow> db" where
  "update_last_time_calculated_graperank_on_db pubkey at =
     update_nsec pubkey (\<lambda>r. r\<lparr>bn_last_time_calculated_graperank := Some at\<rparr>)"

definition update_last_time_published_graperank_on_db :: "string \<Rightarrow> datetime \<Rightarrow> db \<Rightarrow> db" where
  "update_last_time_published_graperank_on_db pubkey at =
     update_nsec pubkey (\<lambda>r. r\<lparr>bn_last_time_published_graperank := Some at\<rparr>)"

definition set_treasure_map_on_by_pubkey_on_db :: "string \<Rightarrow> bool \<Rightarrow> db \<Rightarrow> db" where
  "set_treasure_map_on_by_pubkey_on_db pubkey on = update_nsec pubkey (\<lambda>r. r\<lparr>bn_treasure_map_on := on\<rparr>)"

definition update_assistant_kind0_published_at_on_db :: "string \<Rightarrow> datetime \<Rightarrow> db \<Rightarrow> db" where
  "update_assistant_kind0_published_at_on_db pubkey at =
     update_nsec pubkey (\<lambda>r. r\<lparr>bn_assistant_kind0_published_at := Some at\<rparr>)"

definition set_graperank_preset_by_pubkey_on_db :: "keygen \<Rightarrow> string \<Rightarrow> string \<Rightarrow> db \<Rightarrow> db" where
  "set_graperank_preset_by_pubkey_on_db keys pubkey preset d =
     update_nsec pubkey (\<lambda>r. r\<lparr>bn_graperank_preset := Some preset\<rparr>)
       (snd (get_or_create_brainstorm_observer_nsec_by_pubkey_on_db keys pubkey d))"

definition set_graperank_custom_params_by_pubkey_on_db :: "keygen \<Rightarrow> string \<Rightarrow> json \<Rightarrow> db \<Rightarrow> db" where
  "set_graperank_custom_params_by_pubkey_on_db keys pubkey params d =
     update_nsec pubkey (\<lambda>r. r\<lparr>bn_graperank_custom_params := Some params\<rparr>)
       (snd (get_or_create_brainstorm_observer_nsec_by_pubkey_on_db keys pubkey d))"

definition get_scheduling_on_db :: "int \<Rightarrow> db \<Rightarrow> scheduling option" where
  "get_scheduling_on_db sid d = lookup_by sc_id sid (schedulings d)"

definition get_default_scheduling_on_db :: "db \<Rightarrow> scheduling option" where
  "get_default_scheduling_on_db d = find sc_is_default (schedulings d)"

definition scheduling_exists_on_db :: "int \<Rightarrow> db \<Rightarrow> bool" where
  "scheduling_exists_on_db sid d \<longleftrightarrow> get_scheduling_on_db sid d \<noteq> None"

definition select_public_scheduling_on_db :: "db \<Rightarrow> scheduling list" where
  "select_public_scheduling_on_db d =
     sort_key (\<lambda>s. of_bool (\<not> sc_is_default s) :: nat) (sort_key sc_id (filter sc_is_public (schedulings d)))"

definition get_scheduling_for_pubkey_on_db :: "string \<Rightarrow> db \<Rightarrow> scheduling option" where
  "get_scheduling_for_pubkey_on_db pubkey d =
     (case Option.bind (nsec_of pubkey d) bn_scheduling_id of
        None \<Rightarrow> get_default_scheduling_on_db d
      | Some sid \<Rightarrow>
          (case get_scheduling_on_db sid d of
             None \<Rightarrow> get_default_scheduling_on_db d
           | Some row \<Rightarrow> Some row))"

definition bulk_set_scheduling_for_pubkeys_on_db :: "string list \<Rightarrow> int \<Rightarrow> string \<Rightarrow> db \<Rightarrow> nat \<times> db" where
  "bulk_set_scheduling_for_pubkeys_on_db pubkeys sid source d =
     (if pubkeys = [] then (0, d)
      else (sql_count (\<lambda>r. bn_pubkey r \<in> set pubkeys) (nsecs d),
            d\<lparr>nsecs := sql_update (\<lambda>r. bn_pubkey r \<in> set pubkeys)
               (\<lambda>r. r\<lparr>bn_scheduling_id := Some sid, bn_scheduling_source := source\<rparr>) (nsecs d)\<rparr>))"

definition is_billing_blocked_on_db :: "string \<Rightarrow> db \<Rightarrow> bool" where
  "is_billing_blocked_on_db pubkey d = (case nsec_of pubkey d of None \<Rightarrow> False | Some r \<Rightarrow> bn_billing_blocked r)"

definition get_assigned_scheduling_id_on_db :: "string \<Rightarrow> db \<Rightarrow> int option" where
  "get_assigned_scheduling_id_on_db pubkey d = Option.bind (nsec_of pubkey d) bn_scheduling_id"

definition set_billing_blocked_on_db :: "string \<Rightarrow> bool \<Rightarrow> db \<Rightarrow> db" where
  "set_billing_blocked_on_db pubkey blocked = update_nsec pubkey (\<lambda>r. r\<lparr>bn_billing_blocked := blocked\<rparr>)"

definition get_scheduling_source_on_db :: "string \<Rightarrow> db \<Rightarrow> string" where
  "get_scheduling_source_on_db pubkey d =
     (case nsec_of pubkey d of
        None \<Rightarrow> SOURCE_DEFAULT
      | Some r \<Rightarrow> if bn_scheduling_source r = [] then SOURCE_DEFAULT else bn_scheduling_source r)"

definition set_scheduling_for_pubkey_on_db :: "keygen \<Rightarrow> string \<Rightarrow> int option \<Rightarrow> string \<Rightarrow> db \<Rightarrow> db" where
  "set_scheduling_for_pubkey_on_db keys pubkey sid source d =
     update_nsec pubkey (\<lambda>r. r\<lparr>bn_scheduling_id := sid, bn_scheduling_source := source\<rparr>)
       (snd (get_or_create_brainstorm_observer_nsec_by_pubkey_on_db keys pubkey d))"

definition increment_runs_since_full_on_db :: "string \<Rightarrow> db \<Rightarrow> db" where
  "increment_runs_since_full_on_db pubkey =
     update_nsec pubkey (\<lambda>r. r\<lparr>bn_runs_since_full := bn_runs_since_full r + 1\<rparr>)"

definition reset_runs_since_full_on_db :: "string \<Rightarrow> db \<Rightarrow> db" where
  "reset_runs_since_full_on_db pubkey = update_nsec pubkey (\<lambda>r. r\<lparr>bn_runs_since_full := 0\<rparr>)"

definition mark_neo4j_cleanup_on_db :: "string \<Rightarrow> datetime \<Rightarrow> db \<Rightarrow> db" where
  "mark_neo4j_cleanup_on_db pubkey utc = update_nsec pubkey (\<lambda>r. r\<lparr>bn_last_neo4j_cleanup_at := Some utc\<rparr>)"

definition brainstorm_nsec_exists_by_pubkey_on_db :: "string \<Rightarrow> db \<Rightarrow> bool" where
  "brainstorm_nsec_exists_by_pubkey_on_db pubkey d \<longleftrightarrow> nsec_of pubkey d \<noteq> None"

definition get_pov_availability_fields_on_db :: "string \<Rightarrow> db \<Rightarrow> bool \<times> bool" where
  "get_pov_availability_fields_on_db pubkey d =
     (case nsec_of pubkey d of
        None \<Rightarrow> (False, False)
      | Some r \<Rightarrow> (True, bn_last_time_calculated_graperank r \<noteq> None))"

definition get_session_version_on_db :: "string \<Rightarrow> db \<Rightarrow> int" where
  "get_session_version_on_db pubkey d = (case nsec_of pubkey d of None \<Rightarrow> 0 | Some r \<Rightarrow> bn_session_version r)"

definition bump_session_version_on_db :: "string \<Rightarrow> db \<Rightarrow> int option \<times> db" where
  "bump_session_version_on_db pubkey d =
     (let d' = update_nsec pubkey (\<lambda>r. r\<lparr>bn_session_version := bn_session_version r + 1\<rparr>) d
      in (map_option bn_session_version (nsec_of pubkey d'), d'))"

text \<open>\<open>locked\<close> says which user rows another transaction holds. Without \<open>skip_locked\<close>
  the statement waits for it and then holds the row.\<close>

definition lock_user_for_update_on_db :: "(string \<Rightarrow> bool) \<Rightarrow> string \<Rightarrow> bool \<Rightarrow> db \<Rightarrow> bool" where
  "lock_user_for_update_on_db locked pubkey skip_locked d \<longleftrightarrow>
     nsec_of pubkey d \<noteq> None \<and> \<not> (skip_locked \<and> locked pubkey)"

section \<open>Conditions of SQL\<close>

text \<open>A condition over a null column is null, and a row is selected where its condition
  holds: not where it is false, and not where it is null.\<close>

type_synonym sql_bool = "bool option"

definition sql_and :: "sql_bool \<Rightarrow> sql_bool \<Rightarrow> sql_bool" where
  "sql_and a b =
     (if a = Some False \<or> b = Some False then Some False
      else if a = None \<or> b = None then None else Some True)"

definition sql_or :: "sql_bool \<Rightarrow> sql_bool \<Rightarrow> sql_bool" where
  "sql_or a b =
     (if a = Some True \<or> b = Some True then Some True
      else if a = None \<or> b = None then None else Some False)"

definition sql_not :: "sql_bool \<Rightarrow> sql_bool" where
  "sql_not a = map_option Not a"

definition sql_cmp :: "('a \<Rightarrow> bool) \<Rightarrow> 'a option \<Rightarrow> sql_bool" where
  "sql_cmp p column = map_option p column"

lemma sql_logic [simp]:
  "sql_and (Some x) (Some y) = Some (x \<and> y)" "sql_or (Some x) (Some y) = Some (x \<or> y)"
  "sql_and a (Some False) = Some False" "sql_and (Some False) a = Some False"
  "sql_and a (Some True) = a" "sql_and (Some True) a = a"
  "sql_not (Some x) = Some (\<not> x)" "sql_not None = None" "sql_cmp p (Some v) = Some (p v)" "sql_cmp p None = None"
  by (cases a; auto simp: sql_and_def sql_or_def sql_not_def sql_cmp_def)+

definition sql_where :: "('r \<Rightarrow> sql_bool) \<Rightarrow> 'r list \<Rightarrow> 'r list" where
  "sql_where p rows = filter (\<lambda>r. p r = Some True) rows"

section \<open>Subscriptions\<close>

record abandon_rule =
  abandon_after :: timedelta
  abandon_error :: string

definition abandon_condition :: "abandon_rule \<Rightarrow> datetime \<Rightarrow> user_subscription \<Rightarrow> sql_bool" where
  "abandon_condition rule utc row =
     sql_and (Some (us_flash_status row = ''pending''))
    (sql_and (Some (us_granted_scheduling_id row = None))
    (sql_and (sql_cmp (\<lambda>e. e = abandon_error rule) (us_last_sync_error row))
    (sql_and (Some (us_sync_error_since row \<noteq> None))
             (sql_cmp (\<lambda>t. t \<le> utc - abandon_after rule) (us_sync_error_since row)))))"

definition abandon_matches :: "abandon_rule \<Rightarrow> user_subscription \<Rightarrow> datetime \<Rightarrow> bool" where
  "abandon_matches rule row utc \<longleftrightarrow>
     us_flash_status row = ''pending''
     \<and> us_granted_scheduling_id row = None
     \<and> us_last_sync_error row = Some (abandon_error rule)
     \<and> (case us_sync_error_since row of None \<Rightarrow> False | Some t \<Rightarrow> t \<le> utc - abandon_after rule)"

definition settled_condition :: "user_subscription \<Rightarrow> sql_bool" where
  "settled_condition row =
     Some (us_flash_status row = ''expired'' \<and> us_granted_scheduling_id row = None \<and> us_last_sync_error row = None)"

definition get_user_subscription_on_db :: "string \<Rightarrow> db \<Rightarrow> user_subscription option" where
  "get_user_subscription_on_db pubkey d = lookup_by us_pubkey pubkey (user_subscriptions d)"

definition get_user_subscription_by_flash_id_on_db :: "string \<Rightarrow> db \<Rightarrow> user_subscription option" where
  "get_user_subscription_by_flash_id_on_db sid d = lookup_by us_flash_subscription_id sid (user_subscriptions d)"

text \<open>The columns an upsert sets, in place on a row: everything Flash said, the plan, the
  grant, and a read that succeeded now.\<close>

definition record_flash_view ::
  "flash_subscription \<Rightarrow> int \<Rightarrow> int option \<Rightarrow> datetime \<Rightarrow> user_subscription \<Rightarrow> user_subscription" where
  "record_flash_view sub plan_id granted utc row =
     row\<lparr>us_flash_subscription_id := fs_id sub,
         us_flash_subscriber_id := text_of (fs_subscriber_id sub),
         us_billing_plan_id := plan_id,
         us_granted_scheduling_id := granted,
         us_flash_status := fs_status sub,
         us_current_period_start := fs_current_period_start sub,
         us_current_period_end := fs_current_period_end sub,
         us_next_billing_date := fs_next_billing_date sub,
         us_trial_end_date := fs_trial_end_date sub,
         us_cancel_effective_date := fs_cancel_effective_date sub,
         us_portal_url := fs_portal_url sub,
         us_pricing_amount_minor := Option.bind (fs_pricing sub) pricing_amount_minor,
         us_pricing_currency := Option.bind (fs_pricing sub) pricing_currency,
         us_pricing_billing_interval := Option.bind (fs_pricing sub) pricing_billing_interval,
         us_last_synced_at := Some utc,
         us_last_sync_error := None,
         us_sync_error_since := None\<rparr>"

definition blank_subscription :: "string \<Rightarrow> datetime \<Rightarrow> user_subscription" where
  "blank_subscription pubkey utc =
     \<lparr>us_pubkey = pubkey, us_flash_subscription_id = [], us_flash_subscriber_id = None,
      us_billing_plan_id = 0, us_granted_scheduling_id = None, us_flash_status = [],
      us_current_period_start = None, us_current_period_end = None, us_next_billing_date = None,
      us_trial_end_date = None, us_cancel_effective_date = None, us_portal_url = None,
      us_pricing_amount_minor = None, us_pricing_currency = None, us_pricing_billing_interval = None,
      us_rail = None, us_last_event_at = None, us_last_synced_at = None, us_last_sync_error = None,
      us_sync_error_since = None, us_created_at = utc\<rparr>"

definition upsert_user_subscription_on_db ::
  "string \<Rightarrow> flash_subscription \<Rightarrow> int \<Rightarrow> int option \<Rightarrow> datetime \<Rightarrow> db \<Rightarrow> db" where
  "upsert_user_subscription_on_db pubkey sub plan_id granted utc d =
     d\<lparr>user_subscriptions :=
        sql_upsert us_pubkey (record_flash_view sub plan_id granted utc)
          (record_flash_view sub plan_id granted utc (blank_subscription pubkey utc))
          (user_subscriptions d)\<rparr>"

text \<open>What the driver asks of the values bound by the upsert.\<close>

definition text_opt_ok :: "string option \<Rightarrow> bool" where
  "text_opt_ok s = (case s of None \<Rightarrow> True | Some t \<Rightarrow> no_nul t)"

definition storable_subscription :: "flash_subscription \<Rightarrow> bool" where
  "storable_subscription sub \<longleftrightarrow>
     no_nul (fs_id sub) \<and> text_ok (fs_subscriber_id sub) \<and> no_nul (fs_status sub)
     \<and> text_opt_ok (fs_portal_url sub)
     \<and> (case fs_pricing sub of None \<Rightarrow> True
        | Some pr \<Rightarrow> (case pricing_amount_minor pr of None \<Rightarrow> True | Some a \<Rightarrow> int4 a)
                    \<and> text_opt_ok (pricing_currency pr) \<and> text_opt_ok (pricing_billing_interval pr))"

definition count_subscriptions_for_plan_on_db :: "int \<Rightarrow> db \<Rightarrow> nat" where
  "count_subscriptions_for_plan_on_db plan_id d =
     sql_count (\<lambda>s. us_billing_plan_id s = plan_id) (user_subscriptions d)"

definition select_entitlement_candidates_on_db :: "db \<Rightarrow> user_subscription list" where
  "select_entitlement_candidates_on_db d =
     filter (\<lambda>s. us_granted_scheduling_id s \<noteq> None) (user_subscriptions d)"

definition update_subscription :: "string \<Rightarrow> (user_subscription \<Rightarrow> user_subscription) \<Rightarrow> db \<Rightarrow> db" where
  "update_subscription pubkey f d =
     d\<lparr>user_subscriptions := sql_update (\<lambda>s. us_pubkey s = pubkey) f (user_subscriptions d)\<rparr>"

definition clear_granted_scheduling_on_db :: "string \<Rightarrow> db \<Rightarrow> db" where
  "clear_granted_scheduling_on_db pubkey =
     update_subscription pubkey (\<lambda>s. s\<lparr>us_granted_scheduling_id := None\<rparr>)"

definition update_flash_status_on_db :: "string \<Rightarrow> string \<Rightarrow> datetime option \<Rightarrow> db \<Rightarrow> db" where
  "update_flash_status_on_db pubkey status cancel_effective_date =
     update_subscription pubkey
       (\<lambda>s. case cancel_effective_date of
              None \<Rightarrow> s\<lparr>us_flash_status := status\<rparr>
            | Some t \<Rightarrow> s\<lparr>us_flash_status := status, us_cancel_effective_date := Some t\<rparr>)"

definition advance_event_at :: "datetime \<Rightarrow> user_subscription \<Rightarrow> user_subscription" where
  "advance_event_at t s =
     (if (case us_last_event_at s of None \<Rightarrow> True | Some u \<Rightarrow> u < t)
      then s\<lparr>us_last_event_at := Some t\<rparr> else s)"

definition update_last_event_at_on_db :: "string option \<Rightarrow> datetime option \<Rightarrow> db \<Rightarrow> db" where
  "update_last_event_at_on_db pubkey event_timestamp d =
     (case event_timestamp of
        Some t \<Rightarrow> if given pubkey then update_subscription (the pubkey) (advance_event_at t) d else d
      | None \<Rightarrow> d)"

definition reconcile_due :: "datetime \<Rightarrow> timedelta \<Rightarrow> user_subscription \<Rightarrow> bool" where
  "reconcile_due utc stale_after s \<longleftrightarrow>
     us_flash_status s \<in> {PAST_DUE_STATUS, PENDING_STATUS}
     \<or> us_flash_status s = ''active'' \<and> (\<exists>t \<in> set_option (us_current_period_end s). t \<le> utc)
     \<or> (\<exists>t \<in> set_option (us_next_billing_date s). t \<le> utc + timedelta_hours 1)
     \<or> us_last_synced_at s = None
     \<or> (\<exists>t \<in> set_option (us_last_synced_at s). t \<le> utc - stale_after)"

definition select_reconcile_candidates_on_db ::
  "datetime \<Rightarrow> timedelta \<Rightarrow> nat \<Rightarrow> abandon_rule \<Rightarrow> db \<Rightarrow> user_subscription list" where
  "select_reconcile_candidates_on_db utc stale_after limit rule d =
     take limit (sort_key us_last_synced_at
       (sql_where (\<lambda>s. sql_and (Some (reconcile_due utc stale_after s))
                   (sql_and (sql_not (abandon_condition rule utc s)) (sql_not (settled_condition s))))
         (user_subscriptions d)))"

definition note_sync_failure :: "string \<Rightarrow> datetime \<Rightarrow> user_subscription \<Rightarrow> user_subscription" where
  "note_sync_failure reason utc s =
     s\<lparr>us_last_sync_error := Some reason,
       us_last_synced_at := Some utc,
       us_sync_error_since :=
         (if us_last_sync_error s = Some reason \<and> us_sync_error_since s \<noteq> None
          then us_sync_error_since s else Some utc)\<rparr>"

definition record_sync_failure_on_db :: "string \<Rightarrow> string \<Rightarrow> datetime \<Rightarrow> db \<Rightarrow> db" where
  "record_sync_failure_on_db pubkey reason utc = update_subscription pubkey (note_sync_failure reason utc)"

section \<open>Plans\<close>

definition get_billing_plan_on_db :: "string \<Rightarrow> string \<Rightarrow> db \<Rightarrow> billing_plan option" where
  "get_billing_plan_on_db service plan d =
     lookup_by (\<lambda>p. (bp_flash_service_id p, bp_flash_plan_id p)) (service, plan) (billing_plans d)"

definition select_billing_plans_on_db :: "bool \<Rightarrow> db \<Rightarrow> billing_plan list" where
  "select_billing_plans_on_db only_active d =
     sort_key bp_id (filter (\<lambda>p. only_active \<longrightarrow> bp_is_active p) (billing_plans d))"

definition get_billing_plan_by_id_on_db :: "int \<Rightarrow> db \<Rightarrow> billing_plan option" where
  "get_billing_plan_by_id_on_db plan_id d = lookup_by bp_id plan_id (billing_plans d)"

definition insert_billing_plan_on_db :: "string \<Rightarrow> string \<Rightarrow> int \<Rightarrow> bool \<Rightarrow> db \<Rightarrow> billing_plan \<times> db" where
  "insert_billing_plan_on_db service plan sid active d =
     (let row = \<lparr>bp_id = next_plan_id d, bp_flash_service_id = service, bp_flash_plan_id = plan,
                 bp_scheduling_id = sid, bp_is_active = active\<rparr>
      in (row, d\<lparr>billing_plans := billing_plans d @ [row], next_plan_id := next_plan_id d + 1\<rparr>))"

text \<open>The fields an admin sent for a plan; None is a field that was not sent.\<close>

record plan_values =
  pv_flash_service_id :: "string option"
  pv_flash_plan_id :: "string option"
  pv_scheduling_id :: "int option"
  pv_is_active :: "bool option"

definition or_keep :: "'a option \<Rightarrow> 'a \<Rightarrow> 'a" where
  "or_keep v x = (case v of None \<Rightarrow> x | Some y \<Rightarrow> y)"

definition assign_plan :: "plan_values \<Rightarrow> billing_plan \<Rightarrow> billing_plan" where
  "assign_plan v p =
     p\<lparr>bp_flash_service_id := or_keep (pv_flash_service_id v) (bp_flash_service_id p),
       bp_flash_plan_id := or_keep (pv_flash_plan_id v) (bp_flash_plan_id p),
       bp_scheduling_id := or_keep (pv_scheduling_id v) (bp_scheduling_id p),
       bp_is_active := or_keep (pv_is_active v) (bp_is_active p)\<rparr>"

definition update_billing_plan_on_db :: "int \<Rightarrow> plan_values \<Rightarrow> db \<Rightarrow> billing_plan option \<times> db" where
  "update_billing_plan_on_db plan_id v d =
     (case get_billing_plan_by_id_on_db plan_id d of
        None \<Rightarrow> (None, d)
      | Some p \<Rightarrow> (Some (assign_plan v p),
          d\<lparr>billing_plans := sql_update (\<lambda>r. bp_id r = plan_id) (assign_plan v) (billing_plans d)\<rparr>))"

section \<open>The webhook inbox\<close>

definition event_with ::
  "string \<Rightarrow> int \<Rightarrow> datetime option \<Rightarrow> string option \<Rightarrow> json \<Rightarrow> string \<Rightarrow> datetime option \<Rightarrow> datetime \<Rightarrow> int
     \<Rightarrow> flash_webhook_event" where
  "event_with event delivery_timestamp event_timestamp subscription_id payload dedupe_key claimed_at utc eid =
     \<lparr>we_id = eid, we_event = event, we_event_timestamp = event_timestamp,
      we_delivery_timestamp = delivery_timestamp, we_subscription_id = subscription_id,
      we_payload = Some payload, we_processing_started_at = claimed_at, we_processed_at = None,
      we_attempts = (if claimed_at = None then 0 else 1), we_process_error = None,
      we_resolved_by = None, we_resolution = None, we_dedupe_key = dedupe_key, we_created_at = utc\<rparr>"

text \<open>A conflicting insert draws its id from the sequence too.\<close>

definition insert_flash_webhook_event_on_db ::
  "string \<Rightarrow> int \<Rightarrow> datetime option \<Rightarrow> string option \<Rightarrow> json \<Rightarrow> string \<Rightarrow> datetime option \<Rightarrow> datetime
     \<Rightarrow> db \<Rightarrow> int option \<times> db" where
  "insert_flash_webhook_event_on_db event delivery_timestamp event_timestamp subscription_id payload dedupe_key
       claimed_at utc d =
     (let d' = d\<lparr>next_event_id := next_event_id d + 1\<rparr> in
      if lookup_by we_dedupe_key dedupe_key (webhook_events d) \<noteq> None then (None, d')
      else (Some (next_event_id d),
            d'\<lparr>webhook_events := webhook_events d @
                 [event_with event delivery_timestamp event_timestamp subscription_id payload dedupe_key
                    claimed_at utc (next_event_id d)]\<rparr>))"

definition claimable :: "datetime \<Rightarrow> timedelta \<Rightarrow> flash_webhook_event \<Rightarrow> bool" where
  "claimable utc stale_after e \<longleftrightarrow>
     we_processed_at e = None
     \<and> (case we_processing_started_at e of None \<Rightarrow> True | Some t \<Rightarrow> t \<le> utc - stale_after)"

definition select_abandoned_webhook_events_on_db ::
  "datetime \<Rightarrow> timedelta \<Rightarrow> int \<Rightarrow> nat \<Rightarrow> string set \<Rightarrow> db \<Rightarrow> flash_webhook_event list" where
  "select_abandoned_webhook_events_on_db utc stale_after max_attempts limit names d =
     take limit (sort_key we_created_at
       (filter (\<lambda>e. claimable utc stale_after e \<and> we_attempts e < max_attempts \<and> we_event e \<in> names)
         (webhook_events d)))"

definition update_events :: "(flash_webhook_event \<Rightarrow> bool) \<Rightarrow> (flash_webhook_event \<Rightarrow> flash_webhook_event) \<Rightarrow> db \<Rightarrow> db" where
  "update_events p f d = d\<lparr>webhook_events := sql_update p f (webhook_events d)\<rparr>"

definition claim_webhook_event_on_db :: "int \<Rightarrow> datetime \<Rightarrow> timedelta \<Rightarrow> db \<Rightarrow> bool \<times> db" where
  "claim_webhook_event_on_db event_id utc stale_after d =
     (let p = (\<lambda>e. we_id e = event_id \<and> claimable utc stale_after e) in
      (\<exists>e \<in> set (webhook_events d). p e,
       update_events p (\<lambda>e. e\<lparr>we_processing_started_at := Some utc, we_attempts := we_attempts e + 1\<rparr>) d))"

definition mark_webhook_event_processed_on_db :: "int \<Rightarrow> datetime \<Rightarrow> db \<Rightarrow> db" where
  "mark_webhook_event_processed_on_db event_id utc =
     update_events (\<lambda>e. we_id e = event_id) (\<lambda>e. e\<lparr>we_processed_at := Some utc, we_process_error := None\<rparr>)"

text \<open>\<^verbatim>\<open>payload -> 'data' ->> key\<close>: null where the payload, its \<^verbatim>\<open>data\<close> or the key is not
  there. No value but the empty string prints as the empty text.\<close>

definition payload_data :: "flash_webhook_event \<Rightarrow> string \<Rightarrow> json" where
  "payload_data e k = (case we_payload e of None \<Rightarrow> JNull | Some p \<Rightarrow> get_in (get_in p ''data'') k)"

definition unattributed :: "flash_webhook_event \<Rightarrow> bool" where
  "unattributed e \<longleftrightarrow> payload_data e ''externalRef'' \<in> {JNull, JStr []}"

definition settle_scope :: "string \<Rightarrow> bool \<Rightarrow> flash_webhook_event \<Rightarrow> bool" where
  "settle_scope subscription_id only_unattributed e \<longleftrightarrow>
     we_subscription_id e = Some subscription_id \<and> we_processed_at e = None
     \<and> (only_unattributed \<longrightarrow> unattributed e)"

definition settle_unresolved_events_on_db ::
  "string \<Rightarrow> datetime \<Rightarrow> string \<Rightarrow> string \<Rightarrow> bool \<Rightarrow> db \<Rightarrow> nat \<times> db" where
  "settle_unresolved_events_on_db subscription_id utc resolution resolved_by only_unattributed d =
     (sql_count (settle_scope subscription_id only_unattributed) (webhook_events d),
      update_events (settle_scope subscription_id only_unattributed)
        (\<lambda>e. e\<lparr>we_processed_at := Some utc, we_process_error := None,
              we_resolution := Some resolution, we_resolved_by := Some resolved_by\<rparr>) d)"

definition record_webhook_event_failure_on_db :: "int \<Rightarrow> string \<Rightarrow> db \<Rightarrow> db" where
  "record_webhook_event_failure_on_db event_id reason =
     update_events (\<lambda>e. we_id e = event_id) (\<lambda>e. e\<lparr>we_process_error := Some reason\<rparr>)"

definition unapplied :: "flash_webhook_event \<Rightarrow> bool" where
  "unapplied e \<longleftrightarrow> we_processed_at e = None \<and> we_process_error e \<noteq> None"

text \<open>Newest first; rows created together keep insertion order.\<close>

definition select_unresolved_signups_on_db :: "nat \<Rightarrow> db \<Rightarrow> flash_webhook_event list" where
  "select_unresolved_signups_on_db limit d =
     take limit (sort_key (\<lambda>e. - we_created_at e) (filter (\<lambda>e. unapplied e \<and> unattributed e) (webhook_events d)))"

definition select_unmapped_plan_events_on_db :: "nat \<Rightarrow> db \<Rightarrow> flash_webhook_event list" where
  "select_unmapped_plan_events_on_db limit d =
     take limit (sort_key (\<lambda>e. - we_created_at e) (filter (\<lambda>e. unapplied e \<and> \<not> unattributed e) (webhook_events d)))"

text \<open>\<^verbatim>\<open>->>\<close> of a scalar; how \<^verbatim>\<open>jsonb\<close> prints a float, an array or an object is PostgreSQL's
  own, the parameter \<open>jsonb_text\<close>.\<close>

fun astext :: "(json \<Rightarrow> string) \<Rightarrow> json \<Rightarrow> string option" where
  "astext jsonb_text JNull = None"
| "astext jsonb_text (JStr s) = Some s"
| "astext jsonb_text (JInt i) = Some (show_int i)"
| "astext jsonb_text (JBool b) = Some (if b then ''true'' else ''false'')"
| "astext jsonb_text v = Some (jsonb_text v)"

definition awaits_plan :: "(json \<Rightarrow> string) \<Rightarrow> string \<Rightarrow> string \<Rightarrow> string \<Rightarrow> flash_webhook_event \<Rightarrow> bool" where
  "awaits_plan jsonb_text service plan error e \<longleftrightarrow>
     we_processed_at e = None \<and> we_process_error e = Some error
     \<and> astext jsonb_text (payload_data e ''serviceId'') = Some service
     \<and> astext jsonb_text (payload_data e ''planId'') = Some plan"

definition reset_events_awaiting_plan_on_db ::
  "(json \<Rightarrow> string) \<Rightarrow> string \<Rightarrow> string \<Rightarrow> string \<Rightarrow> db \<Rightarrow> nat \<times> db" where
  "reset_events_awaiting_plan_on_db jsonb_text service plan error d =
     (sql_count (awaits_plan jsonb_text service plan error) (webhook_events d),
      update_events (awaits_plan jsonb_text service plan error)
        (\<lambda>e. e\<lparr>we_attempts := 0, we_process_error := None\<rparr>) d)"

definition select_exhausted_events_on_db :: "int \<Rightarrow> nat \<Rightarrow> db \<Rightarrow> flash_webhook_event list" where
  "select_exhausted_events_on_db max_attempts limit d =
     take limit (filter (\<lambda>e. we_processed_at e = None \<and> we_attempts e \<ge> max_attempts) (webhook_events d))"

section \<open>What operators read\<close>

text \<open>Every report below joins \<^verbatim>\<open>user_subscription\<close> to \<^verbatim>\<open>brainstorm_nsec\<close> on the pubkey.\<close>

definition with_nsec :: "db \<Rightarrow> (user_subscription \<times> brainstorm_nsec) list" where
  "with_nsec d =
     List.map_filter (\<lambda>s. map_option (Pair s) (nsec_of (us_pubkey s) d)) (user_subscriptions d)"

definition select_policy_mismatches_on_db :: "bool \<Rightarrow> nat \<Rightarrow> db \<Rightarrow> (user_subscription \<times> brainstorm_nsec) list" where
  "select_policy_mismatches_on_db admin_held limit d =
     take limit (filter (\<lambda>(s, n).
        (bn_scheduling_source n = SOURCE_ADMIN) = admin_held
        \<and> us_granted_scheduling_id s \<noteq> None
        \<and> bn_scheduling_id n \<noteq> us_granted_scheduling_id s) (with_nsec d))"

definition select_stale_syncs_on_db ::
  "datetime \<Rightarrow> nat \<Rightarrow> datetime \<Rightarrow> abandon_rule \<Rightarrow> db \<Rightarrow> user_subscription list" where
  "select_stale_syncs_on_db older_than limit utc rule d =
     take limit (sql_where (\<lambda>s.
        sql_and (Some (case us_last_synced_at s of None \<Rightarrow> True | Some t \<Rightarrow> t \<le> older_than))
       (sql_and (sql_not (abandon_condition rule utc s)) (sql_not (settled_condition s)))) (user_subscriptions d))"

definition select_failing_syncs_on_db :: "nat \<Rightarrow> datetime \<Rightarrow> abandon_rule \<Rightarrow> db \<Rightarrow> user_subscription list" where
  "select_failing_syncs_on_db limit utc rule d =
     take limit (sql_where (\<lambda>s.
        sql_and (Some (us_last_sync_error s \<noteq> None)) (sql_not (abandon_condition rule utc s)))
       (user_subscriptions d))"

definition select_abandoned_checkouts_on_db :: "nat \<Rightarrow> datetime \<Rightarrow> abandon_rule \<Rightarrow> db \<Rightarrow> user_subscription list" where
  "select_abandoned_checkouts_on_db limit utc rule d =
     take limit (sql_where (abandon_condition rule utc) (user_subscriptions d))"

definition select_retired_plan_subscribers_on_db :: "nat \<Rightarrow> db \<Rightarrow> user_subscription list" where
  "select_retired_plan_subscribers_on_db limit d =
     take limit (filter (\<lambda>s.
        (case get_billing_plan_by_id_on_db (us_billing_plan_id s) d of None \<Rightarrow> False | Some p \<Rightarrow> \<not> bp_is_active p)
        \<and> settled_condition s = Some False) (user_subscriptions d))"

definition select_unrecognised_statuses_on_db :: "string list \<Rightarrow> db \<Rightarrow> (string \<times> nat) list" where
  "select_unrecognised_statuses_on_db known d =
     (let rows = filter (\<lambda>s. us_flash_status s \<notin> set known) (user_subscriptions d)
      in map (\<lambda>st. (st, sql_count (\<lambda>s. us_flash_status s = st) rows))
           (remdups (map us_flash_status rows)))"

record billing_subscription_row =
  br_subscription :: user_subscription
  br_nsec :: brainstorm_nsec
  br_granted_scheduling_name :: "string option"
  br_scheduling_name :: "string option"

definition build_billing_subscriptions_stmt :: "db \<Rightarrow> billing_subscription_row list" where
  "build_billing_subscriptions_stmt d =
     map (\<lambda>(s, n).
       \<lparr>br_subscription = s, br_nsec = n,
        br_granted_scheduling_name =
          map_option sc_name (Option.bind (us_granted_scheduling_id s) (\<lambda>i. get_scheduling_on_db i d)),
        br_scheduling_name =
          map_option sc_name (Option.bind (bn_scheduling_id n) (\<lambda>i. get_scheduling_on_db i d))\<rparr>)
     (sort_key (\<lambda>(s, n). - us_created_at s) (with_nsec d))"

section \<open>The statements as row writes\<close>

text \<open>No column a statement assigns is the key of its table, so each is a \<open>row_write\<close>,
  and the upsert is a \<open>row_upsert\<close>.\<close>

interpretation set_policy: row_write bn_pubkey "\<lambda>r. r\<lparr>bn_scheduling_id := sid, bn_scheduling_source := source\<rparr>"
  for sid :: "int option" and source :: string
  by unfold_locales simp

interpretation set_block: row_write bn_pubkey "\<lambda>r. r\<lparr>bn_billing_blocked := blocked\<rparr>" for blocked :: bool
  by unfold_locales simp

interpretation record_view: row_upsert us_pubkey "record_flash_view sub plan_id granted utc"
    "record_flash_view sub plan_id granted utc (blank_subscription pubkey utc)"
  for sub :: flash_subscription and plan_id :: int and granted :: "int option" and utc :: datetime and pubkey :: string
  by unfold_locales (simp add: record_flash_view_def)

interpretation clear_grant: row_write us_pubkey "\<lambda>s. s\<lparr>us_granted_scheduling_id := None\<rparr>"
  by unfold_locales simp

interpretation set_status: row_write us_pubkey
    "\<lambda>s. case cancels of None \<Rightarrow> s\<lparr>us_flash_status := status\<rparr>
         | Some t \<Rightarrow> s\<lparr>us_flash_status := status, us_cancel_effective_date := Some t\<rparr>"
  for cancels :: "datetime option" and status :: string
  by unfold_locales (simp split: option.split)

interpretation advance_event: row_write us_pubkey "advance_event_at t" for t :: datetime
  by unfold_locales (simp add: advance_event_at_def)

interpretation sync_failure: row_write us_pubkey "note_sync_failure reason utc" for reason :: string and utc :: datetime
  by unfold_locales (simp add: note_sync_failure_def)

interpretation retune_plan: row_write bp_id "assign_plan v" for v :: plan_values
  by unfold_locales (simp add: assign_plan_def)

section \<open>Users after a statement\<close>

lemma update_nsec_frame [frame_simps]:
  "schedulings (update_nsec p f d) = schedulings d" "billing_plans (update_nsec p f d) = billing_plans d"
  "user_subscriptions (update_nsec p f d) = user_subscriptions d"
  "webhook_events (update_nsec p f d) = webhook_events d"
  "next_event_id (update_nsec p f d) = next_event_id d" "next_plan_id (update_nsec p f d) = next_plan_id d"
  by (simp_all add: update_nsec_def)

lemma get_or_create_frame [frame_simps]:
  "schedulings (snd (get_or_create_brainstorm_observer_nsec_by_pubkey_on_db keys p d)) = schedulings d"
  "billing_plans (snd (get_or_create_brainstorm_observer_nsec_by_pubkey_on_db keys p d)) = billing_plans d"
  "user_subscriptions (snd (get_or_create_brainstorm_observer_nsec_by_pubkey_on_db keys p d)) = user_subscriptions d"
  "webhook_events (snd (get_or_create_brainstorm_observer_nsec_by_pubkey_on_db keys p d)) = webhook_events d"
  "next_event_id (snd (get_or_create_brainstorm_observer_nsec_by_pubkey_on_db keys p d)) = next_event_id d"
  "next_plan_id (snd (get_or_create_brainstorm_observer_nsec_by_pubkey_on_db keys p d)) = next_plan_id d"
  by (simp_all add: get_or_create_brainstorm_observer_nsec_by_pubkey_on_db_def Let_def split: option.split)

lemma nsec_of_get_or_create [table_simps]:
  "nsec_of q (snd (get_or_create_brainstorm_observer_nsec_by_pubkey_on_db keys p d))
    = (if q = p \<and> nsec_of p d = None then Some (fresh_nsec keys p) else nsec_of q d)"
  by (auto simp: get_or_create_brainstorm_observer_nsec_by_pubkey_on_db_def nsec_of_def lookup_by_append
      fresh_nsec_def Let_def split: option.split)

lemma get_or_create_row:
  "get_or_create_brainstorm_observer_nsec_by_pubkey_on_db keys p d = ((row, created), d') \<Longrightarrow>
   nsec_of p d' = Some row \<and> (created \<longleftrightarrow> nsec_of p d = None)"
  by (auto simp: get_or_create_brainstorm_observer_nsec_by_pubkey_on_db_def nsec_of_def lookup_by_append
      fresh_nsec_def Let_def split: option.splits)

lemma nsec_of_update_nsec:
  assumes "\<And>r. bn_pubkey (f r) = bn_pubkey r"
  shows "nsec_of q (update_nsec p f d) = (if q = p then map_option f (nsec_of q d) else nsec_of q d)"
proof -
  have "nsec_of q (update_nsec p f d) = map_option (\<lambda>r. if bn_pubkey r = p then f r else r) (nsec_of q d)"
    by (simp add: nsec_of_def update_nsec_def lookup_by_sql_update assms)
  then show ?thesis
    by (cases "nsec_of q d") (auto simp: nsec_of_def dest: lookup_by_key)
qed

lemma nsec_of_set_scheduling [table_simps]:
  "nsec_of q (set_scheduling_for_pubkey_on_db keys p sid source d) =
     (if q = p
      then Some ((case nsec_of p d of None \<Rightarrow> fresh_nsec keys p | Some r \<Rightarrow> r)
                   \<lparr>bn_scheduling_id := sid, bn_scheduling_source := source\<rparr>)
      else nsec_of q d)"
  by (simp add: set_scheduling_for_pubkey_on_db_def nsec_of_update_nsec nsec_of_get_or_create split: option.split)

lemma nsec_of_set_billing_blocked [table_simps]:
  "nsec_of q (set_billing_blocked_on_db p blocked d) =
     (if q = p then map_option (\<lambda>r. r\<lparr>bn_billing_blocked := blocked\<rparr>) (nsec_of q d) else nsec_of q d)"
  by (simp add: set_billing_blocked_on_db_def nsec_of_update_nsec)

lemma set_scheduling_frame [frame_simps]:
  "schedulings (set_scheduling_for_pubkey_on_db keys p sid source d) = schedulings d"
  "billing_plans (set_scheduling_for_pubkey_on_db keys p sid source d) = billing_plans d"
  "user_subscriptions (set_scheduling_for_pubkey_on_db keys p sid source d) = user_subscriptions d"
  "webhook_events (set_scheduling_for_pubkey_on_db keys p sid source d) = webhook_events d"
  "next_event_id (set_scheduling_for_pubkey_on_db keys p sid source d) = next_event_id d"
  "next_plan_id (set_scheduling_for_pubkey_on_db keys p sid source d) = next_plan_id d"
  by (simp_all add: set_scheduling_for_pubkey_on_db_def frame_simps)

lemma unique_nsecs_set_scheduling:
  "unique_on bn_pubkey (nsecs d) \<Longrightarrow> unique_on bn_pubkey (nsecs (set_scheduling_for_pubkey_on_db keys p sid source d))"
  by (auto simp: set_scheduling_for_pubkey_on_db_def update_nsec_def
      get_or_create_brainstorm_observer_nsec_by_pubkey_on_db_def nsec_of_def lookup_by_None fresh_nsec_def Let_def
      intro!: set_policy.unique unique_on_append_new split: option.splits)

section \<open>Subscriptions after a statement\<close>

lemma update_subscription_frame [frame_simps]:
  "nsecs (update_subscription p f d) = nsecs d" "schedulings (update_subscription p f d) = schedulings d"
  "billing_plans (update_subscription p f d) = billing_plans d"
  "webhook_events (update_subscription p f d) = webhook_events d"
  "next_event_id (update_subscription p f d) = next_event_id d"
  "next_plan_id (update_subscription p f d) = next_plan_id d"
  by (simp_all add: update_subscription_def)

lemma get_user_subscription_update:
  assumes "\<And>s. us_pubkey (f s) = us_pubkey s"
  shows "get_user_subscription_on_db q (update_subscription p f d) =
     (if q = p then map_option f (get_user_subscription_on_db q d) else get_user_subscription_on_db q d)"
proof -
  have "get_user_subscription_on_db q (update_subscription p f d)
      = map_option (\<lambda>s. if us_pubkey s = p then f s else s) (get_user_subscription_on_db q d)"
    by (simp add: get_user_subscription_on_db_def update_subscription_def lookup_by_sql_update assms)
  then show ?thesis
    by (cases "get_user_subscription_on_db q d")
      (auto simp: get_user_subscription_on_db_def dest: lookup_by_key)
qed

lemma get_user_subscription_writes [table_simps]:
  "get_user_subscription_on_db q (clear_granted_scheduling_on_db p d) =
     (if q = p then map_option (\<lambda>s. s\<lparr>us_granted_scheduling_id := None\<rparr>) (get_user_subscription_on_db q d)
      else get_user_subscription_on_db q d)"
  "get_user_subscription_on_db q (update_flash_status_on_db p status cancels d) =
     (if q = p
      then map_option (\<lambda>s. case cancels of None \<Rightarrow> s\<lparr>us_flash_status := status\<rparr>
             | Some t \<Rightarrow> s\<lparr>us_flash_status := status, us_cancel_effective_date := Some t\<rparr>) (get_user_subscription_on_db q d)
      else get_user_subscription_on_db q d)"
  "get_user_subscription_on_db q (record_sync_failure_on_db p reason utc d) =
     (if q = p then map_option (note_sync_failure reason utc) (get_user_subscription_on_db q d)
      else get_user_subscription_on_db q d)"
  "get_user_subscription_on_db q (update_subscription p (advance_event_at t) d) =
     (if q = p then map_option (advance_event_at t) (get_user_subscription_on_db q d)
      else get_user_subscription_on_db q d)"
  unfolding clear_granted_scheduling_on_db_def update_flash_status_on_db_def record_sync_failure_on_db_def
  by (rule get_user_subscription_update, rule clear_grant.key_upd set_status.key_upd sync_failure.key_upd advance_event.key_upd)+

lemma blank_subscription_key [simp]: "us_pubkey (blank_subscription p utc) = p"
  by (simp add: blank_subscription_def)

lemma get_user_subscription_upsert [table_simps]:
  "get_user_subscription_on_db q (upsert_user_subscription_on_db p sub plan_id granted utc d) =
     (if q = p
      then Some (record_flash_view sub plan_id granted utc
             (case get_user_subscription_on_db p d of None \<Rightarrow> blank_subscription p utc | Some s \<Rightarrow> s))
      else get_user_subscription_on_db q d)"
  using record_view.upsert_lookup_same[of sub plan_id granted utc p "user_subscriptions d"]
    record_view.upsert_lookup_other[of q sub plan_id granted utc p "user_subscriptions d"]
  by (auto simp: get_user_subscription_on_db_def upsert_user_subscription_on_db_def record_view.key_upd
      split: option.split)

lemma subscription_writes_frame [frame_simps]:
  "nsecs (upsert_user_subscription_on_db p sub plan_id granted utc d) = nsecs d"
  "webhook_events (upsert_user_subscription_on_db p sub plan_id granted utc d) = webhook_events d"
  "billing_plans (upsert_user_subscription_on_db p sub plan_id granted utc d) = billing_plans d"
  "schedulings (upsert_user_subscription_on_db p sub plan_id granted utc d) = schedulings d"
  "next_event_id (upsert_user_subscription_on_db p sub plan_id granted utc d) = next_event_id d"
  "next_plan_id (upsert_user_subscription_on_db p sub plan_id granted utc d) = next_plan_id d"
  by (simp_all add: upsert_user_subscription_on_db_def)

section \<open>Events after a statement\<close>

lemma update_events_frame [frame_simps]:
  "nsecs (update_events q f d) = nsecs d" "user_subscriptions (update_events q f d) = user_subscriptions d"
  "schedulings (update_events q f d) = schedulings d" "billing_plans (update_events q f d) = billing_plans d"
  "next_event_id (update_events q f d) = next_event_id d" "next_plan_id (update_events q f d) = next_plan_id d"
  by (simp_all add: update_events_def)

section \<open>The constraints hold after every statement\<close>

lemma db_wf_nsecs:
  assumes "db_wf d" and "unique_on bn_pubkey ns" shows "db_wf (d\<lparr>nsecs := ns\<rparr>)"
  using assms by (simp add: db_wf_def)

lemma db_wf_subscriptions:
  assumes "db_wf d" and "unique_on us_pubkey ss" shows "db_wf (d\<lparr>user_subscriptions := ss\<rparr>)"
  using assms by (simp add: db_wf_def)

lemma db_wf_set_scheduling: "db_wf d \<Longrightarrow> db_wf (set_scheduling_for_pubkey_on_db keys p sid source d)"
  using unique_nsecs_set_scheduling[of d keys p sid source] by (simp add: db_wf_def frame_simps)

lemma db_wf_set_billing_blocked: "db_wf d \<Longrightarrow> db_wf (set_billing_blocked_on_db p blocked d)"
  unfolding set_billing_blocked_on_db_def update_nsec_def
  by (rule db_wf_nsecs) (simp_all add: db_wf_def set_block.unique)

lemma db_wf_upsert: "db_wf d \<Longrightarrow> db_wf (upsert_user_subscription_on_db p sub plan_id granted utc d)"
  unfolding upsert_user_subscription_on_db_def
  by (rule db_wf_subscriptions) (simp_all add: db_wf_def record_view.upsert_unique)

lemma db_wf_update_subscription:
  assumes "db_wf d" and "\<And>s. us_pubkey (f s) = us_pubkey s"
  shows "db_wf (update_subscription p f d)"
  unfolding update_subscription_def using assms
  by (intro db_wf_subscriptions) (auto simp: db_wf_def unique_on_def map_key_sql_update)

lemma db_wf_subscription_writes:
  assumes "db_wf d"
  shows "db_wf (clear_granted_scheduling_on_db p d)" "db_wf (update_flash_status_on_db p status cancels d)"
    "db_wf (update_last_event_at_on_db who et d)" "db_wf (record_sync_failure_on_db p reason utc d)"
  using assms
  by (auto simp: clear_granted_scheduling_on_db_def update_flash_status_on_db_def update_last_event_at_on_db_def
      record_sync_failure_on_db_def clear_grant.key_upd set_status.key_upd advance_event.key_upd sync_failure.key_upd
      split: option.split intro: db_wf_update_subscription)

lemma db_wf_update_events:
  assumes "db_wf d" and "\<And>e. we_id (f e) = we_id e" and "\<And>e. we_dedupe_key (f e) = we_dedupe_key e"
  shows "db_wf (update_events q f d)"
  using assms by (auto simp: db_wf_def update_events_def unique_on_def map_key_sql_update sql_update_mem)

lemma db_wf_event_writes:
  assumes "db_wf d"
  shows "db_wf (snd (claim_webhook_event_on_db i utc stale d))" "db_wf (mark_webhook_event_processed_on_db i utc d)"
    "db_wf (snd (settle_unresolved_events_on_db sid utc res who only d))"
    "db_wf (record_webhook_event_failure_on_db i reason d)"
    "db_wf (snd (reset_events_awaiting_plan_on_db pr service plan err d))"
  using assms
  by (simp_all add: claim_webhook_event_on_db_def mark_webhook_event_processed_on_db_def Let_def
      settle_unresolved_events_on_db_def record_webhook_event_failure_on_db_def reset_events_awaiting_plan_on_db_def
      db_wf_update_events)

lemma db_wf_insert_event:
  assumes "db_wf d"
  shows "db_wf (snd (insert_flash_webhook_event_on_db ev dt et sid payload key claimed utc d))"
  using assms
  by (auto simp: insert_flash_webhook_event_on_db_def Let_def db_wf_def unique_on_def event_with_def lookup_by_None
      split: if_splits)

lemma db_wf_insert_plan:
  assumes "db_wf d" and "get_billing_plan_on_db service plan d = None"
  shows "db_wf (snd (insert_billing_plan_on_db service plan sid active d))"
  using assms
  by (auto simp: insert_billing_plan_on_db_def Let_def db_wf_def unique_on_def get_billing_plan_on_db_def lookup_by_None)

lemma find_key_unique:
  assumes "distinct (map k xs)" and "x \<in> set xs" and "y \<in> set xs" and "k x = k y" shows "x = y"
  using assms by (metis distinct_map inj_onD)

lemma db_wf_update_plan:
  assumes "db_wf d" and "get_billing_plan_by_id_on_db plan_id d = Some p"
    and "(or_keep (pv_flash_service_id v) (bp_flash_service_id p), or_keep (pv_flash_plan_id v) (bp_flash_plan_id p))
           = (bp_flash_service_id p, bp_flash_plan_id p)
         \<or> get_billing_plan_on_db (or_keep (pv_flash_service_id v) (bp_flash_service_id p))
             (or_keep (pv_flash_plan_id v) (bp_flash_plan_id p)) d = None"
  shows "db_wf (snd (update_billing_plan_on_db plan_id v d))"
proof -
  let ?pair = "\<lambda>q. (bp_flash_service_id q, bp_flash_plan_id q)"
  let ?f = "\<lambda>r. if bp_id r = plan_id then assign_plan v r else r"
  from assms(1) have ids: "distinct (map bp_id (billing_plans d))" and pairs: "distinct (map ?pair (billing_plans d))"
    by (simp_all add: db_wf_def unique_on_def)
  have p: "p \<in> set (billing_plans d)" "bp_id p = plan_id"
    using assms(2) by (auto simp: get_billing_plan_by_id_on_db_def dest: lookup_by_mem lookup_by_key)
  have only: "r = p" if "r \<in> set (billing_plans d)" "bp_id r = plan_id" for r
    using find_key_unique[OF ids that(1) p(1)] that(2) p(2) by simp
  have other: "?pair r \<noteq> ?pair (assign_plan v p)" if "r \<in> set (billing_plans d)" "bp_id r \<noteq> plan_id" for r
    using assms(3) that p find_key_unique[OF pairs that(1) p(1)]
    by (auto simp: assign_plan_def get_billing_plan_on_db_def lookup_by_None)
  have inj: "inj_on (?pair \<circ> ?f) (set (billing_plans d))"
  proof (rule inj_onI)
    fix x y assume xy: "x \<in> set (billing_plans d)" "y \<in> set (billing_plans d)" "(?pair \<circ> ?f) x = (?pair \<circ> ?f) y"
    show "x = y"
    proof (cases "bp_id x = plan_id"; cases "bp_id y = plan_id")
      assume "bp_id x = plan_id" "bp_id y = plan_id"
      then show ?thesis using only xy by metis
    next
      assume a: "bp_id x = plan_id" "bp_id y \<noteq> plan_id"
      then have "x = p" using only xy(1) by simp
      with a xy other[OF xy(2)] show ?thesis by (simp add: p(2))
    next
      assume a: "bp_id x \<noteq> plan_id" "bp_id y = plan_id"
      then have "y = p" using only xy(2) by simp
      with a xy other[OF xy(1)] show ?thesis by (simp add: p(2))
    next
      assume "bp_id x \<noteq> plan_id" "bp_id y \<noteq> plan_id"
      then show ?thesis using find_key_unique[OF pairs xy(1,2)] xy(3) by simp
    qed
  qed
  have "distinct (billing_plans d)" using ids by (simp add: distinct_map)
  with inj have "distinct (map ?pair (map ?f (billing_plans d)))" by (simp add: distinct_map)
  moreover have "distinct (map bp_id (map ?f (billing_plans d)))"
    using ids retune_plan.keys[of "\<lambda>r. bp_id r = plan_id" v "billing_plans d"] by (simp only: sql_update_def)
  ultimately show ?thesis
    using assms(1,2)
    by (auto simp: update_billing_plan_on_db_def db_wf_def unique_on_def sql_update_def assign_plan_def)
qed

section \<open>Reads a statement leaves alone\<close>

lemma nsec_of_frame [table_simps]:
  "nsec_of p (upsert_user_subscription_on_db q sub plan_id granted utc d) = nsec_of p d"
  "nsec_of p (update_subscription q f d) = nsec_of p d"
  "nsec_of p (clear_granted_scheduling_on_db q d) = nsec_of p d"
  "nsec_of p (update_flash_status_on_db q status cancels d) = nsec_of p d"
  "nsec_of p (update_last_event_at_on_db who et d) = nsec_of p d"
  "nsec_of p (record_sync_failure_on_db q reason utc d) = nsec_of p d"
  "nsec_of p (update_events sel g d) = nsec_of p d"
  "nsec_of p (snd (insert_flash_webhook_event_on_db ev dt ts sid payload key claimed utc d)) = nsec_of p d"
  "nsec_of p (snd (insert_billing_plan_on_db service plan sc active d)) = nsec_of p d"
  "nsec_of p (snd (update_billing_plan_on_db plan_id v d)) = nsec_of p d"
  by (simp_all add: nsec_of_def frame_simps clear_granted_scheduling_on_db_def update_flash_status_on_db_def
      update_last_event_at_on_db_def record_sync_failure_on_db_def insert_flash_webhook_event_on_db_def
      insert_billing_plan_on_db_def update_billing_plan_on_db_def Let_def split: option.split)

lemma get_user_subscription_frame [table_simps]:
  "get_user_subscription_on_db p (set_scheduling_for_pubkey_on_db ks q sid source d) = get_user_subscription_on_db p d"
  "get_user_subscription_on_db p (set_billing_blocked_on_db q blocked d) = get_user_subscription_on_db p d"
  "get_user_subscription_on_db p (update_nsec q h d) = get_user_subscription_on_db p d"
  "get_user_subscription_on_db p (update_events sel g d) = get_user_subscription_on_db p d"
  "get_user_subscription_on_db p (snd (insert_flash_webhook_event_on_db ev dt ts sid' payload key claimed utc d))
     = get_user_subscription_on_db p d"
  "get_user_subscription_on_db p (snd (insert_billing_plan_on_db service plan sc active d)) = get_user_subscription_on_db p d"
  "get_user_subscription_on_db p (snd (update_billing_plan_on_db plan_id v d)) = get_user_subscription_on_db p d"
  by (simp_all add: get_user_subscription_on_db_def frame_simps set_billing_blocked_on_db_def
      insert_flash_webhook_event_on_db_def insert_billing_plan_on_db_def update_billing_plan_on_db_def Let_def
      split: option.split)

lemma event_writes_as_updates [table_simps]:
  "snd (claim_webhook_event_on_db i utc stale d)
     = update_events (\<lambda>e. we_id e = i \<and> claimable utc stale e)
         (\<lambda>e. e\<lparr>we_processing_started_at := Some utc, we_attempts := we_attempts e + 1\<rparr>) d"
  "snd (settle_unresolved_events_on_db sid utc res who only d)
     = update_events (settle_scope sid only)
         (\<lambda>e. e\<lparr>we_processed_at := Some utc, we_process_error := None,
               we_resolution := Some res, we_resolved_by := Some who\<rparr>) d"
  "snd (reset_events_awaiting_plan_on_db pr service plan err d)
     = update_events (awaits_plan pr service plan err) (\<lambda>e. e\<lparr>we_attempts := 0, we_process_error := None\<rparr>) d"
  by (simp_all add: claim_webhook_event_on_db_def settle_unresolved_events_on_db_def
      reset_events_awaiting_plan_on_db_def Let_def)

lemma get_user_subscription_advance [table_simps]:
  "get_user_subscription_on_db q (update_last_event_at_on_db who et d) =
     (case (who, et) of
        (Some p, Some t) \<Rightarrow>
          if p \<noteq> [] \<and> q = p then map_option (advance_event_at t) (get_user_subscription_on_db q d)
          else get_user_subscription_on_db q d
      | _ \<Rightarrow> get_user_subscription_on_db q d)"
  by (auto simp: update_last_event_at_on_db_def given_def table_simps split: option.split)

lemma record_flash_view_fields [simp]:
  "us_pubkey (record_flash_view sub i g utc s) = us_pubkey s"
  "us_granted_scheduling_id (record_flash_view sub i g utc s) = g"
  "us_flash_subscription_id (record_flash_view sub i g utc s) = fs_id sub"
  "us_flash_status (record_flash_view sub i g utc s) = fs_status sub"
  "us_last_event_at (record_flash_view sub i g utc s) = us_last_event_at s"
  "us_last_sync_error (record_flash_view sub i g utc s) = None"
  "us_sync_error_since (record_flash_view sub i g utc s) = None"
  "us_last_synced_at (record_flash_view sub i g utc s) = Some utc"
  "us_billing_plan_id (record_flash_view sub i g utc s) = i"
  "us_created_at (record_flash_view sub i g utc s) = us_created_at s"
  by (simp_all add: record_flash_view_def)

lemma record_flash_view_twice [simp]:
  "record_flash_view sub i g utc (record_flash_view sub i g utc s) = record_flash_view sub i g utc s"
  by (simp add: record_flash_view_def)

end
