(* ===== verification/Session.thy ===== *)
theory Session
  imports Billing_Store
begin

text \<open>
  A database session and the operations that run in one (\<^verbatim>\<open>app/core/database.py\<close>). An
  operation takes its environment and the session and returns the error it raised or its
  value, and the session after it. The session has what this transaction sees (\<open>tx\<close>),
  what is committed (\<open>durable\<close>), the Flash client's state and the number of commits tried.

  The environment has the parameters: Flash, the clock (one reading per operation), which
  user rows other transactions have locked, the faults of the database at each commit, and
  the
  text of an error that is the driver's or the interpreter's own. Between two statements of one operation nothing
  else writes the rows it reads: the row lock each operation takes first is what the code
  relies on for that.
\<close>

section \<open>Operations\<close>

record session =
  tx :: db
  durable :: db
  fl :: flash_state
  commits :: nat

record billing_env =
  flash :: flash_env
  utc_now :: datetime
  locked :: "string \<Rightarrow> bool"
  keys :: keygen
  commit_fault :: "nat \<Rightarrow> exn option"
  driver_text :: string
  jsonb_text :: "json \<Rightarrow> string"

text \<open>The operations of a component over its environment and its state; \<open>'a op\<close> are those of
  billing.\<close>

type_synonym ('e, 'w, 'a) act = "'e \<Rightarrow> 'w \<Rightarrow> (exn, 'a) result \<times> 'w"

type_synonym 'a op = "(billing_env, session, 'a) act"

definition ret :: "'a \<Rightarrow> ('e, 'w, 'a) act" where
  "ret x env w = (Inr x, w)"

definition raise :: "exn \<Rightarrow> ('e, 'w, 'a) act" where
  "raise e env w = (Inl e, w)"

definition op_bind :: "('e, 'w, 'a) act \<Rightarrow> ('a \<Rightarrow> ('e, 'w, 'b) act) \<Rightarrow> ('e, 'w, 'b) act" where
  "op_bind m f env w = (case m env w of (Inl e, w') \<Rightarrow> (Inl e, w') | (Inr x, w') \<Rightarrow> f x env w')"

text \<open>\<^verbatim>\<open>try: m except E: h(E)\<close>; the handler re-raises what it does not catch.\<close>

definition catch :: "('e, 'w, 'a) act \<Rightarrow> (exn \<Rightarrow> ('e, 'w, 'a) act) \<Rightarrow> ('e, 'w, 'a) act" where
  "catch m h env w = (case m env w of (Inl e, w') \<Rightarrow> h e env w' | (Inr x, w') \<Rightarrow> (Inr x, w'))"

definition asks :: "('e \<Rightarrow> 'a) \<Rightarrow> ('e, 'w, 'a) act" where
  "asks f env w = (Inr (f env), w)"

definition read_db :: "(db \<Rightarrow> 'a) \<Rightarrow> 'a op" where
  "read_db f env w = (Inr (f (tx w)), w)"

definition write_db :: "(db \<Rightarrow> db) \<Rightarrow> unit op" where
  "write_db f env w = (Inr (), w\<lparr>tx := f (tx w)\<rparr>)"

text \<open>A statement that returns a value and writes.\<close>

definition exec_db :: "(db \<Rightarrow> 'a \<times> db) \<Rightarrow> 'a op" where
  "exec_db f env w = (case f (tx w) of (x, d) \<Rightarrow> (Inr x, w\<lparr>tx := d\<rparr>))"

definition commit :: "unit op" where
  "commit env w =
     (let w' = w\<lparr>commits := commits w + 1\<rparr> in
      case commit_fault env (commits w) of
        Some e \<Rightarrow> (Inl e, w')
      | None \<Rightarrow> (Inr (), w'\<lparr>durable := tx w\<rparr>))"

definition rollback :: "unit op" where
  "rollback env w = (Inr (), w\<lparr>tx := durable w\<rparr>)"

definition ask_flash :: "'a flash_op \<Rightarrow> 'a op" where
  "ask_flash f env w = (case f (flash env) (fl w) of (r, st) \<Rightarrow> (r, w\<lparr>fl := st\<rparr>))"

text \<open>\<^verbatim>\<open>execute_db_statement\<close> turns every error of the driver into a 500. \<open>ok\<close> says whether
  the driver takes the values the statement binds.\<close>

definition bound_ok :: "bool \<Rightarrow> unit op" where
  "bound_ok ok env w = (if ok then (Inr (), w) else (Inl (HTTPException 500 (driver_text env)), w))"

definition op_when :: "bool \<Rightarrow> ('e, 'w, unit) act \<Rightarrow> ('e, 'w, unit) act" where
  "op_when b m = (if b then m else ret ())"

lemmas op_defs = ret_def raise_def op_bind_def catch_def asks_def read_db_def write_db_def exec_db_def
  rollback_def ask_flash_def bound_ok_def op_when_def

text \<open>\<^verbatim>\<open>str(err)\<close> and \<^verbatim>\<open>repr(err)\<close>.\<close>

definition error_text :: "billing_env \<Rightarrow> exn \<Rightarrow> string" where
  "error_text env e =
     (if e \<in> {IntegrityError, DataError, OperationalError, InterfaceError, OverflowError, TypeError, AttributeError, KeyError, AssertionError}
      then driver_text env else exn_text e)"

text \<open>\<^verbatim>\<open>async with db_session()\<close>: the block's work commits where it returns, and is rolled back
  where it raises.\<close>

definition in_session :: "'a op \<Rightarrow> 'a op" where
  "in_session m = catch (op_bind m (\<lambda>x. op_bind commit (\<lambda>_. ret x))) (\<lambda>e. op_bind rollback (\<lambda>_. raise e))"

section \<open>Invariants of a session\<close>

text \<open>A property of the database that an operation keeps, in what its transaction sees and
  in what is committed, whatever it returns or raises.\<close>

definition keeps :: "(db \<Rightarrow> bool) \<Rightarrow> 'a op \<Rightarrow> bool" where
  "keeps I m \<longleftrightarrow> (\<forall>env w. I (tx w) \<and> I (durable w) \<longrightarrow> I (tx (snd (m env w))) \<and> I (durable (snd (m env w))))"

named_theorems keeps_intros \<open>operations that keep an invariant\<close>

lemma keepsD:
  "keeps I m \<Longrightarrow> m env w = (r, w') \<Longrightarrow> I (tx w) \<Longrightarrow> I (durable w) \<Longrightarrow> I (tx w') \<and> I (durable w')"
  by (metis keeps_def snd_conv)

lemma keeps_simple [keeps_intros]:
  "keeps I (ret x)" "keeps I (raise e)" "keeps I (asks g)" "keeps I (read_db h)" "keeps I commit"
  "keeps I rollback" "keeps I (ask_flash f)" "keeps I (bound_ok ok)"
  by (auto simp: keeps_def op_defs commit_def Let_def split: option.split prod.split)

lemma keeps_bind [keeps_intros]:
  assumes "keeps I m" and "\<And>x. keeps I (f x)"
  shows "keeps I (op_bind m f)"
  using assms unfolding keeps_def op_bind_def
  by (auto split: prod.split sum.split) (metis snd_conv)+

lemma keeps_catch [keeps_intros]:
  assumes "keeps I m" and "\<And>e. keeps I (h e)"
  shows "keeps I (catch m h)"
  using assms unfolding keeps_def catch_def
  by (auto split: prod.split sum.split) (metis snd_conv)+

lemma keeps_write [keeps_intros]: "(\<And>d. I d \<Longrightarrow> I (f d)) \<Longrightarrow> keeps I (write_db f)"
  by (simp add: keeps_def write_db_def)

lemma keeps_exec [keeps_intros]: "(\<And>d. I d \<Longrightarrow> I (snd (f d))) \<Longrightarrow> keeps I (exec_db f)"
  by (auto simp: keeps_def exec_db_def split: prod.split) (metis snd_conv)

lemma keeps_when [keeps_intros]: "(b \<Longrightarrow> keeps I m) \<Longrightarrow> keeps I (op_when b m)"
  by (simp add: op_when_def keeps_simple)

lemma keeps_if [keeps_intros]: "(b \<Longrightarrow> keeps I m) \<Longrightarrow> (\<not> b \<Longrightarrow> keeps I m') \<Longrightarrow> keeps I (if b then m else m')"
  by simp

lemma keeps_case_option [keeps_intros]:
  "(v = None \<Longrightarrow> keeps I m) \<Longrightarrow> (\<And>x. v = Some x \<Longrightarrow> keeps I (f x)) \<Longrightarrow>
   keeps I (case v of None \<Rightarrow> m | Some x \<Rightarrow> f x)"
  by (cases v) auto

text \<open>The same, where what the transaction sees is known to be \<open>d\<close>.\<close>

definition keeps_at :: "db \<Rightarrow> (db \<Rightarrow> bool) \<Rightarrow> 'a op \<Rightarrow> bool" where
  "keeps_at d I m \<longleftrightarrow> (\<forall>env w. tx w = d \<and> I d \<and> I (durable w) \<longrightarrow>
     I (tx (snd (m env w))) \<and> I (durable (snd (m env w))))"

lemma keeps_keeps_at: "keeps I m \<Longrightarrow> keeps_at d I m"
  by (auto simp: keeps_def keeps_at_def)

lemma keeps_read: "(\<And>d. I d \<Longrightarrow> keeps_at d I (f (g d))) \<Longrightarrow> keeps I (op_bind (read_db g) f)"
  by (auto simp: keeps_def keeps_at_def op_bind_def read_db_def)

lemma keeps_at_read: "keeps_at d I (f (g d)) \<Longrightarrow> keeps_at d I (op_bind (read_db g) f)"
  by (auto simp: keeps_at_def op_bind_def read_db_def)

lemma keeps_at_asks: "(\<And>x. keeps_at d I (f x)) \<Longrightarrow> keeps_at d I (op_bind (asks g) f)"
  by (auto simp: keeps_at_def op_bind_def asks_def)

lemma keeps_at_write: "I (h d) \<Longrightarrow> keeps_at (h d) I m \<Longrightarrow> keeps_at d I (op_bind (write_db h) (\<lambda>_. m))"
  by (auto simp: keeps_at_def op_bind_def write_db_def)

lemma keeps_at_exec: "I (snd (h d)) \<Longrightarrow> keeps_at (snd (h d)) I (f (fst (h d))) \<Longrightarrow> keeps_at d I (op_bind (exec_db h) f)"
  by (auto simp: keeps_at_def op_bind_def exec_db_def split: prod.split)

lemma keeps_at_bind: "keeps_at d I m \<Longrightarrow> (\<And>x. keeps I (f x)) \<Longrightarrow> keeps_at d I (op_bind m f)"
  unfolding keeps_at_def keeps_def op_bind_def by (auto split: prod.split sum.split) (metis snd_conv)+

text \<open>A check: it leaves the session alone, and what it checked holds where it returns.\<close>

definition checks :: "(db \<Rightarrow> bool) \<Rightarrow> unit op \<Rightarrow> bool" where
  "checks P m \<longleftrightarrow> (\<forall>env w. snd (m env w) = w \<and> (\<forall>x. fst (m env w) = Inr x \<longrightarrow> P (tx w)))"

lemma keeps_at_check:
  "checks P m \<Longrightarrow> (P d \<Longrightarrow> I d \<Longrightarrow> keeps_at d I k) \<Longrightarrow> keeps_at d I (op_bind m (\<lambda>_. k))"
  unfolding checks_def keeps_at_def op_bind_def
  by (auto split: prod.split sum.split) (metis fst_conv snd_conv)+

lemma keeps_check:
  assumes "checks P m" and "\<And>d. P d \<Longrightarrow> I d \<Longrightarrow> keeps_at d I k"
  shows "keeps I (op_bind m (\<lambda>_. k))"
  using keeps_at_check[OF assms(1), of _ I k] assms(2) by (auto simp: keeps_def keeps_at_def)

end
