(* ===== verification/Entitlement.thy ===== *)
theory Entitlement
  imports Session
begin

text \<open>
  Turning Flash subscription state into a scheduling policy:
  \<^verbatim>\<open>app/services/billing_service.py\<close>. First the decision table and the resolution, both
  pure; then \<open>apply_entitlement\<close>, the one transaction that reads Flash and writes the
  policy and the record of why; then the operator's actions: plan mappings, the billing
  block, cancelling and pausing, attributing and dismissing a signup; and what a payload
  implies when Flash cannot be asked.
\<close>

section \<open>Decisions\<close>

datatype entitlement_decision = GRANT | HOLD | REVOKE

datatype entitlement_reason =
    GRANTED | REVOKED | HELD | BLOCKED | ADMIN_OVERRIDE | NO_REFERENCE | UNKNOWN_USER | UNKNOWN_PLAN
  | UNKNOWN_SUBSCRIPTION | REFERENCE_MISMATCH | BUSY | ATTRIBUTED | DISMISSED

fun reason_value :: "entitlement_reason \<Rightarrow> string" where
  "reason_value GRANTED = ''granted''"
| "reason_value REVOKED = ''revoked''"
| "reason_value HELD = ''held''"
| "reason_value BLOCKED = ''blocked''"
| "reason_value ADMIN_OVERRIDE = ''admin_override''"
| "reason_value NO_REFERENCE = ''no_reference''"
| "reason_value UNKNOWN_USER = ''unknown_user''"
| "reason_value UNKNOWN_PLAN = ''unknown_plan''"
| "reason_value UNKNOWN_SUBSCRIPTION = ''unknown_subscription''"
| "reason_value REFERENCE_MISMATCH = ''reference_mismatch''"
| "reason_value BUSY = ''busy''"
| "reason_value ATTRIBUTED = ''attributed''"
| "reason_value DISMISSED = ''dismissed''"

definition SETTLED_REASONS :: "entitlement_reason set" where
  "SETTLED_REASONS = {GRANTED, REVOKED, HELD, BLOCKED, ADMIN_OVERRIDE, ATTRIBUTED, DISMISSED}"

record entitlement_outcome =
  eo_applied :: bool
  eo_reason :: entitlement_reason

record resolution =
  write_policy :: bool
  res_scheduling_id :: "int option"
  res_source :: "string option"
  res_granted_scheduling_id :: "int option"
  res_reason :: entitlement_reason

definition leave_policy :: "int option \<Rightarrow> entitlement_reason \<Rightarrow> resolution" where
  "leave_policy existing_granted reason =
     \<lparr>write_policy = False, res_scheduling_id = None, res_source = None,
      res_granted_scheduling_id = existing_granted, res_reason = reason\<rparr>"

definition resolve_entitlement ::
  "entitlement_decision \<Rightarrow> bool \<Rightarrow> bool \<Rightarrow> int \<Rightarrow> int option \<Rightarrow> resolution" where
  "resolve_entitlement decision blocked admin_held plan_scheduling_id existing_granted =
     (case decision of
        GRANT \<Rightarrow>
          if blocked then leave_policy existing_granted BLOCKED
          else \<lparr>write_policy = True, res_scheduling_id = Some plan_scheduling_id,
                res_source = Some (if admin_held then SOURCE_ADMIN else SOURCE_BILLING),
                res_granted_scheduling_id = Some plan_scheduling_id, res_reason = GRANTED\<rparr>
      | REVOKE \<Rightarrow>
          if admin_held then leave_policy existing_granted ADMIN_OVERRIDE
          else \<lparr>write_policy = True, res_scheduling_id = None, res_source = Some SOURCE_DEFAULT,
                res_granted_scheduling_id = None, res_reason = REVOKED\<rparr>
      | HOLD \<Rightarrow> leave_policy existing_granted HELD)"

definition is_admin_held :: "string \<Rightarrow> bool" where
  "is_admin_held source \<longleftrightarrow> source = SOURCE_ADMIN"

definition decide_past_due :: "flash_lifecycle_policy \<Rightarrow> entitlement_decision" where
  "decide_past_due policy =
     (if dunning_cancels_after_final_failure policy \<noteq> Some False then HOLD
      else case (dunning_attempts policy, dunning_max_attempts policy) of
             (Some made, Some allowed) \<Rightarrow> if made \<ge> allowed then REVOKE else HOLD
           | _ \<Rightarrow> HOLD)"

definition first_given :: "'a option \<Rightarrow> 'a option \<Rightarrow> 'a option" where
  "first_given a b = (case a of None \<Rightarrow> b | Some _ \<Rightarrow> a)"

definition decide_cancelled ::
  "flash_lifecycle_policy \<Rightarrow> datetime option \<Rightarrow> datetime option \<Rightarrow> datetime \<Rightarrow> entitlement_decision" where
  "decide_cancelled policy cancel_effective_date current_period_end utc =
     (if cancellation_mode policy = Some CANCELLATION_IMMEDIATE then REVOKE
      else case first_given cancel_effective_date current_period_end of
             None \<Rightarrow> REVOKE
           | Some ends_at \<Rightarrow> if utc < ends_at then HOLD else REVOKE)"

definition decide_entitlement ::
  "string \<Rightarrow> datetime option \<Rightarrow> datetime option \<Rightarrow> datetime \<Rightarrow> flash_lifecycle_policy \<Rightarrow> entitlement_decision" where
  "decide_entitlement flash_status cancel_effective_date current_period_end utc policy =
     (if flash_status \<in> ENTITLING_STATUSES then GRANT
      else if flash_status \<in> ENDED_STATUSES then REVOKE
      else if flash_status = PAST_DUE_STATUS then decide_past_due policy
      else if flash_status = CANCELLED_STATUS
      then decide_cancelled policy cancel_effective_date current_period_end utc
      else HOLD)"

section \<open>Reconciling one subscriber\<close>

definition decided :: "entitlement_reason \<Rightarrow> entitlement_outcome op" where
  "decided reason = ret \<lparr>eo_applied = False, eo_reason = reason\<rparr>"

definition names_another_subscription :: "user_subscription \<Rightarrow> flash_subscription \<Rightarrow> bool" where
  "names_another_subscription existing sub \<longleftrightarrow>
     truthy (fs_ref sub) \<and> us_flash_subscription_id existing \<noteq> []
     \<and> us_flash_subscription_id existing \<noteq> fs_id sub"

text \<open>The condition under which \<^verbatim>\<open>_warn_if_policy_is_inert\<close> logs its error.\<close>

definition policy_is_inert :: "int \<Rightarrow> db \<Rightarrow> bool" where
  "policy_is_inert sid d = (case get_scheduling_on_db sid d of None \<Rightarrow> False | Some p \<Rightarrow> \<not> sc_enabled p)"

text \<open>What \<open>grant_and_record\<close> decides from what it reads.\<close>

definition resolution_for ::
  "string \<Rightarrow> flash_subscription \<Rightarrow> billing_plan \<Rightarrow> datetime \<Rightarrow> user_subscription option \<Rightarrow> db \<Rightarrow> resolution" where
  "resolution_for pubkey sub plan utc existing d =
     resolve_entitlement
       (decide_entitlement (fs_status sub) (fs_cancel_effective_date sub) (fs_current_period_end sub) utc (fs_policy sub))
       (is_billing_blocked_on_db pubkey d)
       (is_admin_held (get_scheduling_source_on_db pubkey d))
       (bp_scheduling_id plan)
       (Option.bind existing us_granted_scheduling_id)"

text \<open>\<^verbatim>\<open>if resolution.write_policy and resolution.source is not None\<close>.\<close>

definition write_resolution :: "string \<Rightarrow> resolution \<Rightarrow> unit op" where
  "write_resolution pubkey res =
     (case res_source res of
        Some source \<Rightarrow>
          op_when (write_policy res)
            (op_bind (asks keys) (\<lambda>ks.
               write_db (set_scheduling_for_pubkey_on_db ks pubkey (res_scheduling_id res) source)))
      | None \<Rightarrow> ret ())"

definition grant_and_record ::
  "string \<Rightarrow> flash_subscription \<Rightarrow> billing_plan \<Rightarrow> user_subscription option \<Rightarrow> entitlement_outcome op" where
  "grant_and_record pubkey sub plan existing =
     op_bind (asks utc_now) (\<lambda>utc.
     op_bind (read_db (resolution_for pubkey sub plan utc existing)) (\<lambda>res.
     op_bind (read_db (policy_is_inert (bp_scheduling_id plan))) (\<lambda>_.
     op_bind (write_resolution pubkey res) (\<lambda>_.
     op_bind (bound_ok (storable_subscription sub)) (\<lambda>_.
     op_bind (write_db (upsert_user_subscription_on_db pubkey sub (bp_id plan) (res_granted_scheduling_id res) utc)) (\<lambda>_.
     op_bind commit (\<lambda>_.
     ret \<lparr>eo_applied = write_policy res, eo_reason = res_reason res\<rparr>)))))))"

text \<open>The second lookup, by the id on file, where the reference found nothing.\<close>

definition by_stored_id ::
  "string \<Rightarrow> string option \<Rightarrow> bool \<Rightarrow> flash_subscription option \<Rightarrow> (flash_subscription option \<times> bool) op" where
  "by_stored_id pubkey sid allow_unreferenced sub =
     (if sub = None \<and> \<not> given sid
      then op_bind (read_db (get_user_subscription_on_db pubkey)) (\<lambda>stored.
           case stored of
             None \<Rightarrow> ret (None, allow_unreferenced)
           | Some row \<Rightarrow>
               op_bind (ask_flash (fetch_subscription (Some (us_flash_subscription_id row)) None))
                 (\<lambda>found. ret (found, True)))
      else ret (sub, allow_unreferenced))"

text \<open>The third lookup, by reference, where the subscription in hand is not the one on file.\<close>

definition current_subscription ::
  "string \<Rightarrow> user_subscription option \<Rightarrow> flash_subscription \<Rightarrow> flash_subscription op" where
  "current_subscription pubkey existing sub =
     (case existing of
        None \<Rightarrow> ret sub
      | Some row \<Rightarrow>
          if names_another_subscription row sub
          then op_bind (ask_flash (fetch_subscription None (Some pubkey)))
                 (\<lambda>current. ret (case current of None \<Rightarrow> sub | Some c \<Rightarrow> c))
          else ret sub)"

definition apply_plan ::
  "string \<Rightarrow> user_subscription option \<Rightarrow> flash_subscription \<Rightarrow> entitlement_outcome op" where
  "apply_plan pubkey existing sub =
     op_bind (bound_ok (no_nul (fs_service_id sub) \<and> no_nul (fs_plan_id sub))) (\<lambda>_.
     op_bind (read_db (get_billing_plan_on_db (fs_service_id sub) (fs_plan_id sub))) (\<lambda>plan.
     case plan of
       None \<Rightarrow> decided UNKNOWN_PLAN
     | Some p \<Rightarrow> grant_and_record pubkey sub p existing))"

definition apply_found ::
  "string \<Rightarrow> bool \<Rightarrow> flash_subscription \<Rightarrow> entitlement_outcome op" where
  "apply_found pubkey allow_unreferenced sub =
     (if \<not> truthy (fs_ref sub) \<and> \<not> allow_unreferenced then decided NO_REFERENCE
      else if truthy (fs_ref sub) \<and> fs_ref sub \<noteq> JStr pubkey then decided REFERENCE_MISMATCH
      else op_bind (read_db (get_user_subscription_on_db pubkey)) (\<lambda>existing.
           op_bind (current_subscription pubkey existing sub) (apply_plan pubkey existing)))"

definition apply_to_user ::
  "string \<Rightarrow> string option \<Rightarrow> bool \<Rightarrow> bool \<Rightarrow> entitlement_outcome op" where
  "apply_to_user pubkey sid yield_if_busy allow_unreferenced =
     op_bind (read_db (brainstorm_nsec_exists_by_pubkey_on_db pubkey)) (\<lambda>known.
     if \<not> known then decided UNKNOWN_USER else
     op_bind (asks locked) (\<lambda>lk.
     op_bind (read_db (lock_user_for_update_on_db lk pubkey yield_if_busy)) (\<lambda>held.
     if \<not> held then decided BUSY else
     op_bind (ask_flash (fetch_subscription sid (if given sid then None else Some pubkey))) (\<lambda>sub.
     op_bind (by_stored_id pubkey sid allow_unreferenced sub) (\<lambda>(found, allow).
     case found of
       None \<Rightarrow> decided UNKNOWN_SUBSCRIPTION
     | Some s \<Rightarrow> apply_found pubkey allow s)))))"

text \<open>A reference that is not text fails at its first statement, where the driver does not
  take it for a \<^verbatim>\<open>pubkey\<close>.\<close>

definition apply_entitlement ::
  "json \<Rightarrow> string option \<Rightarrow> bool \<Rightarrow> bool \<Rightarrow> entitlement_outcome op" where
  "apply_entitlement external_ref sid yield_if_busy allow_unreferenced =
     (if \<not> truthy external_ref then decided NO_REFERENCE
      else op_bind (bound_ok (text_ok external_ref)) (\<lambda>_.
           apply_to_user (the (text_of external_ref)) sid yield_if_busy allow_unreferenced))"

section \<open>Plan mappings\<close>

definition require_scheduling :: "int \<Rightarrow> unit op" where
  "require_scheduling sid =
     op_bind (read_db (scheduling_exists_on_db sid)) (\<lambda>ok.
     if ok then ret () else raise (HTTPException 404 ''No such scheduling policy''))"

definition require_unused_flash_ids :: "string \<Rightarrow> string \<Rightarrow> unit op" where
  "require_unused_flash_ids service plan =
     op_bind (read_db (get_billing_plan_on_db service plan)) (\<lambda>used.
     if used = None then ret ()
     else raise (HTTPException 409 ''Another plan mapping already uses those Flash ids''))"

definition list_billing_plans_admin :: "billing_plan list op" where
  "list_billing_plans_admin = read_db (select_billing_plans_on_db False)"

definition create_billing_plan :: "string \<Rightarrow> string \<Rightarrow> int \<Rightarrow> bool \<Rightarrow> billing_plan op" where
  "create_billing_plan service plan sid active =
     op_bind (require_scheduling sid) (\<lambda>_.
     op_bind (require_unused_flash_ids service plan) (\<lambda>_.
     op_bind (exec_db (insert_billing_plan_on_db service plan sid active)) (\<lambda>row.
     op_bind (asks jsonb_text) (\<lambda>pr.
     op_bind (exec_db (reset_events_awaiting_plan_on_db pr service plan (reason_value UNKNOWN_PLAN))) (\<lambda>waiting.
     op_bind commit (\<lambda>_. ret row))))))"

definition plan_fixed_detail :: "nat \<Rightarrow> string" where
  "plan_fixed_detail n =
     show_nat n @ '' subscriber(s) bought this mapping, so its Flash ids are fixed. Create a new mapping with the right ids and deactivate this one.''"

text \<open>The rest of the update, for the row that is there.\<close>

definition retune_billing_plan :: "int \<Rightarrow> plan_values \<Rightarrow> billing_plan \<Rightarrow> billing_plan op" where
  "retune_billing_plan plan_id v p =
     (let service = or_keep (pv_flash_service_id v) (bp_flash_service_id p);
          ref = or_keep (pv_flash_plan_id v) (bp_flash_plan_id p);
          reidentified = ((service, ref) \<noteq> (bp_flash_service_id p, bp_flash_plan_id p))
      in
      op_bind (op_when reidentified
        (op_bind (read_db (count_subscriptions_for_plan_on_db plan_id)) (\<lambda>subscribers.
         if subscribers \<noteq> 0 then raise (HTTPException 409 (plan_fixed_detail subscribers))
         else require_unused_flash_ids service ref))) (\<lambda>_.
      op_bind (exec_db (update_billing_plan_on_db plan_id v)) (\<lambda>_.
      op_bind (asks jsonb_text) (\<lambda>pr.
      op_bind (op_when reidentified
        (op_bind (exec_db (reset_events_awaiting_plan_on_db pr service ref (reason_value UNKNOWN_PLAN)))
           (\<lambda>_. ret ()))) (\<lambda>_.
      op_bind commit (\<lambda>_. ret (assign_plan v p)))))))"

definition update_billing_plan :: "int \<Rightarrow> plan_values \<Rightarrow> billing_plan op" where
  "update_billing_plan plan_id v =
     op_bind (case pv_scheduling_id v of None \<Rightarrow> ret () | Some sid \<Rightarrow> require_scheduling sid) (\<lambda>_.
     op_bind (read_db (get_billing_plan_by_id_on_db plan_id)) (\<lambda>current.
     case current of
       None \<Rightarrow> raise (HTTPException 404 ''No such plan'')
     | Some p \<Rightarrow> retune_billing_plan plan_id v p))"

section \<open>Blocking\<close>

record block_outcome =
  bo_found :: bool
  bo_blocked :: bool
  bo_revoked :: bool

definition take_back_policy :: "string \<Rightarrow> unit op" where
  "take_back_policy pubkey =
     op_bind (asks keys) (\<lambda>ks.
     op_bind (write_db (set_scheduling_for_pubkey_on_db ks pubkey None SOURCE_DEFAULT)) (\<lambda>_.
     write_db (clear_granted_scheduling_on_db pubkey)))"

definition set_billing_block :: "string \<Rightarrow> bool \<Rightarrow> block_outcome op" where
  "set_billing_block pubkey blocked =
     op_bind (read_db (brainstorm_nsec_exists_by_pubkey_on_db pubkey)) (\<lambda>known.
     if \<not> known then ret \<lparr>bo_found = False, bo_blocked = False, bo_revoked = False\<rparr> else
     op_bind (asks locked) (\<lambda>lk.
     op_bind (read_db (lock_user_for_update_on_db lk pubkey False)) (\<lambda>_.
     op_bind (write_db (set_billing_blocked_on_db pubkey blocked)) (\<lambda>_.
     op_bind (read_db (\<lambda>d. blocked \<and> get_scheduling_source_on_db pubkey d = SOURCE_BILLING)) (\<lambda>revoked.
     op_bind (op_when revoked (take_back_policy pubkey)) (\<lambda>_.
     op_bind commit (\<lambda>_. ret \<lparr>bo_found = True, bo_blocked = blocked, bo_revoked = revoked\<rparr>)))))))"

section \<open>Acting on a subscription in Flash\<close>

definition REREAD_FAILED :: string where "REREAD_FAILED = ''reread_failed''"

record subscription_action_outcome =
  sa_pubkey :: string
  sa_subscription_id :: string
  sa_flash_status :: string
  sa_cancel_effective_date :: "datetime option"
  sa_cancellation_scheduled :: bool
  sa_applied :: bool
  sa_reason :: string

definition reread_after :: "string \<Rightarrow> string \<Rightarrow> (bool \<times> string) op" where
  "reread_after pubkey sid =
     catch
       (op_bind (apply_entitlement (JStr pubkey) (Some sid) False False)
          (\<lambda>out. ret (eo_applied out, reason_value (eo_reason out))))
       (\<lambda>e. case e of
              FlashUnavailable _ \<Rightarrow> ret (False, REREAD_FAILED)
            | FlashCredentialError _ \<Rightarrow> ret (False, REREAD_FAILED)
            | _ \<Rightarrow> raise e)"

definition act_on_subscription ::
  "string \<Rightarrow> (string \<Rightarrow> flash_subscription option flash_op) \<Rightarrow> subscription_action_outcome op" where
  "act_on_subscription pubkey write =
     op_bind (read_db (get_user_subscription_on_db pubkey)) (\<lambda>held.
     case held of
       None \<Rightarrow> raise (HTTPException 404 ''We hold no Flash subscription for this user, so there is nothing to act on.'')
     | Some row \<Rightarrow>
         let sid = us_flash_subscription_id row in
         if sid = [] then raise (HTTPException 404
           ''We hold no Flash subscription for this user, so there is nothing to act on.'')
         else op_bind (ask_flash (write sid)) (\<lambda>changed.
         case changed of
           None \<Rightarrow> raise (HTTPException 404 ''Flash no longer holds the subscription we have on file for this user.'')
         | Some c \<Rightarrow>
             op_bind (reread_after pubkey sid) (\<lambda>(applied, reason).
             ret \<lparr>sa_pubkey = pubkey,
                  sa_subscription_id = (if fs_id c = [] then sid else fs_id c),
                  sa_flash_status = fs_status c,
                  sa_cancel_effective_date = fs_cancel_effective_date c,
                  sa_cancellation_scheduled =
                    (fs_cancel_effective_date c \<noteq> None \<or> fs_status c = CANCELLED_STATUS),
                  sa_applied = applied, sa_reason = reason\<rparr>)))"

definition cancel_subscriber_subscription :: "string \<Rightarrow> string option \<Rightarrow> subscription_action_outcome op" where
  "cancel_subscriber_subscription pubkey reason =
     act_on_subscription pubkey (\<lambda>sid. cancel_subscription sid reason)"

definition set_subscriber_subscription_status :: "string \<Rightarrow> string \<Rightarrow> subscription_action_outcome op" where
  "set_subscriber_subscription_status pubkey status =
     act_on_subscription pubkey (\<lambda>sid. set_subscription_status sid status)"

section \<open>Signups that named nobody\<close>

record resolution_outcome =
  ro_subscription_id :: string
  ro_resolution :: entitlement_reason
  ro_pubkey :: "string option"
  ro_applied :: bool
  ro_events_settled :: nat
  ro_entitlement_reason :: "entitlement_reason option"

fun ATTRIBUTION_REFUSALS :: "entitlement_reason \<Rightarrow> (nat \<times> string) option" where
  "ATTRIBUTION_REFUSALS UNKNOWN_USER = Some (404, ''No such user. Check the pubkey.'')"
| "ATTRIBUTION_REFUSALS UNKNOWN_SUBSCRIPTION =
     Some (404, ''Flash has no subscription with this id, so there is nothing to attribute.'')"
| "ATTRIBUTION_REFUSALS REFERENCE_MISMATCH =
     Some (409, ''Flash says this subscription already belongs to a different user.'')"
| "ATTRIBUTION_REFUSALS UNKNOWN_PLAN =
     Some (409, ''This subscription is for a plan nothing maps yet. Map the plan first, then attribute it.'')"
| "ATTRIBUTION_REFUSALS BUSY = Some (409, ''This user is being reconciled right now. Try again in a moment.'')"
| "ATTRIBUTION_REFUSALS NO_REFERENCE = Some (409, ''No pubkey to attribute this to.'')"
| "ATTRIBUTION_REFUSALS _ = None"

definition attribution_grant :: "string \<Rightarrow> string \<Rightarrow> (bool \<times> entitlement_reason) op" where
  "attribution_grant sid pubkey =
     op_bind (read_db (get_user_subscription_on_db pubkey)) (\<lambda>existing.
     case existing of
       Some row \<Rightarrow> raise (HTTPException 409
         (''This user already holds subscription '' @ us_flash_subscription_id row @ ''. Resolve that one first.''))
     | None \<Rightarrow>
         op_bind (apply_entitlement (JStr pubkey) (Some sid) False True) (\<lambda>out.
         if eo_reason out \<in> SETTLED_REASONS then ret (eo_applied out, eo_reason out)
         else case ATTRIBUTION_REFUSALS (eo_reason out) of
                Some (code, detail) \<Rightarrow> raise (HTTPException code detail)
              | None \<Rightarrow> raise KeyError))"

definition attribute_unresolved_subscription :: "string \<Rightarrow> string \<Rightarrow> string \<Rightarrow> resolution_outcome op" where
  "attribute_unresolved_subscription sid pubkey acting_pubkey =
     op_bind (read_db (get_user_subscription_by_flash_id_on_db sid)) (\<lambda>holder.
     op_bind
       (case holder of
          None \<Rightarrow> attribution_grant sid pubkey
        | Some row \<Rightarrow>
            if us_pubkey row \<noteq> pubkey
            then raise (HTTPException 409 ''This subscription is already attributed to another user.'')
            else ret (False, ATTRIBUTED)) (\<lambda>(applied, reason).
     op_bind (asks utc_now) (\<lambda>utc.
     op_bind (exec_db (settle_unresolved_events_on_db sid utc (reason_value ATTRIBUTED) acting_pubkey False)) (\<lambda>settled.
     op_bind commit (\<lambda>_.
     ret \<lparr>ro_subscription_id = sid, ro_resolution = ATTRIBUTED, ro_pubkey = Some pubkey, ro_applied = applied,
          ro_events_settled = settled, ro_entitlement_reason = Some reason\<rparr>)))))"

definition dismiss_unresolved_subscription :: "string \<Rightarrow> string \<Rightarrow> resolution_outcome op" where
  "dismiss_unresolved_subscription sid acting_pubkey =
     op_bind (asks utc_now) (\<lambda>utc.
     op_bind (exec_db (settle_unresolved_events_on_db sid utc (reason_value DISMISSED) acting_pubkey True)) (\<lambda>settled.
     if settled = 0
     then op_bind rollback (\<lambda>_. raise (HTTPException 404
       ''No unresolved signup with this subscription id. Any open deliveries it has name a subscriber, so they are not a signup to write off.''))
     else op_bind commit (\<lambda>_.
          ret \<lparr>ro_subscription_id = sid, ro_resolution = DISMISSED, ro_pubkey = None, ro_applied = False,
               ro_events_settled = settled, ro_entitlement_reason = None\<rparr>)))"

section \<open>What a payload implies\<close>

definition FALLBACK_STATUS :: "string \<Rightarrow> string option" where
  "FALLBACK_STATUS event =
     (if event = ''subscription.expired'' then Some ''expired''
      else if event = ''subscription.canceled'' then Some ''canceled''
      else if event = ''subscription.past_due'' then Some ''past_due''
      else None)"

definition fallback_cancel_date :: "string \<Rightarrow> user_subscription \<Rightarrow> datetime option" where
  "fallback_cancel_date status existing =
     (if status = ''canceled'' \<and> us_cancel_effective_date existing = None
      then us_current_period_end existing else None)"

definition revoke_if_ours :: "string \<Rightarrow> user_subscription \<Rightarrow> bool op" where
  "revoke_if_ours pubkey existing =
     op_bind (read_db (\<lambda>d. resolve_entitlement REVOKE False
        (is_admin_held (get_scheduling_source_on_db pubkey d))
        (case us_granted_scheduling_id existing of None \<Rightarrow> 0 | Some i \<Rightarrow> i)
        (us_granted_scheduling_id existing))) (\<lambda>res.
     if write_policy res \<and> res_source res \<noteq> None
     then op_bind (write_resolution pubkey res) (\<lambda>_.
          op_bind (write_db (clear_granted_scheduling_on_db pubkey)) (\<lambda>_. ret True))
     else ret False)"

definition apply_payload_fallback :: "string \<Rightarrow> json \<Rightarrow> bool op" where
  "apply_payload_fallback event external_ref =
     (case FALLBACK_STATUS event of
        None \<Rightarrow> ret False
      | Some status \<Rightarrow>
          if \<not> truthy external_ref then ret False
          else op_bind (bound_ok (text_ok external_ref)) (\<lambda>_.
            let pubkey = the (text_of external_ref) in
            op_bind (asks locked) (\<lambda>lk.
            op_bind (read_db (lock_user_for_update_on_db lk pubkey True)) (\<lambda>held.
            if \<not> held then ret False else
            op_bind (read_db (get_user_subscription_on_db pubkey)) (\<lambda>existing.
            case existing of
              None \<Rightarrow> ret False
            | Some row \<Rightarrow>
                op_bind (if status = ''expired'' then revoke_if_ours pubkey row else ret False) (\<lambda>_.
                op_bind (write_db (update_flash_status_on_db pubkey status (fallback_cancel_date status row))) (\<lambda>_.
                op_bind commit (\<lambda>_. ret True))))))))"

section \<open>The decision table\<close>

lemma resolve_keeps_admin:
  "res_source (resolve_entitlement decision blocked True sid granted) = Some source \<Longrightarrow> source = SOURCE_ADMIN"
  by (auto simp: resolve_entitlement_def leave_policy_def split: entitlement_decision.splits if_splits)

lemma resolve_source_iff_write:
  "res_source (resolve_entitlement decision blocked held sid granted) = None \<longleftrightarrow>
   \<not> write_policy (resolve_entitlement decision blocked held sid granted)"
  by (auto simp: resolve_entitlement_def leave_policy_def split: entitlement_decision.splits)

lemma resolve_settles: "res_reason (resolve_entitlement decision blocked held sid granted) \<in> SETTLED_REASONS"
  by (auto simp: resolve_entitlement_def leave_policy_def SETTLED_REASONS_def split: entitlement_decision.splits)

lemma status_sets:
  "CANCELLED_STATUS \<notin> ENTITLING_STATUSES" "CANCELLED_STATUS \<notin> ENDED_STATUSES"
  "PAST_DUE_STATUS \<notin> ENTITLING_STATUSES" "PAST_DUE_STATUS \<notin> ENDED_STATUSES"
  "CANCELLED_STATUS \<noteq> PAST_DUE_STATUS" "ENTITLING_STATUSES \<inter> ENDED_STATUSES = {}"
  by (auto simp: CANCELLED_STATUS_def ENTITLING_STATUSES_def ENDED_STATUSES_def PAST_DUE_STATUS_def)

text \<open>
  The passing of time alone only ever ends an entitlement, and only a cancelled one at
  its own date: a grant or a revocation stays what it is at every later moment, and a hold
  that becomes a revocation was a cancellation whose end date lies between the two moments.
\<close>

lemma decision_moves_only_at_the_end_date:
  fixes status :: string and cancels period_end :: "datetime option" and policy :: flash_lifecycle_policy
  assumes "utc \<le> later"
  defines "decide t \<equiv> decide_entitlement status cancels period_end t policy"
  shows "decide later = decide utc
    \<or> decide utc = HOLD \<and> decide later = REVOKE \<and> status = CANCELLED_STATUS
      \<and> (\<exists>ends. first_given cancels period_end = Some ends \<and> utc < ends \<and> ends \<le> later)"
  using assms(1) status_sets
  by (auto simp: decide_def decide_entitlement_def decide_cancelled_def split: option.split)

text \<open>
  Uncertainty never costs a tier: where Flash has not said how a subscription ends,
  only a status that names an ending, or a cancellation whose date has come, revokes. So a
  failed payment, a pending checkout and a status nobody has seen before all hold.
\<close>

lemma unknown_policy_revokes_only_endings:
  "decide_entitlement status cancels period_end utc UNKNOWN_LIFECYCLE_POLICY = REVOKE \<longleftrightarrow>
     status \<in> {''expired'', ''paused''}
     \<or> status = ''canceled'' \<and> (\<forall>ends. first_given cancels period_end = Some ends \<longrightarrow> ends \<le> utc)"
  using status_sets
  by (auto simp: decide_entitlement_def decide_past_due_def decide_cancelled_def UNKNOWN_LIFECYCLE_POLICY_def
      ENDED_STATUSES_def CANCELLED_STATUS_def ENTITLING_STATUSES_def PAST_DUE_STATUS_def split: option.split)

section \<open>What a reconciliation does to the database\<close>

text \<open>The one transition every grant, revocation and hold goes through: the policy where
  the resolution writes one, and the record.\<close>

definition policy_write :: "keygen \<Rightarrow> string \<Rightarrow> resolution \<Rightarrow> db \<Rightarrow> db" where
  "policy_write ks pubkey res d =
     (case res_source res of
        Some source \<Rightarrow>
          if write_policy res then set_scheduling_for_pubkey_on_db ks pubkey (res_scheduling_id res) source d else d
      | None \<Rightarrow> d)"

definition grant_step :: "keygen \<Rightarrow> string \<Rightarrow> flash_subscription \<Rightarrow> billing_plan \<Rightarrow> datetime \<Rightarrow> db \<Rightarrow> db" where
  "grant_step ks pubkey sub plan utc d =
     (let res = resolution_for pubkey sub plan utc (get_user_subscription_on_db pubkey d) d
      in upsert_user_subscription_on_db pubkey sub (bp_id plan) (res_granted_scheduling_id res) utc
           (policy_write ks pubkey res d))"

lemma write_resolution_run:
  "write_resolution pubkey res env w = (Inr (), w\<lparr>tx := policy_write (keys env) pubkey res (tx w)\<rparr>)"
  by (simp add: write_resolution_def policy_write_def op_defs split: option.split)

lemma grant_and_record_run:
  fixes w :: session and env :: billing_env and sub :: flash_subscription and plan :: billing_plan
  assumes "existing = get_user_subscription_on_db pubkey (tx w)"
  defines "res \<equiv> resolution_for pubkey sub plan (utc_now env) existing (tx w)"
    and "d' \<equiv> grant_step (keys env) pubkey sub plan (utc_now env) (tx w)"
  shows "grant_and_record pubkey sub plan existing env w =
    (if \<not> storable_subscription sub
     then (Inl (HTTPException 500 (driver_text env)), w\<lparr>tx := policy_write (keys env) pubkey res (tx w)\<rparr>)
     else case commit_fault env (commits w) of
            Some e \<Rightarrow> (Inl e, w\<lparr>tx := d', commits := commits w + 1\<rparr>)
          | None \<Rightarrow> (Inr \<lparr>eo_applied = write_policy res, eo_reason = res_reason res\<rparr>,
                     w\<lparr>tx := d', durable := d', commits := commits w + 1\<rparr>))"
  using assms(1)
  by (simp add: grant_and_record_def op_bind_def asks_def read_db_def write_resolution_run bound_ok_def write_db_def
      commit_def ret_def grant_step_def res_def d'_def Let_def split: option.split)

text \<open>Everything before the grant only reads the database.\<close>

definition reads_only :: "'a op \<Rightarrow> bool" where
  "reads_only m \<longleftrightarrow> (\<forall>env w. tx (snd (m env w)) = tx w \<and> durable (snd (m env w)) = durable w
     \<and> commits (snd (m env w)) = commits w)"

lemma reads_onlyD:
  "reads_only m \<Longrightarrow> m env w = (r, w') \<Longrightarrow> tx w' = tx w \<and> durable w' = durable w \<and> commits w' = commits w"
  by (metis reads_only_def snd_conv)

lemma reads_only_simple:
  "reads_only (ret x)" "reads_only (raise e)" "reads_only (asks g)" "reads_only (read_db h)"
  "reads_only (ask_flash f)" "reads_only (bound_ok ok)"
  by (auto simp: reads_only_def op_defs split: prod.split)

lemma reads_only_bind: "reads_only m \<Longrightarrow> (\<And>x. reads_only (f x)) \<Longrightarrow> reads_only (op_bind m f)"
  unfolding reads_only_def op_bind_def by (auto split: prod.split sum.split) (metis snd_conv)+

lemma reads_only_by_stored_id: "reads_only (by_stored_id pubkey sid allow sub)"
  unfolding by_stored_id_def by (auto intro!: reads_only_bind reads_only_simple split: option.split)

lemma reads_only_current_subscription: "reads_only (current_subscription pubkey existing sub)"
  unfolding current_subscription_def by (auto intro!: reads_only_bind reads_only_simple split: option.split)

text \<open>An operation that decided nothing: the database is as it was, and the answer, where
  there is one, names no settled reason.\<close>

definition nothing_decided :: "session \<Rightarrow> (exn, entitlement_outcome) result \<Rightarrow> session \<Rightarrow> bool" where
  "nothing_decided w r w' \<longleftrightarrow>
     tx w' = tx w \<and> durable w' = durable w
     \<and> (\<forall>out. r = Inr out \<longrightarrow> \<not> eo_applied out \<and> eo_reason out \<notin> SETTLED_REASONS)"

text \<open>A grant of \<open>pubkey\<close> that started from an unchanged database.\<close>

definition granting :: "string \<Rightarrow> session \<Rightarrow> billing_env \<Rightarrow> (exn, entitlement_outcome) result \<Rightarrow> session \<Rightarrow> bool" where
  "granting pubkey w env r w' \<longleftrightarrow>
     (\<exists>sub plan w1. tx w1 = tx w \<and> durable w1 = durable w \<and> nsec_of pubkey (tx w) \<noteq> None
        \<and> get_billing_plan_on_db (fs_service_id sub) (fs_plan_id sub) (tx w) = Some plan
        \<and> grant_and_record pubkey sub plan (get_user_subscription_on_db pubkey (tx w)) env w1 = (r, w'))"

lemma decided_run: "decided reason env w = (Inr \<lparr>eo_applied = False, eo_reason = reason\<rparr>, w)"
  by (simp add: decided_def ret_def)

lemma apply_plan_cases:
  assumes "apply_plan pubkey existing sub env u = (r, w')"
    and "existing = get_user_subscription_on_db pubkey (tx w)" and "tx u = tx w" and "durable u = durable w"
    and "nsec_of pubkey (tx w) \<noteq> None"
  shows "nothing_decided w r w' \<or> granting pubkey w env r w'"
  using assms
  by (auto simp: apply_plan_def op_bind_def bound_ok_def read_db_def decided_run nothing_decided_def granting_def
      SETTLED_REASONS_def split: if_splits option.splits)

lemma apply_found_cases:
  assumes "apply_found pubkey allow sub env u = (r, w')" and "tx u = tx w" and "durable u = durable w"
    and "nsec_of pubkey (tx w) \<noteq> None"
  shows "nothing_decided w r w' \<or> granting pubkey w env r w'"
proof (cases "(\<not> truthy (fs_ref sub) \<and> \<not> allow) \<or> (truthy (fs_ref sub) \<and> fs_ref sub \<noteq> JStr pubkey)")
  case True
  with assms show ?thesis
    by (auto simp: apply_found_def decided_run nothing_decided_def SETTLED_REASONS_def split: if_splits)
next
  case False
  obtain r2 w2 where c: "current_subscription pubkey (get_user_subscription_on_db pubkey (tx w)) sub env u = (r2, w2)"
    by fastforce
  note same = reads_onlyD[OF reads_only_current_subscription c]
  show ?thesis
  proof (cases r2)
    case (Inl e)
    with False assms c same show ?thesis
      by (auto simp: apply_found_def op_bind_def read_db_def nothing_decided_def)
  next
    case (Inr s)
    with False assms c have "apply_plan pubkey (get_user_subscription_on_db pubkey (tx w)) s env w2 = (r, w')"
      by (auto simp: apply_found_def op_bind_def read_db_def split: if_splits)
    then show ?thesis using same assms by (intro apply_plan_cases[where u = w2]) auto
  qed
qed

lemma apply_to_user_cases:
  assumes "apply_to_user pubkey sid busy allow env w = (r, w')"
  shows "nothing_decided w r w' \<or> granting pubkey w env r w'"
proof (cases "brainstorm_nsec_exists_by_pubkey_on_db pubkey (tx w) \<and> lock_user_for_update_on_db (locked env) pubkey busy (tx w)")
  case False
  with assms show ?thesis
    by (auto simp: apply_to_user_def op_bind_def read_db_def asks_def decided_run nothing_decided_def SETTLED_REASONS_def
        split: if_splits)
next
  case True
  then have user: "nsec_of pubkey (tx w) \<noteq> None" by (simp add: brainstorm_nsec_exists_by_pubkey_on_db_def)
  let ?m = "op_bind (ask_flash (fetch_subscription sid (if given sid then None else Some pubkey))) (by_stored_id pubkey sid allow)"
  have ro: "reads_only ?m" by (intro reads_only_bind reads_only_simple reads_only_by_stored_id)
  obtain r2 u where m: "?m env w = (r2, u)" by fastforce
  note same = reads_onlyD[OF ro m]
  have split: "apply_to_user pubkey sid busy allow env w =
     (case r2 of Inl e \<Rightarrow> (Inl e, u)
      | Inr (found, al) \<Rightarrow> (case found of None \<Rightarrow> decided UNKNOWN_SUBSCRIPTION | Some s \<Rightarrow> apply_found pubkey al s) env u)"
    using True m
    by (auto simp: apply_to_user_def op_bind_def read_db_def asks_def split: prod.splits sum.splits option.splits)
  show ?thesis
  proof (cases r2)
    case (Inl e)
    with assms split same show ?thesis by (auto simp: nothing_decided_def)
  next
    case (Inr p)
    with assms split same user show ?thesis
      by (cases p)
        (auto simp: decided_run nothing_decided_def SETTLED_REASONS_def split: option.splits
          dest: apply_found_cases[where w = w])
  qed
qed

text \<open>The two things a reconciliation can do.\<close>

lemma apply_entitlement_cases:
  assumes "apply_entitlement external_ref sid busy allow env w = (r, w')"
  shows "nothing_decided w r w' \<or> (\<exists>pubkey. external_ref = JStr pubkey \<and> granting pubkey w env r w')"
proof -
  have is_text: "\<exists>p. external_ref = JStr p" if "truthy external_ref" "text_ok external_ref"
    using that by (cases external_ref) auto
  show ?thesis
    using assms is_text apply_to_user_cases[of _ sid busy allow env w r w']
    by (auto simp: apply_entitlement_def op_bind_def bound_ok_def decided_run nothing_decided_def SETTLED_REASONS_def
        split: if_splits)
qed

lemma granting_cases:
  assumes "granting pubkey w env r w'"
  obtains (refused) e where "r = Inl e" "durable w' = durable w"
  | (landed) sub plan where "nsec_of pubkey (tx w) \<noteq> None"
      "get_billing_plan_on_db (fs_service_id sub) (fs_plan_id sub) (tx w) = Some plan"
      "durable w' = grant_step (keys env) pubkey sub plan (utc_now env) (tx w)" "tx w' = durable w'"
      "r = Inr \<lparr>eo_applied = write_policy (resolution_for pubkey sub plan (utc_now env)
                                (get_user_subscription_on_db pubkey (tx w)) (tx w)),
                eo_reason = res_reason (resolution_for pubkey sub plan (utc_now env)
                                (get_user_subscription_on_db pubkey (tx w)) (tx w))\<rparr>"
proof -
  from assms obtain sub plan u where u: "tx u = tx w" "durable u = durable w" "nsec_of pubkey (tx w) \<noteq> None"
    "get_billing_plan_on_db (fs_service_id sub) (fs_plan_id sub) (tx w) = Some plan"
    and g: "grant_and_record pubkey sub plan (get_user_subscription_on_db pubkey (tx u)) env u = (r, w')"
    by (auto simp: granting_def)
  show thesis
    using g[unfolded grant_and_record_run[OF refl]] u refused landed[of sub plan]
    by (auto split: if_splits option.splits)
qed

text \<open>
  C3. The tier and its record commit together or not at all: whatever Flash answers and
  whichever commit fails, what is durable after reconciling one subscriber is either
  exactly what was durable before, or the single transition that writes the policy and the
  record of it, applied to what the transaction saw. A raised error, and an answer that
  settles nothing, leave the durable state alone.
\<close>

theorem entitlement_commits_together:
  assumes "apply_entitlement external_ref sid busy allow env w = (r, w')"
  shows "durable w' = durable w \<and> (\<forall>out. r = Inr out \<longrightarrow> eo_reason out \<notin> SETTLED_REASONS \<and> \<not> eo_applied out)
    \<or> (\<exists>pubkey sub plan out. external_ref = JStr pubkey \<and> r = Inr out \<and> eo_reason out \<in> SETTLED_REASONS
        \<and> get_billing_plan_on_db (fs_service_id sub) (fs_plan_id sub) (tx w) = Some plan
        \<and> durable w' = grant_step (keys env) pubkey sub plan (utc_now env) (tx w))"
  using apply_entitlement_cases[OF assms]
proof (elim disjE exE conjE)
  assume "nothing_decided w r w'"
  then show ?thesis by (auto simp: nothing_decided_def)
next
  fix pubkey assume ref: "external_ref = JStr pubkey" and "granting pubkey w env r w'"
  from this(2) show ?thesis
  proof (cases rule: granting_cases)
    case (refused e)
    then show ?thesis by simp
  next
    case (landed sub plan)
    with ref show ?thesis using resolve_settles by (auto simp: resolution_for_def)
  qed
qed

section \<open>A concrete world\<close>

text \<open>One user, one mapped plan and Flash's stand-in holding one subscription: what the
  witnesses below run on.\<close>

definition example_db :: db where
  "example_db =
     \<lparr>nsecs = [fresh_nsec (\<lambda>_. ([], [])) ''alice''], schedulings = [],
      billing_plans = [\<lparr>bp_id = 1, bp_flash_service_id = ''svc'', bp_flash_plan_id = ''plan'',
                        bp_scheduling_id = 7, bp_is_active = False\<rparr>],
      user_subscriptions = [], webhook_events = [], next_event_id = 1, next_plan_id = 2\<rparr>"

definition example_sub :: "string \<Rightarrow> json \<Rightarrow> flash_subscription" where
  "example_sub status ref =
     \<lparr>fs_id = ''sub_1'', fs_status = status, fs_ref = ref, fs_subscriber_id = JNull, fs_service_id = ''svc'',
      fs_plan_id = ''plan'', fs_current_period_start = None, fs_current_period_end = Some 500,
      fs_next_billing_date = None, fs_trial_end_date = None, fs_cancel_effective_date = None,
      fs_portal_url = None, fs_pricing = None, fs_policy = UNKNOWN_LIFECYCLE_POLICY\<rparr>"

definition example_env :: billing_env where
  "example_env =
     \<lparr>flash = \<lparr>flash_mock_enabled = True, flash_base_url = [], send = (\<lambda>_ _. ReadTimeout [])\<rparr>,
      utc_now = 100, locked = (\<lambda>_. False), keys = (\<lambda>_. ([], [])), commit_fault = (\<lambda>_. None),
      driver_text = [], jsonb_text = (\<lambda>_. [])\<rparr>"

definition example_session :: "db \<Rightarrow> flash_subscription list \<Rightarrow> session" where
  "example_session d subs =
     \<lparr>tx = d, durable = d, fl = \<lparr>sent = 0, mock_subscriptions = subs, mock_plans = []\<rparr>, commits = 0\<rparr>"

definition example_run :: "string \<Rightarrow> (exn, entitlement_outcome) result \<times> session" where
  "example_run status =
     apply_entitlement (JStr ''alice'') None False False example_env
       (example_session example_db [example_sub status (JStr ''alice'')])"

lemma example_run_active: "fst (example_run ''active'') = Inr \<lparr>eo_applied = True, eo_reason = GRANTED\<rparr>"
  by code_simp

theorem entitlement_commits_together_witness:
  "fst (example_run ''active'') = Inr \<lparr>eo_applied = True, eo_reason = GRANTED\<rparr>
   \<and> (\<exists>sub plan. durable (snd (example_run ''active''))
        = grant_step (\<lambda>_. ([], [])) ''alice'' sub plan 100 example_db)"
proof -
  have run: "apply_entitlement (JStr ''alice'') None False False example_env
      (example_session example_db [example_sub ''active'' (JStr ''alice'')])
      = (Inr \<lparr>eo_applied = True, eo_reason = GRANTED\<rparr>, snd (example_run ''active''))"
    using example_run_active by (simp add: example_run_def prod_eq_iff)
  show ?thesis
    using entitlement_commits_together[OF run] example_run_active
    by (auto simp: SETTLED_REASONS_def example_session_def example_env_def)
qed

section \<open>The tier and the record agree\<close>

lemma nsec_of_policy_write [table_simps]:
  "nsec_of q (policy_write ks p res d) =
     (case res_source res of
        Some source \<Rightarrow>
          if write_policy res \<and> q = p
          then Some ((case nsec_of p d of None \<Rightarrow> fresh_nsec ks p | Some r \<Rightarrow> r)
                       \<lparr>bn_scheduling_id := res_scheduling_id res, bn_scheduling_source := source\<rparr>)
          else nsec_of q d
      | None \<Rightarrow> nsec_of q d)"
  by (auto simp: policy_write_def table_simps split: option.split)

lemma get_user_subscription_policy_write [table_simps]:
  "get_user_subscription_on_db q (policy_write ks p res d) = get_user_subscription_on_db q d"
  by (simp add: policy_write_def table_simps split: option.split)

lemma get_user_subscription_grant_step:
  "get_user_subscription_on_db q (grant_step ks p sub plan utc d) =
     (if q = p
      then Some (record_flash_view sub (bp_id plan)
             (res_granted_scheduling_id (resolution_for p sub plan utc (get_user_subscription_on_db p d) d)) utc
             (case get_user_subscription_on_db p d of None \<Rightarrow> blank_subscription p utc | Some s \<Rightarrow> s))
      else get_user_subscription_on_db q d)"
  by (simp add: grant_step_def Let_def table_simps)

lemma nsec_of_grant_step:
  "nsec_of q (grant_step ks p sub plan utc d) =
     nsec_of q (policy_write ks p (resolution_for p sub plan utc (get_user_subscription_on_db p d) d) d)"
  by (simp add: grant_step_def Let_def table_simps)

lemma resolution_write_grant:
  "write_policy (resolve_entitlement dec b h sid g) \<Longrightarrow>
   res_scheduling_id (resolve_entitlement dec b h sid g) = res_granted_scheduling_id (resolve_entitlement dec b h sid g)"
  "\<not> write_policy (resolve_entitlement dec b h sid g) \<Longrightarrow> res_granted_scheduling_id (resolve_entitlement dec b h sid g) = g"
  by (auto simp: resolve_entitlement_def leave_policy_def split: entitlement_decision.splits)

text \<open>
  C4. What the user receives and what we recorded granting are one thing: after a
  reconciliation that applied, the policy assigned to the user is the policy recorded as
  granted, and the record carries Flash's status and id; after one that settled without
  applying, the assignment and the recorded grant are both what they were.
\<close>

theorem tier_matches_record:
  assumes "apply_entitlement (JStr pubkey) sid busy allow env w = (Inr out, w')"
    and "eo_reason out \<in> SETTLED_REASONS"
  shows "\<exists>row. get_user_subscription_on_db pubkey (durable w') = Some row \<and> us_last_synced_at row = Some (utc_now env) \<and>
    (if eo_applied out
     then get_assigned_scheduling_id_on_db pubkey (durable w') = us_granted_scheduling_id row
     else nsec_of pubkey (durable w') = nsec_of pubkey (tx w)
       \<and> us_granted_scheduling_id row
           = Option.bind (get_user_subscription_on_db pubkey (tx w)) us_granted_scheduling_id)"
proof -
  from apply_entitlement_cases[OF assms(1)] assms(2) have "granting pubkey w env (Inr out) w'"
    by (auto simp: nothing_decided_def)
  then show ?thesis
  proof (cases rule: granting_cases)
    case (landed sub plan)
    let ?res = "resolution_for pubkey sub plan (utc_now env) (get_user_subscription_on_db pubkey (tx w)) (tx w)"
    note src = resolve_source_iff_write[of _ "is_billing_blocked_on_db pubkey (tx w)"]
    show ?thesis
    proof (cases "write_policy ?res")
      case True
      then obtain source where "res_source ?res = Some source"
        using src unfolding resolution_for_def by (metis option.exhaust)
      with True landed show ?thesis
        using resolution_write_grant(1) unfolding get_assigned_scheduling_id_on_db_def
        by (simp add: get_user_subscription_grant_step nsec_of_grant_step nsec_of_policy_write resolution_for_def)
    next
      case False
      then have "res_source ?res = None" using src unfolding resolution_for_def by blast
      with False landed show ?thesis
        using resolution_write_grant(2)
        by (simp add: get_user_subscription_grant_step nsec_of_grant_step nsec_of_policy_write resolution_for_def)
    qed
  qed simp
qed

theorem tier_matches_record_witness:
  "\<exists>row. get_user_subscription_on_db ''alice'' (durable (snd (example_run ''active''))) = Some row
     \<and> get_assigned_scheduling_id_on_db ''alice'' (durable (snd (example_run ''active''))) = us_granted_scheduling_id row"
proof -
  have run: "apply_entitlement (JStr ''alice'') None False False example_env
      (example_session example_db [example_sub ''active'' (JStr ''alice'')])
      = (Inr \<lparr>eo_applied = True, eo_reason = GRANTED\<rparr>, snd (example_run ''active''))"
    using example_run_active by (simp add: example_run_def prod_eq_iff)
  show ?thesis using tier_matches_record[OF run] by (auto simp: SETTLED_REASONS_def)
qed

lemma policy_write_twice:
  assumes "nsec_of p d \<noteq> None"
  shows "policy_write ks p res (policy_write ks p res d) = policy_write ks p res d"
proof -
  have exists: "snd (get_or_create_brainstorm_observer_nsec_by_pubkey_on_db ks p e) = e" if "nsec_of p e \<noteq> None" for e
    using that by (auto simp: get_or_create_brainstorm_observer_nsec_by_pubkey_on_db_def split: option.split)
  have set: "set_scheduling_for_pubkey_on_db ks p sid source e
      = update_nsec p (\<lambda>r. r\<lparr>bn_scheduling_id := sid, bn_scheduling_source := source\<rparr>) e"
    if "nsec_of p e \<noteq> None" for e sid source
    using exists[OF that] by (simp add: set_scheduling_for_pubkey_on_db_def)
  have "set_scheduling_for_pubkey_on_db ks p sid source (set_scheduling_for_pubkey_on_db ks p sid source d)
      = set_scheduling_for_pubkey_on_db ks p sid source d" for sid source
  proof -
    have "nsec_of p (set_scheduling_for_pubkey_on_db ks p sid source d) \<noteq> None" by (simp add: table_simps)
    from set[OF this] set[OF assms] show ?thesis by (simp add: update_nsec_def sql_update_twice)
  qed
  then show ?thesis by (simp add: policy_write_def split: option.split)
qed

lemma policy_write_upsert:
  assumes "nsec_of p d \<noteq> None"
  shows "policy_write ks p res (upsert_user_subscription_on_db p sub i g utc d)
    = upsert_user_subscription_on_db p sub i g utc (policy_write ks p res d)"
  using assms
  by (auto simp: policy_write_def upsert_user_subscription_on_db_def set_scheduling_for_pubkey_on_db_def
      get_or_create_brainstorm_observer_nsec_by_pubkey_on_db_def nsec_of_def update_nsec_def split: option.split)

lemma upsert_twice:
  "upsert_user_subscription_on_db p sub i g utc (upsert_user_subscription_on_db p sub i g utc d)
    = upsert_user_subscription_on_db p sub i g utc d"
  by (simp add: upsert_user_subscription_on_db_def sql_upsert_twice)

lemma resolution_again:
  assumes "res = resolve_entitlement dec b h sid g" and "res_source res = Some source" and "write_policy res"
  shows "resolve_entitlement dec b (source = SOURCE_ADMIN) sid (res_granted_scheduling_id res) = res"
  using assms by (auto simp: resolve_entitlement_def leave_policy_def split: entitlement_decision.splits if_splits)

lemma resolution_again_left:
  assumes "res = resolve_entitlement dec b h sid g" and "\<not> write_policy res"
  shows "resolve_entitlement dec b h sid (res_granted_scheduling_id res) = res"
  using assms by (auto simp: resolve_entitlement_def leave_policy_def split: entitlement_decision.splits if_splits)

lemma resolution_for_grant_step:
  fixes sub :: flash_subscription and plan :: billing_plan and utc :: datetime and ks :: keygen
  assumes "nsec_of p d = Some n"
  defines "res \<equiv> resolution_for p sub plan utc (get_user_subscription_on_db p d) d"
    and "d' \<equiv> grant_step ks p sub plan utc d"
  shows "resolution_for p sub plan utc (get_user_subscription_on_db p d') d' = res"
proof -
  have granted: "Option.bind (get_user_subscription_on_db p d') us_granted_scheduling_id = res_granted_scheduling_id res"
    by (simp add: d'_def res_def get_user_subscription_grant_step)
  show ?thesis
  proof (cases "write_policy res")
    case True
    then obtain source where source: "res_source res = Some source"
      using resolve_source_iff_write unfolding res_def resolution_for_def by (metis option.exhaust)
    with True have row: "nsec_of p d' = Some (n\<lparr>bn_scheduling_id := res_scheduling_id res, bn_scheduling_source := source\<rparr>)"
      by (simp add: d'_def nsec_of_grant_step nsec_of_policy_write assms(1) flip: res_def)
    moreover have "source \<noteq> []"
      using source unfolding res_def resolution_for_def
      by (auto simp: resolve_entitlement_def leave_policy_def split: entitlement_decision.splits if_splits)
    ultimately have "get_scheduling_source_on_db p d' = source" "is_billing_blocked_on_db p d' = is_billing_blocked_on_db p d"
      by (simp_all add: get_scheduling_source_on_db_def is_billing_blocked_on_db_def assms(1))
    then show ?thesis
      using resolution_again[OF _ source True] granted
      unfolding resolution_for_def is_admin_held_def by (simp add: res_def resolution_for_def is_admin_held_def)
  next
    case False
    then have "res_source res = None"
      using resolve_source_iff_write unfolding res_def resolution_for_def by blast
    then have "nsec_of p d' = nsec_of p d"
      by (simp add: d'_def nsec_of_grant_step nsec_of_policy_write flip: res_def)
    then have "get_scheduling_source_on_db p d' = get_scheduling_source_on_db p d"
      "is_billing_blocked_on_db p d' = is_billing_blocked_on_db p d"
      by (simp_all add: get_scheduling_source_on_db_def is_billing_blocked_on_db_def)
    then show ?thesis
      using resolution_again_left[OF _ False] granted
      unfolding resolution_for_def by (simp add: res_def resolution_for_def)
  qed
qed

text \<open>
  C5. Reconciling converges: for a user we know, applying the same view of Flash again at
  the same moment changes nothing, neither the policy nor the record. So handling one
  event twice, or replaying it, is harmless.
\<close>

theorem reconciling_converges:
  assumes "nsec_of pubkey d \<noteq> None"
  shows "grant_step ks pubkey sub plan utc (grant_step ks pubkey sub plan utc d) = grant_step ks pubkey sub plan utc d"
proof -
  obtain n where n: "nsec_of pubkey d = Some n" using assms by blast
  let ?res = "resolution_for pubkey sub plan utc (get_user_subscription_on_db pubkey d) d"
  let ?pw = "policy_write ks pubkey ?res" and ?up = "upsert_user_subscription_on_db pubkey sub (bp_id plan) (res_granted_scheduling_id ?res) utc"
  have known: "nsec_of pubkey (?pw d) \<noteq> None" using n by (auto simp: nsec_of_policy_write split: option.split)
  have first: "grant_step ks pubkey sub plan utc d = ?up (?pw d)" by (simp add: grant_step_def Let_def)
  have "grant_step ks pubkey sub plan utc (grant_step ks pubkey sub plan utc d) = ?up (?pw (?up (?pw d)))"
    using resolution_for_grant_step[OF n, of sub plan utc ks]
    by (subst grant_step_def) (simp add: Let_def flip: first)
  also have "\<dots> = ?up (?up (?pw (?pw d)))" by (simp add: policy_write_upsert[OF known])
  also have "\<dots> = ?up (?pw d)" by (simp add: policy_write_twice[OF assms] upsert_twice)
  finally show ?thesis using first by simp
qed

theorem reconciling_converges_witness:
  "nsec_of ''alice'' example_db \<noteq> None
   \<and> (let plan = hd (billing_plans example_db);
          d = grant_step (\<lambda>_. ([], [])) ''alice'' (example_sub ''active'' JNull) plan 100 example_db
      in grant_step (\<lambda>_. ([], [])) ''alice'' (example_sub ''active'' JNull) plan 100 d = d)"
proof -
  have "nsec_of ''alice'' example_db \<noteq> None"
    by (simp add: nsec_of_def example_db_def fresh_nsec_def)
  from this reconciling_converges[OF this] show ?thesis by (simp add: Let_def)
qed

section \<open>A handle is not an authority\<close>

lemma apply_with_handle:
  assumes "given sid" and "fetch_subscription sid None (flash env) (fl w) = (Inr (Some s), st)"
    and "apply_entitlement (JStr pubkey) sid busy allow env w = (r, w')"
  shows "r \<in> {Inl (HTTPException 500 (driver_text env)), Inr \<lparr>eo_applied = False, eo_reason = NO_REFERENCE\<rparr>,
          Inr \<lparr>eo_applied = False, eo_reason = UNKNOWN_USER\<rparr>, Inr \<lparr>eo_applied = False, eo_reason = BUSY\<rparr>}
          \<and> tx w' = tx w \<and> durable w' = durable w
    \<or> apply_found pubkey allow s env (w\<lparr>fl := st\<rparr>) = (r, w')"
  using assms
  by (auto simp: apply_entitlement_def apply_to_user_def by_stored_id_def op_bind_def read_db_def asks_def ask_flash_def
      bound_ok_def decided_run ret_def split: if_splits)

text \<open>
  C6. The subscription id is a handle, never an authority: where Flash says the
  subscription an id names carries somebody else's reference, or carries none and no
  operator vouches for it, reconciling \<open>pubkey\<close> with that id writes nothing and applies
  nothing, whoever sent the id.
\<close>

theorem handle_is_no_authority:
  assumes "given sid" and "fetch_subscription sid None (flash env) (fl w) = (Inr (Some s), st)"
    and "fs_ref s \<noteq> JStr pubkey" and "truthy (fs_ref s) \<or> \<not> allow"
    and "apply_entitlement (JStr pubkey) sid busy allow env w = (r, w')"
  shows "tx w' = tx w \<and> durable w' = durable w \<and> (\<forall>out. r = Inr out \<longrightarrow> \<not> eo_applied out \<and> eo_reason out \<notin> SETTLED_REASONS)"
  using apply_with_handle[OF assms(1,2,5)] assms(3,4)
  by (auto simp: apply_found_def decided_run SETTLED_REASONS_def split: if_splits)

theorem handle_is_no_authority_witness:
  "fst (apply_entitlement (JStr ''alice'') (Some ''sub_1'') False False example_env
      (example_session example_db [example_sub ''active'' (JStr ''bob'')]))
     = Inr \<lparr>eo_applied = False, eo_reason = REFERENCE_MISMATCH\<rparr>
   \<and> durable (snd (apply_entitlement (JStr ''alice'') (Some ''sub_1'') False False example_env
      (example_session example_db [example_sub ''active'' (JStr ''bob'')]))) = example_db"
proof -
  let ?w = "example_session example_db [example_sub ''active'' (JStr ''bob'')]"
  have fetch: "fetch_subscription (Some ''sub_1'') None (flash example_env) (fl ?w)
      = (Inr (Some (example_sub ''active'' (JStr ''bob''))), fl ?w)"
    by (simp add: fetch_subscription_def require_a_handle_def given_def example_env_def mock_lookup_def mock_matches_def
        example_session_def example_sub_def choose_live_def or_else_def subscription_entitles_def ENTITLING_STATUSES_def)
  have ref: "fs_ref (example_sub ''active'' (JStr ''bob'')) \<noteq> JStr ''alice''" "truthy (fs_ref (example_sub ''active'' (JStr ''bob'')))"
    by (simp_all add: example_sub_def)
  obtain r w' where run: "apply_entitlement (JStr ''alice'') (Some ''sub_1'') False False example_env ?w = (r, w')"
    by fastforce
  have "durable w' = durable ?w"
    using handle_is_no_authority[OF _ fetch ref(1) disjI1[OF ref(2)] run] by (simp add: given_def)
  moreover have "fst (apply_entitlement (JStr ''alice'') (Some ''sub_1'') False False example_env ?w)
      = Inr \<lparr>eo_applied = False, eo_reason = REFERENCE_MISMATCH\<rparr>" by code_simp
  ultimately show ?thesis using run by (simp add: example_session_def)
qed

section \<open>What every billing operation keeps\<close>

text \<open>
  The contract of the repositories, as their clients rely on it: a property of the
  database that survives every statement a reconciliation runs. The policy write is asked for only
  where it does not take a user out of an admin's hands, which is all billing ever does.
  Every reconciliation then keeps the property, whatever Flash answers, whatever
  raises and however the commits go.
\<close>

locale entitlement_invariant =
  fixes I :: "db \<Rightarrow> bool"
  assumes inv_policy: "I d \<Longrightarrow> (get_scheduling_source_on_db p d = SOURCE_ADMIN \<longrightarrow> source = SOURCE_ADMIN) \<Longrightarrow>
      source \<noteq> [] \<Longrightarrow> I (set_scheduling_for_pubkey_on_db ks p sid source d)"
    and inv_upsert: "I d \<Longrightarrow> I (upsert_user_subscription_on_db p sub i g utc d)"
    and inv_clear: "I d \<Longrightarrow> I (clear_granted_scheduling_on_db p d)"
    and inv_status: "I d \<Longrightarrow> I (update_flash_status_on_db p status cancels d)"
    and inv_block: "I d \<Longrightarrow> I (set_billing_blocked_on_db p blocked d)"
begin

lemma keeps_policy_write:
  assumes "I d" and "res = resolve_entitlement dec b (is_admin_held (get_scheduling_source_on_db p d)) sid g"
  shows "I (policy_write ks p res d)"
proof (cases "res_source res")
  case None
  with assms show ?thesis by (simp add: policy_write_def)
next
  case (Some source)
  have "get_scheduling_source_on_db p d = SOURCE_ADMIN \<longrightarrow> source = SOURCE_ADMIN"
    using Some assms(2) resolve_keeps_admin[of dec b sid g source] by (auto simp: is_admin_held_def)
  moreover have "source \<noteq> []"
    using Some assms(2) by (auto simp: resolve_entitlement_def leave_policy_def split: entitlement_decision.splits if_splits)
  ultimately show ?thesis using Some assms(1) by (simp add: policy_write_def inv_policy)
qed

lemma keeps_grant_step: "I d \<Longrightarrow> I (grant_step ks p sub plan utc d)"
  unfolding grant_step_def Let_def
  by (rule inv_upsert, erule keeps_policy_write) (simp add: resolution_for_def)

lemma keeps_apply_entitlement: "keeps I (apply_entitlement external_ref sid busy allow)"
  unfolding keeps_def
proof (intro allI impI)
  fix env :: billing_env and w :: session
  assume inv: "I (tx w) \<and> I (durable w)"
  obtain r w' where run: "apply_entitlement external_ref sid busy allow env w = (r, w')" by fastforce
  have "I (tx w') \<and> I (durable w')"
    using apply_entitlement_cases[OF run]
  proof (elim disjE exE conjE)
    assume "nothing_decided w r w'"
    with inv show ?thesis by (simp add: nothing_decided_def)
  next
    fix p assume "granting p w env r w'"
    then obtain sub plan u where u: "tx u = tx w" "durable u = durable w"
      and g: "grant_and_record p sub plan (get_user_subscription_on_db p (tx u)) env u = (r, w')"
      by (auto simp: granting_def)
    have "I (grant_step (keys env) p sub plan (utc_now env) (tx u))"
      and "I (policy_write (keys env) p (resolution_for p sub plan (utc_now env) (get_user_subscription_on_db p (tx u)) (tx u)) (tx u))"
      using inv u by (auto intro: keeps_grant_step keeps_policy_write simp: resolution_for_def)
    with inv u g[unfolded grant_and_record_run[OF refl]] show ?thesis
      by (auto split: if_splits option.splits)
  qed
  with run show "I (tx (snd (apply_entitlement external_ref sid busy allow env w)))
      \<and> I (durable (snd (apply_entitlement external_ref sid busy allow env w)))" by simp
qed

lemma keeps_set_billing_block: "keeps I (set_billing_block p blocked)"
proof -
  have taken: "keeps_at d I (op_when b (take_back_policy p))"
    if "b \<longrightarrow> get_scheduling_source_on_db p d = SOURCE_BILLING" "I d" for d b
    using that unfolding take_back_policy_def
    by (cases b) (auto simp: op_when_def intro!: keeps_keeps_at[OF keeps_simple(1)] keeps_at_asks keeps_at_write
        keeps_keeps_at[OF keeps_write] inv_policy inv_clear)
  show ?thesis
    unfolding set_billing_block_def
    by (rule keeps_bind[OF keeps_simple(4)], rule keeps_if, rule keeps_simple(1),
        rule keeps_bind[OF keeps_simple(3)], rule keeps_bind[OF keeps_simple(4)],
        rule keeps_bind, rule keeps_write, erule inv_block, rule keeps_read, rule keeps_at_bind[OF taken])
      (auto intro: keeps_intros)
qed

lemma keeps_revoke_if_ours: "keeps I (revoke_if_ours p row)"
proof -
  have wr: "keeps_at d I (write_resolution p res)"
    if "res = resolve_entitlement REVOKE False (is_admin_held (get_scheduling_source_on_db p d)) s g" for d res s g
    using that by (auto simp: keeps_at_def write_resolution_run intro: keeps_policy_write)
  show ?thesis
    unfolding revoke_if_ours_def
    by (intro keeps_read) (auto intro!: keeps_at_bind wr keeps_intros inv_clear keeps_keeps_at[OF keeps_simple(1)])
qed

lemma keeps_apply_payload_fallback: "keeps I (apply_payload_fallback event external_ref)"
  unfolding apply_payload_fallback_def Let_def
  by (intro keeps_intros keeps_revoke_if_ours inv_status)

lemma keeps_act_on_subscription: "keeps I (act_on_subscription p write)"
proof -
  have "keeps I (reread_after p sid)" for sid
    unfolding reread_after_def
    by (intro keeps_catch keeps_bind keeps_apply_entitlement keeps_simple) (auto intro: keeps_intros split: exn.split)
  then show ?thesis
    unfolding act_on_subscription_def Let_def
    by (intro keeps_intros) (auto intro!: keeps_intros split: prod.split)
qed

end

text \<open>The other statements of billing: on the inbox, on the plans, and on the columns of a
  subscription that only say when it was last heard of.\<close>

locale billing_invariant = entitlement_invariant I for I :: "db \<Rightarrow> bool" +
  assumes inv_event_at: "I d \<Longrightarrow> I (update_last_event_at_on_db who ts d)"
    and inv_sync_failure: "I d \<Longrightarrow> I (record_sync_failure_on_db p reason utc d)"
    and inv_insert_event: "I d \<Longrightarrow> I (snd (insert_flash_webhook_event_on_db ev dt ts' s payload key claimed utc d))"
    and inv_claim: "I d \<Longrightarrow> I (snd (claim_webhook_event_on_db e utc stale d))"
    and inv_mark: "I d \<Longrightarrow> I (mark_webhook_event_processed_on_db e utc d)"
    and inv_settle: "I d \<Longrightarrow> I (snd (settle_unresolved_events_on_db s' utc res by_whom only d))"
    and inv_failure: "I d \<Longrightarrow> I (record_webhook_event_failure_on_db e reason d)"
    and inv_reset: "I d \<Longrightarrow> I (snd (reset_events_awaiting_plan_on_db pr service plan err d))"
    and inv_insert_plan: "I d \<Longrightarrow> get_billing_plan_on_db service plan d = None \<Longrightarrow>
      I (snd (insert_billing_plan_on_db service plan sch active d))"
    and inv_update_plan: "I d \<Longrightarrow> get_billing_plan_by_id_on_db plan_id d = Some old \<Longrightarrow>
      (or_keep (pv_flash_service_id v) (bp_flash_service_id old), or_keep (pv_flash_plan_id v) (bp_flash_plan_id old))
         = (bp_flash_service_id old, bp_flash_plan_id old)
      \<or> get_billing_plan_on_db (or_keep (pv_flash_service_id v) (bp_flash_service_id old))
           (or_keep (pv_flash_plan_id v) (bp_flash_plan_id old)) d = None \<Longrightarrow>
      I (snd (update_billing_plan_on_db plan_id v d))"

lemma require_checks:
  "checks (\<lambda>d. scheduling_exists_on_db sid d) (require_scheduling sid)"
  "checks (\<lambda>d. get_billing_plan_on_db service plan d = None) (require_unused_flash_ids service plan)"
  by (auto simp: checks_def require_scheduling_def require_unused_flash_ids_def op_defs)

lemma reidentify_checks:
  "checks (\<lambda>d. b \<longrightarrow> get_billing_plan_on_db service plan d = None)
     (op_when b (op_bind (read_db (count_subscriptions_for_plan_on_db i)) (\<lambda>n.
        if n \<noteq> 0 then raise (HTTPException 409 (plan_fixed_detail n)) else require_unused_flash_ids service plan)))"
  by (auto simp: checks_def require_unused_flash_ids_def op_defs)

context billing_invariant
begin

lemma keeps_create_billing_plan: "keeps I (create_billing_plan service plan sid active)"
  unfolding create_billing_plan_def
  by (rule keeps_check[OF require_checks(1)], rule keeps_at_check[OF require_checks(2)])
    (intro keeps_at_exec keeps_keeps_at keeps_intros inv_insert_plan inv_reset)

lemma keeps_retune_billing_plan:
  assumes "get_billing_plan_by_id_on_db plan_id d = Some p"
  shows "keeps_at d I (retune_billing_plan plan_id v p)"
  unfolding retune_billing_plan_def Let_def
proof (rule keeps_at_check[OF reidentify_checks], rule keeps_at_exec, goal_cases)
  case 1
  then show ?case using inv_update_plan[OF 1(2) assms, of v] by blast
next
  case 2
  show ?case by (intro keeps_keeps_at keeps_intros inv_reset)
qed

lemma keeps_update_billing_plan: "keeps I (update_billing_plan plan_id v)"
  unfolding update_billing_plan_def
proof (rule keeps_bind, goal_cases)
  case 1
  show ?case unfolding require_scheduling_def by (intro keeps_intros)
next
  case 2
  show ?case
    by (rule keeps_read)
      (auto intro: keeps_keeps_at keeps_simple keeps_retune_billing_plan split: option.split)
qed

lemma keeps_dismiss: "keeps I (dismiss_unresolved_subscription sid who)"
  unfolding dismiss_unresolved_subscription_def by (intro keeps_intros inv_settle)

lemma keeps_attribution_grant: "keeps I (attribution_grant sid p)"
  unfolding attribution_grant_def
  by (intro keeps_intros keeps_apply_entitlement) (auto intro: keeps_intros)

lemma keeps_attribute: "keeps I (attribute_unresolved_subscription sid p who)"
  unfolding attribute_unresolved_subscription_def
  by (rule keeps_bind[OF keeps_simple(4)], rule keeps_bind)
    (auto intro!: keeps_intros keeps_attribution_grant inv_settle split: prod.split)

end

section \<open>Invariants of billing\<close>

text \<open>The constraints the tables declare.\<close>

interpretation tables: billing_invariant db_wf
  by unfold_locales
    (simp_all add: db_wf_set_scheduling db_wf_upsert db_wf_subscription_writes db_wf_set_billing_blocked
      db_wf_event_writes db_wf_insert_event db_wf_insert_plan db_wf_update_plan)

text \<open>A user an admin placed stays placed by an admin.\<close>

definition admin_holds :: "string \<Rightarrow> db \<Rightarrow> bool" where
  "admin_holds p d \<longleftrightarrow> (case nsec_of p d of None \<Rightarrow> False | Some r \<Rightarrow> bn_scheduling_source r = SOURCE_ADMIN)"

lemma admin_holds_source: "admin_holds p d \<longleftrightarrow> get_scheduling_source_on_db p d = SOURCE_ADMIN"
  by (auto simp: admin_holds_def get_scheduling_source_on_db_def SOURCE_ADMIN_def SOURCE_DEFAULT_def split: option.splits)

lemma admin_holds_set_scheduling:
  "admin_holds q (set_scheduling_for_pubkey_on_db ks p sid source d)
    \<longleftrightarrow> (if q = p then source = SOURCE_ADMIN else admin_holds q d)"
  by (simp add: admin_holds_def table_simps)

lemma admin_holds_set_block: "admin_holds q (set_billing_blocked_on_db p blocked d) \<longleftrightarrow> admin_holds q d"
  by (simp add: admin_holds_def table_simps split: option.split)

lemma event_writes_nsec [table_simps]:
  "nsec_of p (mark_webhook_event_processed_on_db e utc d) = nsec_of p d"
  "nsec_of p (record_webhook_event_failure_on_db e reason d) = nsec_of p d"
  by (simp_all add: mark_webhook_event_processed_on_db_def record_webhook_event_failure_on_db_def table_simps)

lemma event_writes_subscription [table_simps]:
  "get_user_subscription_on_db p (mark_webhook_event_processed_on_db e utc d) = get_user_subscription_on_db p d"
  "get_user_subscription_on_db p (record_webhook_event_failure_on_db e reason d) = get_user_subscription_on_db p d"
  by (simp_all add: mark_webhook_event_processed_on_db_def record_webhook_event_failure_on_db_def table_simps)

interpretation comp: billing_invariant "admin_holds p" for p :: string
proof (unfold_locales, goal_cases)
  case 1
  then show ?case by (auto simp: admin_holds_set_scheduling simp flip: admin_holds_source)
qed (simp_all add: admin_holds_set_block, simp_all add: admin_holds_def table_simps)

text \<open>The newest event seen for a subscriber is never forgotten for an older one.\<close>

definition event_seen :: "string \<Rightarrow> datetime \<Rightarrow> db \<Rightarrow> bool" where
  "event_seen p t d \<longleftrightarrow>
     (case get_user_subscription_on_db p d of
        None \<Rightarrow> False
      | Some s \<Rightarrow> (case us_last_event_at s of None \<Rightarrow> False | Some u \<Rightarrow> t \<le> u))"

lemma advance_event_at_later:
  "us_last_event_at s = Some u \<Longrightarrow> t \<le> u \<Longrightarrow> \<exists>u'. us_last_event_at (advance_event_at v s) = Some u' \<and> t \<le> u'"
  by (simp add: advance_event_at_def)

lemma event_seen_advance:
  assumes "event_seen p t d" shows "event_seen p t (update_last_event_at_on_db who ts d)"
proof -
  from assms obtain s u where s: "get_user_subscription_on_db p d = Some s" "us_last_event_at s = Some u" "t \<le> u"
    by (auto simp: event_seen_def split: option.splits)
  have "\<exists>s' u'. get_user_subscription_on_db p (update_last_event_at_on_db who ts d) = Some s'
      \<and> us_last_event_at s' = Some u' \<and> t \<le> u'"
  proof (cases "who = Some p \<and> p \<noteq> [] \<and> ts \<noteq> None")
    case True
    then show ?thesis using s advance_event_at_later[OF s(2,3)] by (auto simp: get_user_subscription_advance)
  next
    case False
    then have "get_user_subscription_on_db p (update_last_event_at_on_db who ts d) = Some s"
      using s(1) by (auto simp: get_user_subscription_advance split: option.split)
    with s show ?thesis by blast
  qed
  then show ?thesis by (auto simp: event_seen_def)
qed

lemma event_seen_rows:
  "event_seen p t d \<Longrightarrow> event_seen p t (clear_granted_scheduling_on_db q d)"
  "event_seen p t d \<Longrightarrow> event_seen p t (update_flash_status_on_db q status cancels d)"
  "event_seen p t d \<Longrightarrow> event_seen p t (record_sync_failure_on_db q reason utc d)"
  "event_seen p t d \<Longrightarrow> event_seen p t (upsert_user_subscription_on_db q sub i g utc d)"
  by (auto simp: event_seen_def table_simps note_sync_failure_def split: option.splits)

interpretation newest_event: billing_invariant "event_seen p t" for p :: string and t :: datetime
  by unfold_locales
    (simp_all add: event_seen_advance event_seen_rows, simp_all add: event_seen_def table_simps)

text \<open>A failure has a reason for as long as it has a beginning.\<close>

definition failure_has_reason :: "db \<Rightarrow> bool" where
  "failure_has_reason d \<longleftrightarrow>
     (\<forall>s \<in> set (user_subscriptions d). us_sync_error_since s \<noteq> None \<longrightarrow> us_last_sync_error s \<noteq> None)"

lemma failure_has_reason_update:
  assumes "failure_has_reason d"
    and "\<And>s. (us_sync_error_since s \<noteq> None \<longrightarrow> us_last_sync_error s \<noteq> None) \<Longrightarrow>
           us_sync_error_since (f s) \<noteq> None \<longrightarrow> us_last_sync_error (f s) \<noteq> None"
  shows "failure_has_reason (update_subscription q f d)"
  using assms by (auto simp: failure_has_reason_def update_subscription_def sql_update_mem)

lemma failure_has_reason_upsert:
  "failure_has_reason d \<Longrightarrow> failure_has_reason (upsert_user_subscription_on_db q sub i g utc d)"
  by (auto simp: failure_has_reason_def upsert_user_subscription_on_db_def sql_upsert_def sql_update_mem)

lemma failure_has_reason_rows:
  assumes "failure_has_reason d"
  shows "failure_has_reason (clear_granted_scheduling_on_db q d)"
    "failure_has_reason (update_flash_status_on_db q status cancels d)"
    "failure_has_reason (record_sync_failure_on_db q reason utc d)"
    "failure_has_reason (update_last_event_at_on_db who ts d)"
  unfolding clear_granted_scheduling_on_db_def update_flash_status_on_db_def record_sync_failure_on_db_def
    update_last_event_at_on_db_def
  using assms
  by (auto intro!: failure_has_reason_update simp: note_sync_failure_def advance_event_at_def split: option.splits if_splits)

lemma failure_has_reason_frame:
  "user_subscriptions d' = user_subscriptions d \<Longrightarrow> failure_has_reason d' = failure_has_reason d"
  by (simp add: failure_has_reason_def)

interpretation sync_clock: billing_invariant failure_has_reason
  by unfold_locales
    (simp_all add: failure_has_reason_upsert failure_has_reason_rows,
     simp_all add: failure_has_reason_def frame_simps table_simps set_billing_blocked_on_db_def
       mark_webhook_event_processed_on_db_def record_webhook_event_failure_on_db_def
       insert_flash_webhook_event_on_db_def insert_billing_plan_on_db_def update_billing_plan_on_db_def Let_def
       split: option.split)

end
