(* ===== verification/Webhook.thy ===== *)
theory Webhook
  imports Entitlement
begin

text \<open>
  Receiving Flash's webhooks: \<^verbatim>\<open>app/services/flash_webhook_service.py\<close> and the route
  \<^verbatim>\<open>app/routers/webhooks/flash.py\<close>. Verifying a signature, telling deliveries apart,
  recording one before it is acknowledged, and reconciling the subscriber it names after.
  Bytes and text are both lists of characters. The keyed hash, the digest and the JSON
  decoder are parameters: the record \<open>codec\<close>.
\<close>

section \<open>Signatures\<close>

record codec =
  hmac_sha256 :: "string \<Rightarrow> string \<Rightarrow> string"   \<comment> \<open>key, message; the hexadecimal digest\<close>
  sha256 :: "string \<Rightarrow> string"
  json_loads :: "string \<Rightarrow> json option"            \<comment> \<open>None is the decoding error\<close>
  decode_replace :: "string \<Rightarrow> string"

definition MALFORMED_EVENT :: string where "MALFORMED_EVENT = ''_malformed''"

definition PROBE_EVENT :: string where "PROBE_EVENT = ''credential.check''"

definition DISCRIMINATORS :: "string \<Rightarrow> string list" where
  "DISCRIMINATORS event =
     (if event = ''subscription.activated'' then [''activatedAt'']
      else if event = ''subscription.renewed'' then [''invoiceId'', ''periodNumber'']
      else if event = ''subscription.past_due'' then [''attemptNumber'', ''firstFailedAt'']
      else if event = ''subscription.canceled'' then [''canceledAt'']
      else if event = ''subscription.expired'' then [''expiredAt'']
      else [])"

definition RECOGNISED_EVENTS :: "string set" where
  "RECOGNISED_EVENTS =
     {''subscription.activated'', ''subscription.renewed'', ''subscription.past_due'',
      ''subscription.canceled'', ''subscription.expired''}"

record signature_parts =
  sp_timestamp :: int
  sp_signature :: string

record delivery_target =
  dt_external_ref :: json
  dt_subscription_id :: json

definition delivery_target_of :: "json option \<Rightarrow> delivery_target" where
  "delivery_target_of payload =
     (let data = get_in (case payload of None \<Rightarrow> JObj [] | Some p \<Rightarrow> p) ''data'' in
      \<lparr>dt_external_ref = get_in data ''externalRef'', dt_subscription_id = get_in data ''subscriptionId''\<rparr>)"

record recorded_delivery =
  rd_event_id :: "int option"
  rd_event :: string
  rd_subscription_id :: json
  rd_external_ref :: json
  rd_duplicate :: bool
  rd_event_timestamp :: "datetime option"

definition needs_processing :: "recorded_delivery \<Rightarrow> bool" where
  "needs_processing rec \<longleftrightarrow>
     \<not> rd_duplicate rec \<and> rd_event_id rec \<noteq> None \<and> rd_event rec \<in> RECOGNISED_EVENTS"

text \<open>The fields of the header; of two with one name the later counts.\<close>

definition signature_fields :: "string \<Rightarrow> (string \<times> string) list" where
  "signature_fields raw =
     rev (concat (map (\<lambda>segment. case partition_on (CHR ''='') segment of
        (key, sep, val) \<Rightarrow> if sep then [(strip key, strip val)] else []) (split_on (CHR '','') raw)))"

definition parse_signature_header :: "string option \<Rightarrow> signature_parts option" where
  "parse_signature_header raw =
     (if \<not> given raw then None
      else let fields = signature_fields (the raw) in
        case (map_of fields ''t'', map_of fields ''v1'') of
          (Some t, Some v) \<Rightarrow>
            if t = [] \<or> v = [] then None
            else map_option (\<lambda>n. \<lparr>sp_timestamp = n, sp_signature = v\<rparr>) (py_int t)
        | _ \<Rightarrow> None)"

definition is_timestamp_fresh :: "int \<Rightarrow> int \<Rightarrow> int \<Rightarrow> bool" where
  "is_timestamp_fresh timestamp seconds_now tolerance \<longleftrightarrow> \<bar>seconds_now - timestamp\<bar> \<le> tolerance"

definition compute_signature :: "codec \<Rightarrow> string \<Rightarrow> int \<Rightarrow> string \<Rightarrow> string" where
  "compute_signature cd secret timestamp raw_body =
     hmac_sha256 cd secret (show_int timestamp @ ''.'' @ raw_body)"

definition signature_matches :: "codec \<Rightarrow> string \<Rightarrow> int \<Rightarrow> string \<Rightarrow> string \<Rightarrow> bool" where
  "signature_matches cd secret timestamp raw_body provided \<longleftrightarrow>
     compute_signature cd secret timestamp raw_body = provided"

definition accepted_webhook_secrets :: "string \<Rightarrow> string \<Rightarrow> string list" where
  "accepted_webhook_secrets current previous = filter (\<lambda>s. s \<noteq> []) [current, previous]"

definition verify_delivery ::
  "codec \<Rightarrow> string option \<Rightarrow> string \<Rightarrow> string list \<Rightarrow> int \<Rightarrow> int \<Rightarrow> (exn, signature_parts) result" where
  "verify_delivery cd signature_header raw_body secrets seconds_now tolerance =
     (case parse_signature_header signature_header of
        None \<Rightarrow> Inl (FlashSignatureError ''malformed_signature_header'' 400)
      | Some parts \<Rightarrow>
          if \<not> is_timestamp_fresh (sp_timestamp parts) seconds_now tolerance
          then Inl (FlashSignatureError ''stale_timestamp'' 400)
          else if \<exists>secret \<in> set secrets. signature_matches cd secret (sp_timestamp parts) raw_body (sp_signature parts)
          then Inr parts
          else Inl (FlashSignatureError ''invalid_signature'' 401))"

section \<open>One delivery\<close>

definition build_dedupe_key :: "codec \<Rightarrow> string \<Rightarrow> (string \<times> json) list \<Rightarrow> string \<Rightarrow> string" where
  "build_dedupe_key cd event data raw_body =
     (let sid = str_or_empty (get data ''subscriptionId'') in
      sid @ '':'' @ event @ '':'' @
      (case find (\<lambda>field. get data field \<noteq> JNull) (DISCRIMINATORS event) of
         Some field \<Rightarrow> field @ ''='' @ py_str (get data field)
       | None \<Rightarrow> ''sha256='' @ sha256 cd raw_body))"

definition parse_event_timestamp :: "(string \<times> json) list \<Rightarrow> (exn, datetime option) result" where
  "parse_event_timestamp payload = parse_flash_timestamp (get payload ''timestamp'') False"

definition event_name :: "(string \<times> json) list \<Rightarrow> string" where
  "event_name payload =
     (case get payload ''event'' of JStr s \<Rightarrow> if s = [] then MALFORMED_EVENT else s | _ \<Rightarrow> MALFORMED_EVENT)"

text \<open>The event's name, its data and the payload to store.\<close>

definition read_webhook_body ::
  "codec \<Rightarrow> string \<Rightarrow> string \<times> (string \<times> json) list \<times> (string \<times> json) list" where
  "read_webhook_body cd raw_body =
     (case json_loads cd raw_body of
        None \<Rightarrow> (MALFORMED_EVENT, [], [(''_unparseable'', JStr (decode_replace cd raw_body))])
      | Some (JObj payload) \<Rightarrow>
          (event_name payload, (case as_dict (get payload ''data'') of None \<Rightarrow> [] | Some d \<Rightarrow> d), payload)
      | Some other \<Rightarrow> (MALFORMED_EVENT, [], [(''_unexpected'', other)]))"

text \<open>What the driver asks of the values bound by the insert.\<close>

definition storable_event :: "string \<Rightarrow> int \<Rightarrow> json \<Rightarrow> (string \<times> json) list \<Rightarrow> string \<Rightarrow> bool" where
  "storable_event event delivery_timestamp sid payload key \<longleftrightarrow>
     no_nul event \<and> int4 delivery_timestamp \<and> text_ok sid \<and> jsonb_ok (JObj payload) \<and> no_nul key"

definition of_result :: "(exn, 'a) result \<Rightarrow> 'a op" where
  "of_result r = (case r of Inl e \<Rightarrow> raise e | Inr x \<Rightarrow> ret x)"

definition record_delivery :: "codec \<Rightarrow> string \<Rightarrow> int \<Rightarrow> recorded_delivery op" where
  "record_delivery cd raw_body delivery_timestamp =
     (case read_webhook_body cd raw_body of (event, data, payload) \<Rightarrow>
      let target = delivery_target_of (Some (JObj payload));
          sid = dt_subscription_id target;
          key = build_dedupe_key cd event data raw_body
      in
      op_bind (of_result (parse_event_timestamp payload)) (\<lambda>happened.
      op_bind (asks utc_now) (\<lambda>utc.
      op_bind (bound_ok (storable_event event delivery_timestamp sid payload key)) (\<lambda>_.
      op_bind (exec_db (insert_flash_webhook_event_on_db event delivery_timestamp happened (text_of sid)
                 (JObj payload) key (Some utc) utc)) (\<lambda>event_id.
      op_bind commit (\<lambda>_.
      ret \<lparr>rd_event_id = event_id, rd_event = event, rd_subscription_id = sid,
           rd_external_ref = dt_external_ref target, rd_duplicate = (event_id = None),
           rd_event_timestamp = happened\<rparr>))))))"

definition handle_delivery :: "codec \<Rightarrow> string \<Rightarrow> int \<Rightarrow> recorded_delivery op" where
  "handle_delivery cd raw_body delivery_timestamp =
     op_bind (record_delivery cd raw_body delivery_timestamp) (\<lambda>rec.
     op_bind
       (if rd_event rec = PROBE_EVENT
        then (case rd_event_id rec of
                None \<Rightarrow> ret ()
              | Some i \<Rightarrow> op_bind (asks utc_now) (\<lambda>utc.
                         op_bind (write_db (mark_webhook_event_processed_on_db i utc)) (\<lambda>_. commit)))
        else ret ()) (\<lambda>_.
     ret rec))"

definition DB_RETRIES :: nat where "DB_RETRIES = 3"

text \<open>\<open>left\<close> is the number of attempts that remain, this one included.\<close>

fun apply_attempts :: "nat \<Rightarrow> json \<Rightarrow> string option \<Rightarrow> entitlement_outcome op" where
  "apply_attempts 0 external_ref sid = raise AssertionError"
| "apply_attempts (Suc left) external_ref sid =
     catch (apply_entitlement external_ref sid False False)
       (\<lambda>e. if e \<in> {OperationalError, InterfaceError} \<and> left \<noteq> 0
            then op_bind rollback (\<lambda>_. apply_attempts left external_ref sid)
            else raise e)"

definition apply_with_db_retries :: "json \<Rightarrow> string option \<Rightarrow> entitlement_outcome op" where
  "apply_with_db_retries external_ref sid = apply_attempts DB_RETRIES external_ref sid"

definition record_failure :: "int option \<Rightarrow> exn \<Rightarrow> unit op" where
  "record_failure event_id err =
     (case event_id of
        None \<Rightarrow> ret ()
      | Some i \<Rightarrow>
          catch
            (op_bind rollback (\<lambda>_.
             op_bind (asks (\<lambda>env. take 500 (exn_class err @ '': '' @ error_text env err))) (\<lambda>why.
             op_bind (write_db (record_webhook_event_failure_on_db i why)) (\<lambda>_. commit))))
            (\<lambda>_. ret ()))"

text \<open>What a settled or an unsettled outcome does to the event it came from.\<close>

definition conclude_event :: "int \<Rightarrow> json \<Rightarrow> datetime option \<Rightarrow> entitlement_outcome \<Rightarrow> unit op" where
  "conclude_event i external_ref happened out =
     op_bind
       (if eo_reason out \<in> SETTLED_REASONS
        then op_bind (asks utc_now) (\<lambda>utc.
             op_bind (write_db (mark_webhook_event_processed_on_db i utc)) (\<lambda>_.
             write_db (update_last_event_at_on_db (text_of external_ref) happened)))
        else write_db (record_webhook_event_failure_on_db i (reason_value (eo_reason out)))) (\<lambda>_.
     commit)"

definition process_delivery :: "recorded_delivery \<Rightarrow> unit op" where
  "process_delivery rec =
     (if \<not> needs_processing rec then ret () else
      catch
        (op_bind (apply_with_db_retries (rd_external_ref rec) (text_of (rd_subscription_id rec))) (\<lambda>out.
           case rd_event_id rec of
             None \<Rightarrow> ret ()
           | Some i \<Rightarrow> conclude_event i (rd_external_ref rec) (rd_event_timestamp rec) out))
        (\<lambda>e. op_bind (record_failure (rd_event_id rec) e) (\<lambda>_.
           case e of
             FlashUnavailable _ \<Rightarrow>
               op_bind (apply_payload_fallback (rd_event rec) (rd_external_ref rec)) (\<lambda>_. ret ())
           | _ \<Rightarrow> ret ())))"

definition process_delivery_in_background :: "recorded_delivery \<Rightarrow> unit op" where
  "process_delivery_in_background rec = catch (in_session (process_delivery rec)) (\<lambda>_. ret ())"

text \<open>The route, up to its answer: whether the delivery was a duplicate, and the work it
  leaves for after the answer.\<close>

definition receive_flash_webhook ::
  "codec \<Rightarrow> string option \<Rightarrow> string \<Rightarrow> string list \<Rightarrow> int \<Rightarrow> int \<Rightarrow> (bool \<times> recorded_delivery option) op" where
  "receive_flash_webhook cd signature_header raw_body secrets seconds_now tolerance =
     in_session
       (op_bind (case verify_delivery cd signature_header raw_body secrets seconds_now tolerance of
                   Inl (FlashSignatureError reason code) \<Rightarrow> raise (HTTPException code reason)
                 | Inl e \<Rightarrow> raise e
                 | Inr parts \<Rightarrow> ret parts) (\<lambda>parts.
        op_bind (handle_delivery cd raw_body (sp_timestamp parts)) (\<lambda>rec.
        ret (rd_duplicate rec, if needs_processing rec then Some rec else None))))"

section \<open>Configuration\<close>

definition DEPLOY_ENVIRONMENT_LOCAL :: string where "DEPLOY_ENVIRONMENT_LOCAL = ''LOCAL''"

definition validate_flash_config ::
  "bool \<Rightarrow> string \<Rightarrow> string \<Rightarrow> string \<Rightarrow> bool \<Rightarrow> string \<Rightarrow> (exn, unit) result" where
  "validate_flash_config enabled api_key webhook_secret base_url mock_enabled deploy_environment =
     (if \<not> enabled then Inr ()
      else if mock_enabled \<and> deploy_environment \<noteq> DEPLOY_ENVIRONMENT_LOCAL
      then Inl (FlashConfigError (''flash_mock_enabled is true outside LOCAL (deploy_environment='' @ deploy_environment
             @ ''). Entitlement would be decided from fabricated subscription state.''))
      else let missing = map fst (filter (\<lambda>nv. snd nv = [])
                 [(''flash_api_key'', api_key), (''flash_webhook_secret'', webhook_secret), (''flash_base_url'', base_url)])
           in if missing = [] then Inr ()
              else Inl (FlashConfigError (''flash_enabled is true but these settings are empty: ''
                     @ join_with '', '' missing)))"

section \<open>Invariants\<close>

context entitlement_invariant
begin

lemma keeps_in_session: "keeps I m \<Longrightarrow> keeps I (in_session m)"
  unfolding in_session_def by (intro keeps_intros)

lemma keeps_lift_result: "keeps I (of_result r)"
  by (cases r) (simp_all add: of_result_def keeps_simple)

lemma keeps_apply_attempts: "keeps I (apply_attempts n ref sid)"
proof (induction n)
  case 0
  show ?case by (simp add: keeps_simple)
next
  case (Suc n)
  show ?case by (simp only: apply_attempts.simps) (intro keeps_intros keeps_apply_entitlement Suc)
qed

end

context billing_invariant
begin

lemma keeps_record_delivery: "keeps I (record_delivery cd body ts)"
  unfolding record_delivery_def
  by (auto simp: Let_def intro!: keeps_intros keeps_lift_result inv_insert_event split: prod.split)

lemma keeps_handle_delivery: "keeps I (handle_delivery cd body ts)"
  unfolding handle_delivery_def by (intro keeps_intros keeps_record_delivery inv_mark)

lemma keeps_record_failure: "keeps I (record_failure i err)"
  unfolding record_failure_def by (intro keeps_intros inv_failure)

lemma keeps_conclude_event: "keeps I (conclude_event i ref happened out)"
  unfolding conclude_event_def by (intro keeps_intros inv_mark inv_event_at inv_failure)

lemma keeps_process_delivery: "keeps I (process_delivery rec)"
proof -
  have "keeps I (case e of FlashUnavailable m \<Rightarrow> op_bind (apply_payload_fallback ev ref) (\<lambda>_. ret ()) | _ \<Rightarrow> ret ())" for e ev ref
    by (cases e) (auto intro: keeps_intros keeps_apply_payload_fallback)
  then show ?thesis
    unfolding process_delivery_def apply_with_db_retries_def
    by (intro keeps_intros keeps_apply_attempts keeps_conclude_event keeps_record_failure)
qed

lemma keeps_process_delivery_in_background: "keeps I (process_delivery_in_background rec)"
  unfolding process_delivery_in_background_def by (intro keeps_intros keeps_in_session keeps_process_delivery)

lemma keeps_receive: "keeps I (receive_flash_webhook cd hdr body secrets at_s tol)"
proof -
  have "keeps I (case v of Inl (FlashSignatureError reason code) \<Rightarrow> raise (HTTPException code reason)
      | Inl e \<Rightarrow> raise e | Inr parts \<Rightarrow> ret parts)" for v :: "(exn, signature_parts) result"
    by (cases v; cases "projl v") (auto simp: keeps_simple)
  then show ?thesis
    unfolding receive_flash_webhook_def by (intro keeps_in_session keeps_intros keeps_handle_delivery)
qed

end

section \<open>Signatures\<close>

lemma strip_show_int:
  "strip (show_int n) = show_int n" "show_int n \<noteq> []" "CHR '','' \<notin> set (show_int n)"
proof -
  have d: "is_digit c \<or> c = CHR ''-''" if "c \<in> set (show_int n)" for c
    using that show_nat_digits by (auto simp: show_int_def split: if_splits)
  show ne: "show_int n \<noteq> []" by (simp add: show_int_def)
  have "\<not> py_space c" if "c \<in> set (show_int n)" for c
    using d[OF that] digit_not_space by (auto simp: py_space_def)
  then show "strip (show_int n) = show_int n" by (intro strip_id) (metis hd_in_set last_in_set)
  show "CHR '','' \<notin> set (show_int n)" using d[of "CHR '',''"] by (auto simp: is_digit_def)
qed

lemma signature_fields_header:
  assumes "CHR '','' \<notin> set sig" and "strip sig = sig"
  shows "signature_fields (''t='' @ show_int n @ '',v1='' @ sig) = [(''v1'', sig), (''t'', show_int n)]"
proof -
  have sp: "split_on (CHR '','') (''t='' @ show_int n @ '',v1='' @ sig) = [''t='' @ show_int n, ''v1='' @ sig]"
    using split_on_append_sep[of "CHR '',''" "''t='' @ show_int n" "''v1='' @ sig"]
      split_on_no_sep[of "CHR '',''" "''v1='' @ sig"] assms(1) strip_show_int(3)[of n] by simp
  have p1: "partition_on (CHR ''='') (''t='' @ show_int n) = (''t'', True, show_int n)"
    using partition_on_eq[of "''t''" "CHR ''=''" "show_int n"] by simp
  have p2: "partition_on (CHR ''='') (''v1='' @ sig) = (''v1'', True, sig)"
    using partition_on_eq[of "''v1''" "CHR ''=''" sig] by simp
  have st: "strip ''t'' = ''t''" "strip ''v1'' = ''v1''" by code_simp+
  show ?thesis
    unfolding signature_fields_def sp using p1 p2 st assms(2) strip_show_int(1) by simp
qed

text \<open>
  C7. Signing and verifying agree: a header that carries the time of the delivery and the
  keyed hash of that time and the exact body under any accepted secret, received within
  the tolerance, is accepted, and the time read from it is the one that was signed.
\<close>

theorem signed_delivery_verifies:
  assumes "secret \<in> set secrets" and "sig = hmac_sha256 cd secret (show_nat n @ ''.'' @ body)"
    and "sig \<noteq> []" and "CHR '','' \<notin> set sig" and "strip sig = sig"
    and "\<bar>seconds_now - int n\<bar> \<le> tolerance" and "length (show_nat n) \<le> 4300"
  shows "verify_delivery cd (Some (''t='' @ show_nat n @ '',v1='' @ sig)) body secrets seconds_now tolerance
    = Inr \<lparr>sp_timestamp = int n, sp_signature = sig\<rparr>"
proof -
  have n: "show_int (int n) = show_nat n" by (simp add: show_int_def)
  have fields: "signature_fields (''t='' @ show_nat n @ '',v1='' @ sig) = [(''v1'', sig), (''t'', show_nat n)]"
    using signature_fields_header[OF assms(4,5), of "int n"] by (simp only: n)
  have parsed: "parse_signature_header (Some (''t='' @ show_nat n @ '',v1='' @ sig))
      = Some \<lparr>sp_timestamp = int n, sp_signature = sig\<rparr>"
    unfolding parse_signature_header_def option.sel fields
    using assms(3) py_int_show_nat[OF assms(7)] by (simp add: given_def)
  show ?thesis
    unfolding verify_delivery_def parsed
    using assms(1,2,6) by (auto simp: is_timestamp_fresh_def signature_matches_def compute_signature_def n)
qed

theorem signed_delivery_verifies_witness:
  "verify_delivery \<lparr>hmac_sha256 = (\<lambda>k m. k @ ''ok''), sha256 = id, json_loads = (\<lambda>_. None), decode_replace = id\<rparr>
     (Some (''t='' @ show_nat 1700 @ '',v1='' @ ''sok'')) ''body'' [''new'', ''s''] 1705 300
   = Inr \<lparr>sp_timestamp = 1700, sp_signature = ''sok''\<rparr>"
proof -
  have len: "length (show_nat 1700) \<le> 4300" by code_simp
  have st: "strip ''sok'' = ''sok''" by code_simp
  show ?thesis
    using signed_delivery_verifies[of "''s''" "[''new'', ''s'']" "''sok''"
        "\<lparr>hmac_sha256 = (\<lambda>k m. k @ ''ok''), sha256 = id, json_loads = (\<lambda>_. None), decode_replace = id\<rparr>"
        1700 "''body''" 1705 300] len st
    by simp
qed

lemma verify_delivery_Inr:
  "verify_delivery cd hdr body secrets at_s tol = Inr parts \<Longrightarrow>
   parse_signature_header hdr = Some parts \<and> \<bar>at_s - sp_timestamp parts\<bar> \<le> tol \<and>
   (\<exists>secret \<in> set secrets. hmac_sha256 cd secret (show_int (sp_timestamp parts) @ ''.'' @ body) = sp_signature parts)"
  by (auto simp: verify_delivery_def is_timestamp_fresh_def signature_matches_def compute_signature_def
      split: option.splits if_splits)

section \<open>Recording\<close>

text \<open>The identity under which a body is recorded.\<close>

definition delivery_key :: "codec \<Rightarrow> string \<Rightarrow> string" where
  "delivery_key cd body = (case read_webhook_body cd body of (event, data, payload) \<Rightarrow> build_dedupe_key cd event data body)"

definition recorded_under :: "string \<Rightarrow> db \<Rightarrow> flash_webhook_event option" where
  "recorded_under key d = lookup_by we_dedupe_key key (webhook_events d)"

lemma insert_event_recorded:
  assumes "insert_flash_webhook_event_on_db ev ts happened sid payload key claimed utc d = (i, d')"
  shows "i = None \<longleftrightarrow> recorded_under key d \<noteq> None"
    and "recorded_under key d' = Some (case recorded_under key d of Some e \<Rightarrow> e
           | None \<Rightarrow> event_with ev ts happened sid payload key claimed utc (next_event_id d))"
    and "k \<noteq> key \<Longrightarrow> recorded_under k d' = recorded_under k d"
    and "recorded_under key d \<noteq> None \<Longrightarrow> webhook_events d' = webhook_events d"
  using assms
  by (auto simp: insert_flash_webhook_event_on_db_def recorded_under_def lookup_by_append event_with_def Let_def
      split: if_splits option.splits)

lemma record_delivery_Inr:
  assumes "record_delivery cd body ts env w = (Inr rec, w')"
  obtains ev data payload happened where "read_webhook_body cd body = (ev, data, payload)"
    "insert_flash_webhook_event_on_db ev ts happened (text_of (dt_subscription_id (delivery_target_of (Some (JObj payload)))))
       (JObj payload) (delivery_key cd body) (Some (utc_now env)) (utc_now env) (tx w) = (rd_event_id rec, tx w')"
    "durable w' = tx w'" "rd_event rec = ev" "rd_duplicate rec \<longleftrightarrow> rd_event_id rec = None"
    "rd_event_timestamp rec = happened" "rd_external_ref rec = dt_external_ref (delivery_target_of (Some (JObj payload)))"
proof -
  obtain ev data payload where b: "read_webhook_body cd body = (ev, data, payload)" by (metis prod_cases3)
  show thesis
    using assms that[OF b] b
    by (auto simp: record_delivery_def delivery_key_def of_result_def op_defs commit_def Let_def
        split: prod.splits sum.splits if_splits option.splits)
qed

lemma mark_recorded:
  "recorded_under k d \<noteq> None \<Longrightarrow> recorded_under k (mark_webhook_event_processed_on_db i utc d) \<noteq> None"
  by (simp add: recorded_under_def mark_webhook_event_processed_on_db_def update_events_def lookup_by_sql_update)

lemma handle_delivery_Inr:
  assumes "handle_delivery cd body ts env w = (Inr rec, w')"
  obtains u where "record_delivery cd body ts env w = (Inr rec, u)"
    "durable w' = durable u \<and> tx w' = tx u
     \<or> (\<exists>i. rd_event_id rec = Some i \<and> rd_event rec = PROBE_EVENT
          \<and> tx w' = mark_webhook_event_processed_on_db i (utc_now env) (tx u) \<and> durable w' = tx w')"
  using assms that
  by (auto simp: handle_delivery_def op_defs commit_def Let_def
      split: prod.splits sum.splits if_splits option.splits)

text \<open>
  C8. An answer means authenticated and durable: where the route answers a delivery, the
  header carries the keyed hash of its own fresh timestamp and of the exact body under one
  of the accepted secrets, and the delivery is committed under its identity. It is called
  a duplicate exactly where that identity was recorded before, and work is left for it
  only where it is new and its event is one of the five we act on.
\<close>

theorem acknowledged_is_authentic_and_durable:
  assumes "receive_flash_webhook cd hdr body secrets at_s tol env w = (Inr (dup, work), w')"
  shows "(\<exists>parts secret. secret \<in> set secrets \<and> \<bar>at_s - sp_timestamp parts\<bar> \<le> tol
            \<and> hmac_sha256 cd secret (show_int (sp_timestamp parts) @ ''.'' @ body) = sp_signature parts
            \<and> parse_signature_header hdr = Some parts)
    \<and> recorded_under (delivery_key cd body) (durable w') \<noteq> None
    \<and> (dup \<longleftrightarrow> recorded_under (delivery_key cd body) (tx w) \<noteq> None)
    \<and> (\<forall>rec. work = Some rec \<longrightarrow> \<not> dup \<and> rd_event rec \<in> RECOGNISED_EVENTS \<and> rd_event rec \<noteq> PROBE_EVENT)"
proof -
  from assms obtain parts rec u where v: "verify_delivery cd hdr body secrets at_s tol = Inr parts"
    and h: "handle_delivery cd body (sp_timestamp parts) env w = (Inr rec, u)"
    and w': "durable w' = tx u" and dup: "dup = rd_duplicate rec"
    and work: "work = (if needs_processing rec then Some rec else None)"
    by (auto simp: receive_flash_webhook_def in_session_def op_defs commit_def Let_def
        split: prod.splits sum.splits if_splits option.splits exn.splits)
  from handle_delivery_Inr[OF h] obtain u' where rd: "record_delivery cd body (sp_timestamp parts) env w = (Inr rec, u')"
    and u: "tx u = tx u' \<or> (\<exists>i. tx u = mark_webhook_event_processed_on_db i (utc_now env) (tx u'))"
    by metis
  from record_delivery_Inr[OF rd] obtain ev data payload happened where
    ins: "insert_flash_webhook_event_on_db ev (sp_timestamp parts) happened
       (text_of (dt_subscription_id (delivery_target_of (Some (JObj payload)))))
       (JObj payload) (delivery_key cd body) (Some (utc_now env)) (utc_now env) (tx w) = (rd_event_id rec, tx u')"
    and d: "rd_duplicate rec \<longleftrightarrow> rd_event_id rec = None" by metis
  have "recorded_under (delivery_key cd body) (tx u') \<noteq> None" using insert_event_recorded(2)[OF ins] by simp
  then have durable: "recorded_under (delivery_key cd body) (durable w') \<noteq> None" using u w' mark_recorded by metis
  have "dup \<longleftrightarrow> recorded_under (delivery_key cd body) (tx w) \<noteq> None"
    using insert_event_recorded(1)[OF ins] d dup by simp
  moreover have "\<forall>r. work = Some r \<longrightarrow> \<not> dup \<and> rd_event r \<in> RECOGNISED_EVENTS \<and> rd_event r \<noteq> PROBE_EVENT"
    using work dup by (auto simp: needs_processing_def RECOGNISED_EVENTS_def PROBE_EVENT_def)
  ultimately show ?thesis using verify_delivery_Inr[OF v] durable by blast
qed

text \<open>A decoder that reads every body as one event, for the witnesses.\<close>

definition example_payload :: "(string \<times> json) list" where
  "example_payload =
     [(''event'', JStr ''subscription.activated''),
      (''data'', JObj [(''subscriptionId'', JStr ''sub_1''), (''externalRef'', JStr ''alice''), (''activatedAt'', JStr ''x'')])]"

definition example_codec :: codec where
  "example_codec = \<lparr>hmac_sha256 = (\<lambda>k m. k), sha256 = id, json_loads = (\<lambda>_. Some (JObj example_payload)), decode_replace = id\<rparr>"

definition example_receive :: "(exn, bool \<times> recorded_delivery option) result \<times> session" where
  "example_receive = receive_flash_webhook example_codec (Some ''t=5,v1=k'') ''body'' [''k''] 5 300 example_env
     (example_session example_db [])"

lemma example_receive_ok: "\<exists>rec. fst example_receive = Inr (False, Some rec)"
proof -
  have "(case fst example_receive of Inr (False, Some rec) \<Rightarrow> True | _ \<Rightarrow> False)" by code_simp
  then show ?thesis by (auto split: sum.splits prod.splits option.splits bool.splits)
qed

theorem acknowledged_is_authentic_and_durable_witness:
  "\<exists>rec. fst example_receive = Inr (False, Some rec) \<and> rd_event rec \<in> RECOGNISED_EVENTS
     \<and> recorded_under (delivery_key example_codec ''body'') (durable (snd example_receive)) \<noteq> None"
proof -
  obtain rec where r: "fst example_receive = Inr (False, Some rec)" using example_receive_ok by blast
  then have run: "receive_flash_webhook example_codec (Some ''t=5,v1=k'') ''body'' [''k''] 5 300 example_env
      (example_session example_db []) = (Inr (False, Some rec), snd example_receive)"
    by (simp add: example_receive_def prod_eq_iff)
  show ?thesis using acknowledged_is_authentic_and_durable[OF run] r by blast
qed

text \<open>
  Flash's retries collapse: once a delivery is recorded, delivering the same body
  again, at whatever time, is a duplicate that leaves the inbox as it is and no work.
\<close>

lemma retry_is_a_no_op:
  assumes "record_delivery cd body ts env w = (Inr rec, w')"
    and "record_delivery cd body ts' env' w' = (Inr rec', w'')"
  shows "rd_duplicate rec' \<and> \<not> needs_processing rec' \<and> webhook_events (durable w'') = webhook_events (durable w')"
proof -
  from record_delivery_Inr[OF assms(1)] obtain ev payload happened sid where
    "insert_flash_webhook_event_on_db ev ts happened sid
       (JObj payload) (delivery_key cd body) (Some (utc_now env)) (utc_now env) (tx w) = (rd_event_id rec, tx w')"
    and eq: "durable w' = tx w'" by metis
  then have known: "recorded_under (delivery_key cd body) (tx w') \<noteq> None"
    using insert_event_recorded(2) by fastforce
  from record_delivery_Inr[OF assms(2)] obtain ev2 payload2 happened2 sid2 where
    ins: "insert_flash_webhook_event_on_db ev2 ts' happened2 sid2
       (JObj payload2) (delivery_key cd body) (Some (utc_now env')) (utc_now env') (tx w') = (rd_event_id rec', tx w'')"
    and eq2: "durable w'' = tx w''" "rd_duplicate rec' \<longleftrightarrow> rd_event_id rec' = None" by metis
  show ?thesis
    using insert_event_recorded(1,4)[OF ins] known eq eq2 by (simp add: needs_processing_def)
qed

definition is_Inr :: "'a + 'b \<Rightarrow> bool" where
  "is_Inr r = (case r of Inl _ \<Rightarrow> False | Inr _ \<Rightarrow> True)"

section \<open>No event is dropped in silence\<close>

text \<open>Reconciling never touches the inbox.\<close>

interpretation inbox: entitlement_invariant "\<lambda>d. webhook_events d = es" for es :: "flash_webhook_event list"
  by unfold_locales
    (simp_all add: frame_simps clear_granted_scheduling_on_db_def update_flash_status_on_db_def set_billing_blocked_on_db_def)

definition explained :: "int \<Rightarrow> db \<Rightarrow> bool" where
  "explained i d \<longleftrightarrow>
     (\<forall>e \<in> set (webhook_events d). we_id e = i \<longrightarrow> we_processed_at e \<noteq> None \<or> we_process_error e \<noteq> None)"

lemma explained_writes:
  "explained i (mark_webhook_event_processed_on_db i utc d)" "explained i (record_webhook_event_failure_on_db i why d)"
  by (simp_all add: explained_def mark_webhook_event_processed_on_db_def record_webhook_event_failure_on_db_def
      update_events_def sql_update_all)

lemma explained_advance: "explained i (update_last_event_at_on_db who ts d) \<longleftrightarrow> explained i d"
  by (simp add: explained_def update_last_event_at_on_db_def frame_simps split: option.split)

lemma conclude_event_explains:
  assumes "conclude_event i ref happened out env w = (r, w')" and "commit_fault env = (\<lambda>_. None)"
  shows "explained i (durable w') \<and> r = Inr ()"
  using assms
  by (auto simp: conclude_event_def op_defs commit_def Let_def explained_writes explained_advance split: if_splits)

lemma record_failure_explains:
  assumes "record_failure (Some i) err env w = (r, w')" and "commit_fault env = (\<lambda>_. None)"
  shows "explained i (durable w') \<and> tx w' = durable w' \<and> r = Inr ()"
  using assms by (auto simp: record_failure_def op_defs commit_def Let_def explained_writes)

lemma fallback_explained:
  assumes "apply_payload_fallback ev ref env w = (r, w')" and "tx w = durable w" and "explained i (durable w)"
  shows "explained i (durable w')"
  using keepsD[OF inbox.keeps_apply_payload_fallback assms(1)] assms(2,3) by (simp add: explained_def)

text \<open>
  C9. No acknowledged event is dropped in silence: once a delivery we act on has been
  processed with the database up, its row is either marked processed or carries the reason
  it was not, whatever Flash answered and whichever error was raised on the way.
\<close>

theorem processed_or_explained:
  assumes "needs_processing rec" and "rd_event_id rec = Some i" and "commit_fault env = (\<lambda>_. None)"
    and "process_delivery rec env w = (r, w')"
  shows "\<forall>e \<in> set (webhook_events (durable w')). we_id e = i \<longrightarrow> we_processed_at e \<noteq> None \<or> we_process_error e \<noteq> None"
proof -
  let ?body = "op_bind (apply_with_db_retries (rd_external_ref rec) (text_of (rd_subscription_id rec)))
    (conclude_event i (rd_external_ref rec) (rd_event_timestamp rec))"
  obtain x u where body: "?body env w = (x, u)" by fastforce
  have run: "process_delivery rec env w = (case x of Inr v \<Rightarrow> (Inr v, u)
      | Inl e \<Rightarrow> op_bind (record_failure (Some i) e) (\<lambda>_. case e of
           FlashUnavailable m \<Rightarrow> op_bind (apply_payload_fallback (rd_event rec) (rd_external_ref rec)) (\<lambda>_. ret ())
         | _ \<Rightarrow> ret ()) env u)"
    using assms(1,2) body by (simp add: process_delivery_def catch_def split: sum.split)
  have "explained i (durable w')"
  proof (cases x)
    case (Inr v)
    with body obtain out u0 where "conclude_event i (rd_external_ref rec) (rd_event_timestamp rec) out env u0 = (Inr v, u)"
      by (auto simp: op_bind_def split: prod.splits sum.splits)
    from conclude_event_explains[OF this assms(3)] Inr run assms(4) show ?thesis by simp
  next
    case (Inl e)
    obtain y v where f: "record_failure (Some i) e env u = (y, v)" by fastforce
    note ex = record_failure_explains[OF f assms(3)]
    show ?thesis
    proof (cases "\<exists>m. e = FlashUnavailable m")
      case True
      then obtain m where m: "e = FlashUnavailable m" ..
      obtain z w2 where fb: "apply_payload_fallback (rd_event rec) (rd_external_ref rec) env v = (z, w2)" by fastforce
      have "durable w' = durable w2"
        using run assms(4) Inl f ex fb m by (auto simp: op_bind_def ret_def split: sum.splits)
      with fallback_explained[OF fb] ex show ?thesis by simp
    next
      case False
      then have "durable w' = durable v"
        using run assms(4) Inl f ex by (cases e) (auto simp: op_bind_def ret_def)
      with ex show ?thesis by simp
    qed
  qed
  then show ?thesis by (simp add: explained_def)
qed

theorem processed_or_explained_witness:
  "\<exists>rec r w'. needs_processing rec \<and> rd_event_id rec = Some 1
     \<and> process_delivery rec example_env (snd example_receive) = (r, w')
     \<and> (\<forall>e \<in> set (webhook_events (durable w')). we_id e = 1 \<longrightarrow> we_processed_at e \<noteq> None \<or> we_process_error e \<noteq> None)
     \<and> map we_id (webhook_events (durable w')) = [1]"
proof -
  let ?rec = "\<lparr>rd_event_id = Some 1, rd_event = ''subscription.activated'', rd_subscription_id = JStr ''sub_1'',
    rd_external_ref = JStr ''alice'', rd_duplicate = False, rd_event_timestamp = None\<rparr>"
  have n: "needs_processing ?rec" by (simp add: needs_processing_def RECOGNISED_EVENTS_def)
  have ids: "map we_id (webhook_events (durable (snd (process_delivery ?rec example_env (snd example_receive))))) = [1]"
    by code_simp
  have nf: "commit_fault example_env = (\<lambda>_. None)" by (simp add: example_env_def)
  obtain r w' where run: "process_delivery ?rec example_env (snd example_receive) = (r, w')" by fastforce
  from processed_or_explained[OF n _ nf run, of 1] n ids run show ?thesis by fastforce
qed

end
