(* ===== verification/Billing_Sync.thy ===== *)
theory Billing_Sync
  imports Webhook
begin

text \<open>
  The periodic half of billing: \<^verbatim>\<open>app/services/billing_sync_service.py\<close> and one cycle of
  \<^verbatim>\<open>app/cronjobs/billing_sync.py\<close>. Taking back what lapsed, asking Flash about what cannot
  be judged locally, and finishing the events that were acknowledged and dropped. Each
  pass selects its rows once and then works through that list.
\<close>

section \<open>Taking back what lapsed\<close>

definition lapsed :: "datetime \<Rightarrow> user_subscription \<Rightarrow> bool" where
  "lapsed utc row \<longleftrightarrow>
     us_granted_scheduling_id row \<noteq> None
     \<and> decide_entitlement (us_flash_status row) (us_cancel_effective_date row) (us_current_period_end row) utc
         UNKNOWN_LIFECYCLE_POLICY = REVOKE"

fun revoke_each :: "datetime \<Rightarrow> user_subscription list \<Rightarrow> nat \<Rightarrow> nat op" where
  "revoke_each utc [] revoked = ret revoked"
| "revoke_each utc (row # rows) revoked =
     (if \<not> lapsed utc row then revoke_each utc rows revoked
      else op_bind (revoke_if_ours (us_pubkey row) row) (\<lambda>taken.
           if \<not> taken then revoke_each utc rows revoked
           else op_bind commit (\<lambda>_. revoke_each utc rows (revoked + 1))))"

definition revoke_lapsed_entitlements :: "datetime option \<Rightarrow> nat op" where
  "revoke_lapsed_entitlements at_time =
     op_bind (asks (\<lambda>env. or_keep at_time (utc_now env))) (\<lambda>utc.
     op_bind (read_db select_entitlement_candidates_on_db) (\<lambda>rows.
     revoke_each utc rows 0))"

section \<open>Asking Flash about the rest\<close>

definition UNSETTLED_REASONS :: "entitlement_reason set" where
  "UNSETTLED_REASONS = {UNKNOWN_USER, UNKNOWN_PLAN, UNKNOWN_SUBSCRIPTION, REFERENCE_MISMATCH, NO_REFERENCE}"

record reconcile_result =
  rr_reconciled :: nat
  rr_failed :: nat

text \<open>What one row of the batch came to; after the last the batch is abandoned.\<close>

datatype row_outcome = ROW_RECONCILED | ROW_FAILED | ROW_CREDENTIALS_REFUSED

definition note_failure :: "string \<Rightarrow> string \<Rightarrow> row_outcome \<Rightarrow> row_outcome op" where
  "note_failure pubkey reason result =
     op_bind (asks utc_now) (\<lambda>utc.
     op_bind (write_db (record_sync_failure_on_db pubkey reason utc)) (\<lambda>_.
     op_bind commit (\<lambda>_. ret result)))"

definition reconcile_row :: "string \<Rightarrow> row_outcome op" where
  "reconcile_row pubkey =
     catch
       (op_bind (apply_entitlement (JStr pubkey) None False False) (\<lambda>out.
        if eo_reason out \<in> UNSETTLED_REASONS
        then note_failure pubkey (reason_value (eo_reason out)) ROW_FAILED
        else ret ROW_RECONCILED))
       (\<lambda>e. case e of
              FlashCredentialError _ \<Rightarrow>
                op_bind rollback (\<lambda>_. note_failure pubkey ''credentials refused'' ROW_CREDENTIALS_REFUSED)
            | FlashUnavailable m \<Rightarrow> op_bind rollback (\<lambda>_. note_failure pubkey m ROW_FAILED)
            | _ \<Rightarrow> raise e)"

fun reconcile_each :: "user_subscription list \<Rightarrow> nat \<Rightarrow> nat \<Rightarrow> reconcile_result op" where
  "reconcile_each [] reconciled failed = ret \<lparr>rr_reconciled = reconciled, rr_failed = failed\<rparr>"
| "reconcile_each (row # rows) reconciled failed =
     op_bind (reconcile_row (us_pubkey row)) (\<lambda>result.
     case result of
       ROW_RECONCILED \<Rightarrow> reconcile_each rows (reconciled + 1) failed
     | ROW_FAILED \<Rightarrow> reconcile_each rows reconciled (failed + 1)
     | ROW_CREDENTIALS_REFUSED \<Rightarrow> ret \<lparr>rr_reconciled = reconciled, rr_failed = failed + 1\<rparr>)"

definition sweep_abandon_rule :: "timedelta \<Rightarrow> abandon_rule" where
  "sweep_abandon_rule abandon_pending_after =
     \<lparr>abandon_after = abandon_pending_after, abandon_error = reason_value UNKNOWN_SUBSCRIPTION\<rparr>"

definition reconcile_subscriptions ::
  "nat \<Rightarrow> timedelta \<Rightarrow> timedelta \<Rightarrow> datetime option \<Rightarrow> reconcile_result op" where
  "reconcile_subscriptions limit stale_after abandon_pending_after at_time =
     op_bind (asks (\<lambda>env. or_keep at_time (utc_now env))) (\<lambda>utc.
     op_bind (read_db (select_reconcile_candidates_on_db utc stale_after limit
                (sweep_abandon_rule abandon_pending_after))) (\<lambda>rows.
     reconcile_each rows 0 0))"

section \<open>Finishing what was dropped\<close>

definition error_repr :: "billing_env \<Rightarrow> exn \<Rightarrow> string" where
  "error_repr env e =
     (case e of
        HTTPException n d \<Rightarrow> ''HTTPException(status_code='' @ show_nat n @ '', detail='' @ repr_str d @ '')''
      | _ \<Rightarrow> exn_class e @ ''('' @ repr_str (error_text env e) @ '')'')"

definition note_event_failure :: "int \<Rightarrow> string \<Rightarrow> unit op" where
  "note_event_failure event_id reason =
     op_bind (write_db (record_webhook_event_failure_on_db event_id reason)) (\<lambda>_. commit)"

text \<open>One claimed event. True where it was replayed.\<close>

definition replay_event :: "datetime \<Rightarrow> flash_webhook_event \<Rightarrow> json \<Rightarrow> bool op" where
  "replay_event utc event payload =
     (let target = delivery_target_of (Some payload); i = we_id event in
      catch
        (op_bind (apply_entitlement (dt_external_ref target) (text_of (dt_subscription_id target)) True False) (\<lambda>out.
         if eo_reason out \<notin> SETTLED_REASONS
         then op_bind (note_event_failure i (reason_value (eo_reason out))) (\<lambda>_. ret False)
         else op_bind (write_db (mark_webhook_event_processed_on_db i utc)) (\<lambda>_.
              op_bind (write_db (update_last_event_at_on_db (text_of (dt_external_ref target)) (we_event_timestamp event))) (\<lambda>_.
              op_bind commit (\<lambda>_. ret True)))))
        (\<lambda>e. op_bind rollback (\<lambda>_.
           case e of
             FlashUnavailable m \<Rightarrow>
               op_bind (note_event_failure i m) (\<lambda>_.
               op_bind (apply_payload_fallback (we_event event) (dt_external_ref target)) (\<lambda>_. ret False))
           | _ \<Rightarrow>
               op_bind (asks (\<lambda>env. error_repr env e)) (\<lambda>why.
               op_bind (note_event_failure i why) (\<lambda>_. ret False)))))"

definition claim_and_replay :: "datetime \<Rightarrow> timedelta \<Rightarrow> flash_webhook_event \<Rightarrow> bool op" where
  "claim_and_replay utc stale_after event =
     op_bind (exec_db (claim_webhook_event_on_db (we_id event) utc stale_after)) (\<lambda>claimed.
     op_bind commit (\<lambda>_.
     if \<not> claimed then ret False
     else case we_payload event of
            None \<Rightarrow> op_bind (note_event_failure (we_id event) ''payload missing'') (\<lambda>_. ret False)
          | Some payload \<Rightarrow> replay_event utc event payload))"

fun replay_each :: "datetime \<Rightarrow> timedelta \<Rightarrow> flash_webhook_event list \<Rightarrow> nat \<Rightarrow> nat op" where
  "replay_each utc stale_after [] replayed = ret replayed"
| "replay_each utc stale_after (event # rest) replayed =
     op_bind (claim_and_replay utc stale_after event) (\<lambda>done.
     replay_each utc stale_after rest (if done then replayed + 1 else replayed))"

definition replay_unprocessed_events :: "nat \<Rightarrow> timedelta \<Rightarrow> int \<Rightarrow> nat op" where
  "replay_unprocessed_events limit stale_after max_attempts =
     op_bind (asks utc_now) (\<lambda>utc.
     op_bind (read_db (select_abandoned_webhook_events_on_db utc stale_after max_attempts limit RECOGNISED_EVENTS)) (\<lambda>events.
     replay_each utc stale_after events 0))"

section \<open>One cycle\<close>

record sync_settings =
  billing_replay_batch :: nat
  billing_replay_stale_after :: timedelta
  billing_replay_max_attempts :: int
  billing_reconcile_batch :: nat
  billing_reconcile_stale_after :: timedelta
  billing_abandon_pending_after :: timedelta

text \<open>The work of a cycle that holds the leader lock: a failure of the cycle is logged and
  the loop goes on.\<close>

definition billing_sync_cycle :: "sync_settings \<Rightarrow> unit op" where
  "billing_sync_cycle cfg =
     catch
       (in_session
         (op_bind (replay_unprocessed_events (billing_replay_batch cfg) (billing_replay_stale_after cfg)
                     (billing_replay_max_attempts cfg)) (\<lambda>_.
          op_bind (revoke_lapsed_entitlements None) (\<lambda>_.
          op_bind (reconcile_subscriptions (billing_reconcile_batch cfg) (billing_reconcile_stale_after cfg)
                     (billing_abandon_pending_after cfg) None) (\<lambda>_.
          ret ())))))
       (\<lambda>_. ret ())"

section \<open>Invariants\<close>

context entitlement_invariant
begin

lemma keeps_revoke_each: "keeps I (revoke_each utc rows n)"
proof (induction rows arbitrary: n)
  case Nil
  show ?case by (simp add: keeps_simple)
next
  case (Cons row rows)
  show ?case by (simp only: revoke_each.simps) (intro keeps_intros keeps_revoke_if_ours Cons)
qed

lemma keeps_revoke_lapsed: "keeps I (revoke_lapsed_entitlements at_time)"
  unfolding revoke_lapsed_entitlements_def by (intro keeps_intros keeps_revoke_each)

end

context billing_invariant
begin

lemma keeps_note_failure: "keeps I (note_failure p reason x)"
  unfolding note_failure_def by (intro keeps_intros inv_sync_failure)

lemma keeps_reconcile_row: "keeps I (reconcile_row p)"
  unfolding reconcile_row_def
  by (intro keeps_catch keeps_bind keeps_apply_entitlement)
    (auto intro: keeps_intros keeps_note_failure split: exn.split)

lemma keeps_reconcile_each: "keeps I (reconcile_each rows n m)"
proof (induction rows arbitrary: n m)
  case Nil
  show ?case by (simp add: keeps_simple)
next
  case (Cons row rows)
  show ?case
    by (simp only: reconcile_each.simps, rule keeps_bind[OF keeps_reconcile_row])
      (auto intro: keeps_intros Cons split: row_outcome.split)
qed

lemma keeps_reconcile: "keeps I (reconcile_subscriptions limit stale abandon at_time)"
  unfolding reconcile_subscriptions_def by (intro keeps_intros keeps_reconcile_each)

lemma keeps_note_event_failure: "keeps I (note_event_failure i reason)"
  unfolding note_event_failure_def by (intro keeps_intros inv_failure)

lemma keeps_replay_event: "keeps I (replay_event utc event payload)"
  unfolding replay_event_def Let_def
  by (intro keeps_catch keeps_bind keeps_apply_entitlement keeps_simple)
    (auto intro!: keeps_intros keeps_note_event_failure keeps_apply_payload_fallback inv_mark inv_event_at split: exn.split)

lemma keeps_claim_and_replay: "keeps I (claim_and_replay utc stale event)"
  unfolding claim_and_replay_def
  by (intro keeps_intros keeps_note_event_failure keeps_replay_event inv_claim)

lemma keeps_replay: "keeps I (replay_unprocessed_events limit stale n)"
proof -
  have "keeps I (replay_each utc stale events k)" for utc events k
    by (induction events arbitrary: k) (auto intro: keeps_intros keeps_claim_and_replay)
  then show ?thesis unfolding replay_unprocessed_events_def by (intro keeps_intros)
qed

lemma keeps_billing_sync_cycle: "keeps I (billing_sync_cycle cfg)"
  unfolding billing_sync_cycle_def
  by (intro keeps_intros keeps_in_session keeps_replay keeps_revoke_lapsed keeps_reconcile)

end

section \<open>What the lapse sweep does\<close>

text \<open>One row of the sweep, on the database.\<close>

definition sweep_row :: "keygen \<Rightarrow> datetime \<Rightarrow> user_subscription \<Rightarrow> db \<Rightarrow> db" where
  "sweep_row ks utc row d =
     (if lapsed utc row \<and> \<not> admin_holds (us_pubkey row) d
      then clear_granted_scheduling_on_db (us_pubkey row)
             (set_scheduling_for_pubkey_on_db ks (us_pubkey row) None SOURCE_DEFAULT d)
      else d)"

lemma revoke_if_ours_run:
  "revoke_if_ours p row env w =
     (if admin_holds p (tx w) then (Inr False, w)
      else (Inr True, w\<lparr>tx := clear_granted_scheduling_on_db p
                                (set_scheduling_for_pubkey_on_db (keys env) p None SOURCE_DEFAULT (tx w))\<rparr>))"
  by (simp add: revoke_if_ours_def op_bind_def read_db_def ret_def write_resolution_run write_db_def
      resolve_entitlement_def leave_policy_def policy_write_def is_admin_held_def flip: admin_holds_source)

lemma revoke_each_run:
  assumes "commit_fault env = (\<lambda>_. None)" and "tx w = durable w"
  shows "\<exists>n w'. revoke_each utc rows k env w = (Inr n, w') \<and> tx w' = fold (sweep_row (keys env) utc) rows (tx w)
    \<and> durable w' = tx w'"
  using assms(2)
proof (induction rows arbitrary: k w)
  case Nil
  then show ?case by (simp add: ret_def)
next
  case (Cons row rows)
  show ?case
  proof (cases "lapsed utc row \<and> \<not> admin_holds (us_pubkey row) (tx w)")
    case True
    let ?d = "sweep_row (keys env) utc row (tx w)"
    have step: "revoke_each utc (row # rows) k env w
        = revoke_each utc rows (k + 1) env (w\<lparr>tx := ?d, commits := commits w + 1, durable := ?d\<rparr>)"
      using True assms(1)
      by (simp add: op_bind_def revoke_if_ours_run commit_def Let_def sweep_row_def)
    show ?thesis using Cons.IH[of "w\<lparr>tx := ?d, commits := commits w + 1, durable := ?d\<rparr>" "k + 1"] step by simp
  next
    case False
    then have "revoke_each utc (row # rows) k env w = revoke_each utc rows k env w"
      and "sweep_row (keys env) utc row (tx w) = tx w"
      by (auto simp: op_bind_def revoke_if_ours_run sweep_row_def)
    with Cons.IH[OF Cons.prems, of k] show ?thesis by simp
  qed
qed

lemma sweep_row_other:
  "p \<noteq> us_pubkey row \<Longrightarrow> nsec_of p (sweep_row ks utc row d) = nsec_of p d"
  "p \<noteq> us_pubkey row \<Longrightarrow> get_user_subscription_on_db p (sweep_row ks utc row d) = get_user_subscription_on_db p d"
  by (simp_all add: sweep_row_def table_simps)

lemma fold_sweep_other:
  "p \<notin> us_pubkey ` set rows \<Longrightarrow> nsec_of p (fold (sweep_row ks utc) rows d) = nsec_of p d
     \<and> get_user_subscription_on_db p (fold (sweep_row ks utc) rows d) = get_user_subscription_on_db p d"
  by (induction rows arbitrary: d) (auto simp: sweep_row_other)

text \<open>What the sweep leaves of one user.\<close>

definition swept :: "keygen \<Rightarrow> datetime \<Rightarrow> string \<Rightarrow> db \<Rightarrow> brainstorm_nsec option \<times> user_subscription option" where
  "swept ks utc p d =
     (case get_user_subscription_on_db p d of
        Some row \<Rightarrow>
          if lapsed utc row \<and> \<not> admin_holds p d
          then (Some ((case nsec_of p d of None \<Rightarrow> fresh_nsec ks p | Some n \<Rightarrow> n)
                        \<lparr>bn_scheduling_id := None, bn_scheduling_source := SOURCE_DEFAULT\<rparr>),
                Some (row\<lparr>us_granted_scheduling_id := None\<rparr>))
          else (nsec_of p d, Some row)
      | None \<Rightarrow> (nsec_of p d, None))"

lemma sweep_row_same:
  assumes "get_user_subscription_on_db (us_pubkey row) d = Some row"
  shows "nsec_of (us_pubkey row) (sweep_row ks utc row d) = fst (swept ks utc (us_pubkey row) d)"
    and "get_user_subscription_on_db (us_pubkey row) (sweep_row ks utc row d) = snd (swept ks utc (us_pubkey row) d)"
  using assms by (simp_all add: sweep_row_def swept_def table_simps)

lemma swept_frame:
  "nsec_of p d' = nsec_of p d \<Longrightarrow> get_user_subscription_on_db p d' = get_user_subscription_on_db p d \<Longrightarrow>
   swept ks utc p d' = swept ks utc p d"
  by (simp add: swept_def admin_holds_def split: option.split)

lemma fold_sweep_listed:
  assumes "distinct (map us_pubkey rows)" and "\<forall>row \<in> set rows. get_user_subscription_on_db (us_pubkey row) d = Some row"
    and "p \<in> us_pubkey ` set rows"
  shows "(nsec_of p (fold (sweep_row ks utc) rows d), get_user_subscription_on_db p (fold (sweep_row ks utc) rows d))
    = swept ks utc p d"
  using assms
proof (induction rows arbitrary: d)
  case Nil
  then show ?case by simp
next
  case (Cons row rows)
  let ?d = "sweep_row ks utc row d"
  have later: "us_pubkey r \<noteq> us_pubkey row" if "r \<in> set rows" for r
  proof -
    have "us_pubkey r \<in> us_pubkey ` set rows" using that by simp
    with Cons.prems(1) show ?thesis by auto
  qed
  show ?case
  proof (cases "p = us_pubkey row")
    case True
    then have "p \<notin> us_pubkey ` set rows" using Cons.prems(1) by auto
    from fold_sweep_other[OF this, of ks utc ?d] sweep_row_same[of row d ks utc] Cons.prems(2) True
    show ?thesis by (simp add: prod_eq_iff)
  next
    case False
    then have "p \<in> us_pubkey ` set rows" using Cons.prems(3) by auto
    moreover have "\<forall>r \<in> set rows. get_user_subscription_on_db (us_pubkey r) ?d = Some r"
      using Cons.prems(2) later by (auto simp: sweep_row_other)
    ultimately have "(nsec_of p (fold (sweep_row ks utc) rows ?d), get_user_subscription_on_db p (fold (sweep_row ks utc) rows ?d))
        = swept ks utc p ?d"
      using Cons.IH[of ?d] Cons.prems(1) by simp
    then show ?thesis using swept_frame[of p ?d d ks utc] sweep_row_other[OF False] by simp
  qed
qed

lemma candidates_listed:
  assumes "db_wf d"
  shows "distinct (map us_pubkey (select_entitlement_candidates_on_db d))"
    and "\<forall>row \<in> set (select_entitlement_candidates_on_db d). get_user_subscription_on_db (us_pubkey row) d = Some row"
    and "p \<notin> us_pubkey ` set (select_entitlement_candidates_on_db d) \<Longrightarrow>
           swept ks utc p d = (nsec_of p d, get_user_subscription_on_db p d)"
proof -
  from assms have u: "unique_on us_pubkey (user_subscriptions d)" by (simp add: db_wf_def)
  then show "distinct (map us_pubkey (select_entitlement_candidates_on_db d))"
    by (simp add: select_entitlement_candidates_on_db_def unique_on_def distinct_map_filter)
  show "\<forall>row \<in> set (select_entitlement_candidates_on_db d). get_user_subscription_on_db (us_pubkey row) d = Some row"
    using lookup_by_unique[OF u] by (auto simp: select_entitlement_candidates_on_db_def get_user_subscription_on_db_def)
  assume no: "p \<notin> us_pubkey ` set (select_entitlement_candidates_on_db d)"
  have "\<not> lapsed utc row" if "get_user_subscription_on_db p d = Some row" for row
  proof -
    have "row \<in> set (user_subscriptions d)" "us_pubkey row = p"
      using that lookup_by_mem lookup_by_key unfolding get_user_subscription_on_db_def by fastforce+
    with no show ?thesis by (auto simp: select_entitlement_candidates_on_db_def lapsed_def)
  qed
  then show "swept ks utc p d = (nsec_of p d, get_user_subscription_on_db p d)"
    by (auto simp: swept_def split: option.split)
qed

lemma lapse_sweep_runs:
  assumes "db_wf (tx w)" and "tx w = durable w" and "commit_fault env = (\<lambda>_. None)"
  shows "\<exists>n w'. revoke_lapsed_entitlements (Some utc) env w = (Inr n, w') \<and> durable w' = tx w'
    \<and> (\<forall>p. (nsec_of p (durable w'), get_user_subscription_on_db p (durable w')) = swept (keys env) utc p (durable w))"
proof -
  let ?rows = "select_entitlement_candidates_on_db (tx w)"
  obtain n w' where run: "revoke_each utc ?rows 0 env w = (Inr n, w')"
    and w': "tx w' = fold (sweep_row (keys env) utc) ?rows (tx w)" "durable w' = tx w'"
    using revoke_each_run[OF assms(3,2), of utc ?rows 0] by blast
  have "(nsec_of p (tx w'), get_user_subscription_on_db p (tx w')) = swept (keys env) utc p (tx w)" for p
    using candidates_listed[OF assms(1)] fold_sweep_other[of p ?rows "keys env" utc "tx w"]
      fold_sweep_listed[of ?rows "tx w" p "keys env" utc] w'(1)
    by (cases "p \<in> us_pubkey ` set ?rows") auto
  moreover have "revoke_lapsed_entitlements (Some utc) env w = (Inr n, w')"
    using run by (simp add: revoke_lapsed_entitlements_def op_bind_def asks_def read_db_def or_keep_def)
  ultimately show ?thesis using w'(2) assms(2) by metis
qed


lemma swept_again:
  assumes "(nsec_of p d', get_user_subscription_on_db p d') = swept ks utc p d"
  shows "swept ks utc p d' = (nsec_of p d', get_user_subscription_on_db p d')"
proof (cases "get_user_subscription_on_db p d")
  case None
  with assms show ?thesis by (simp add: swept_def)
next
  case (Some row)
  show ?thesis
  proof (cases "lapsed utc row \<and> \<not> admin_holds p d")
    case True
    with Some assms have "get_user_subscription_on_db p d' = Some (row\<lparr>us_granted_scheduling_id := None\<rparr>)"
      by (simp add: swept_def)
    then show ?thesis by (simp add: swept_def lapsed_def)
  next
    case False
    with Some assms have same: "get_user_subscription_on_db p d' = Some row" "nsec_of p d' = nsec_of p d"
      by (auto simp: swept_def)
    then have "admin_holds p d' = admin_holds p d" by (simp add: admin_holds_def)
    with same(1) False show ?thesis by (auto simp: swept_def)
  qed
qed

text \<open>
  The sweep is idempotent: swept again at the same moment, nobody's policy and nobody's
  record moves. So partial progress that survives a crash is only ever completed.
\<close>

lemma lapse_sweep_idempotent:
  assumes "db_wf (tx w)" and "tx w = durable w" and "commit_fault env = (\<lambda>_. None)"
    and "revoke_lapsed_entitlements (Some utc) env w = (Inr n, w')"
    and "revoke_lapsed_entitlements (Some utc) env w' = (Inr n', w'')"
  shows "\<forall>p. nsec_of p (durable w'') = nsec_of p (durable w')
    \<and> get_user_subscription_on_db p (durable w'') = get_user_subscription_on_db p (durable w')"
proof -
  have wf: "db_wf (tx w')" using keepsD[OF tables.keeps_revoke_lapsed assms(4)] assms(1,2) by simp
  from lapse_sweep_runs[OF assms(1-3), of utc] assms(4) have
    first: "durable w' = tx w'" "\<And>p. (nsec_of p (durable w'), get_user_subscription_on_db p (durable w')) = swept (keys env) utc p (durable w)"
    by auto
  from lapse_sweep_runs[OF wf first(1)[symmetric] assms(3), of utc] assms(5) have
    second: "\<And>p. (nsec_of p (durable w''), get_user_subscription_on_db p (durable w'')) = swept (keys env) utc p (durable w')"
    by auto
  have "swept (keys env) utc p (durable w') = (nsec_of p (durable w'), get_user_subscription_on_db p (durable w'))" for p
    by (rule swept_again[OF first(2)])
  with second show ?thesis by (metis prod.inject)
qed

definition example_lapsed :: db where
  "example_lapsed = grant_step (\<lambda>_. ([], [])) ''alice'' (example_sub ''canceled'' JNull)
     (hd (billing_plans example_db)) 100
     (grant_step (\<lambda>_. ([], [])) ''alice'' (example_sub ''active'' JNull) (hd (billing_plans example_db)) 90 example_db)"

lemma example_lapsed_wf: "db_wf example_lapsed"
  unfolding example_lapsed_def
  by (intro tables.keeps_grant_step) (simp add: db_wf_def example_db_def unique_on_def fresh_nsec_def)


section \<open>Claiming\<close>

text \<open>Any number of workers claim one event, each at its own moment, in the order the
  database serves them.\<close>

fun claims :: "int \<Rightarrow> timedelta \<Rightarrow> datetime list \<Rightarrow> db \<Rightarrow> bool list" where
  "claims i stale [] d = []"
| "claims i stale (t # ts) d =
     (case claim_webhook_event_on_db i t stale d of (won, d') \<Rightarrow> won # claims i stale ts d')"

definition held_since :: "int \<Rightarrow> datetime \<Rightarrow> db \<Rightarrow> bool" where
  "held_since i t d \<longleftrightarrow> (\<forall>e \<in> set (webhook_events d). we_id e = i \<longrightarrow>
     (\<exists>s. we_processing_started_at e = Some s \<and> t \<le> s) \<or> we_processed_at e \<noteq> None)"

lemma claim_holds: "held_since i t (snd (claim_webhook_event_on_db i t stale d))" if "held_since i t d \<or> fst (claim_webhook_event_on_db i t stale d) \<and> unique_on we_id (webhook_events d)"
proof -
  have uniq: "claimable t stale e" if u: "unique_on we_id (webhook_events d)" and c: "fst (claim_webhook_event_on_db i t stale d)"
    and e: "e \<in> set (webhook_events d)" "we_id e = i" for e
  proof -
    from c obtain e' where "e' \<in> set (webhook_events d)" "we_id e' = i" "claimable t stale e'"
      by (auto simp: claim_webhook_event_on_db_def Let_def)
    with u e find_key_unique[of we_id "webhook_events d" e e'] show ?thesis by (simp add: unique_on_def)
  qed
  show ?thesis
    using that uniq
    by (fastforce simp: held_since_def table_simps update_events_def sql_update_all)
qed

lemma held_not_claimable:
  assumes "held_since i s d" and "t - stale < s"
  shows "\<not> fst (claim_webhook_event_on_db i t stale d)"
proof -
  have "\<not> claimable t stale e" if "e \<in> set (webhook_events d)" "we_id e = i" for e
    using assms that by (fastforce simp: held_since_def claimable_def)
  then show ?thesis by (auto simp: claim_webhook_event_on_db_def Let_def)
qed

lemma lost_claim_changes_nothing:
  "\<not> fst (claim_webhook_event_on_db i t stale d) \<Longrightarrow> snd (claim_webhook_event_on_db i t stale d) = d"
proof -
  assume "\<not> fst (claim_webhook_event_on_db i t stale d)"
  then have "sql_update (\<lambda>e. we_id e = i \<and> claimable t stale e) f (webhook_events d) = webhook_events d" for f
    unfolding sql_update_def by (intro map_idI) (auto simp: claim_webhook_event_on_db_def Let_def)
  then show ?thesis by (simp add: table_simps update_events_def)
qed

lemma held_claims_lost:
  "held_since i s d \<Longrightarrow> \<forall>t \<in> set ts. t - stale < s \<Longrightarrow> claims i stale ts d = replicate (length ts) False"
proof (induction ts)
  case Nil
  then show ?case by simp
next
  case (Cons t ts)
  then have "\<not> fst (claim_webhook_event_on_db i t stale d)" using held_not_claimable[of i s d t stale] by simp
  from this lost_claim_changes_nothing[OF this] Cons show ?case by (auto split: prod.split)
qed

text \<open>
  C11. Replay is claimed at most once: of any number of workers that try to claim one event
  within less than the staleness window of each other, in whatever order the database
  serves them, at most one wins.
\<close>

theorem claimed_at_most_once:
  assumes "db_wf d" and "\<forall>s \<in> set ts. \<forall>t \<in> set ts. t - s < stale"
  shows "length (filter id (claims i stale ts d)) \<le> 1"
  using assms
proof (induction ts)
  case Nil
  then show ?case by simp
next
  case (Cons t ts)
  let ?c = "claim_webhook_event_on_db i t stale d"
  show ?case
  proof (cases "fst ?c")
    case True
    with Cons.prems(1) have "held_since i t (snd ?c)" by (intro claim_holds) (simp add: db_wf_def)
    moreover have "\<forall>u \<in> set ts. u - stale < t" using Cons.prems(2) by force
    ultimately have "claims i stale ts (snd ?c) = replicate (length ts) False" by (rule held_claims_lost)
    then show ?thesis by (simp add: split_beta)
  next
    case False
    from lost_claim_changes_nothing[OF False] Cons False show ?thesis by (simp add: split_beta)
  qed
qed

theorem claimed_at_most_once_witness:
  "claims 1 600 [1000, 1100, 900] (durable (snd example_receive)) = [True, False, False]
   \<and> length (filter id (claims 1 600 [1000, 1100, 900] (durable (snd example_receive)))) \<le> 1"
proof -
  let ?d = "durable (snd example_receive)"
  have "db_wf (tx (example_session example_db [])) \<and> db_wf (durable (example_session example_db []))"
    by (simp add: example_session_def db_wf_def example_db_def unique_on_def fresh_nsec_def)
  then have "db_wf ?d"
    using tables.keeps_receive unfolding keeps_def example_receive_def by blast
  moreover have "claims 1 600 [1000, 1100, 900] ?d = [True, False, False]" by code_simp
  ultimately show ?thesis using claimed_at_most_once[of ?d "[1000, 1100, 900]" 600 1] by simp
qed

section \<open>Checkouts nobody finished\<close>

text \<open>
  One question, two answers that agree: on every database billing can leave behind, the
  rule for an abandoned checkout gives in SQL, for every subscription, the same answer as
  in Python, and never null. So the sweep asks Flash about exactly the due subscriptions
  that are neither abandoned nor settled, and each failing subscription is reported either
  as failing or as abandoned, never both and never neither.
\<close>

lemma abandoned_in_sql_and_python_agree:
  assumes "failure_has_reason d" and "row \<in> set (user_subscriptions d)"
    and "length (user_subscriptions d) \<le> limit"
  shows "abandon_condition rule utc row = Some (abandon_matches rule row utc)
    \<and> (row \<in> set (select_reconcile_candidates_on_db utc stale limit rule d) \<longleftrightarrow>
         reconcile_due utc stale row \<and> \<not> abandon_matches rule row utc \<and> settled_condition row = Some False)
    \<and> (us_last_sync_error row \<noteq> None \<longrightarrow>
         (row \<in> set (select_failing_syncs_on_db limit utc rule d)
           \<longleftrightarrow> row \<notin> set (select_abandoned_checkouts_on_db limit utc rule d)))"
proof -
  from assms(1,2) have r: "us_sync_error_since row \<noteq> None \<longrightarrow> us_last_sync_error row \<noteq> None"
    by (simp add: failure_has_reason_def)
  have eq: "abandon_condition rule utc row = Some (abandon_matches rule row utc)"
    using r by (cases "us_sync_error_since row"; cases "us_last_sync_error row")
      (simp_all add: abandon_condition_def abandon_matches_def)
  have all: "length (sql_where P (user_subscriptions d)) \<le> limit" for P
    unfolding sql_where_def by (rule order_trans[OF length_filter_le assms(3)])
  have settled: "settled_condition row = Some True \<or> settled_condition row = Some False"
    by (auto simp: settled_condition_def)
  show ?thesis
    using eq assms(2) settled all
    by (auto simp: select_reconcile_candidates_on_db_def select_failing_syncs_on_db_def
        select_abandoned_checkouts_on_db_def sql_where_def)
qed

text \<open>
  The clock of a failure runs from its first occurrence: however often the same failure
  is recorded, the time since which the subscriber has been failing stays the time of the
  first, and each attempt moves the time of the last read.
\<close>

lemma failure_clock_runs_from_the_first:
  assumes "us_last_sync_error row \<noteq> Some reason"
  shows "us_sync_error_since (fold (note_sync_failure reason) (t # ts) row) = Some t
    \<and> us_last_synced_at (fold (note_sync_failure reason) (t # ts) row) = Some (last (t # ts))
    \<and> us_last_sync_error (fold (note_sync_failure reason) (t # ts) row) = Some reason"
proof -
  have "us_sync_error_since (fold (note_sync_failure reason) ts s) = Some t
      \<and> us_last_synced_at (fold (note_sync_failure reason) ts s) = Some (last (u # ts))
      \<and> us_last_sync_error (fold (note_sync_failure reason) ts s) = Some reason"
    if "us_sync_error_since s = Some t" "us_last_sync_error s = Some reason" "us_last_synced_at s = Some u" for s u
    using that by (induction ts arbitrary: s u) (auto simp: note_sync_failure_def)
  from this[of "note_sync_failure reason t row" t] assms show ?thesis
    by (simp add: note_sync_failure_def)
qed

section \<open>The batch moves on\<close>

definition yields :: "('a \<Rightarrow> bool) \<Rightarrow> 'a op \<Rightarrow> bool" where
  "yields P m \<longleftrightarrow> (\<forall>env w x w'. m env w = (Inr x, w') \<longrightarrow> P x)"

lemma yields_ret [intro]: "P x \<Longrightarrow> yields P (ret x)"
  by (simp add: yields_def ret_def)

lemma yields_bind [intro]: "(\<And>x. yields P (f x)) \<Longrightarrow> yields P (op_bind m f)"
  unfolding yields_def op_bind_def by (auto split: prod.splits sum.splits)

lemma apply_found_yields:
  "yields (\<lambda>out. eo_reason out \<in> SETTLED_REASONS \<union> UNSETTLED_REASONS) (apply_found p allow sub)"
  using resolve_settles
  by (auto simp: apply_found_def apply_plan_def grant_and_record_def decided_def UNSETTLED_REASONS_def
      yields_def op_bind_def asks_def read_db_def commit_def write_resolution_run bound_ok_def write_db_def ret_def
      resolution_for_def Let_def split: prod.splits sum.splits option.splits if_splits)

text \<open>Where nobody asks to yield, nobody is told the subscriber is busy.\<close>

lemma apply_found_reason:
  "apply_found p allow sub env w = (Inr out, w') \<Longrightarrow> eo_reason out \<in> SETTLED_REASONS \<union> UNSETTLED_REASONS"
  using apply_found_yields unfolding yields_def by blast

lemma apply_never_busy:
  assumes "apply_entitlement ref sid False allow env w = (Inr out, w')"
  shows "eo_reason out \<in> SETTLED_REASONS \<union> UNSETTLED_REASONS"
proof -
  have early: "{NO_REFERENCE, UNKNOWN_USER, UNKNOWN_SUBSCRIPTION} \<subseteq> SETTLED_REASONS \<union> UNSETTLED_REASONS"
    by (auto simp: UNSETTLED_REASONS_def)
  show ?thesis
    using assms early
    by (auto simp: apply_entitlement_def apply_to_user_def decided_run lock_user_for_update_on_db_def
        brainstorm_nsec_exists_by_pubkey_on_db_def op_bind_def read_db_def asks_def bound_ok_def
        split: prod.splits sum.splits if_splits option.splits dest!: apply_found_reason)
qed

lemma raised_leaves_durable:
  assumes "apply_entitlement ref sid busy allow env w = (Inl e, w')"
  shows "durable w' = durable w"
  using apply_entitlement_cases[OF assms]
proof (elim disjE exE conjE)
  assume "nothing_decided w (Inl e) w'"
  then show ?thesis by (simp add: nothing_decided_def)
next
  fix p assume "granting p w env (Inl e) w'"
  then show ?thesis by (cases rule: granting_cases) auto
qed

definition read_at :: "datetime \<Rightarrow> string \<Rightarrow> db \<Rightarrow> bool" where
  "read_at t p d \<longleftrightarrow> (case get_user_subscription_on_db p d of None \<Rightarrow> False | Some s \<Rightarrow> us_last_synced_at s = Some t)"

lemma note_failure_reads:
  assumes "note_failure p reason x env w = (Inr y, w')" and "get_user_subscription_on_db p (tx w) \<noteq> None"
  shows "read_at (utc_now env) p (durable w')"
  using assms
  by (auto simp: note_failure_def op_bind_def asks_def write_db_def commit_def ret_def Let_def read_at_def table_simps
      note_sync_failure_def split: option.splits)

lemma unsettled_leaves_durable:
  assumes "apply_entitlement ref sid False allow env w = (Inr out, w')" and "eo_reason out \<in> UNSETTLED_REASONS"
  shows "tx w' = tx w" and "durable w' = durable w"
proof -
  from assms(2) have "eo_reason out \<notin> SETTLED_REASONS" by (auto simp: UNSETTLED_REASONS_def SETTLED_REASONS_def)
  with apply_entitlement_cases[OF assms(1)] have "nothing_decided w (Inr out) w'"
    using resolve_settles by (auto simp: resolution_for_def elim!: granting_cases)
  then show "tx w' = tx w" and "durable w' = durable w" by (simp_all add: nothing_decided_def)
qed

lemma settled_reads:
  assumes "apply_entitlement (JStr p) sid False allow env w = (Inr out, w')" and "eo_reason out \<notin> UNSETTLED_REASONS"
  shows "read_at (utc_now env) p (durable w')"
proof -
  from apply_never_busy[OF assms(1)] assms(2) apply_entitlement_cases[OF assms(1)]
  have "granting p w env (Inr out) w'" by (auto simp: nothing_decided_def)
  then show ?thesis
    by (cases rule: granting_cases) (auto simp: read_at_def get_user_subscription_grant_step)
qed

lemma note_failure_Inl: "note_failure p reason x env w = (Inl e, w') \<Longrightarrow> durable w' = durable w"
  by (auto simp: note_failure_def op_bind_def asks_def write_db_def commit_def ret_def Let_def split: option.splits)

text \<open>
  No subscriber can hold up the batch: whenever reconciling one row of the batch
  returns, settled or not, Flash answering or not, the time of that subscriber's last read
  is now and committed, so that the next batch, which takes the oldest reads first, starts
  with others.
\<close>

lemma reconciled_row_leaves_the_head:
  assumes "reconcile_row p env w = (Inr x, w')" and "tx w = durable w"
    and "get_user_subscription_on_db p (durable w) \<noteq> None"
  shows "\<exists>row. get_user_subscription_on_db p (durable w') = Some row \<and> us_last_synced_at row = Some (utc_now env)"
proof -
  let ?body = "op_bind (apply_entitlement (JStr p) None False False) (\<lambda>out.
        if eo_reason out \<in> UNSETTLED_REASONS
        then note_failure p (reason_value (eo_reason out)) ROW_FAILED else ret ROW_RECONCILED)"
  obtain y v where body: "?body env w = (y, v)" by fastforce
  have "read_at (utc_now env) p (durable w')"
  proof (cases y)
    case (Inl e)
    then have "durable v = durable w"
      using body raised_leaves_durable unsettled_leaves_durable
      by (auto simp: op_bind_def note_failure_Inl ret_def split: prod.splits sum.splits if_splits)
    moreover have "\<exists>reason z. note_failure p reason z env (v\<lparr>tx := durable v\<rparr>) = (Inr x, w')"
      using assms(1) body Inl
      by (auto simp: reconcile_row_def catch_def op_bind_def rollback_def raise_def split: exn.splits)
    ultimately show ?thesis using note_failure_reads assms(3) by fastforce
  next
    case (Inr z)
    then have "w' = v" using assms(1) body by (simp add: reconcile_row_def catch_def)
    moreover have "read_at (utc_now env) p (durable v)"
      using body Inr assms(2,3) settled_reads unsettled_leaves_durable(1) note_failure_reads
      by (auto simp: op_bind_def ret_def split: prod.splits sum.splits if_splits)
    ultimately show ?thesis by simp
  qed
  then show ?thesis by (auto simp: read_at_def split: option.splits)
qed

end
