(* ===== verification/Billing_System.thy ===== *)
theory Billing_System
  imports Billing_Sync
begin

text \<open>
  Billing as one system: requests, background tasks, cron cycles and operators' actions run
  one after another, in any order and any number, each in a session of its own, each under
  its own circumstances (what Flash answers, the clock, the locks, the faults). What is
  durable after any such run keeps every invariant of the repositories' contract.
\<close>

definition new_session :: "session \<Rightarrow> session" where
  "new_session w = w\<lparr>tx := durable w\<rparr>"

inductive billing_step :: "session \<Rightarrow> session \<Rightarrow> bool" where
  receive: "receive_flash_webhook cd hdr body secrets at_s tol env (new_session w) = (r, w') \<Longrightarrow> billing_step w w'"
| background: "process_delivery_in_background rec env (new_session w) = (r, w') \<Longrightarrow> billing_step w w'"
| cycle: "billing_sync_cycle cfg env (new_session w) = (r, w') \<Longrightarrow> billing_step w w'"
| refresh: "in_session (apply_entitlement (JStr p) sid busy False) env (new_session w) = (r, w') \<Longrightarrow> billing_step w w'"
| cancel: "in_session (cancel_subscriber_subscription p why) env (new_session w) = (r, w') \<Longrightarrow> billing_step w w'"
| set_status: "in_session (set_subscriber_subscription_status p status) env (new_session w) = (r, w') \<Longrightarrow> billing_step w w'"
| block: "in_session (set_billing_block p blocked) env (new_session w) = (r, w') \<Longrightarrow> billing_step w w'"
| attribute: "in_session (attribute_unresolved_subscription sid p who) env (new_session w) = (r, w') \<Longrightarrow> billing_step w w'"
| dismiss: "in_session (dismiss_unresolved_subscription sid who) env (new_session w) = (r, w') \<Longrightarrow> billing_step w w'"
| map_plan: "in_session (create_billing_plan service plan sch active) env (new_session w) = (r, w') \<Longrightarrow> billing_step w w'"
| retune: "in_session (update_billing_plan plan_id v) env (new_session w) = (r, w') \<Longrightarrow> billing_step w w'"

context billing_invariant
begin

lemma kept_by_session:
  "keeps I m \<Longrightarrow> in_session m env (new_session w) = (r, w') \<Longrightarrow> I (durable w) \<Longrightarrow> I (durable w')"
  using keepsD[OF keeps_in_session, of m env "new_session w" r w'] by (simp add: new_session_def)

lemma kept_directly:
  "keeps I m \<Longrightarrow> m env (new_session w) = (r, w') \<Longrightarrow> I (durable w) \<Longrightarrow> I (durable w')"
  using keepsD[of I m env "new_session w" r w'] by (simp add: new_session_def)

lemma step_keeps: "billing_step w w' \<Longrightarrow> I (durable w) \<Longrightarrow> I (durable w')"
proof (induction rule: billing_step.induct)
  case receive
  then show ?case by (rule kept_directly[OF keeps_receive])
next
  case background
  then show ?case by (rule kept_directly[OF keeps_process_delivery_in_background])
next
  case cycle
  then show ?case by (rule kept_directly[OF keeps_billing_sync_cycle])
next
  case refresh
  then show ?case by (rule kept_by_session[OF keeps_apply_entitlement])
next
  case cancel
  then show ?case
    unfolding cancel_subscriber_subscription_def by (rule kept_by_session[OF keeps_act_on_subscription])
next
  case set_status
  then show ?case
    unfolding set_subscriber_subscription_status_def by (rule kept_by_session[OF keeps_act_on_subscription])
next
  case block
  then show ?case by (rule kept_by_session[OF keeps_set_billing_block])
next
  case attribute
  then show ?case by (rule kept_by_session[OF keeps_attribute])
next
  case dismiss
  then show ?case by (rule kept_by_session[OF keeps_dismiss])
next
  case map_plan
  then show ?case by (rule kept_by_session[OF keeps_create_billing_plan])
next
  case retune
  then show ?case by (rule kept_by_session[OF keeps_update_billing_plan])
qed

lemma reachable_keeps: "billing_step\<^sup>*\<^sup>* w w' \<Longrightarrow> I (durable w) \<Longrightarrow> I (durable w')"
  by (induction rule: rtranclp_induct) (auto intro: step_keeps)

end

text \<open>
  C12. Billing never overrules an admin: a user an admin placed on a policy is still placed
  there by the admin after any sequence of webhooks, background work, cron cycles, operator
  actions and refreshes, whatever Flash answers and whatever fails on the way.
\<close>

theorem admin_hold_survives_billing:
  assumes "billing_step\<^sup>*\<^sup>* w w'" and "get_scheduling_source_on_db p (durable w) = SOURCE_ADMIN"
  shows "get_scheduling_source_on_db p (durable w') = SOURCE_ADMIN"
  using comp.reachable_keeps[OF assms(1), of p] assms(2) by (simp add: admin_holds_source)

text \<open>
  C13. The tables keep their constraints through every run of billing: one row per user, per
  subscriber, per Flash plan and per delivery, and no failure with a beginning and no
  reason.
\<close>

theorem constraints_survive_billing:
  assumes "billing_step\<^sup>*\<^sup>* w w'" and "db_wf (durable w)" and "failure_has_reason (durable w)"
  shows "db_wf (durable w') \<and> failure_has_reason (durable w')"
  using tables.reachable_keeps[OF assms(1,2)] sync_clock.reachable_keeps[OF assms(1,3)] by simp

text \<open>
  The newest event seen for a subscriber never moves backwards: replaying old events,
  in any order and mixed with anything else billing does, leaves the marker at or past
  where it was.
\<close>

lemma newest_event_never_moves_back:
  assumes "billing_step\<^sup>*\<^sup>* w w'" and "get_user_subscription_on_db p (durable w) = Some s" and "us_last_event_at s = Some t"
  shows "\<exists>s' t'. get_user_subscription_on_db p (durable w') = Some s' \<and> us_last_event_at s' = Some t' \<and> t \<le> t'"
  using newest_event.reachable_keeps[OF assms(1), of p t] assms(2,3)
  by (auto simp: event_seen_def split: option.splits)

section \<open>A run\<close>

definition example_comped :: session where
  "example_comped = example_session
     (upsert_user_subscription_on_db ''alice'' (example_sub ''active'' (JStr ''alice'')) 1 (Some 7) 50
        (set_scheduling_for_pubkey_on_db (\<lambda>_. ([], [])) ''alice'' (Some 3) SOURCE_ADMIN example_db))
     [example_sub ''expired'' (JStr ''alice'')]"

definition example_after :: session where
  "example_after = snd (in_session (apply_entitlement (JStr ''alice'') None False False) example_env (new_session example_comped))"

lemma example_run_step: "billing_step\<^sup>*\<^sup>* example_comped example_after"
proof -
  have "billing_step example_comped example_after"
    unfolding example_after_def by (rule billing_step.refresh) (rule prod.collapse[symmetric])
  then show ?thesis by (rule r_into_rtranclp)
qed

theorem admin_hold_survives_billing_witness:
  "get_scheduling_source_on_db ''alice'' (durable example_after) = SOURCE_ADMIN
   \<and> get_assigned_scheduling_id_on_db ''alice'' (durable example_after) = Some 3"
proof -
  have "get_scheduling_source_on_db ''alice'' (durable example_comped) = SOURCE_ADMIN"
    and "get_assigned_scheduling_id_on_db ''alice'' (durable example_after) = Some 3"
    by code_simp+
  with admin_hold_survives_billing[OF example_run_step] show ?thesis by simp
qed

theorem constraints_survive_billing_witness:
  "db_wf (durable example_after) \<and> failure_has_reason (durable example_after)"
proof (rule constraints_survive_billing[OF example_run_step])
  have "db_wf example_db" by (simp add: db_wf_def example_db_def unique_on_def fresh_nsec_def)
  then show "db_wf (durable example_comped)"
    by (simp add: example_comped_def example_session_def db_wf_upsert db_wf_set_scheduling)
  show "failure_has_reason (durable example_comped)"
    by (simp add: example_comped_def example_session_def failure_has_reason_def upsert_user_subscription_on_db_def
        sql_upsert_def example_db_def frame_simps)
qed

end
