(* ===== verification/Subscription_View.thy ===== *)
theory Subscription_View
  imports Billing_Sync "HOL-Library.Char_ord" "HOL-Library.List_Lexorder" "HOL-Library.Product_Lexorder" "HOL-Library.Sublist"
begin

text \<open>
  What billing shows: the cache of Flash's plans (\<^verbatim>\<open>app/core/flash_plan_cache.py\<close>), one
  subscriber's view and the pricing page (\<^verbatim>\<open>app/services/subscription_view_service.py\<close>),
  the operator's catalogue (\<^verbatim>\<open>flash_catalog_service.py\<close>) and the divergence report
  (\<^verbatim>\<open>billing_visibility_service.py\<close>). Redis is the list of its entries, each the JSON that
  was stored, and \<open>redis_up\<close>; entries may have expired before an operation, none expires
  inside one. The query string of a checkout URL is written by the parameter \<open>checkout\<close>.
\<close>

section \<open>The plan cache\<close>

definition cache_fresh_key :: "string \<Rightarrow> string" where
  "cache_fresh_key service_id = ''flash:plans:'' @ service_id"

definition cache_last_good_key :: "string \<Rightarrow> string" where
  "cache_last_good_key service_id = ''flash:plans:lkg:'' @ service_id"

record plan_world =
  pw_flash :: flash_state
  pw_cache :: "(string \<times> json) list"

record page_env =
  pe_flash :: flash_env
  redis_up :: bool
  flash_enabled :: bool
  checkout :: "string \<Rightarrow> string"

text \<open>Iterating over what was stored: a text has no dictionary among its characters, nor a
  dictionary among its keys.\<close>

definition load_plans :: "page_env \<Rightarrow> string \<Rightarrow> plan_world \<Rightarrow> (exn, flash_plan list option) result" where
  "load_plans env key pw =
     (if \<not> redis_up env then Inr None
      else case map_of (pw_cache pw) key of
             None \<Rightarrow> Inr None
           | Some (JList rows) \<Rightarrow> Inr (Some (map parse_plan (dict_rows rows)))
           | Some (JObj _) \<Rightarrow> Inr (Some [])
           | Some (JStr _) \<Rightarrow> Inr (Some [])
           | Some _ \<Rightarrow> Inl TypeError)"

definition store_plans :: "page_env \<Rightarrow> string \<Rightarrow> (string \<times> json) list list \<Rightarrow> plan_world \<Rightarrow> plan_world" where
  "store_plans env service_id plans pw =
     (if \<not> redis_up env then pw
      else let payload = JList (map JObj plans) in
        pw\<lparr>pw_cache := (cache_last_good_key service_id, payload) # (cache_fresh_key service_id, payload) # pw_cache pw\<rparr>)"

definition plan_dicts :: "(string \<times> json) list \<Rightarrow> (string \<times> json) list list" where
  "plan_dicts body = (case get body ''plans'' of JList raw \<Rightarrow> dict_rows raw | _ \<Rightarrow> [])"

definition refresh_plans :: "page_env \<Rightarrow> string \<Rightarrow> plan_world \<Rightarrow> (exn, flash_plan list) result \<times> plan_world" where
  "refresh_plans env service_id pw =
     (case fetch_service_plans_raw service_id (pe_flash env) (pw_flash pw) of
        (Inl (FlashUnavailable m), st) \<Rightarrow>
          (case load_plans env (cache_last_good_key service_id) pw of
             Inl e \<Rightarrow> (Inl e, pw\<lparr>pw_flash := st\<rparr>)
           | Inr None \<Rightarrow> (Inl (FlashUnavailable m), pw\<lparr>pw_flash := st\<rparr>)
           | Inr (Some last_good) \<Rightarrow> (Inr last_good, pw\<lparr>pw_flash := st\<rparr>))
      | (Inl e, st) \<Rightarrow> (Inl e, pw\<lparr>pw_flash := st\<rparr>)
      | (Inr body, st) \<Rightarrow>
          (Inr (map parse_plan (plan_dicts body)), store_plans env service_id (plan_dicts body) (pw\<lparr>pw_flash := st\<rparr>)))"

definition read_service_plans :: "page_env \<Rightarrow> string \<Rightarrow> bool \<Rightarrow> plan_world \<Rightarrow> (exn, flash_plan list) result \<times> plan_world" where
  "read_service_plans env service_id fresh pw =
     (if flash_mock_enabled (pe_flash env) then (Inr (map parse_plan (mock_plans_for service_id (pw_flash pw))), pw)
      else if fresh then refresh_plans env service_id pw
      else case load_plans env (cache_fresh_key service_id) pw of
             Inl e \<Rightarrow> (Inl e, pw)
           | Inr (Some cached) \<Rightarrow> (Inr cached, pw)
           | Inr None \<Rightarrow> refresh_plans env service_id pw)"

text \<open>Plans by the pair a mapping names them with; of two plans with one id the later counts.\<close>

type_synonym plan_dict = "(string \<times> string) \<rightharpoonup> flash_plan"

definition add_plans :: "string \<Rightarrow> flash_plan list \<Rightarrow> plan_dict \<Rightarrow> plan_dict" where
  "add_plans service_id found plans = fold (\<lambda>p d. d((service_id, fplan_id p) \<mapsto> p)) found plans"

fun read_plans_from :: "page_env \<Rightarrow> string list \<Rightarrow> plan_dict \<Rightarrow> plan_world \<Rightarrow> (exn, plan_dict) result \<times> plan_world" where
  "read_plans_from env [] plans pw = (Inr plans, pw)"
| "read_plans_from env (service_id # rest) plans pw =
     (case read_service_plans env service_id False pw of
        (Inr found, pw') \<Rightarrow> read_plans_from env rest (add_plans service_id found plans) pw'
      | (Inl (FlashUnavailable _), pw') \<Rightarrow> read_plans_from env rest plans pw'
      | (Inl (FlashServiceMissing _), pw') \<Rightarrow> read_plans_from env rest plans pw'
      | (Inl e, pw') \<Rightarrow> (Inl e, pw'))"

definition read_plans_for_services :: "page_env \<Rightarrow> string list \<Rightarrow> plan_world \<Rightarrow> (exn, plan_dict) result \<times> plan_world" where
  "read_plans_for_services env service_ids pw = read_plans_from env (sort (remdups service_ids)) Map.empty pw"

section \<open>One subscriber\<close>

definition UI_STATUS :: "string \<Rightarrow> string option" where
  "UI_STATUS s =
     (if s = ''active'' \<or> s = ''trial'' then Some ''active''
      else if s = ''pending'' then Some ''pending''
      else if s = ''past_due'' then Some ''grace''
      else if s = ''paused'' \<or> s = ''canceled'' \<or> s = ''expired'' then Some ''canceled''
      else None)"

definition translate :: "string option \<Rightarrow> bool \<Rightarrow> string" where
  "translate flash_status is_default =
     (case Option.bind flash_status UI_STATUS of
        Some known \<Rightarrow> known
      | None \<Rightarrow> if is_default then ''none'' else ''active'')"

definition resolve_policy :: "string \<Rightarrow> db \<Rightarrow> scheduling option" where
  "resolve_policy pubkey d =
     (case get_assigned_scheduling_id_on_db pubkey d of
        None \<Rightarrow> get_default_scheduling_on_db d
      | Some sid \<Rightarrow>
          (case get_scheduling_on_db sid d of None \<Rightarrow> get_default_scheduling_on_db d | Some p \<Rightarrow> Some p))"

record subscription_plan_view =
  spv_plan_id :: string
  spv_amount_minor :: "int option"
  spv_currency :: "string option"
  spv_billing_interval :: "string option"
  spv_is_active :: bool

definition subscriber_plan_view :: "user_subscription \<Rightarrow> billing_plan \<Rightarrow> subscription_plan_view" where
  "subscriber_plan_view row plan =
     \<lparr>spv_plan_id = bp_flash_plan_id plan, spv_amount_minor = us_pricing_amount_minor row,
      spv_currency = us_pricing_currency row, spv_billing_interval = us_pricing_billing_interval row,
      spv_is_active = bp_is_active plan\<rparr>"

record subscription_view =
  sv_policy :: "scheduling option"
  sv_plan :: "subscription_plan_view option"
  sv_status :: string
  sv_current_period_start :: "datetime option"
  sv_current_period_end :: "datetime option"
  sv_next_billing_date :: "datetime option"
  sv_cancel_effective_date :: "datetime option"
  sv_manage_url :: "string option"

definition read_subscription_view :: "timedelta \<Rightarrow> datetime \<Rightarrow> string \<Rightarrow> db \<Rightarrow> subscription_view" where
  "read_subscription_view abandon_pending_after utc pubkey d =
     (let policy = resolve_policy pubkey d;
          row = (case get_user_subscription_on_db pubkey d of
                   None \<Rightarrow> None
                 | Some r \<Rightarrow> if abandon_matches (sweep_abandon_rule abandon_pending_after) r utc then None else Some r);
          plan = Option.bind row (\<lambda>r. get_billing_plan_by_id_on_db (us_billing_plan_id r) d)
      in \<lparr>sv_policy = policy,
          sv_plan = Option.bind row (\<lambda>r. map_option (subscriber_plan_view r) plan),
          sv_status = translate (map_option us_flash_status row)
                        (case policy of None \<Rightarrow> True | Some p \<Rightarrow> sc_is_default p),
          sv_current_period_start = Option.bind row us_current_period_start,
          sv_current_period_end = Option.bind row us_current_period_end,
          sv_next_billing_date = Option.bind row us_next_billing_date,
          sv_cancel_effective_date = Option.bind row us_cancel_effective_date,
          sv_manage_url = Option.bind row us_portal_url\<rparr>)"

definition verification_of :: "entitlement_outcome option \<Rightarrow> bool \<Rightarrow> string" where
  "verification_of outcome id_given =
     (if \<not> id_given then ''not_given''
      else case outcome of
             None \<Rightarrow> ''unavailable''
           | Some out \<Rightarrow>
               if eo_reason out = REFERENCE_MISMATCH \<or> eo_reason out = NO_REFERENCE then ''mismatch''
               else if eo_reason out = UNKNOWN_SUBSCRIPTION then ''unknown'' else ''verified'')"

section \<open>The pricing page\<close>

definition FREE_CURRENCY :: string where "FREE_CURRENCY = ''USD''"

record billing_plan_view =
  bv_policy_id :: int
  bv_policy_name :: string
  bv_schedule_interval_seconds :: int
  bv_is_default :: bool
  bv_plan_id :: "string option"
  bv_plan_name :: "string option"
  bv_description :: "string option"
  bv_amount_minor :: "int option"
  bv_currency :: string
  bv_billing_interval :: "string option"
  bv_checkout_url :: "string option"
  bv_features :: "string list option"
  bv_not_included :: "string list option"

definition sellable_flash_plans :: "plan_dict \<Rightarrow> plan_dict" where
  "sellable_flash_plans found =
     (\<lambda>k. case found k of
            Some p \<Rightarrow> if fplan_amount_minor p \<noteq> None \<and> given (fplan_signup_url p) then Some p else None
          | None \<Rightarrow> None)"

definition free_row :: "scheduling \<Rightarrow> billing_plan_view" where
  "free_row policy =
     \<lparr>bv_policy_id = sc_id policy, bv_policy_name = sc_name policy,
      bv_schedule_interval_seconds = sc_schedule_interval_seconds policy, bv_is_default = sc_is_default policy,
      bv_plan_id = None, bv_plan_name = None, bv_description = None, bv_amount_minor = Some 0,
      bv_currency = FREE_CURRENCY, bv_billing_interval = None, bv_checkout_url = None, bv_features = None,
      bv_not_included = None\<rparr>"

definition plan_row :: "page_env \<Rightarrow> scheduling \<Rightarrow> flash_plan \<Rightarrow> billing_plan_view" where
  "plan_row env policy plan =
     \<lparr>bv_policy_id = sc_id policy, bv_policy_name = sc_name policy,
      bv_schedule_interval_seconds = sc_schedule_interval_seconds policy, bv_is_default = sc_is_default policy,
      bv_plan_id = Some (fplan_id plan), bv_plan_name = Some (fplan_name plan),
      bv_description = fplan_description plan, bv_amount_minor = fplan_amount_minor plan,
      bv_currency = fplan_currency plan, bv_billing_interval = fplan_billing_interval plan,
      bv_checkout_url =
        (case fplan_signup_url plan of None \<Rightarrow> None | Some u \<Rightarrow> if u = [] then None else Some (checkout env u)),
      bv_features = fplan_features plan, bv_not_included = fplan_not_included plan\<rparr>"

definition active_public_plans :: "db \<Rightarrow> billing_plan list" where
  "active_public_plans d =
     filter (\<lambda>p. bp_scheduling_id p \<in> sc_id ` set (select_public_scheduling_on_db d)) (select_billing_plans_on_db True d)"

definition sellable_pairs :: "plan_dict \<Rightarrow> billing_plan list \<Rightarrow> (billing_plan \<times> flash_plan) list" where
  "sellable_pairs flash_plans plans =
     sort_key (\<lambda>pair. (fplan_sort_order (snd pair), fplan_id (snd pair)))
       (List.map_filter (\<lambda>p. map_option (Pair p) (flash_plans (bp_flash_service_id p, bp_flash_plan_id p))) plans)"

text \<open>The rows of the page, once Flash's plans are known. \<open>policies\<close> is a dictionary by id.\<close>

definition page_rows :: "page_env \<Rightarrow> db \<Rightarrow> plan_dict \<Rightarrow> billing_plan_view list" where
  "page_rows env d flash_plans =
     (let policies = select_public_scheduling_on_db d;
          active = active_public_plans d;
          free = map free_row (filter (\<lambda>p. sc_id p \<notin> bp_scheduling_id ` set active) policies);
          sold = List.map_filter (\<lambda>(plan, flash).
                   map_option (\<lambda>p. plan_row env p flash) (lookup_by sc_id (bp_scheduling_id plan) policies))
                   (sellable_pairs flash_plans active)
      in sort_key (\<lambda>row. of_bool (\<not> bv_is_default row) :: nat) (free @ sold))"

definition list_billing_plans :: "page_env \<Rightarrow> db \<Rightarrow> plan_world \<Rightarrow> (exn, billing_plan_view list) result \<times> plan_world" where
  "list_billing_plans env d pw =
     (if \<not> flash_enabled env then (Inr [], pw)
      else case read_plans_for_services env (map bp_flash_service_id (active_public_plans d)) pw of
             (Inl e, pw') \<Rightarrow> (Inl e, pw')
           | (Inr found, pw') \<Rightarrow> (Inr (page_rows env d (sellable_flash_plans found)), pw'))"

section \<open>The operator's catalogue\<close>

definition list_flash_services :: "flash_service list flash_op" where
  "list_flash_services = fetch_services"

definition list_flash_service_plans ::
  "page_env \<Rightarrow> db \<Rightarrow> string \<Rightarrow> plan_world \<Rightarrow> (exn, (flash_plan \<times> int option) list) result \<times> plan_world" where
  "list_flash_service_plans env d service_id pw =
     (case read_service_plans env service_id True pw of
        (Inl e, pw') \<Rightarrow> (Inl e, pw')
      | (Inr plans, pw') \<Rightarrow>
          (Inr (map (\<lambda>p. (p, map_option bp_id (get_billing_plan_on_db (fplan_service_id p) (fplan_id p) d)))
                 (sort_key fplan_sort_order plans)), pw'))"

section \<open>The divergence report\<close>

definition KNOWN_STATUSES :: "string list" where
  "KNOWN_STATUSES = [''active'', ''canceled'', ''expired'', ''past_due'', ''paused'', ''pending'', ''trial'']"

definition ROW_LIMIT :: nat where "ROW_LIMIT = 200"

record divergence_report =
  dr_policy_mismatch :: "(user_subscription \<times> brainstorm_nsec) list"
  dr_admin_overrides :: "(user_subscription \<times> brainstorm_nsec) list"
  dr_stale_syncs :: "user_subscription list"
  dr_failing_syncs :: "user_subscription list"
  dr_unresolved_signups :: "flash_webhook_event list"
  dr_unmapped_plans :: "flash_webhook_event list"
  dr_unrecognised_statuses :: "(string \<times> nat) list"
  dr_exhausted_events :: "flash_webhook_event list"
  dr_abandoned_checkouts :: "user_subscription list"
  dr_retired_plan_subscribers :: "user_subscription list"

definition build_divergence_report :: "int \<Rightarrow> timedelta \<Rightarrow> int \<Rightarrow> datetime \<Rightarrow> db \<Rightarrow> divergence_report" where
  "build_divergence_report stale_sync_hours abandon_pending_after max_attempts utc d =
     (let rule = sweep_abandon_rule abandon_pending_after in
      \<lparr>dr_policy_mismatch = select_policy_mismatches_on_db False ROW_LIMIT d,
       dr_admin_overrides = select_policy_mismatches_on_db True ROW_LIMIT d,
       dr_stale_syncs = select_stale_syncs_on_db (utc - timedelta_hours stale_sync_hours) ROW_LIMIT utc rule d,
       dr_failing_syncs = select_failing_syncs_on_db ROW_LIMIT utc rule d,
       dr_unresolved_signups = select_unresolved_signups_on_db ROW_LIMIT d,
       dr_unmapped_plans = select_unmapped_plan_events_on_db ROW_LIMIT d,
       dr_unrecognised_statuses = select_unrecognised_statuses_on_db KNOWN_STATUSES d,
       dr_exhausted_events = select_exhausted_events_on_db max_attempts ROW_LIMIT d,
       dr_abandoned_checkouts = select_abandoned_checkouts_on_db ROW_LIMIT utc rule d,
       dr_retired_plan_subscribers = select_retired_plan_subscribers_on_db ROW_LIMIT d\<rparr>)"

section \<open>What the pricing page shows\<close>

lemma sellable_flash_plans_iff:
  "sellable_flash_plans found k = Some p \<longleftrightarrow>
     found k = Some p \<and> fplan_amount_minor p \<noteq> None \<and> given (fplan_signup_url p)"
  by (auto simp: sellable_flash_plans_def split: option.splits if_splits)

lemma sellable_pairs_mem:
  "(plan, p) \<in> set (sellable_pairs flash_plans plans) \<longleftrightarrow>
     plan \<in> set plans \<and> flash_plans (bp_flash_service_id plan, bp_flash_plan_id plan) = Some p"
  by (auto simp: sellable_pairs_def map_filter_mem)

text \<open>A row of the page is the free row of a policy nothing sells, or the row of a mapping on
  sale.\<close>

definition on_sale :: "db \<Rightarrow> plan_dict \<Rightarrow> scheduling \<Rightarrow> flash_plan \<Rightarrow> bool" where
  "on_sale d found policy plan \<longleftrightarrow>
     (\<exists>mapping\<in>set (select_billing_plans_on_db True d).
        lookup_by sc_id (bp_scheduling_id mapping) (select_public_scheduling_on_db d) = Some policy
        \<and> found (bp_flash_service_id mapping, bp_flash_plan_id mapping) = Some plan)
     \<and> fplan_amount_minor plan \<noteq> None \<and> given (fplan_signup_url plan)"

lemma active_public_plans_mem:
  "m \<in> set (active_public_plans d) \<longleftrightarrow>
     m \<in> set (select_billing_plans_on_db True d)
     \<and> lookup_by sc_id (bp_scheduling_id m) (select_public_scheduling_on_db d) \<noteq> None"
  by (simp add: active_public_plans_def lookup_by_None) force

lemma free_iff_unmapped:
  "policy \<in> set (select_public_scheduling_on_db d) \<Longrightarrow>
   sc_id policy \<notin> bp_scheduling_id ` set (active_public_plans d) \<longleftrightarrow>
     (\<forall>m\<in>set (select_billing_plans_on_db True d). bp_scheduling_id m \<noteq> sc_id policy)"
  unfolding active_public_plans_def by force

lemma sold_iff_on_sale:
  "(\<exists>m p policy. (m, p) \<in> set (sellable_pairs (sellable_flash_plans found) (active_public_plans d))
      \<and> lookup_by sc_id (bp_scheduling_id m) (select_public_scheduling_on_db d) = Some policy
      \<and> row = plan_row env policy p) \<longleftrightarrow>
   (\<exists>policy plan. row = plan_row env policy plan \<and> on_sale d found policy plan)"
  by (simp add: sellable_pairs_mem sellable_flash_plans_iff on_sale_def active_public_plans_mem Bex_def) blast

lemma page_rows_set:
  "row \<in> set (page_rows env d (sellable_flash_plans found)) \<longleftrightarrow>
     (\<exists>policy\<in>set (select_public_scheduling_on_db d).
        row = free_row policy
        \<and> (\<forall>m\<in>set (select_billing_plans_on_db True d). bp_scheduling_id m \<noteq> sc_id policy))
     \<or> (\<exists>policy plan. row = plan_row env policy plan \<and> on_sale d found policy plan)"
proof -
  have free: "row \<in> set (map free_row (filter (\<lambda>p. sc_id p \<notin> bp_scheduling_id ` set (active_public_plans d))
      (select_public_scheduling_on_db d))) \<longleftrightarrow>
     (\<exists>policy\<in>set (select_public_scheduling_on_db d).
        row = free_row policy
        \<and> (\<forall>m\<in>set (select_billing_plans_on_db True d). bp_scheduling_id m \<noteq> sc_id policy))"
    by (simp only: set_map set_filter image_iff mem_Collect_eq) (use free_iff_unmapped in blast)
  have sold: "row \<in> set (List.map_filter (\<lambda>(plan, flash).
        map_option (\<lambda>p. plan_row env p flash)
          (lookup_by sc_id (bp_scheduling_id plan) (select_public_scheduling_on_db d)))
        (sellable_pairs (sellable_flash_plans found) (active_public_plans d))) \<longleftrightarrow>
     (\<exists>policy plan. row = plan_row env policy plan \<and> on_sale d found policy plan)"
    unfolding sold_iff_on_sale [symmetric] map_filter_mem by force
  show ?thesis
    unfolding page_rows_def Let_def set_sort set_append Un_iff free sold ..
qed

lemma page_rows_sorted:
  "sorted (map (\<lambda>row. of_bool (\<not> bv_is_default row) :: nat) (page_rows env d flash_plans))"
  by (simp add: page_rows_def Let_def)

text \<open>
  The pricing page shows exactly: the free row of every public policy no active mapping
  points at, and a priced row for every active mapping of a public policy whose plan Flash
  offers with an amount and a sign-up page. So a policy that is sold is never shown free,
  even while Flash cannot be read, and every priced row carries an amount and a checkout
  link. The default policy's rows come first.
\<close>
lemma pricing_page_exact:
  assumes "flash_enabled env"
    and "read_plans_for_services env (map bp_flash_service_id (active_public_plans d)) pw = (Inr found, pw')"
  shows "\<exists>rows. list_billing_plans env d pw = (Inr rows, pw')
    \<and> (\<forall>row. row \<in> set rows \<longleftrightarrow>
          (\<exists>policy\<in>set (select_public_scheduling_on_db d).
             row = free_row policy
             \<and> (\<forall>m\<in>set (select_billing_plans_on_db True d). bp_scheduling_id m \<noteq> sc_id policy))
          \<or> (\<exists>policy plan. row = plan_row env policy plan \<and> on_sale d found policy plan))
    \<and> (\<forall>row\<in>set rows. bv_plan_id row \<noteq> None \<longrightarrow> bv_amount_minor row \<noteq> None \<and> bv_checkout_url row \<noteq> None)
    \<and> sorted (map (\<lambda>row. of_bool (\<not> bv_is_default row) :: nat) rows)"
proof -
  have "bv_amount_minor row \<noteq> None \<and> bv_checkout_url row \<noteq> None"
    if "row \<in> set (page_rows env d (sellable_flash_plans found))" "bv_plan_id row \<noteq> None" for row
    using that
    by (auto simp: page_rows_set free_row_def plan_row_def on_sale_def given_def split: option.splits)
  with assms show ?thesis
    by (simp add: list_billing_plans_def page_rows_set page_rows_sorted)
qed

section \<open>An outage of Flash\<close>

lemma dict_rows_JObj [simp]: "dict_rows (map JObj rows) = rows"
  by (induction rows) (simp_all add: dict_rows_def map_filter_simps)

lemma cache_keys_apart:
  "cache_fresh_key s = cache_fresh_key t \<longleftrightarrow> s = t"
  "cache_last_good_key s = cache_last_good_key t \<longleftrightarrow> s = t"
  "\<not> prefix ''lkg:'' s \<Longrightarrow> cache_fresh_key s \<noteq> cache_last_good_key t"
  "\<not> prefix ''lkg:'' s \<Longrightarrow> cache_last_good_key t \<noteq> cache_fresh_key s"
  by (auto simp: cache_fresh_key_def cache_last_good_key_def)

definition unreadable :: "page_env \<Rightarrow> string \<Rightarrow> plan_world \<Rightarrow> bool" where
  "unreadable env service_id pw \<longleftrightarrow>
     (case fst (fetch_service_plans_raw service_id (pe_flash env) (pw_flash pw)) of
        Inl (FlashUnavailable _) \<Rightarrow> True
      | _ \<Rightarrow> False)"

text \<open>What may happen while Flash cannot be read for one service: anybody reads the plans of
  any service, over any state of Redis and of Flash, and short-lived copies expire.\<close>

inductive outage :: "string \<Rightarrow> plan_world \<Rightarrow> plan_world \<Rightarrow> bool" for s pw where
  outage_start: "outage s pw pw"
| outage_read: "outage s pw pw' \<Longrightarrow> \<not> prefix ''lkg:'' t \<Longrightarrow> t = s \<longrightarrow> unreadable env s pw' \<Longrightarrow>
    outage s pw (snd (read_service_plans env t fresh pw'))"
| outage_expiry: "outage s pw pw' \<Longrightarrow> \<not> prefix ''lkg:'' t \<Longrightarrow>
    outage s pw (pw'\<lparr>pw_cache := filter (\<lambda>entry. fst entry \<noteq> cache_fresh_key t) (pw_cache pw')\<rparr>)"
| outage_flash: "outage s pw pw' \<Longrightarrow> outage s pw (pw'\<lparr>pw_flash := st\<rparr>)"

definition remembers :: "string \<Rightarrow> json \<Rightarrow> plan_world \<Rightarrow> bool" where
  "remembers s payload pw \<longleftrightarrow>
     map_of (pw_cache pw) (cache_last_good_key s) = Some payload
     \<and> map_of (pw_cache pw) (cache_fresh_key s) \<in> {None, Some payload}"

lemma remembers_pw_flash [simp]: "remembers s payload (pw\<lparr>pw_flash := st\<rparr>) = remembers s payload pw"
  by (simp add: remembers_def)

lemma remembers_store_other:
  assumes "remembers s payload pw" "t \<noteq> s" "\<not> prefix ''lkg:'' s" "\<not> prefix ''lkg:'' t"
  shows "remembers s payload (store_plans env t plans pw)"
  using assms
  by (auto simp: remembers_def store_plans_def Let_def cache_keys_apart)

lemma remembers_refresh_other:
  assumes "remembers s payload pw" "t \<noteq> s" "\<not> prefix ''lkg:'' s" "\<not> prefix ''lkg:'' t"
  shows "remembers s payload (snd (refresh_plans env t pw))"
  using assms
  by (auto simp: refresh_plans_def remembers_store_other split: prod.split sum.split exn.split option.split)

lemma refresh_unreadable_state:
  assumes "unreadable env s pw"
  shows "pw_cache (snd (refresh_plans env s pw)) = pw_cache pw"
  using assms
  by (auto simp: refresh_plans_def unreadable_def split: prod.split sum.splits exn.splits option.split)

lemma remembers_read:
  assumes "remembers s payload pw" "\<not> prefix ''lkg:'' s" "\<not> prefix ''lkg:'' t"
    and "t = s \<longrightarrow> unreadable env s pw"
  shows "remembers s payload (snd (read_service_plans env t fresh pw))"
proof -
  have "remembers s payload (snd (refresh_plans env t pw))"
    using assms remembers_refresh_other refresh_unreadable_state
    by (cases "t = s") (auto simp: remembers_def)
  with assms(1) show ?thesis by (auto simp: read_service_plans_def split: sum.split option.split)
qed

lemma map_of_filter_key:
  "map_of (filter (\<lambda>entry. fst entry \<noteq> k) xs) k' = (if k' = k then None else map_of xs k')"
  by (induction xs) auto

lemma remembers_outage:
  assumes "outage s pw pw'" "remembers s payload pw" "\<not> prefix ''lkg:'' s"
  shows "remembers s payload pw'"
  using assms(1)
proof (induction rule: outage.induct)
  case (outage_expiry pw2 t)
  then show ?case
    using assms by (auto simp: remembers_def map_of_filter_key cache_keys_apart)
qed (use assms in \<open>auto simp: remembers_read\<close>)

lemma read_while_remembered:
  assumes "remembers s (JList (map JObj rows)) pw" "redis_up env" "\<not> flash_mock_enabled (pe_flash env)"
    "unreadable env s pw"
  shows "fst (read_service_plans env s fresh pw) = Inr (map parse_plan rows)"
  using assms
  by (auto simp: read_service_plans_def refresh_plans_def load_plans_def remembers_def unreadable_def
      split: prod.splits sum.splits exn.splits option.splits)

lemma refresh_answered_remembers:
  assumes "fetch_service_plans_raw s (pe_flash env) (pw_flash pw) = (Inr body, st)" "redis_up env"
    "\<not> prefix ''lkg:'' s"
  shows "fst (refresh_plans env s pw) = Inr (map parse_plan (plan_dicts body))"
    and "remembers s (JList (map JObj (plan_dicts body))) (snd (refresh_plans env s pw))"
  using assms
  by (simp_all add: cache_keys_apart refresh_plans_def store_plans_def remembers_def Let_def)

text \<open>
  Plans read once stay on the page through an outage of any length. After Flash
  answered for a service, whatever is read afterwards for it or for other services, with
  Redis up or down, and whichever short-lived copies expire, as long as Flash cannot be read
  for that service a reader who reaches Redis gets exactly the plans of that answer, never
  the outage. (A service whose id starts with the prefix of the second copy's key would
  share its key with another service's; Flash's ids do not.)
\<close>
lemma outage_serves_last_known_plans:
  assumes "\<not> flash_mock_enabled (pe_flash env\<^sub>0)" "redis_up env\<^sub>0"
    and "fetch_service_plans_raw s (pe_flash env\<^sub>0) (pw_flash pw\<^sub>0) = (Inr body, st)"
    and "\<not> prefix ''lkg:'' s"
    and "outage s (snd (read_service_plans env\<^sub>0 s True pw\<^sub>0)) pw"
    and "\<not> flash_mock_enabled (pe_flash env)" "redis_up env" "unreadable env s pw"
  shows "fst (read_service_plans env\<^sub>0 s True pw\<^sub>0) = Inr (map parse_plan (plan_dicts body))
    \<and> fst (read_service_plans env s fresh pw) = fst (read_service_plans env\<^sub>0 s True pw\<^sub>0)"
proof -
  have eq: "read_service_plans env\<^sub>0 s True pw\<^sub>0 = refresh_plans env\<^sub>0 s pw\<^sub>0"
    using assms(1) by (simp add: read_service_plans_def)
  note answered = refresh_answered_remembers [OF assms(3,2,4)]
  have "remembers s (JList (map JObj (plan_dicts body))) pw"
    using remembers_outage assms(4,5) answered(2) eq by metis
  from read_while_remembered [OF this assms(7,6,8)] show ?thesis by (simp add: eq answered(1))
qed

end
