(* ===== verification/Leader_Lock.thy ===== *)
theory Leader_Lock
  imports Errors
begin

text \<open>
  The lock that lets one instance run a periodic job (\<^verbatim>\<open>app/services/leader_lock.py\<close>). The
  state is the one Redis key, as its holder and the millisecond it expires at, and the
  clock. A call sends up to three commands, and other instances' commands can run between
  them: the step relation interleaves single commands, the definition
  \<open>acquire_or_renew_leader\<close> is a call nobody interrupts.
\<close>

section \<open>The commands\<close>

type_synonym lock_entry = "(string \<times> int) option"

definition SCHEDULER_LOCK_KEY :: string where "SCHEDULER_LOCK_KEY = ''lock:scheduler:leader''"
definition BILLING_LOCK_KEY :: string where "BILLING_LOCK_KEY = ''lock:billing:leader''"

text \<open>A key that has expired is absent.\<close>

definition live_holder :: "int \<Rightarrow> lock_entry \<Rightarrow> string option" where
  "live_holder now e = (case e of None \<Rightarrow> None | Some (holder, expires) \<Rightarrow> if now < expires then Some holder else None)"

definition set_nx :: "string \<Rightarrow> int \<Rightarrow> int \<Rightarrow> lock_entry \<Rightarrow> bool \<times> lock_entry" where
  "set_nx inst ttl_ms now e =
     (if live_holder now e = None then (True, Some (inst, now + ttl_ms)) else (False, e))"

definition set_xx :: "string \<Rightarrow> int \<Rightarrow> int \<Rightarrow> lock_entry \<Rightarrow> lock_entry" where
  "set_xx inst ttl_ms now e = (if live_holder now e = None then e else Some (inst, now + ttl_ms))"

text \<open>A call whose three commands Redis runs at \<open>t1\<close>, \<open>t2\<close> and \<open>t3\<close>. What SET XX answers is
  not looked at.\<close>

definition acquire_or_renew_leader :: "string \<Rightarrow> int \<Rightarrow> int \<Rightarrow> int \<Rightarrow> int \<Rightarrow> lock_entry \<Rightarrow> bool \<times> lock_entry" where
  "acquire_or_renew_leader inst ttl_ms t1 t2 t3 e =
     (case set_nx inst ttl_ms t1 e of
        (True, e') \<Rightarrow> (True, e')
      | (False, e') \<Rightarrow>
          if live_holder t2 e' = Some inst then (True, set_xx inst ttl_ms t3 e')
          else (False, e'))"

section \<open>Instances side by side\<close>

datatype call_stage = Idle | AskHolder | Renew

record lock_state =
  clock :: int
  entry :: lock_entry
  stage :: "string \<Rightarrow> call_stage"
  leads_until :: "string \<Rightarrow> int"

text \<open>\<open>leads_until i\<close> is when the lease of the last call of \<open>i\<close> that answered True runs out. The
  flag says whether every renewal reaches Redis before the holder's own key expires.\<close>

inductive lock_step :: "bool \<Rightarrow> int \<Rightarrow> lock_state \<Rightarrow> lock_state \<Rightarrow> bool" for timely ttl_ms where
  passes: "clock s \<le> t \<Longrightarrow> lock_step timely ttl_ms s (s\<lparr>clock := t\<rparr>)"
| acquired: "stage s i = Idle \<Longrightarrow> set_nx i ttl_ms (clock s) (entry s) = (True, e) \<Longrightarrow>
    lock_step timely ttl_ms s (s\<lparr>entry := e, leads_until := (leads_until s)(i := clock s + ttl_ms)\<rparr>)"
| taken: "stage s i = Idle \<Longrightarrow> set_nx i ttl_ms (clock s) (entry s) = (False, e) \<Longrightarrow>
    lock_step timely ttl_ms s (s\<lparr>entry := e, stage := (stage s)(i := AskHolder)\<rparr>)"
| mine: "stage s i = AskHolder \<Longrightarrow> live_holder (clock s) (entry s) = Some i \<Longrightarrow>
    lock_step timely ttl_ms s (s\<lparr>stage := (stage s)(i := Renew)\<rparr>)"
| theirs: "stage s i = AskHolder \<Longrightarrow> live_holder (clock s) (entry s) \<noteq> Some i \<Longrightarrow>
    lock_step timely ttl_ms s (s\<lparr>stage := (stage s)(i := Idle)\<rparr>)"
| renewed: "stage s i = Renew \<Longrightarrow> timely \<longrightarrow> live_holder (clock s) (entry s) = Some i \<Longrightarrow>
    lock_step timely ttl_ms s (s\<lparr>entry := set_xx i ttl_ms (clock s) (entry s), stage := (stage s)(i := Idle),
      leads_until := (leads_until s)(i := clock s + ttl_ms)\<rparr>)"

abbreviation lock_run :: "bool \<Rightarrow> int \<Rightarrow> lock_state \<Rightarrow> lock_state \<Rightarrow> bool" where
  "lock_run timely ttl_ms \<equiv> (lock_step timely ttl_ms)\<^sup>*\<^sup>*"

definition fresh_lock :: "int \<Rightarrow> lock_state" where
  "fresh_lock t = \<lparr>clock = t, entry = None, stage = (\<lambda>_. Idle), leads_until = (\<lambda>_. t)\<rparr>"

text \<open>A call nobody interrupts is a run of its instance's steps.\<close>

lemma call_is_a_run:
  assumes "acquire_or_renew_leader i ttl_ms t t t (entry s) = (ok, e)" "stage s i = Idle" "clock s = t"
  shows "\<exists>s'. lock_run True ttl_ms s s' \<and> entry s' = e \<and> stage s' i = Idle \<and> clock s' = t
    \<and> (ok \<longrightarrow> leads_until s' i = t + ttl_ms) \<and> (\<not> ok \<longrightarrow> leads_until s' = leads_until s)"
proof (cases "set_nx i ttl_ms t (entry s)")
  case (Pair won e')
  show ?thesis
  proof (cases won)
    case True
    with Pair assms lock_step.acquired [of s i ttl_ms e' True] show ?thesis
      by (intro exI [of _ "s\<lparr>entry := e', leads_until := (leads_until s)(i := clock s + ttl_ms)\<rparr>"])
        (auto simp: acquire_or_renew_leader_def)
  next
    case False
    then have e': "e' = entry s" using Pair by (auto simp: set_nx_def split: if_splits)
    let ?s1 = "s\<lparr>entry := e', stage := (stage s)(i := AskHolder)\<rparr>"
    have one: "lock_step True ttl_ms s ?s1" using lock_step.taken [of s i ttl_ms e' True] Pair False assms by simp
    show ?thesis
    proof (cases "live_holder t e' = Some i")
      case True
      let ?s2 = "?s1\<lparr>stage := (stage ?s1)(i := Renew)\<rparr>"
      let ?s3 = "?s2\<lparr>entry := set_xx i ttl_ms (clock ?s2) (entry ?s2), stage := (stage ?s2)(i := Idle),
        leads_until := (leads_until ?s2)(i := clock ?s2 + ttl_ms)\<rparr>"
      have "lock_step True ttl_ms ?s1 ?s2" "lock_step True ttl_ms ?s2 ?s3"
        by (intro lock_step.mine lock_step.renewed; use True assms in simp)+
      with one have "lock_run True ttl_ms s ?s3" by (meson r_into_rtranclp rtranclp_trans)
      with True False Pair assms show ?thesis
        by (intro exI [of _ ?s3]) (auto simp: acquire_or_renew_leader_def)
    next
      case notmine: False
      let ?s2 = "?s1\<lparr>stage := (stage ?s1)(i := Idle)\<rparr>"
      have "lock_step True ttl_ms ?s1 ?s2" by (intro lock_step.theirs; use notmine assms in simp)
      with one have "lock_run True ttl_ms s ?s2" by (meson r_into_rtranclp rtranclp_trans)
      with notmine False Pair assms show ?thesis
        by (intro exI [of _ ?s2]) (auto simp: acquire_or_renew_leader_def)
    qed
  qed
qed

text \<open>An instance whose lease runs is the holder of the key, until the same moment.\<close>

definition lease_held :: "lock_state \<Rightarrow> bool" where
  "lease_held s \<longleftrightarrow> (\<forall>i. clock s < leads_until s i \<longrightarrow> entry s = Some (i, leads_until s i))"

lemma lease_held_live: "lease_held s \<Longrightarrow> clock s < leads_until s i \<Longrightarrow> live_holder (clock s) (entry s) = Some i"
  by (simp add: lease_held_def live_holder_def)

lemma lease_held_step:
  assumes "lock_step True ttl_ms s s'" "lease_held s"
  shows "lease_held s'"
  using assms
proof cases
  case (acquired i e)
  then have "\<not> clock s < leads_until s j" for j
    using lease_held_live [OF assms(2), of j] by (auto simp: set_nx_def split: if_splits)
  with acquired show ?thesis by (auto simp: lease_held_def set_nx_def split: if_splits)
next
  case (renewed i)
  then have "\<not> clock s < leads_until s j" if "j \<noteq> i" for j
    using lease_held_live [OF assms(2), of j] that by auto
  with renewed show ?thesis by (auto simp: lease_held_def set_xx_def)
qed (auto simp: lease_held_def set_nx_def split: if_splits)

lemma lease_held_run: "lock_run True ttl_ms s s' \<Longrightarrow> lease_held s \<Longrightarrow> lease_held s'"
  by (induction rule: rtranclp_induct) (auto intro: lease_held_step)


text \<open>Without that, renewing is a race: a holder that saw its own key just before it expired
  renews over the instance that acquired the lock in between, and both are told they
  lead.\<close>

lemma late_renewal_makes_two_leaders:
  "\<exists>s. lock_run False 120 (fresh_lock 0) s \<and> clock s < leads_until s ''a'' \<and> clock s < leads_until s ''b''"
proof -
  let ?s0 = "fresh_lock 0"
  let ?s1 = "?s0\<lparr>entry := Some (''a'', 120), leads_until := (leads_until ?s0)(''a'' := 120)\<rparr>"
  let ?s2 = "?s1\<lparr>clock := 119\<rparr>"
  let ?s3 = "?s2\<lparr>entry := entry ?s2, stage := (stage ?s2)(''a'' := AskHolder)\<rparr>"
  let ?s4 = "?s3\<lparr>stage := (stage ?s3)(''a'' := Renew)\<rparr>"
  let ?s5 = "?s4\<lparr>clock := 121\<rparr>"
  let ?s6 = "?s5\<lparr>entry := Some (''b'', 241), leads_until := (leads_until ?s5)(''b'' := 241)\<rparr>"
  let ?s7 = "?s6\<lparr>entry := set_xx ''a'' 120 (clock ?s6) (entry ?s6), stage := (stage ?s6)(''a'' := Idle),
    leads_until := (leads_until ?s6)(''a'' := clock ?s6 + 120)\<rparr>"
  have "lock_step False 120 ?s0 ?s1"
    using lock_step.acquired [of ?s0 "''a''" 120 "Some (''a'', 120)" False] by (simp add: fresh_lock_def set_nx_def live_holder_def)
  moreover have "lock_step False 120 ?s1 ?s2" by (rule lock_step.passes) (simp add: fresh_lock_def)
  moreover have "lock_step False 120 ?s2 ?s3" by (rule lock_step.taken) (simp_all add: fresh_lock_def set_nx_def live_holder_def)
  moreover have "lock_step False 120 ?s3 ?s4" by (rule lock_step.mine) (simp_all add: fresh_lock_def live_holder_def)
  moreover have "lock_step False 120 ?s4 ?s5" by (rule lock_step.passes) (simp add: fresh_lock_def)
  moreover have "lock_step False 120 ?s5 ?s6"
    using lock_step.acquired [of ?s5 "''b''" 120 "Some (''b'', 241)" False] by (simp add: fresh_lock_def set_nx_def live_holder_def)
  moreover have "lock_step False 120 ?s6 ?s7" by (rule lock_step.renewed) simp_all
  ultimately have "lock_run False 120 ?s0 ?s7" by (meson r_into_rtranclp rtranclp_trans)
  then show ?thesis by (intro exI [of _ ?s7]) (simp add: fresh_lock_def)
qed


end
