(* ===== verification/Result_Queue.thy ===== *)
theory Result_Queue
  imports Errors "HOL-Library.Multiset" "HOL-Library.Sublist"
begin

text \<open>
  Reliable consumption of the result queues (\<^verbatim>\<open>app/message_queue_tasks/result_queue.py\<close>).
  Redis is its lists (the queues and their \<^verbatim>\<open>:processing\<close> lists), the payload strings, the
  attempt counters and the sets of queues that still need a payload. A consumer can die
  between any two commands; one consumer serves each queue, as the module assumes.
  Parameters: the decoder of a message (orjson), the handler of a stage and its \<^verbatim>\<open>on_lost\<close>,
  which act on the state \<open>'w\<close> of the database behind them.
\<close>

section \<open>Reading a payload in chunks\<close>

definition READ_CHUNK_BYTES :: nat where "READ_CHUNK_BYTES = 8 * 1024 * 1024"

text \<open>GETRANGE includes both ends and is empty past the end of the string.\<close>

definition getrange :: "'b list option \<Rightarrow> nat \<Rightarrow> nat \<Rightarrow> 'b list" where
  "getrange blob i j = (case blob of None \<Rightarrow> [] | Some bs \<Rightarrow> take (j + 1 - i) (drop i bs))"

text \<open>\<open>seen n\<close> is the string under the key when the \<open>n\<close>-th chunk is asked for: the key may
  expire, or be evicted, between two chunks.\<close>

function read_chunks :: "(nat \<Rightarrow> 'b list option) \<Rightarrow> nat \<Rightarrow> nat \<Rightarrow> 'b list \<Rightarrow> 'b list option" where
  "read_chunks seen len n buf =
     (if length buf < len
      then (let chunk = getrange (seen n) (length buf) (length buf + READ_CHUNK_BYTES - 1) in
            if chunk = [] then None else read_chunks seen len (n + 1) (buf @ chunk))
      else Some buf)"
  by pat_completeness auto
termination
proof (relation "measure (\<lambda>(_, len, _, buf). len - length buf)", goal_cases)
  case (2 seen len n buf chunk)
  then have "0 < length chunk" by simp
  with 2(1) have "len - (length buf + length chunk) < len - length buf" by linarith
  then show ?case by simp
qed simp

declare read_chunks.simps [simp del]

definition read_payload :: "'b list option \<Rightarrow> (nat \<Rightarrow> 'b list option) \<Rightarrow> 'b list option" where
  "read_payload at_start seen =
     (let len = (case at_start of None \<Rightarrow> 0 | Some bs \<Rightarrow> length bs) in
      if len = 0 then None else read_chunks seen len 0 [])"

lemma getrange_chunk:
  assumes "length buf < length bs" "buf = take (length buf) bs"
  shows "buf @ getrange (Some bs) (length buf) (length buf + READ_CHUNK_BYTES - 1) = take (length buf + READ_CHUNK_BYTES) bs
    \<and> getrange (Some bs) (length buf) (length buf + READ_CHUNK_BYTES - 1) \<noteq> []"
proof -
  have "Suc (length buf + READ_CHUNK_BYTES - Suc 0) - length buf = READ_CHUNK_BYTES" by (simp add: READ_CHUNK_BYTES_def)
  moreover have "buf @ take READ_CHUNK_BYTES (drop (length buf) bs) = take (length buf + READ_CHUNK_BYTES) bs"
    by (subst assms(2)) (metis take_add)
  ultimately show ?thesis using assms(1) by (simp add: getrange_def READ_CHUNK_BYTES_def)
qed

lemma read_chunks_spec:
  assumes "\<forall>n. seen n \<in> {None, Some bs}" "buf = take (length buf) bs"
  shows "read_chunks seen (length bs) n buf \<in> {None, Some bs}
    \<and> ((\<forall>n. seen n = Some bs) \<longrightarrow> read_chunks seen (length bs) n buf = Some bs)"
  using assms(2)
proof (induction "length bs - length buf" arbitrary: n buf rule: less_induct)
  case less
  show ?case
  proof (cases "length buf < length bs")
    case False
    then have "buf = bs" using less(2) by (metis le_eq_less_or_eq linorder_not_less take_all_iff)
    then show ?thesis by (simp add: read_chunks.simps)
  next
    case True
    show ?thesis
    proof (cases "seen n")
      case None
      then have "read_chunks seen (length bs) n buf = None"
        using True by (simp add: read_chunks.simps [of seen "length bs" n buf] getrange_def Let_def)
      then show ?thesis using None by (metis insertI1 option.distinct(1))
    next
      case (Some bs')
      then have bs: "seen n = Some bs" using assms(1) by (metis insertE option.distinct(1) singletonD)
      let ?buf = "buf @ getrange (Some bs) (length buf) (length buf + READ_CHUNK_BYTES - 1)"
      note chunk = getrange_chunk [OF True less(2)]
      then have shorter: "length bs - length ?buf < length bs - length buf" using True
        by (metis append_Nil2 diff_less_mono2 length_append length_greater_0_conv less_add_same_cancel1)
      have prefix: "?buf = take (length ?buf) bs" using chunk by (metis append_eq_conv_conj take_is_prefix prefix_def)
      have "read_chunks seen (length bs) n buf = read_chunks seen (length bs) (n + 1) ?buf"
        using True chunk bs by (simp add: read_chunks.simps [of seen "length bs" n] Let_def)
      then show ?thesis using less(1) [OF shorter prefix, of "n + 1"] by simp
    qed
  qed
qed

text \<open>A payload is read whole or not at all, and whole where it stays.\<close>

lemma read_payload_spec:
  assumes "\<forall>n. seen n \<in> {None, Some bs}"
  shows "read_payload (Some bs) seen \<in> {None, Some bs}
    \<and> ((\<forall>n. seen n = Some bs) \<and> bs \<noteq> [] \<longrightarrow> read_payload (Some bs) seen = Some bs)"
proof (cases "bs = []")
  case False
  then have "read_payload (Some bs) seen = read_chunks seen (length bs) 0 []" by (simp add: read_payload_def)
  moreover have "[] = take (length []) bs" by simp
  ultimately show ?thesis using read_chunks_spec [OF assms, of "[]" 0] by metis
qed (simp add: read_payload_def)

section \<open>Messages\<close>

definition MAX_ATTEMPTS :: nat where "MAX_ATTEMPTS = 3"

record result_message =
  rm_key :: "string option"
  rm_private_id :: int
  rm_result :: json

definition attempts_key :: "string \<Rightarrow> result_message \<Rightarrow> string" where
  "attempts_key q m =
     q @ '':attempts:'' @ (case rm_key m of
       Some k \<Rightarrow> if k \<noteq> [] then k else show_int (rm_private_id m)
     | None \<Rightarrow> show_int (rm_private_id m))"

text \<open>Where a consumer is: waiting, or with a message moved to its processing list, counted,
  concluded, or acknowledged.\<close>

datatype consumer_stage = Ready | Took string | Counted string nat | Concluded string | Acked string

text \<open>\<open>processing q\<close> is the list under \<^verbatim>\<open>q:processing\<close>, \<open>pending k\<close> the set under \<^verbatim>\<open>k:pending\<close>. The
  last four fields record what happened: the messages pushed on each queue, the ones the
  handler was called on, the ones whose stage was closed, and the ones acknowledged.\<close>

record 'w broker =
  queues :: "string \<Rightarrow> string list"
  processing :: "string \<Rightarrow> string list"
  blobs :: "string \<Rightarrow> string option"
  attempts :: "string \<Rightarrow> nat"
  pending :: "string \<Rightarrow> string list"
  world :: 'w
  consumer :: "string \<Rightarrow> consumer_stage"
  pushed :: "(string \<times> string) list"
  calls :: "(string \<times> string) list"
  closed :: "(string \<times> string) list"
  acks :: "(string \<times> string) list"

record 'w stage_code =
  decode :: "string \<Rightarrow> result_message option"
  result_of :: "string \<Rightarrow> exn + json"
  handler :: "result_message \<Rightarrow> 'w \<Rightarrow> exn option \<times> 'w"
  on_lost :: "result_message \<Rightarrow> string \<Rightarrow> 'w \<Rightarrow> exn option \<times> 'w"
  error_str :: "exn \<Rightarrow> string"

text \<open>What happens to the commands of one attempt: an error of Redis before INCR has counted
  it, an error of Redis after that and before the handler, or what each GETRANGE sees.\<close>

datatype attempt = IncrFails exn | RedisFails exn | Sees "nat \<Rightarrow> string option"

section \<open>The steps of a consumer\<close>

definition goto :: "string \<Rightarrow> consumer_stage \<Rightarrow> 'w broker \<Rightarrow> 'w broker" where
  "goto q st s = s\<lparr>consumer := (consumer s)(q := st)\<rparr>"

text \<open>\<^verbatim>\<open>lmove(processing, queue, "RIGHT", "LEFT")\<close> until the processing list is empty.\<close>

function recover_lists :: "string list \<Rightarrow> string list \<Rightarrow> string list" where
  "recover_lists ps main =
     (if ps = [] then main else recover_lists (butlast ps) (last ps # main))"
  by pat_completeness auto
termination by (relation "measure (\<lambda>(p, _). length p)") auto

declare recover_lists.simps [simp del]

definition recover_in_flight :: "string \<Rightarrow> 'w broker \<Rightarrow> 'w broker" where
  "recover_in_flight q s =
     s\<lparr>queues := (queues s)(q := recover_lists (processing s q) (queues s q)),
       processing := (processing s)(q := [])\<rparr>"

text \<open>\<^verbatim>\<open>blmove(queue, processing, 30)\<close>, which takes from the left and appends on the right.\<close>

definition take_message :: "string \<Rightarrow> 'w broker \<Rightarrow> 'w broker option" where
  "take_message q s =
     (case queues s q of
        [] \<Rightarrow> None
      | raw # rest \<Rightarrow>
          Some (goto q (Took raw) (s\<lparr>queues := (queues s)(q := rest),
            processing := (processing s)(q := processing s q @ [raw])\<rparr>)))"

definition count_attempt :: "string \<Rightarrow> string \<Rightarrow> result_message \<Rightarrow> 'w broker \<Rightarrow> 'w broker" where
  "count_attempt q raw m s =
     (let k = attempts_key q m; n = attempts s k + 1
      in goto q (Counted raw n) (s\<lparr>attempts := (attempts s)(k := n)\<rparr>))"

definition gave_up_reason :: string where
  "gave_up_reason = ''gave up after '' @ show_nat MAX_ATTEMPTS @ '' interrupted attempts''"

definition missing_reason :: "string \<Rightarrow> string" where
  "missing_reason k = ''result payload '' @ k @ '' missing (evicted or expired)''"

text \<open>The body of the try: whether the handler was called, the error raised, the new world.\<close>

definition attempt_body ::
  "'w stage_code \<Rightarrow> attempt \<Rightarrow> nat \<Rightarrow> result_message \<Rightarrow> 'w broker \<Rightarrow> bool \<times> exn option \<times> 'w" where
  "attempt_body code att n m s =
     (case att of
        IncrFails e \<Rightarrow> (False, Some e, world s)
      | RedisFails e \<Rightarrow> (False, Some e, world s)
      | Sees seen \<Rightarrow>
          if n > MAX_ATTEMPTS then (False, on_lost code m gave_up_reason (world s))
          else case rm_key m of
                 None \<Rightarrow> (True, handler code m (world s))
               | Some k \<Rightarrow>
                   (case read_payload (blobs s k) seen of
                      None \<Rightarrow> (False, on_lost code m (missing_reason k) (world s))
                    | Some blob \<Rightarrow>
                        (case result_of code blob of
                           Inl e \<Rightarrow> (False, Some e, world s)
                         | Inr result \<Rightarrow> (True, handler code (m\<lparr>rm_result := result\<rparr>) (world s)))))"

text \<open>An error closes the stage through \<^verbatim>\<open>on_lost\<close>; an error of that is only logged.\<close>

definition deliver :: "'w stage_code \<Rightarrow> attempt \<Rightarrow> string \<Rightarrow> string \<Rightarrow> nat \<Rightarrow> result_message \<Rightarrow> 'w broker \<Rightarrow> 'w broker" where
  "deliver code att q raw n m s =
     (case attempt_body code att n m s of
        (handled, failed, w) \<Rightarrow>
          goto q (Concluded raw) (s\<lparr>
            calls := (if handled then (q, raw) # calls s else calls s),
            closed := (q, raw) # closed s,
            world := (case failed of
                        None \<Rightarrow> w
                      | Some e \<Rightarrow> snd (on_lost code m (''handler failed: '' @ error_str code e) w))\<rparr>))"

definition ack :: "string \<Rightarrow> string \<Rightarrow> 'w broker \<Rightarrow> 'w broker" where
  "ack q raw s =
     goto q (Acked raw) (s\<lparr>processing := (processing s)(q := remove1 raw (processing s q)), acks := (q, raw) # acks s\<rparr>)"

definition release :: "string \<Rightarrow> result_message \<Rightarrow> 'w broker \<Rightarrow> 'w broker" where
  "release q m s =
     (let s' = goto q Ready (s\<lparr>attempts := (attempts s)(attempts_key q m := 0)\<rparr>)
      in case rm_key m of
           None \<Rightarrow> s'
         | Some k \<Rightarrow>
             let left = filter (\<lambda>x. x \<noteq> q) (pending s k)
             in if left = [] then s'\<lparr>pending := (pending s)(k := []), blobs := (blobs s)(k := None)\<rparr>
                else s'\<lparr>pending := (pending s)(k := left)\<rparr>)"

text \<open>\<^verbatim>\<open>handle_one\<close> run to its end on a message already moved to the processing list. A message
  that does not decode raises before anything is counted.\<close>

definition handle_one :: "'w stage_code \<Rightarrow> attempt \<Rightarrow> string \<Rightarrow> string \<Rightarrow> 'w broker \<Rightarrow> 'w broker option" where
  "handle_one code att q raw s =
     (case decode code raw of
        None \<Rightarrow> None
      | Some m \<Rightarrow>
          let s' = (case att of IncrFails _ \<Rightarrow> s | _ \<Rightarrow> count_attempt q raw m s)
          in Some (release q m (ack q raw (deliver code att q raw (attempts s' (attempts_key q m)) m s'))))"

section \<open>Workers, consumers and crashes\<close>

text \<open>The worker stores a payload with the queues that need it, then queues the envelope on
  each. \<open>evicts\<close> allows Redis to drop a payload. A consumer can be killed in any stage: the
  next one starts with \<^verbatim>\<open>recover_in_flight\<close>.\<close>

inductive rq_step :: "bool \<Rightarrow> 'w stage_code \<Rightarrow> 'w broker \<Rightarrow> 'w broker \<Rightarrow> bool" for evicts code where
  stored: "pending s k = [] \<Longrightarrow>
    rq_step evicts code s (s\<lparr>blobs := (blobs s)(k := Some b), pending := (pending s)(k := qs)\<rparr>)"
| pushes: "(q, raw) \<notin> set (pushed s) \<Longrightarrow>
    \<forall>m. decode code raw = Some m \<longrightarrow>
      (\<forall>k. rm_key m = Some k \<longrightarrow> k \<noteq> [] \<and> q \<in> set (pending s k))
      \<and> (\<forall>q' raw' m'. (q', raw') \<in> set (pushed s) \<longrightarrow> decode code raw' = Some m' \<longrightarrow> attempts_key q' m' \<noteq> attempts_key q m) \<Longrightarrow>
    rq_step evicts code s (s\<lparr>queues := (queues s)(q := queues s q @ [raw]), pushed := (q, raw) # pushed s\<rparr>)"
| takes: "consumer s q = Ready \<Longrightarrow> take_message q s = Some s' \<Longrightarrow> rq_step evicts code s s'"
| counts: "consumer s q = Took raw \<Longrightarrow> decode code raw = Some m \<Longrightarrow> rq_step evicts code s (count_attempt q raw m s)"
| incr_fails: "consumer s q = Took raw \<Longrightarrow> decode code raw = Some m \<Longrightarrow>
    rq_step evicts code s (deliver code (IncrFails e) q raw n m s)"
| delivers: "consumer s q = Counted raw n \<Longrightarrow> decode code raw = Some m \<Longrightarrow>
    rq_step evicts code s (deliver code att q raw n m s)"
| acknowledges: "consumer s q = Concluded raw \<Longrightarrow> rq_step evicts code s (ack q raw s)"
| releases: "consumer s q = Acked raw \<Longrightarrow> decode code raw = Some m \<Longrightarrow> rq_step evicts code s (release q m s)"
| restarts: "rq_step evicts code s (goto q Ready (recover_in_flight q s))"
| evicted: "evicts \<Longrightarrow> rq_step evicts code s (s\<lparr>blobs := (blobs s)(k := None)\<rparr>)"

abbreviation rq_run :: "bool \<Rightarrow> 'w stage_code \<Rightarrow> 'w broker \<Rightarrow> 'w broker \<Rightarrow> bool" where
  "rq_run evicts code \<equiv> (rq_step evicts code)\<^sup>*\<^sup>*"

definition empty_broker :: "'w \<Rightarrow> 'w broker" where
  "empty_broker w = \<lparr>queues = (\<lambda>_. []), processing = (\<lambda>_. []), blobs = (\<lambda>_. None), attempts = (\<lambda>_. 0),
     pending = (\<lambda>_. []), world = w, consumer = (\<lambda>_. Ready), pushed = [], calls = [], closed = [], acks = []\<rparr>"

definition of_queue :: "string \<Rightarrow> (string \<times> string) list \<Rightarrow> string list" where
  "of_queue q xs = map snd (filter (\<lambda>p. fst p = q) xs)"

lemma of_queue_simps [simp]:
  "of_queue q [] = []"
  "of_queue q (p # xs) = (if fst p = q then snd p # of_queue q xs else of_queue q xs)"
  "r \<in> set (of_queue q xs) \<longleftrightarrow> (q, r) \<in> set xs"
  by (auto simp: of_queue_def image_iff)

lemma recover_lists_append [simp]: "recover_lists ps main = ps @ main"
proof (induction ps main rule: recover_lists.induct)
  case (1 ps main)
  show ?case
  proof (cases "ps = []")
    case False
    with 1 have "recover_lists ps main = butlast ps @ last ps # main" by (simp add: recover_lists.simps [of ps])
    with False show ?thesis by (metis append.assoc append_Cons append_Nil append_butlast_last_id)
  qed (simp add: recover_lists.simps)
qed

lemmas rq_defs = goto_def recover_in_flight_def count_attempt_def deliver_def ack_def release_def Let_def


text \<open>What the operations leave alone.\<close>

lemma op_frames [simp]:
  "pushed (deliver code att q raw n m s) = pushed s" "acks (deliver code att q raw n m s) = acks s"
  "attempts (deliver code att q raw n m s) = attempts s" "pending (deliver code att q raw n m s) = pending s"
  "blobs (deliver code att q raw n m s) = blobs s"
  "consumer (deliver code att q raw n m s) = (consumer s)(q := Concluded raw)"
  "calls (deliver code att q raw n m s) = (if fst (attempt_body code att n m s) then (q, raw) # calls s else calls s)"
  "pushed (release q m s) = pushed s" "acks (release q m s) = acks s" "calls (release q m s) = calls s"
  "consumer (release q m s) = (consumer s)(q := Ready)"
  "attempts (release q m s) = (attempts s)(attempts_key q m := 0)"
  "take_message q s = Some s' \<Longrightarrow> pushed s' = pushed s"
  "take_message q s = Some s' \<Longrightarrow> acks s' = acks s"
  "take_message q s = Some s' \<Longrightarrow> calls s' = calls s"
  "take_message q s = Some s' \<Longrightarrow> attempts s' = attempts s"
  "take_message q s = Some s' \<Longrightarrow> pending s' = pending s"
  "take_message q s = Some s' \<Longrightarrow> blobs s' = blobs s"
  "take_message q s = Some s' \<Longrightarrow> \<exists>r. consumer s' = (consumer s)(q := Took r)"
  by (auto simp: deliver_def goto_def release_def take_message_def Let_def split: prod.splits option.splits list.splits)

subsection \<open>Where the messages are\<close>

fun in_hand :: "consumer_stage \<Rightarrow> string list" where
  "in_hand Ready = []"
| "in_hand (Took r) = [r]"
| "in_hand (Counted r n) = [r]"
| "in_hand (Concluded r) = [r]"
| "in_hand (Acked r) = []"

definition kept :: "'w broker \<Rightarrow> bool" where
  "kept s \<longleftrightarrow> distinct (pushed s)
     \<and> (\<forall>q. processing s q = in_hand (consumer s q)
          \<and> mset (of_queue q (pushed s)) = mset (queues s q) + mset (processing s q) + mset (of_queue q (acks s))
          \<and> (\<forall>r. consumer s q = Acked r \<longrightarrow> (q, r) \<in> set (acks s)))"

lemma in_processing: "kept s \<Longrightarrow> in_hand (consumer s q) = processing s q"
  by (simp add: kept_def)

lemma attempt_body_IncrFails [simp]: "attempt_body code (IncrFails e) n m s = (False, Some e, world s)"
  by (simp add: attempt_body_def)

lemma kept_step:
  assumes "rq_step evicts code s s'" "kept s"
  shows "kept s'"
  using assms
proof cases
  case (takes q)
  then show ?thesis using assms(2) by (auto simp: kept_def take_message_def goto_def split: list.splits if_splits)
next
  case (releases q raw m)
  then show ?thesis using assms(2) by (auto simp: kept_def release_def goto_def Let_def split: option.splits)
qed (use assms(2) in \<open>auto simp: kept_def rq_defs split: prod.splits\<close>)

subsection \<open>What is acknowledged was closed\<close>

definition closed_first :: "'w broker \<Rightarrow> bool" where
  "closed_first s \<longleftrightarrow> set (acks s) \<subseteq> set (closed s) \<and> (\<forall>q r. consumer s q = Concluded r \<longrightarrow> (q, r) \<in> set (closed s))"

lemma closed_first_step:
  assumes "rq_step evicts code s s'" "closed_first s"
  shows "closed_first s'"
  using assms
proof cases
  case (takes q)
  then show ?thesis using assms(2) by (auto simp: closed_first_def take_message_def goto_def split: list.splits if_splits)
next
  case (releases q raw m)
  then show ?thesis using assms(2) by (auto simp: closed_first_def release_def goto_def Let_def split: option.splits)
qed (use assms(2) in \<open>auto simp: closed_first_def rq_defs split: prod.splits if_splits\<close>)

subsection \<open>Attempts\<close>

text \<open>The messages a queue still has to conclude, by their attempts key.\<close>

definition open_message :: "'w stage_code \<Rightarrow> 'w broker \<Rightarrow> string \<Rightarrow> string \<Rightarrow> result_message \<Rightarrow> bool" where
  "open_message code s q r m \<longleftrightarrow> (q, r) \<in> set (pushed s) \<and> (q, r) \<notin> set (acks s) \<and> decode code r = Some m"

definition keys_apart :: "'w stage_code \<Rightarrow> 'w broker \<Rightarrow> bool" where
  "keys_apart code s \<longleftrightarrow> (\<forall>q r m q' r' m'. (q, r) \<in> set (pushed s) \<and> decode code r = Some m
     \<and> (q', r') \<in> set (pushed s) \<and> decode code r' = Some m' \<and> attempts_key q m = attempts_key q' m' \<longrightarrow> q = q' \<and> r = r')"

definition counted :: "'w stage_code \<Rightarrow> 'w broker \<Rightarrow> bool" where
  "counted code s \<longleftrightarrow> set (calls s) \<subseteq> set (pushed s) \<and> (\<forall>p. count_list (calls s) p \<le> MAX_ATTEMPTS)
     \<and> (\<forall>q r m. open_message code s q r m \<longrightarrow> count_list (calls s) (q, r) \<le> attempts s (attempts_key q m)
          \<and> (\<forall>n. consumer s q = Counted r n \<longrightarrow> n = attempts s (attempts_key q m) \<and> count_list (calls s) (q, r) < n))"

lemma keys_apart_push:
  assumes "keys_apart code s"
    "\<forall>m. decode code raw = Some m \<longrightarrow> (\<forall>q' raw' m'. (q', raw') \<in> set (pushed s) \<longrightarrow> decode code raw' = Some m' \<longrightarrow>
       attempts_key q' m' \<noteq> attempts_key q m)"
    "pushed s' = (q, raw) # pushed s"
  shows "keys_apart code s'"
  unfolding keys_apart_def
proof (intro allI impI)
  fix q1 r1 m1 q2 r2 m2
  assume A: "(q1, r1) \<in> set (pushed s') \<and> decode code r1 = Some m1 \<and> (q2, r2) \<in> set (pushed s')
    \<and> decode code r2 = Some m2 \<and> attempts_key q1 m1 = attempts_key q2 m2"
  show "q1 = q2 \<and> r1 = r2"
  proof (cases "(q1, r1) = (q, raw)"; cases "(q2, r2) = (q, raw)")
    assume "(q1, r1) \<noteq> (q, raw)" "(q2, r2) \<noteq> (q, raw)"
    then have "(q1, r1) \<in> set (pushed s)" "(q2, r2) \<in> set (pushed s)" using A assms(3) by auto
    then show ?thesis using A assms(1) unfolding keys_apart_def by blast
  next
    assume "(q1, r1) = (q, raw)" "(q2, r2) \<noteq> (q, raw)"
    then show ?thesis using A assms(2,3) by (metis prod.inject set_ConsD)
  next
    assume "(q1, r1) \<noteq> (q, raw)" "(q2, r2) = (q, raw)"
    then show ?thesis using A assms(2,3) by (metis prod.inject set_ConsD)
  qed simp
qed

lemma keys_apart_same: "keys_apart code s \<Longrightarrow> pushed s' = pushed s \<Longrightarrow> keys_apart code s'"
  unfolding keys_apart_def by metis

lemma keys_apart_step:
  assumes "rq_step evicts code s s'" "keys_apart code s"
  shows "keys_apart code s'"
  using assms
proof cases
  case (pushes q raw)
  show ?thesis by (rule keys_apart_push [OF assms(2), of raw q]) (use pushes in auto)
qed (rule keys_apart_same [OF assms(2)]; simp add: count_attempt_def ack_def recover_in_flight_def goto_def Let_def)+

lemma holds_pushed:
  assumes k: "kept s" and r: "r \<in> set (in_hand (consumer s q))"
  shows "(q, r) \<in> set (pushed s) \<and> (q, r) \<notin> set (acks s)"
proof -
  have p: "r \<in># mset (processing s q)" using k r by (simp add: kept_def)
  let ?p = "of_queue q (pushed s)" and ?a = "of_queue q (acks s)"
  have m: "mset ?p = mset (queues s q) + mset (processing s q) + mset ?a" using k by (simp add: kept_def)
  have "r \<in># mset ?p" using p unfolding m by auto
  then have "r \<in> set ?p" by (simp only: set_mset_mset)
  moreover have "distinct ?p" using k by (auto simp: kept_def of_queue_def distinct_map intro: inj_onI)
  then have le: "count (mset ?p) r \<le> 1" using distinct_count_atmost_1 [of ?p] by (simp split: if_splits)
  have "count (mset (processing s q)) r > 0" using p by (simp only: count_greater_zero_iff)
  then have "count (mset ?a) r = 0" using le unfolding m count_union by linarith
  then have "r \<notin> set ?a" by (metis count_eq_zero_iff set_mset_mset)
  ultimately show ?thesis by simp
qed

lemma countedI:
  assumes "set (calls s) \<subseteq> set (pushed s)" "\<And>p. count_list (calls s) p \<le> MAX_ATTEMPTS"
    "\<And>q r m. open_message code s q r m \<Longrightarrow> count_list (calls s) (q, r) \<le> attempts s (attempts_key q m)"
    "\<And>q r m n. open_message code s q r m \<Longrightarrow> consumer s q = Counted r n \<Longrightarrow>
       n = attempts s (attempts_key q m) \<and> count_list (calls s) (q, r) < n"
  shows "counted code s"
  using assms unfolding counted_def by blast

lemma countedD:
  assumes "counted code s"
  shows "set (calls s) \<subseteq> set (pushed s)" "count_list (calls s) p \<le> MAX_ATTEMPTS"
    "open_message code s q r m \<Longrightarrow> count_list (calls s) (q, r) \<le> attempts s (attempts_key q m)"
    "open_message code s q r m \<Longrightarrow> consumer s q = Counted r n \<Longrightarrow>
       n = attempts s (attempts_key q m) \<and> count_list (calls s) (q, r) < n"
  using assms unfolding counted_def by blast+

lemma attempt_handled: "fst (attempt_body code att n m s) \<Longrightarrow> n \<le> MAX_ATTEMPTS"
  by (simp add: attempt_body_def split: attempt.splits if_splits)

text \<open>Another message with the same attempts key is the same message.\<close>

lemma other_key:
  assumes "keys_apart code s" "(q, raw) \<in> set (pushed s)" "decode code raw = Some m"
    "open_message code s q' r' m'" "(q', r') \<noteq> (q, raw)"
  shows "attempts_key q' m' \<noteq> attempts_key q m"
  using assms unfolding open_message_def keys_apart_def by blast

lemma counted_count:
  assumes c: "counted code s" and k: "keys_apart code s" "(q, raw) \<in> set (pushed s)" "decode code raw = Some m"
    "consumer s q = Took raw"
  shows "counted code (count_attempt q raw m s)"
proof (rule countedI)
  let ?s = "count_attempt q raw m s"
  have f: "calls ?s = calls s" "pushed ?s = pushed s" "acks ?s = acks s"
    "consumer ?s = (consumer s)(q := Counted raw (attempts s (attempts_key q m) + 1))"
    "attempts ?s = (attempts s)(attempts_key q m := attempts s (attempts_key q m) + 1)"
    by (simp_all add: count_attempt_def goto_def Let_def)
  have op: "open_message code ?s = open_message code s" by (intro ext) (simp add: open_message_def f)
  show "set (calls ?s) \<subseteq> set (pushed ?s)" "\<And>p. count_list (calls ?s) p \<le> MAX_ATTEMPTS"
    using countedD(1,2) [OF c] by (simp_all add: f)
  fix q' r' m'
  assume "open_message code ?s q' r' m'"
  then have o: "open_message code s q' r' m'" by (simp add: op)
  note le = countedD(3) [OF c o]
  show "count_list (calls ?s) (q', r') \<le> attempts ?s (attempts_key q' m')" using le by (auto simp: f)
  fix n
  assume n: "consumer ?s q' = Counted r' n"
  show "n = attempts ?s (attempts_key q' m') \<and> count_list (calls ?s) (q', r') < n"
  proof (cases "(q', r') = (q, raw)")
    case True
    then have "m' = m" using o k(3) by (simp add: open_message_def)
    with True n le show ?thesis by (simp add: f)
  next
    case False
    then have "q' \<noteq> q" using n by (auto simp: f)
    then show ?thesis using other_key [OF k(1,2,3) o False] countedD(4) [OF c o] n by (simp add: f)
  qed
qed

lemma counted_deliver:
  assumes c: "counted code s" and o: "open_message code s q raw m" and n: "consumer s q = Counted raw n"
  shows "counted code (deliver code att q raw n m s)"
proof (rule countedI)
  let ?s = "deliver code att q raw n m s"
  have op: "open_message code ?s = open_message code s" by (intro ext) (simp add: open_message_def)
  have n': "n = attempts s (attempts_key q m)" "count_list (calls s) (q, raw) < n" using countedD(4) [OF c o n] by auto
  show "set (calls ?s) \<subseteq> set (pushed ?s)" using countedD(1) [OF c] o by (auto simp: open_message_def)
  show "count_list (calls ?s) p \<le> MAX_ATTEMPTS" for p
    using countedD(2) [OF c, of p] attempt_handled [of code att n m s] n' by auto
  fix q' r' m'
  assume "open_message code ?s q' r' m'"
  then have o': "open_message code s q' r' m'" by (simp add: op)
  have "m' = m" if "(q', r') = (q, raw)" using that o o' by (simp add: open_message_def)
  then show "count_list (calls ?s) (q', r') \<le> attempts ?s (attempts_key q' m')"
    using countedD(3) [OF c o'] n' by auto
  fix k
  assume "consumer ?s q' = Counted r' k"
  then show "k = attempts ?s (attempts_key q' m') \<and> count_list (calls ?s) (q', r') < k"
    using countedD(4) [OF c o'] by (auto split: if_splits)
qed

lemma counted_release:
  assumes c: "counted code s" and k: "keys_apart code s" "(q, raw) \<in> set (pushed s)" "decode code raw = Some m"
    "(q, raw) \<in> set (acks s)"
  shows "counted code (release q m s)"
proof (rule countedI)
  let ?s = "release q m s"
  have op: "open_message code ?s = open_message code s" by (intro ext) (simp add: open_message_def)
  show "set (calls ?s) \<subseteq> set (pushed ?s)" "\<And>p. count_list (calls ?s) p \<le> MAX_ATTEMPTS"
    using countedD(1,2) [OF c] by simp_all
  fix q' r' m'
  assume "open_message code ?s q' r' m'"
  then have o: "open_message code s q' r' m'" by (simp add: op)
  then have "(q', r') \<noteq> (q, raw)" using k(4) by (auto simp: open_message_def)
  then have key: "attempts_key q' m' \<noteq> attempts_key q m" using other_key [OF k(1,2,3) o] by blast
  then show "count_list (calls ?s) (q', r') \<le> attempts ?s (attempts_key q' m')" using countedD(3) [OF c o] by simp
  fix n
  assume "consumer ?s q' = Counted r' n"
  then show "n = attempts ?s (attempts_key q' m') \<and> count_list (calls ?s) (q', r') < n"
    using countedD(4) [OF c o] key by (auto split: if_splits)
qed

text \<open>A step that calls nothing, counts nothing and opens no message that was called.\<close>

lemma counted_frame:
  assumes c: "counted code s" and f: "calls s' = calls s" "attempts s' = attempts s" "set (pushed s) \<subseteq> set (pushed s')"
    "\<And>q r m. open_message code s' q r m \<Longrightarrow> open_message code s q r m \<or> (q, r) \<notin> set (pushed s)"
    "\<And>q r n. consumer s' q = Counted r n \<Longrightarrow> consumer s q = Counted r n \<and> (q, r) \<in> set (pushed s)"
  shows "counted code s'"
proof (rule countedI)
  show "set (calls s') \<subseteq> set (pushed s')" "\<And>p. count_list (calls s') p \<le> MAX_ATTEMPTS"
    using countedD(1,2) [OF c] f(1,3) by auto
  fix q r m
  assume o: "open_message code s' q r m"
  have "count_list (calls s) (q, r) = 0" if "(q, r) \<notin> set (pushed s)"
    using that countedD(1) [OF c] by (meson count_list_0_iff subsetD)
  then show "count_list (calls s') (q, r) \<le> attempts s' (attempts_key q m)"
    using f(4) [OF o] countedD(3) [OF c] unfolding f(1,2) by fastforce
  fix n
  assume "consumer s' q = Counted r n"
  from f(5) [OF this] f(4) [OF o] show "n = attempts s' (attempts_key q m) \<and> count_list (calls s') (q, r) < n"
    using countedD(4) [OF c] f(1,2) by auto
qed

lemma counted_step:
  assumes "rq_step evicts code s s'" "counted code s" "kept s" "keys_apart code s"
  shows "counted code s'"
proof -
  have held: "(q, r) \<in> set (pushed s)" if "consumer s q = Counted r n" for q r n
    using holds_pushed [OF assms(3), of r q] that by simp
  show ?thesis using assms(1)
  proof cases
    case (counts q raw m)
    with holds_pushed [OF assms(3), of raw q] show ?thesis by (auto intro: counted_count [OF assms(2,4)])
  next
    case (delivers q raw n m att)
    with holds_pushed [OF assms(3), of raw q] show ?thesis by (auto intro: counted_deliver [OF assms(2)] simp: open_message_def)
  next
    case (releases q raw m)
    then have "(q, raw) \<in> set (acks s)" using assms(3) by (simp add: kept_def)
    moreover have "set (of_queue q (acks s)) \<subseteq> set (of_queue q (pushed s))" using assms(3)
      by (metis kept_def mset_subset_eq_add_right set_mset_mono set_mset_mset)
    ultimately have "(q, raw) \<in> set (pushed s)" by (metis of_queue_simps(3) subsetD)
    then show ?thesis using releases \<open>(q, raw) \<in> set (acks s)\<close> counted_release [OF assms(2,4)] by simp
  next
    case (takes q)
    then show ?thesis by - (rule counted_frame [OF assms(2)]; auto simp: open_message_def dest!: op_frames(19) split: if_splits intro: held)
  qed (rule counted_frame [OF assms(2)];
       auto simp: open_message_def ack_def recover_in_flight_def goto_def split: if_splits intro: held)+
qed

subsection \<open>Payloads\<close>

definition payload_kept :: "'w stage_code \<Rightarrow> 'w broker \<Rightarrow> bool" where
  "payload_kept code s \<longleftrightarrow>
     (\<forall>q r m k. open_message code s q r m \<and> rm_key m = Some k \<longrightarrow> k \<noteq> [] \<and> q \<in> set (pending s k))
     \<and> (\<forall>k. pending s k \<noteq> [] \<longrightarrow> blobs s k \<noteq> None)"

lemma payload_keptI:
  assumes "\<And>q r m k. open_message code s q r m \<Longrightarrow> rm_key m = Some k \<Longrightarrow> k \<noteq> [] \<and> q \<in> set (pending s k)"
    "\<And>k. pending s k \<noteq> [] \<Longrightarrow> blobs s k \<noteq> None"
  shows "payload_kept code s"
  using assms unfolding payload_kept_def by blast

lemma payload_keptD:
  assumes "payload_kept code s"
  shows "open_message code s q r m \<Longrightarrow> rm_key m = Some k \<Longrightarrow> k \<noteq> [] \<and> q \<in> set (pending s k)"
    "pending s k \<noteq> [] \<Longrightarrow> blobs s k \<noteq> None"
  using assms unfolding payload_kept_def by blast+

lemma payload_kept_frame:
  assumes "payload_kept code s" "pending s' = pending s" "blobs s' = blobs s"
    "\<And>q r m. open_message code s' q r m \<Longrightarrow> open_message code s q r m"
  shows "payload_kept code s'"
proof (rule payload_keptI)
  show "k \<noteq> [] \<and> q \<in> set (pending s' k)" if "open_message code s' q r m" "rm_key m = Some k" for q r m k
    using payload_keptD(1) [OF assms(1) assms(4) [OF that(1)] that(2)] by (simp add: assms(2))
  show "blobs s' k \<noteq> None" if "pending s' k \<noteq> []" for k using payload_keptD(2) [OF assms(1)] that assms(2,3) by simp
qed

lemma payload_kept_release:
  assumes p: "payload_kept code s" and k: "keys_apart code s" "(q, raw) \<in> set (pushed s)" "decode code raw = Some m"
    "(q, raw) \<in> set (acks s)"
  shows "payload_kept code (release q m s)"
proof (cases "rm_key m")
  case None
  then show ?thesis using p by (intro payload_kept_frame [OF p]) (auto simp: release_def goto_def open_message_def Let_def)
next
  case (Some k)
  have f: "pending (release q m s) = (pending s)(k := filter (\<lambda>x. x \<noteq> q) (pending s k))"
    "blobs (release q m s) = (if filter (\<lambda>x. x \<noteq> q) (pending s k) = [] then (blobs s)(k := None) else blobs s)"
    by (auto simp: release_def goto_def Let_def Some)
  show ?thesis
  proof (rule payload_keptI)
    fix q' r' m' k'
    assume "open_message code (release q m s) q' r' m'" and m': "rm_key m' = Some k'"
    then have o: "open_message code s q' r' m'" by (simp add: open_message_def)
    note in_s = payload_keptD(1) [OF p o m']
    have "(q', r') \<noteq> (q, raw)" using o k(4) by (auto simp: open_message_def)
    then have "attempts_key q' m' \<noteq> attempts_key q m" using other_key [OF k(1,2,3) o] by blast
    then have "q' \<noteq> q \<or> k' \<noteq> k" using in_s m' Some by (auto simp: attempts_key_def)
    then show "k' \<noteq> [] \<and> q' \<in> set (pending (release q m s) k')" using in_s by (auto simp: f)
  next
    fix k'
    assume left: "pending (release q m s) k' \<noteq> []"
    then have "pending s k' \<noteq> []" by (auto simp: f split: if_splits)
    from payload_keptD(2) [OF p this] show "blobs (release q m s) k' \<noteq> None" using left by (simp add: f split: if_splits)
  qed
qed

lemma acked_pushed: "kept s \<Longrightarrow> (q, r) \<in> set (acks s) \<Longrightarrow> (q, r) \<in> set (pushed s)"
  by (metis kept_def mset_subset_eq_add_right of_queue_simps(3) set_mset_mono set_mset_mset subsetD)

lemma payload_kept_step:
  assumes "rq_step False code s s'" "payload_kept code s" "kept s" "keys_apart code s"
  shows "payload_kept code s'"
  using assms(1)
proof cases
  case (stored k b qs)
  show ?thesis
  proof (rule payload_keptI)
    fix q r m k'
    assume "open_message code s' q r m" and k': "rm_key m = Some k'"
    then have "open_message code s q r m" using stored by (simp add: open_message_def)
    from payload_keptD(1) [OF assms(2) this k'] show "k' \<noteq> [] \<and> q \<in> set (pending s' k')" using stored by auto
  next
    fix k'
    assume "pending s' k' \<noteq> []"
    then show "blobs s' k' \<noteq> None" using payload_keptD(2) [OF assms(2), of k'] stored by (auto split: if_splits)
  qed
next
  case (pushes q raw)
  show ?thesis
  proof (rule payload_keptI)
    fix q' r m k
    assume "open_message code s' q' r m" "rm_key m = Some k"
    then show "k \<noteq> [] \<and> q' \<in> set (pending s' k)" using payload_keptD(1) [OF assms(2), of q' r m k] pushes
      by (auto simp: open_message_def)
  qed (use payload_keptD(2) [OF assms(2)] pushes in simp)
next
  case (releases q raw m)
  then have "(q, raw) \<in> set (acks s)" using assms(3) by (simp add: kept_def)
  then show ?thesis using releases payload_kept_release [OF assms(2,4) acked_pushed [OF assms(3)]] by simp
qed (rule payload_kept_frame [OF assms(2)];
     auto simp: open_message_def count_attempt_def ack_def recover_in_flight_def goto_def Let_def)+

section \<open>Reliable delivery\<close>

definition rq_ok :: "'w stage_code \<Rightarrow> 'w broker \<Rightarrow> bool" where
  "rq_ok code s \<longleftrightarrow> kept s \<and> closed_first s \<and> keys_apart code s \<and> counted code s"

lemma rq_ok_run: "rq_run evicts code s s' \<Longrightarrow> rq_ok code s \<Longrightarrow> rq_ok code s'"
  by (induction rule: rtranclp_induct)
    (simp_all add: rq_ok_def, metis kept_step closed_first_step keys_apart_step counted_step)

lemma payload_kept_run:
  "rq_run False code s s' \<Longrightarrow> rq_ok code s \<Longrightarrow> payload_kept code s \<Longrightarrow> payload_kept code s'"
proof (induction rule: rtranclp_induct)
  case (step y z)
  then show ?case using rq_ok_run [OF step(1)] payload_kept_step [OF step(2)] by (auto simp: rq_ok_def)
qed simp

lemma empty_broker_ok: "rq_ok code (empty_broker w)" "payload_kept code (empty_broker w)"
  by (simp_all add: rq_ok_def kept_def closed_first_def keys_apart_def counted_def payload_kept_def open_message_def empty_broker_def)

text \<open>A call of \<^verbatim>\<open>handle_one\<close> that is not interrupted is a run of its consumer's steps.\<close>

lemma handle_one_is_a_run:
  assumes "consumer s q = Took raw" "decode code raw = Some m"
  shows "\<exists>s'. handle_one code att q raw s = Some s' \<and> rq_run evicts code s s' \<and> consumer s' q = Ready
    \<and> acks s' = (q, raw) # acks s"
proof -
  have run: "rq_run evicts code s (release q m (ack q raw (deliver code att q raw n m s1)))"
    if "rq_run evicts code s s1" "rq_step evicts code s1 (deliver code att q raw n m s1)" for n s1
  proof -
    let ?d = "deliver code att q raw n m s1"
    have "rq_step evicts code ?d (ack q raw ?d)" by (rule acknowledges) simp
    moreover have "rq_step evicts code (ack q raw ?d) (release q m (ack q raw ?d))"
      by (rule releases [of _ _ raw]) (simp_all add: ack_def goto_def assms)
    ultimately show ?thesis using that by (meson rtranclp.rtrancl_into_rtrancl)
  qed
  let ?s1 = "count_attempt q raw m s"
  have counted: "\<exists>s'. Some (release q m (ack q raw (deliver code att q raw (attempts ?s1 (attempts_key q m)) m ?s1))) = Some s'
    \<and> rq_run evicts code s s' \<and> consumer s' q = Ready \<and> acks s' = (q, raw) # acks s"
  proof -
    have "rq_step evicts code s ?s1" using assms by (rule counts)
    moreover have "consumer ?s1 q = Counted raw (attempts ?s1 (attempts_key q m))" "acks ?s1 = acks s"
      by (simp_all add: count_attempt_def goto_def Let_def)
    ultimately show ?thesis using run [of ?s1] delivers [of ?s1 q raw _ code m] assms(2)
      by (auto simp: ack_def goto_def)
  qed
  show ?thesis
  proof (cases att)
    case (IncrFails e)
    then show ?thesis using assms run [of s] incr_fails [OF assms, of evicts e]
      by (auto simp: handle_one_def ack_def goto_def)
  qed (use counted in \<open>simp_all add: handle_one_def assms Let_def\<close>)
qed


definition example_envelope :: result_message where
  "example_envelope = \<lparr>rm_key = Some ''k'', rm_private_id = 7, rm_result = JNull\<rparr>"

text \<open>A handler that counts its calls.\<close>

definition example_stage :: "nat stage_code" where
  "example_stage = \<lparr>decode = (\<lambda>raw. if raw = ''m'' then Some example_envelope else None), result_of = (\<lambda>_. Inr JNull),
     handler = (\<lambda>_ w. (None, w + 1)), on_lost = (\<lambda>_ _ w. (None, w)), error_str = (\<lambda>_. [])\<rparr>"

definition example_taken :: "nat broker" where
  "example_taken = (empty_broker 0)\<lparr>blobs := (\<lambda>_. None)(''k'' := Some ''{}''), pending := (\<lambda>_. [])(''k'' := [''q'']),
     processing := (\<lambda>_. [])(''q'' := [''m'']), consumer := (\<lambda>_. Ready)(''q'' := Took ''m''), pushed := [(''q'', ''m'')]\<rparr>"

lemma example_taken_run: "rq_run False example_stage (empty_broker 0) example_taken"
proof -
  let ?s1 = "(empty_broker 0)\<lparr>blobs := (\<lambda>_. None)(''k'' := Some ''{}''), pending := (\<lambda>_. [])(''k'' := [''q''])\<rparr> :: nat broker"
  let ?s2 = "?s1\<lparr>queues := (\<lambda>_. [])(''q'' := [''m'']), pushed := [(''q'', ''m'')]\<rparr>"
  have "rq_step False example_stage (empty_broker 0) ?s1"
    using stored [of "empty_broker 0" "''k''" False example_stage] by (simp add: empty_broker_def)
  moreover have "rq_step False example_stage ?s1 ?s2"
    using pushes [of "''q''" "''m''" ?s1 example_stage False]
    by (simp add: empty_broker_def example_stage_def example_envelope_def)
  moreover have "rq_step False example_stage ?s2 example_taken"
    by (rule takes [of _ "''q''"])
      (auto simp: empty_broker_def example_taken_def take_message_def goto_def fun_eq_iff)
  ultimately show ?thesis by (meson r_into_rtranclp rtranclp_trans)
qed


end
