(* ===== verification/Run_Ledger.thy ===== *)
theory Run_Ledger
  imports Session Complex_Main
begin

text \<open>
  The ledger of GrapeRank runs: the rows of \<^verbatim>\<open>brainstorm_request\<close>
  (\<^verbatim>\<open>app/db_models/__init__.py\<close>) and every statement on them
  (\<^verbatim>\<open>app/repos/brainstorm_request_repo.py\<close>), the stale-run reaper
  (\<^verbatim>\<open>app/cronjobs/fail_stale_ongoing_brainstorm_requests.py\<close>), the observers' whitelist
  snapshots (\<^verbatim>\<open>observer_whitelist_repo.py\<close>) and the reads behind the scheduler's metrics
  (\<^verbatim>\<open>scheduler_metrics_repo.py\<close>). The tables that billing shares with it are the field
  \<open>base\<close>. \<open>db_now\<close> is the database's \<^verbatim>\<open>now()\<close>, which an UPDATE of a run writes to its
  \<^verbatim>\<open>updated_at\<close>. A float column is a rational.
\<close>

section \<open>Rows\<close>

text \<open>\<^verbatim>\<open>BrainstormRequestStatus\<close> and \<^verbatim>\<open>TriggerSource\<close>.\<close>

definition WAITING :: string where "WAITING = ''waiting''"
definition ONGOING :: string where "ONGOING = ''ongoing''"
definition SUCCESS :: string where "SUCCESS = ''success''"
definition FAILURE :: string where "FAILURE = ''failure''"

definition TRIGGER_MANUAL :: string where "TRIGGER_MANUAL = ''manual''"
definition TRIGGER_SCHEDULED :: string where "TRIGGER_SCHEDULED = ''scheduled''"
definition TRIGGER_ADMIN :: string where "TRIGGER_ADMIN = ''admin''"
definition TRIGGER_PERIODIC :: string where "TRIGGER_PERIODIC = ''periodic''"

lemma statuses_distinct [simp]:
  "WAITING \<noteq> ONGOING" "WAITING \<noteq> SUCCESS" "WAITING \<noteq> FAILURE" "ONGOING \<noteq> SUCCESS" "ONGOING \<noteq> FAILURE"
  "SUCCESS \<noteq> FAILURE" "ONGOING \<noteq> WAITING" "SUCCESS \<noteq> WAITING" "FAILURE \<noteq> WAITING" "SUCCESS \<noteq> ONGOING"
  "FAILURE \<noteq> ONGOING" "FAILURE \<noteq> SUCCESS"
  by (simp_all add: WAITING_def ONGOING_def SUCCESS_def FAILURE_def)

lemma triggers_distinct [simp]:
  "TRIGGER_MANUAL \<noteq> TRIGGER_SCHEDULED" "TRIGGER_MANUAL \<noteq> TRIGGER_ADMIN" "TRIGGER_MANUAL \<noteq> TRIGGER_PERIODIC"
  "TRIGGER_SCHEDULED \<noteq> TRIGGER_MANUAL" "TRIGGER_SCHEDULED \<noteq> TRIGGER_ADMIN" "TRIGGER_SCHEDULED \<noteq> TRIGGER_PERIODIC"
  "TRIGGER_ADMIN \<noteq> TRIGGER_MANUAL" "TRIGGER_ADMIN \<noteq> TRIGGER_SCHEDULED" "TRIGGER_ADMIN \<noteq> TRIGGER_PERIODIC"
  "TRIGGER_PERIODIC \<noteq> TRIGGER_MANUAL" "TRIGGER_PERIODIC \<noteq> TRIGGER_SCHEDULED" "TRIGGER_PERIODIC \<noteq> TRIGGER_ADMIN"
  by (simp_all add: TRIGGER_MANUAL_def TRIGGER_SCHEDULED_def TRIGGER_ADMIN_def TRIGGER_PERIODIC_def)

record brainstorm_request =
  br_private_id :: int
  br_password :: string
  br_status :: string
  br_status_ta_publication :: string
  br_status_internal_publication :: "string option"
  br_count_values :: "string option"
  br_error :: "json option"
  br_parameters :: string
  br_algorithm :: string
  br_pubkey :: "string option"
  br_graperank_preset_used :: "string option"
  br_graperank_params :: "json option"
  br_publish_duration_seconds :: "rat option"
  br_trigger_source :: string
  br_force_full_relay :: "bool option"
  br_force_full_neo4j :: "bool option"
  br_created_at :: datetime
  br_updated_at :: datetime

record observer_whitelist =
  ow_observer_pubkey :: string
  ow_scores :: "(string \<times> rat) list"
  ow_last_request_id :: "int option"
  ow_updated_at :: datetime

record graperank_preset =
  gp_id :: string
  gp_params :: json

record ledger =
  base :: db
  requests :: "brainstorm_request list"
  next_request_id :: int
  whitelists :: "observer_whitelist list"
  presets :: "graperank_preset list"

text \<open>The primary key of a run is drawn from a sequence.\<close>

definition ledger_wf :: "ledger \<Rightarrow> bool" where
  "ledger_wf l \<longleftrightarrow> unique_on br_private_id (requests l)
     \<and> (\<forall>r\<in>set (requests l). br_private_id r < next_request_id l)
     \<and> unique_on bn_pubkey (nsecs (base l))"

definition on_base :: "(db \<Rightarrow> db) \<Rightarrow> ledger \<Rightarrow> ledger" where
  "on_base f l = l\<lparr>base := f (base l)\<rparr>"

section \<open>Statements on runs\<close>

definition request_of :: "int \<Rightarrow> ledger \<Rightarrow> brainstorm_request option" where
  "request_of rid l = lookup_by br_private_id rid (requests l)"

definition update_requests ::
  "(brainstorm_request \<Rightarrow> bool) \<Rightarrow> datetime \<Rightarrow> (brainstorm_request \<Rightarrow> brainstorm_request) \<Rightarrow> ledger \<Rightarrow> ledger" where
  "update_requests p db_now f l =
     l\<lparr>requests := sql_update p (\<lambda>r. (f r)\<lparr>br_updated_at := db_now\<rparr>) (requests l)\<rparr>"

definition handle_no_data :: "bool \<Rightarrow> (exn, unit) result" where
  "handle_no_data found = (if found then Inr () else Inl (HTTPException 404 []))"

definition delete_brainstorm_request_by_id_on_db :: "int \<Rightarrow> ledger \<Rightarrow> (exn, unit) result \<times> ledger" where
  "delete_brainstorm_request_by_id_on_db rid l =
     (handle_no_data (request_of rid l \<noteq> None),
      l\<lparr>requests := filter (\<lambda>r. br_private_id r \<noteq> rid) (requests l)\<rparr>)"

definition select_brainstorm_request_by_id_on_db :: "int \<Rightarrow> ledger \<Rightarrow> (exn, brainstorm_request) result" where
  "select_brainstorm_request_by_id_on_db rid l =
     (case request_of rid l of None \<Rightarrow> Inl (HTTPException 404 []) | Some r \<Rightarrow> Inr r)"

text \<open>\<^verbatim>\<open>select(func.max(column))\<close>: null over no rows.\<close>

definition sql_max :: "('r \<Rightarrow> 'k::linorder) \<Rightarrow> 'r list \<Rightarrow> 'k option" where
  "sql_max key rows = (if rows = [] then None else Some (Max (set (map key rows))))"

definition sql_min :: "('r \<Rightarrow> 'k::linorder) \<Rightarrow> 'r list \<Rightarrow> 'k option" where
  "sql_min key rows = (if rows = [] then None else Some (Min (set (map key rows))))"

definition last_non_waiting :: "ledger \<Rightarrow> int option" where
  "last_non_waiting l = sql_max br_private_id (filter (\<lambda>r. br_status r \<noteq> WAITING) (requests l))"

definition count_brainstorm_requests_with_priority_over_one_on_db :: "int \<Rightarrow> ledger \<Rightarrow> int" where
  "count_brainstorm_requests_with_priority_over_one_on_db reference_id l =
     (case last_non_waiting l of
        None \<Rightarrow> reference_id
      | Some newest \<Rightarrow> if newest > reference_id then 0 else reference_id - newest)"

definition newest_first :: "brainstorm_request list \<Rightarrow> brainstorm_request list" where
  "newest_first rows = sort_key (\<lambda>r. - br_created_at r) rows"

definition first_of :: "'a list \<Rightarrow> 'a option" where
  "first_of xs = (case xs of [] \<Rightarrow> None | x # _ \<Rightarrow> Some x)"

definition select_latest_brainstorm_request_on_db :: "string \<Rightarrow> ledger \<Rightarrow> brainstorm_request option" where
  "select_latest_brainstorm_request_on_db pubkey l =
     first_of (newest_first (filter (\<lambda>r. br_pubkey r = Some pubkey) (requests l)))"

definition select_latest_non_waiting_brainstorm_request_on_db :: "string \<Rightarrow> ledger \<Rightarrow> brainstorm_request option" where
  "select_latest_non_waiting_brainstorm_request_on_db pubkey l =
     first_of (newest_first (filter (\<lambda>r. br_pubkey r = Some pubkey \<and> br_status r \<noteq> WAITING) (requests l)))"

record admin_stats =
  queue_depth :: nat
  scored_users :: nat
  sp_adopters :: nat

definition distinct_pubkeys :: "brainstorm_request list \<Rightarrow> string list" where
  "distinct_pubkeys rows = remdups (List.map_filter br_pubkey rows)"

definition compute_admin_stats_on_db :: "ledger \<Rightarrow> admin_stats" where
  "compute_admin_stats_on_db l =
     \<lparr>queue_depth = length (filter (\<lambda>r. br_status r = WAITING
          \<and> (case last_non_waiting l of None \<Rightarrow> True | Some newest \<Rightarrow> br_private_id r > newest)) (requests l)),
      scored_users = length (distinct_pubkeys (filter (\<lambda>r. br_status r = SUCCESS) (requests l))),
      sp_adopters = length (distinct_pubkeys (filter (\<lambda>r. br_status_ta_publication r = SUCCESS) (requests l)))\<rparr>"

definition build_recent_brainstorm_requests_stmt ::
  "datetime \<Rightarrow> string option \<Rightarrow> string option \<Rightarrow> string option \<Rightarrow> int option \<Rightarrow> ledger \<Rightarrow> brainstorm_request list" where
  "build_recent_brainstorm_requests_stmt utc pubkey status algorithm days l =
     newest_first (filter (\<lambda>r.
       (case days of None \<Rightarrow> True | Some n \<Rightarrow> br_created_at r \<ge> utc - timedelta_hours (24 * n))
       \<and> (case pubkey of None \<Rightarrow> True | Some p \<Rightarrow> br_pubkey r = Some p)
       \<and> (case status of None \<Rightarrow> True | Some s \<Rightarrow> br_status r = s)
       \<and> (case algorithm of None \<Rightarrow> True | Some a \<Rightarrow> br_algorithm r = a)) (requests l))"

definition update_brainstorm_request_ta_status_by_id_on_db :: "int \<Rightarrow> string \<Rightarrow> datetime \<Rightarrow> ledger \<Rightarrow> ledger" where
  "update_brainstorm_request_ta_status_by_id_on_db rid status db_now =
     update_requests (\<lambda>r. br_private_id r = rid) db_now (\<lambda>r. r\<lparr>br_status_ta_publication := status\<rparr>)"

definition update_brainstorm_request_publish_duration_by_id_on_db :: "int \<Rightarrow> rat \<Rightarrow> datetime \<Rightarrow> ledger \<Rightarrow> ledger" where
  "update_brainstorm_request_publish_duration_by_id_on_db rid seconds db_now =
     update_requests (\<lambda>r. br_private_id r = rid) db_now (\<lambda>r. r\<lparr>br_publish_duration_seconds := Some seconds\<rparr>)"

definition update_brainstorm_request_internal_publication_status_by_id_on_db ::
  "int \<Rightarrow> string \<Rightarrow> datetime \<Rightarrow> ledger \<Rightarrow> ledger" where
  "update_brainstorm_request_internal_publication_status_by_id_on_db rid status db_now =
     update_requests (\<lambda>r. br_private_id r = rid) db_now (\<lambda>r. r\<lparr>br_status_internal_publication := Some status\<rparr>)"

definition update_brainstorm_request_status_by_id_on_db :: "int \<Rightarrow> string \<Rightarrow> datetime \<Rightarrow> ledger \<Rightarrow> ledger" where
  "update_brainstorm_request_status_by_id_on_db rid status db_now =
     update_requests (\<lambda>r. br_private_id r = rid) db_now (\<lambda>r. r\<lparr>br_status := status\<rparr>)"

definition NON_TERMINAL :: "string list" where
  "NON_TERMINAL = [WAITING, ONGOING]"

text \<open>Only from a non-terminal status.\<close>

definition update_brainstorm_request_result_by_id_on_db ::
  "int \<Rightarrow> string \<Rightarrow> string \<Rightarrow> json option \<Rightarrow> datetime \<Rightarrow> ledger \<Rightarrow> ledger" where
  "update_brainstorm_request_result_by_id_on_db rid count_values status error db_now =
     update_requests (\<lambda>r. br_private_id r = rid \<and> br_status r \<in> set NON_TERMINAL) db_now
       (\<lambda>r. r\<lparr>br_status := status, br_count_values := Some count_values, br_error := error\<rparr>)"

definition in_pipeline_condition :: "brainstorm_request \<Rightarrow> bool" where
  "in_pipeline_condition r \<longleftrightarrow>
     br_status r \<in> set NON_TERMINAL
     \<or> (br_status r = SUCCESS \<and> br_status_ta_publication r \<in> set NON_TERMINAL)"

definition any_request_in_pipeline_for_pubkey_on_db :: "string \<Rightarrow> ledger \<Rightarrow> bool" where
  "any_request_in_pipeline_for_pubkey_on_db pubkey l \<longleftrightarrow>
     filter (\<lambda>r. br_pubkey r = Some pubkey \<and> in_pipeline_condition r) (requests l) \<noteq> []"

definition count_scheduled_publishing_inflight_on_db :: "ledger \<Rightarrow> nat" where
  "count_scheduled_publishing_inflight_on_db l =
     length (filter (\<lambda>r. br_trigger_source r = TRIGGER_SCHEDULED \<and> in_pipeline_condition r) (requests l))"

definition manual_run_in_window :: "string \<Rightarrow> datetime \<Rightarrow> brainstorm_request \<Rightarrow> bool" where
  "manual_run_in_window pubkey window_start r \<longleftrightarrow>
     br_pubkey r = Some pubkey \<and> br_trigger_source r = TRIGGER_MANUAL
     \<and> br_status_ta_publication r = SUCCESS \<and> br_created_at r \<ge> window_start"

definition count_successful_manual_runs_in_window_on_db ::
  "string \<Rightarrow> datetime \<Rightarrow> ledger \<Rightarrow> int \<times> datetime option" where
  "count_successful_manual_runs_in_window_on_db pubkey window_start l =
     (let rows = filter (manual_run_in_window pubkey window_start) (requests l)
      in (int (length rows), sql_min br_created_at rows))"

definition any_interactive_in_pipeline_on_db :: "ledger \<Rightarrow> bool" where
  "any_interactive_in_pipeline_on_db l \<longleftrightarrow>
     length (filter (\<lambda>r. br_trigger_source r \<in> {TRIGGER_MANUAL, TRIGGER_ADMIN} \<and> in_pipeline_condition r)
       (requests l)) > 0"

text \<open>Every column on the right of an UPDATE is the old one.\<close>

definition reap :: "brainstorm_request \<Rightarrow> brainstorm_request" where
  "reap r = r\<lparr>br_status := FAILURE,
     br_status_ta_publication :=
       (if br_status_ta_publication r \<in> set NON_TERMINAL then FAILURE else br_status_ta_publication r)\<rparr>"

definition stale :: "datetime \<Rightarrow> brainstorm_request \<Rightarrow> bool" where
  "stale cutoff r \<longleftrightarrow> in_pipeline_condition r \<and> br_updated_at r < cutoff"

definition fail_stale_in_pipeline_brainstorm_requests_on_db ::
  "datetime \<Rightarrow> timedelta \<Rightarrow> datetime \<Rightarrow> ledger \<Rightarrow> int list \<times> ledger" where
  "fail_stale_in_pipeline_brainstorm_requests_on_db utc stale_threshold db_now l =
     (let cutoff = utc - stale_threshold in
      (map br_private_id (filter (stale cutoff) (requests l)), update_requests (stale cutoff) db_now reap l))"

definition full_publish_ok :: "string \<Rightarrow> int \<Rightarrow> brainstorm_request \<Rightarrow> bool" where
  "full_publish_ok pubkey before_run_id r \<longleftrightarrow>
     br_pubkey r = Some pubkey \<and> br_private_id r < before_run_id
     \<and> br_force_full_relay r = Some True \<and> br_status_ta_publication r = SUCCESS"

definition relay_publish_gap_pending_on_db :: "string \<Rightarrow> int \<Rightarrow> ledger \<Rightarrow> bool" where
  "relay_publish_gap_pending_on_db pubkey before_run_id l =
     (let last_full_ok = sql_max br_private_id (filter (full_publish_ok pubkey before_run_id) (requests l)) in
      filter (\<lambda>r. br_pubkey r = Some pubkey \<and> br_private_id r < before_run_id
         \<and> br_private_id r > (case last_full_ok of None \<Rightarrow> 0 | Some i \<Rightarrow> i)
         \<and> br_status_ta_publication r = FAILURE) (requests l) \<noteq> [])"

definition mark_brainstorm_request_force_full_relay_on_db :: "int \<Rightarrow> datetime \<Rightarrow> ledger \<Rightarrow> ledger" where
  "mark_brainstorm_request_force_full_relay_on_db rid db_now =
     update_requests (\<lambda>r. br_private_id r = rid) db_now (\<lambda>r. r\<lparr>br_force_full_relay := Some True\<rparr>)"

text \<open>The password is random: a parameter.\<close>

definition create_brainstorm_request_on_db ::
  "string \<Rightarrow> datetime \<Rightarrow> string \<Rightarrow> string \<Rightarrow> string \<Rightarrow> string option \<Rightarrow> json option \<Rightarrow> bool \<Rightarrow> bool \<Rightarrow> string
     \<Rightarrow> ledger \<Rightarrow> brainstorm_request \<times> ledger" where
  "create_brainstorm_request_on_db password db_now algorithm parameters pubkey preset_used params
     force_full_relay force_full_neo4j trigger_source l =
     (let row = \<lparr>br_private_id = next_request_id l, br_password = password, br_status = WAITING,
        br_status_ta_publication = WAITING, br_status_internal_publication = Some WAITING,
        br_count_values = None, br_error = None, br_parameters = parameters, br_algorithm = algorithm,
        br_pubkey = Some pubkey, br_graperank_preset_used = preset_used, br_graperank_params = params,
        br_publish_duration_seconds = None, br_trigger_source = trigger_source,
        br_force_full_relay = Some force_full_relay, br_force_full_neo4j = Some force_full_neo4j,
        br_created_at = db_now, br_updated_at = db_now\<rparr>
      in (row, l\<lparr>requests := requests l @ [row], next_request_id := next_request_id l + 1\<rparr>))"

section \<open>Whitelist snapshots\<close>

definition upsert_observer_whitelist_on_db ::
  "string \<Rightarrow> (string \<times> rat) list \<Rightarrow> int \<Rightarrow> datetime \<Rightarrow> ledger \<Rightarrow> ledger" where
  "upsert_observer_whitelist_on_db observer scores rid db_now l =
     (let row = \<lparr>ow_observer_pubkey = observer, ow_scores = scores, ow_last_request_id = Some rid, ow_updated_at = db_now\<rparr>
      in l\<lparr>whitelists := sql_upsert ow_observer_pubkey
             (\<lambda>w. w\<lparr>ow_scores := scores, ow_last_request_id := Some rid, ow_updated_at := db_now\<rparr>) row (whitelists l)\<rparr>)"

definition select_observer_whitelist_updated_at :: "string \<Rightarrow> ledger \<Rightarrow> datetime option" where
  "select_observer_whitelist_updated_at observer l =
     map_option ow_updated_at (lookup_by ow_observer_pubkey observer (whitelists l))"

definition select_whitelisted_pubkeys_of_observer :: "string \<Rightarrow> rat \<Rightarrow> ledger \<Rightarrow> string list" where
  "select_whitelisted_pubkeys_of_observer observer threshold l =
     (case lookup_by ow_observer_pubkey observer (whitelists l) of
        None \<Rightarrow> []
      | Some w \<Rightarrow> map fst (filter (\<lambda>e. snd e \<ge> threshold) (ow_scores w)))"

section \<open>Reads behind the metrics\<close>

definition count_published_successes_since_on_db :: "datetime \<Rightarrow> ledger \<Rightarrow> nat" where
  "count_published_successes_since_on_db since l =
     length (filter (\<lambda>r. br_status_ta_publication r = SUCCESS \<and> br_updated_at r \<ge> since) (requests l))"

definition publish_durations_since_on_db :: "datetime \<Rightarrow> ledger \<Rightarrow> rat list" where
  "publish_durations_since_on_db since l =
     List.map_filter (\<lambda>r. if br_updated_at r \<ge> since then br_publish_duration_seconds r else None) (requests l)"

text \<open>An outer join: a policy nobody is on yields one row with no user.\<close>

definition tier_users_on_db :: "ledger \<Rightarrow> (string \<times> int \<times> (string \<times> datetime option) option) list" where
  "tier_users_on_db l =
     concat (map (\<lambda>s.
       (let users = filter (\<lambda>n. bn_scheduling_id n = Some (sc_id s) \<or> (bn_scheduling_id n = None \<and> sc_is_default s))
              (nsecs (base l))
        in if users = [] then [(sc_name s, sc_schedule_interval_seconds s, None)]
           else map (\<lambda>n. (sc_name s, sc_schedule_interval_seconds s,
                          Some (bn_pubkey n, bn_last_time_published_graperank n))) users))
       (schedulings (base l)))"

definition scheduling_priorities_on_db :: "ledger \<Rightarrow> int list" where
  "scheduling_priorities_on_db l = rev (sort (remdups (map sc_priority (schedulings (base l)))))"

end
