(* ===== verification/Run_Requests.thy ===== *)
theory Run_Requests
  imports Run_Ledger
begin

text \<open>
  Asking for a run (\<^verbatim>\<open>app/services/brainstorm_request_service.py\<close>): which preset it runs
  under (\<^verbatim>\<open>graperank_preset_service.py\<close>, \<^verbatim>\<open>graperank_preset_repo.py\<close>), which designated keys
  ride along (\<^verbatim>\<open>designation_service.py\<close>), and the lane of the queue it goes to
  (\<^verbatim>\<open>scheduler_lanes.py\<close>). A session is as in billing: what its transaction sees, what is
  committed, how many commits were tried; beside it the messages pushed on every lane, in
  order, and the scheduler's count of what it admitted per lane.

  Parameters: the clocks of the server and of the database, Neo4j's count of a user's
  follows, the relay's answer for a user's designation, key material, a run's random
  password, pydantic's reading of preset parameters, and the faults of commits and pushes.
\<close>

section \<open>Sessions on the ledger\<close>

record run_session =
  rtx :: ledger
  rdurable :: ledger
  rcommits :: nat
  lanes :: "(string \<times> json) list"
  pushes :: nat
  admitted :: "int \<Rightarrow> int"

record run_env =
  scheduler_enabled :: bool
  scheduler_inflight_target :: int
  scheduler_fairness_enabled :: bool
  periodic_graperank_pubkey :: string
  full_sync_every_n_runs :: int
  run_utc_now :: datetime
  run_db_now :: datetime
  user_follows :: "string \<Rightarrow> (exn, nat) result"
  designation_event :: "string \<Rightarrow> (exn, (string \<times> json) list option) result"
  run_keys :: keygen
  run_password :: "int \<Rightarrow> string"
  preset_params :: "json \<Rightarrow> json option"
  iso :: "datetime \<Rightarrow> string"
  run_commit_fault :: "nat \<Rightarrow> exn option"
  push_fault :: "nat \<Rightarrow> exn option"

type_synonym 'a run_op = "(run_env, run_session, 'a) act"

definition read_run :: "(ledger \<Rightarrow> 'a) \<Rightarrow> 'a run_op" where
  "read_run f env w = (Inr (f (rtx w)), w)"

definition write_run :: "(ledger \<Rightarrow> ledger) \<Rightarrow> unit run_op" where
  "write_run f env w = (Inr (), w\<lparr>rtx := f (rtx w)\<rparr>)"

definition exec_run :: "(ledger \<Rightarrow> 'a \<times> ledger) \<Rightarrow> 'a run_op" where
  "exec_run f env w = (case f (rtx w) of (x, l) \<Rightarrow> (Inr x, w\<lparr>rtx := l\<rparr>))"

definition lift_result :: "(exn, 'a) result \<Rightarrow> 'a run_op" where
  "lift_result r env w = (r, w)"

definition run_commit :: "unit run_op" where
  "run_commit env w =
     (let w' = w\<lparr>rcommits := rcommits w + 1\<rparr> in
      case run_commit_fault env (rcommits w) of
        Some e \<Rightarrow> (Inl e, w')
      | None \<Rightarrow> (Inr (), w'\<lparr>rdurable := rtx w\<rparr>))"

definition run_rollback :: "unit run_op" where
  "run_rollback env w = (Inr (), w\<lparr>rtx := rdurable w\<rparr>)"

definition in_run_session :: "'a run_op \<Rightarrow> 'a run_op" where
  "in_run_session m =
     catch (op_bind m (\<lambda>x. op_bind run_commit (\<lambda>_. ret x))) (\<lambda>e. op_bind run_rollback (\<lambda>_. raise e))"

lemmas run_op_defs = ret_def raise_def op_bind_def catch_def asks_def op_when_def read_run_def write_run_def
  exec_run_def lift_result_def run_rollback_def

section \<open>Presets\<close>

datatype preset_template = PRESET_DEFAULT | PRESET_PERMISSIVE | PRESET_RESTRICTIVE | PRESET_CUSTOM

fun preset_value :: "preset_template \<Rightarrow> string" where
  "preset_value PRESET_DEFAULT = ''DEFAULT''"
| "preset_value PRESET_PERMISSIVE = ''PERMISSIVE''"
| "preset_value PRESET_RESTRICTIVE = ''RESTRICTIVE''"
| "preset_value PRESET_CUSTOM = ''CUSTOM''"

definition upper_char :: "char \<Rightarrow> char" where
  "upper_char c = (let n = (of_char c :: nat) in if 97 \<le> n \<and> n \<le> 122 then char_of (n - 32) else c)"

text \<open>\<^verbatim>\<open>raw.upper()\<close>, as far as a comparison with ASCII names can tell.\<close>

definition normalize_preset :: "string option \<Rightarrow> preset_template" where
  "normalize_preset raw =
     (case raw of
        None \<Rightarrow> PRESET_DEFAULT
      | Some s \<Rightarrow>
          let up = map upper_char s in
          if up = ''PERMISSIVE'' then PRESET_PERMISSIVE
          else if up = ''RESTRICTIVE'' then PRESET_RESTRICTIVE
          else if up = ''CUSTOM'' then PRESET_CUSTOM
          else PRESET_DEFAULT)"

definition get_graperank_preset_by_pubkey_on_db :: "string \<Rightarrow> db \<Rightarrow> string option" where
  "get_graperank_preset_by_pubkey_on_db pubkey d = Option.bind (nsec_of pubkey d) bn_graperank_preset"

definition get_graperank_custom_params_by_pubkey_on_db :: "string \<Rightarrow> db \<Rightarrow> json option" where
  "get_graperank_custom_params_by_pubkey_on_db pubkey d = Option.bind (nsec_of pubkey d) bn_graperank_custom_params"

definition get_preset_on_db :: "string \<Rightarrow> ledger \<Rightarrow> graperank_preset option" where
  "get_preset_on_db preset_id l = lookup_by gp_id preset_id (presets l)"

definition PRESET_MISSING :: "preset_template \<Rightarrow> exn" where
  "PRESET_MISSING preset = RuntimeError (''graperank_preset row missing for '' @ preset_value preset)"

definition validated_params :: "json \<Rightarrow> json run_op" where
  "validated_params raw env w =
     (case preset_params env raw of None \<Rightarrow> (Inl (ValueError []), w) | Some p \<Rightarrow> (Inr p, w))"

definition resolve_builtin :: "preset_template \<Rightarrow> (preset_template \<times> json) run_op" where
  "resolve_builtin preset =
     op_bind (read_run (get_preset_on_db (preset_value preset))) (\<lambda>row.
       case row of
         None \<Rightarrow> raise (PRESET_MISSING preset)
       | Some r \<Rightarrow> op_bind (validated_params (gp_params r)) (\<lambda>p. ret (preset, p)))"

definition resolve_preset_params :: "preset_template \<Rightarrow> string option \<Rightarrow> (preset_template \<times> json) run_op" where
  "resolve_preset_params preset pubkey =
     (if preset = PRESET_CUSTOM
      then (case pubkey of
              None \<Rightarrow> raise (ValueError ''pubkey is required to resolve CUSTOM preset'')
            | Some p \<Rightarrow>
                op_bind (read_run (\<lambda>l. get_graperank_custom_params_by_pubkey_on_db p (base l))) (\<lambda>custom.
                  case custom of
                    Some raw \<Rightarrow> op_bind (validated_params raw) (\<lambda>params. ret (preset, params))
                  | None \<Rightarrow> resolve_builtin PRESET_DEFAULT))
      else resolve_builtin preset)"

section \<open>Designated keys\<close>

definition is_hex :: "char \<Rightarrow> bool" where
  "is_hex c = (let n = (of_char c :: nat) in (48 \<le> n \<and> n \<le> 57) \<or> (97 \<le> n \<and> n \<le> 102))"

text \<open>\<^verbatim>\<open>^\d+(:.*)?$\<close>: \<open>.\<close> does not match a newline, and \<open>$\<close> also matches before a last one.\<close>

definition chomp :: "string \<Rightarrow> string" where
  "chomp s = (if s \<noteq> [] \<and> last s = CHR 0x0A then butlast s else s)"

definition designation_tag_name :: "string \<Rightarrow> bool" where
  "designation_tag_name s =
     (let s' = chomp s; digits = takeWhile is_digit s'; rest = dropWhile is_digit s' in
      digits \<noteq> []
      \<and> (rest = [] \<or> (hd rest = CHR '':'' \<and> CHR 0x0A \<notin> set rest)))"

definition hex_pubkey :: "string \<Rightarrow> bool" where
  "hex_pubkey s = (let s' = chomp s in length s' = 64 \<and> list_all is_hex s')"

definition lower_char :: "char \<Rightarrow> char" where
  "lower_char c = (let n = (of_char c :: nat) in if 65 \<le> n \<and> n \<le> 90 then char_of (n + 32) else c)"

definition designated_key :: "json list \<Rightarrow> string option" where
  "designated_key tag =
     (case tag of
        JStr name # JStr key # _ \<Rightarrow> if designation_tag_name name then Some (map lower_char key) else None
      | _ \<Rightarrow> None)"

fun collect_designated :: "string \<Rightarrow> json list list \<Rightarrow> string list \<Rightarrow> string list" where
  "collect_designated observer [] out = out"
| "collect_designated observer (tag # tags) out =
     (case designated_key tag of
        None \<Rightarrow> collect_designated observer tags out
      | Some pubkey \<Rightarrow>
          if \<not> hex_pubkey pubkey \<or> pubkey = observer \<or> pubkey \<in> set out
          then collect_designated observer tags out
          else collect_designated observer tags (out @ [pubkey]))"

definition parse_designated_pubkeys :: "json list list \<Rightarrow> string \<Rightarrow> string list" where
  "parse_designated_pubkeys tags observer = collect_designated observer tags []"

text \<open>\<^verbatim>\<open>event.get("tags") or []\<close>, iterated: a text or a dictionary has no list in it.\<close>

definition event_tags :: "(string \<times> json) list \<Rightarrow> (exn, json list list) result" where
  "event_tags event =
     (case get event ''tags'' of
        JList ts \<Rightarrow> Inr (List.map_filter (\<lambda>t. case t of JList xs \<Rightarrow> Some xs | _ \<Rightarrow> None) ts)
      | JStr _ \<Rightarrow> Inr []
      | JObj _ \<Rightarrow> Inr []
      | v \<Rightarrow> if truthy v then Inl TypeError else Inr [])"

definition fetch_designated_pubkeys :: "run_env \<Rightarrow> string \<Rightarrow> (exn, string list) result" where
  "fetch_designated_pubkeys env observer =
     (case designation_event env observer of
        Inl _ \<Rightarrow> Inr []
      | Inr None \<Rightarrow> Inr []
      | Inr (Some event) \<Rightarrow>
          result_bind (event_tags event) (\<lambda>tags. Inr (parse_designated_pubkeys tags observer)))"

section \<open>What a caller sees of a run\<close>

record graperank_error =
  ge_code :: string
  ge_message :: "string option"

definition ERROR_CODES :: "string list" where
  "ERROR_CODES = [''MALFORMED_PARAMS'', ''NO_ELIGIBLE_USERS'', ''UNKNOWN_RELATIONSHIP'', ''NEO4J_ERROR'',
     ''ALGORITHM_EXCEPTION'', ''WORKER_LOST'', ''RESULT_PAYLOAD_LOST'', ''UNKNOWN'']"

definition bucket_unknown_code :: "(string \<times> json) list \<Rightarrow> (string \<times> json) list" where
  "bucket_unknown_code data =
     (case get data ''code'' of
        JStr raw_code \<Rightarrow>
          if raw_code \<in> set ERROR_CODES then data
          else let existing = get data ''message'' in
            (''code'', JStr ''UNKNOWN'')
            # (''message'', if truthy existing then JStr (py_str existing @ '' ('' @ raw_code @ '')'') else JNull)
            # data
      | _ \<Rightarrow> data)"

text \<open>\<^verbatim>\<open>GrapeRankError.model_validate\<close>: an error of pydantic's is a \<^verbatim>\<open>ValueError\<close>.\<close>

definition validate_graperank_error :: "json \<Rightarrow> (exn, graperank_error) result" where
  "validate_graperank_error raw =
     (case raw of
        JObj d \<Rightarrow>
          (let data = bucket_unknown_code d in
           case (get data ''code'', get data ''message'') of
             (JStr c, JStr m) \<Rightarrow> if c \<in> set ERROR_CODES then Inr \<lparr>ge_code = c, ge_message = Some m\<rparr> else Inl (ValueError [])
           | (JStr c, JNull) \<Rightarrow> if c \<in> set ERROR_CODES then Inr \<lparr>ge_code = c, ge_message = None\<rparr> else Inl (ValueError [])
           | _ \<Rightarrow> Inl (ValueError []))
      | _ \<Rightarrow> Inl (ValueError []))"

record brainstorm_request_instance =
  bi_private_id :: int
  bi_status :: string
  bi_ta_status :: string
  bi_internal_publication_status :: "string option"
  bi_count_values :: "string option"
  bi_password :: string
  bi_algorithm :: string
  bi_parameters :: string
  bi_how_many_others_with_priority :: int
  bi_pubkey :: "string option"
  bi_trigger_source :: string
  bi_graperank_preset_used :: "string option"
  bi_graperank_params :: "json option"
  bi_error :: "graperank_error option"
  bi_created_at :: datetime
  bi_updated_at :: datetime

definition brainstorm_request_db_obj_to_schema_converter ::
  "brainstorm_request \<Rightarrow> int \<Rightarrow> bool \<Rightarrow> (exn, brainstorm_request_instance) result" where
  "brainstorm_request_db_obj_to_schema_converter r how_many is_admin =
     result_bind
       (case br_error r of
          None \<Rightarrow> Inr None
        | Some raw \<Rightarrow> result_bind (validate_graperank_error raw)
            (\<lambda>e. Inr (Some (if is_admin then e else e\<lparr>ge_message := None\<rparr>))))
       (\<lambda>error. Inr \<lparr>bi_private_id = br_private_id r, bi_status = br_status r,
          bi_ta_status = br_status_ta_publication r,
          bi_internal_publication_status = br_status_internal_publication r,
          bi_count_values = br_count_values r, bi_password = br_password r, bi_algorithm = br_algorithm r,
          bi_parameters = br_parameters r, bi_how_many_others_with_priority = how_many,
          bi_pubkey = br_pubkey r, bi_trigger_source = br_trigger_source r,
          bi_graperank_preset_used = br_graperank_preset_used r, bi_graperank_params = br_graperank_params r,
          bi_error = error, bi_created_at = br_created_at r, bi_updated_at = br_updated_at r\<rparr>)"

definition get_brainstorm_request_by_id :: "int \<Rightarrow> bool \<Rightarrow> ledger \<Rightarrow> (exn, brainstorm_request_instance) result" where
  "get_brainstorm_request_by_id rid is_admin l =
     result_bind (select_brainstorm_request_by_id_on_db rid l) (\<lambda>r.
       brainstorm_request_db_obj_to_schema_converter r
         (if br_status r \<noteq> WAITING then 0
          else count_brainstorm_requests_with_priority_over_one_on_db (br_private_id r) l)
         is_admin)"

definition delete_brainstorm_request_by_id :: "int \<Rightarrow> unit run_op" where
  "delete_brainstorm_request_by_id rid = op_bind (exec_run (delete_brainstorm_request_by_id_on_db rid)) lift_result"

section \<open>Lanes\<close>

definition DEFAULT_LANE :: string where "DEFAULT_LANE = ''message_queue''"
definition LANE_ADMIN :: string where "LANE_ADMIN = ''sched:admin''"
definition LANE_HOUSE :: string where "LANE_HOUSE = ''sched:house''"

definition LANE_SCHEDULED :: "int \<Rightarrow> string" where
  "LANE_SCHEDULED priority = ''sched:'' @ show_int priority"

definition resolve_scheduler_lane :: "bool \<Rightarrow> string \<Rightarrow> scheduling option \<Rightarrow> string" where
  "resolve_scheduler_lane enabled trigger_source policy =
     (if \<not> enabled then DEFAULT_LANE
      else if trigger_source = TRIGGER_ADMIN then LANE_ADMIN
      else if trigger_source = TRIGGER_PERIODIC then LANE_HOUSE
      else if trigger_source = TRIGGER_SCHEDULED
      then LANE_SCHEDULED (case policy of None \<Rightarrow> 0 | Some p \<Rightarrow> sc_priority p)
      else DEFAULT_LANE)"

definition opt_str :: "string option \<Rightarrow> json" where
  "opt_str s = (case s of None \<Rightarrow> JNull | Some v \<Rightarrow> JStr v)"

text \<open>\<^verbatim>\<open>instance.model_dump(mode="json")\<close>.\<close>

definition model_dump :: "(datetime \<Rightarrow> string) \<Rightarrow> brainstorm_request_instance \<Rightarrow> (string \<times> json) list" where
  "model_dump as_text i =
     [(''created_at'', JStr (as_text (bi_created_at i))), (''updated_at'', JStr (as_text (bi_updated_at i))),
      (''private_id'', JInt (bi_private_id i)), (''status'', JStr (bi_status i)),
      (''ta_status'', JStr (bi_ta_status i)),
      (''internal_publication_status'', opt_str (bi_internal_publication_status i)),
      (''count_values'', opt_str (bi_count_values i)), (''password'', JStr (bi_password i)),
      (''algorithm'', JStr (bi_algorithm i)), (''parameters'', JStr (bi_parameters i)),
      (''how_many_others_with_priority'', JInt (bi_how_many_others_with_priority i)),
      (''pubkey'', opt_str (bi_pubkey i)), (''trigger_source'', JStr (bi_trigger_source i)),
      (''graperank_preset_used'', opt_str (bi_graperank_preset_used i)),
      (''graperank_params'', case bi_graperank_params i of None \<Rightarrow> JNull | Some p \<Rightarrow> p),
      (''error'', case bi_error i of None \<Rightarrow> JNull
        | Some e \<Rightarrow> JObj [(''code'', JStr (ge_code e)), (''message'', opt_str (ge_message e))])]"

definition rpush :: "string \<Rightarrow> json \<Rightarrow> unit run_op" where
  "rpush lane message env w =
     (let w' = w\<lparr>pushes := pushes w + 1\<rparr> in
      case push_fault env (pushes w) of
        Some e \<Rightarrow> (Inl e, w')
      | None \<Rightarrow> (Inr (), w'\<lparr>lanes := lanes w @ [(lane, message)]\<rparr>))"

definition enqueue_calc_request ::
  "brainstorm_request_instance \<Rightarrow> string \<Rightarrow> string \<Rightarrow> string list \<Rightarrow> unit run_op" where
  "enqueue_calc_request inst pubkey trigger_source designated =
     op_bind (if trigger_source = TRIGGER_SCHEDULED
              then read_run (\<lambda>l. get_scheduling_for_pubkey_on_db pubkey (base l)) else ret None) (\<lambda>policy.
     op_bind (asks scheduler_enabled) (\<lambda>enabled.
     op_bind (asks iso) (\<lambda>as_text.
       rpush (resolve_scheduler_lane enabled trigger_source policy)
         (JObj (model_dump as_text inst
            @ (if designated \<noteq> [] then [(''designated_pubkeys'', JList (map JStr designated))] else []))))))"

section \<open>Creating a run\<close>

definition create_row ::
  "string \<Rightarrow> string \<Rightarrow> string \<Rightarrow> bool \<Rightarrow> bool \<Rightarrow> string \<Rightarrow> preset_template \<times> json \<Rightarrow> brainstorm_request run_op" where
  "create_row algorithm parameters pubkey force_full_relay force_full_neo4j trigger_source preset =
     op_bind (asks run_password) (\<lambda>password. op_bind (asks run_db_now) (\<lambda>db_now.
       exec_run (\<lambda>l. create_brainstorm_request_on_db (password (next_request_id l)) db_now algorithm parameters pubkey
         (Some (preset_value (fst preset))) (Some (snd preset)) force_full_relay force_full_neo4j trigger_source l)))"

definition fail_run :: "int \<Rightarrow> unit run_op" where
  "fail_run rid =
     op_bind (asks run_db_now) (\<lambda>db_now.
     op_bind (write_run (update_brainstorm_request_status_by_id_on_db rid FAILURE db_now)) (\<lambda>_. run_commit))"

definition touch_user :: "string \<Rightarrow> bool \<Rightarrow> unit run_op" where
  "touch_user parameters nsec_exists =
     op_bind (asks run_keys) (\<lambda>ks.
     op_bind (op_when (\<not> nsec_exists) (write_run (on_base
        (\<lambda>d. snd (get_or_create_brainstorm_observer_nsec_by_pubkey_on_db ks parameters d))))) (\<lambda>_.
     op_bind (asks run_utc_now) (\<lambda>utc.
       write_run (on_base (update_last_time_triggered_graperank_on_db parameters utc)))))"

definition create_brainstorm_request ::
  "string \<Rightarrow> string \<Rightarrow> string \<Rightarrow> bool \<Rightarrow> bool \<Rightarrow> bool \<Rightarrow> string \<Rightarrow> brainstorm_request_instance run_op" where
  "create_brainstorm_request algorithm parameters pubkey nsec_exists force_full_relay force_full_neo4j trigger_source =
     op_bind (\<lambda>env w. (fetch_designated_pubkeys env parameters, w)) (\<lambda>designated.
     op_bind (read_run (\<lambda>l. get_graperank_preset_by_pubkey_on_db parameters (base l))) (\<lambda>stored.
     op_bind (resolve_preset_params (normalize_preset stored) (Some parameters)) (\<lambda>preset.
     op_bind (create_row algorithm parameters pubkey force_full_relay force_full_neo4j trigger_source preset) (\<lambda>row.
     op_bind (read_run (count_brainstorm_requests_with_priority_over_one_on_db (br_private_id row))) (\<lambda>others.
     op_bind (lift_result (brainstorm_request_db_obj_to_schema_converter row others False)) (\<lambda>inst.
     op_bind (touch_user parameters nsec_exists) (\<lambda>_.
     op_bind run_commit (\<lambda>_.
     op_bind (catch (enqueue_calc_request inst parameters trigger_source designated)
                (\<lambda>e. op_bind (fail_run (bi_private_id inst)) (\<lambda>_. raise e))) (\<lambda>_.
       ret inst)))))))))"

section \<open>What creating a run leaves behind\<close>

lemma requests_on_base [simp]: "requests (on_base f l) = requests l"
  by (simp add: on_base_def)

lemma ledger_wf_on_base:
  assumes "ledger_wf l" "unique_on bn_pubkey (nsecs (f (base l)))"
  shows "ledger_wf (on_base f l)"
  using assms by (simp add: ledger_wf_def on_base_def)

lemma ledger_wf_update_requests:
  assumes "ledger_wf l" "\<And>r. br_private_id (f r) = br_private_id r"
  shows "ledger_wf (update_requests p db_now f l)"
  using assms
  by (auto simp: ledger_wf_def update_requests_def unique_on_def map_key_sql_update)
    (auto simp: sql_update_def)

definition triggered :: "run_env \<Rightarrow> string \<Rightarrow> bool \<Rightarrow> ledger \<Rightarrow> ledger" where
  "triggered env parameters nsec_exists l =
     on_base (update_last_time_triggered_graperank_on_db parameters (run_utc_now env))
       (if nsec_exists then l
        else on_base (\<lambda>d. snd (get_or_create_brainstorm_observer_nsec_by_pubkey_on_db (run_keys env) parameters d)) l)"

lemma touch_user_eq: "touch_user par ex env w = (Inr (), w\<lparr>rtx := triggered env par ex (rtx w)\<rparr>)"
  by (simp add: touch_user_def run_op_defs triggered_def)

lemma ledger_wf_triggered:
  assumes "ledger_wf l" shows "ledger_wf (triggered env par ex l)"
proof -
  have "unique_on bn_pubkey (nsecs (update_last_time_triggered_graperank_on_db par t d))"
    if "unique_on bn_pubkey (nsecs d)" for t d
    using that by (simp add: update_last_time_triggered_graperank_on_db_def update_nsec_def unique_on_def map_key_sql_update)
  moreover have "unique_on bn_pubkey (nsecs (snd (get_or_create_brainstorm_observer_nsec_by_pubkey_on_db ks par d)))"
    if "unique_on bn_pubkey (nsecs d)" for ks d
    using that by (auto simp: get_or_create_brainstorm_observer_nsec_by_pubkey_on_db_def nsec_of_def lookup_by_None
        fresh_nsec_def Let_def intro!: unique_on_append_new split: option.split)
  ultimately show ?thesis
    using assms unfolding triggered_def
    by (simp add: ledger_wf_on_base on_base_def ledger_wf_def)
qed

lemma resolve_preset_params_state: "snd (resolve_preset_params preset pubkey env w) = w"
  by (auto simp: resolve_preset_params_def resolve_builtin_def validated_params_def run_op_defs
      split: option.split prod.split sum.split)

definition new_row :: "run_env \<Rightarrow> string \<Rightarrow> string \<Rightarrow> string \<Rightarrow> bool \<Rightarrow> bool \<Rightarrow> string \<Rightarrow> preset_template \<times> json \<Rightarrow> ledger
    \<Rightarrow> brainstorm_request \<times> ledger" where
  "new_row env algorithm parameters pubkey fr fn t preset l =
     create_brainstorm_request_on_db (run_password env (next_request_id l)) (run_db_now env) algorithm parameters pubkey
       (Some (preset_value (fst preset))) (Some (snd preset)) fr fn t l"

lemma create_row_eq:
  "create_row algo par p fr fn t preset env w =
     (Inr (fst (new_row env algo par p fr fn t preset (rtx w))),
      w\<lparr>rtx := snd (new_row env algo par p fr fn t preset (rtx w))\<rparr>)"
  by (simp add: create_row_def new_row_def run_op_defs split: prod.split)

lemma enqueue_is_push: "\<exists>lane m. enqueue_calc_request inst par t ds env w = rpush lane m env w"
  by (cases "t = TRIGGER_SCHEDULED") (auto simp: enqueue_calc_request_def run_op_defs)

lemma enqueue_cases:
  obtains e where "enqueue_calc_request inst par t ds env w = (Inl e, w\<lparr>pushes := pushes w + 1\<rparr>)"
  | lane m where "enqueue_calc_request inst par t ds env w
      = (Inr (), w\<lparr>pushes := pushes w + 1, lanes := lanes w @ [(lane, m)]\<rparr>)"
proof -
  obtain lane m where "enqueue_calc_request inst par t ds env w = rpush lane m env w"
    using enqueue_is_push by blast
  then show ?thesis
    by (cases "push_fault env (pushes w)") (auto simp: rpush_def Let_def intro: that)
qed

text \<open>The four ways creating a run can end: before anything was committed, with the run
  queued, or with the run committed and the push refused, when it is failed, or, where that
  cannot be committed either, left waiting.\<close>

lemma create_cases:
  assumes run: "create_brainstorm_request algo par p ex fr fn t env w = (r, w')"
    and clean: "rtx w = rdurable w"
  obtains (refused) e where "r = Inl e" "rdurable w' = rdurable w"
  | (queued) preset inst lane m l where "r = Inr inst" "l = triggered env par ex (snd (new_row env algo par p fr fn t preset (rdurable w)))"
      "rtx w' = l" "rdurable w' = l" "lanes w' = lanes w @ [(lane, m)]" "admitted w' = admitted w"
  | (unqueued) preset e l where "r = Inl e" "l = triggered env par ex (snd (new_row env algo par p fr fn t preset (rdurable w)))"
      "rdurable w' = l \<or> rdurable w'
         = update_brainstorm_request_status_by_id_on_db (br_private_id (fst (new_row env algo par p fr fn t preset (rdurable w))))
             FAILURE (run_db_now env) l"
proof -
  show ?thesis
  proof (cases "fetch_designated_pubkeys env par")
    case (Inl e)
    with run show ?thesis by (intro refused) (auto simp: create_brainstorm_request_def run_op_defs)
  next
    case (Inr ds)
    let ?res = "resolve_preset_params (normalize_preset (get_graperank_preset_by_pubkey_on_db par (base (rtx w)))) (Some par) env w"
    show ?thesis
    proof (cases "fst ?res")
      case (Inl e)
      then have "?res = (Inl e, w)" using resolve_preset_params_state by (metis prod.collapse)
      with run Inr show ?thesis by (intro refused) (auto simp: create_brainstorm_request_def run_op_defs)
    next
      case (Inr preset)
      note ds = \<open>fetch_designated_pubkeys env par = Inr ds\<close>
      from Inr have res: "?res = (Inr preset, w)" using resolve_preset_params_state by (metis prod.collapse)
      let ?row = "fst (new_row env algo par p fr fn t preset (rdurable w))"
      let ?l = "snd (new_row env algo par p fr fn t preset (rdurable w))"
      let ?l' = "triggered env par ex ?l"
      have err: "br_error ?row = None"
        by (simp add: new_row_def create_brainstorm_request_on_db_def Let_def)
      obtain inst where inst: "brainstorm_request_db_obj_to_schema_converter ?row
          (count_brainstorm_requests_with_priority_over_one_on_db (br_private_id ?row) ?l) False = Inr inst"
        and id: "bi_private_id inst = br_private_id ?row"
        by (simp add: brainstorm_request_db_obj_to_schema_converter_def err)
      show ?thesis
      proof (cases "run_commit_fault env (rcommits w)")
        case (Some e)
        with run ds res inst show ?thesis
          by (intro refused [of e])
            (auto simp: create_brainstorm_request_def op_bind_def create_row_eq touch_user_eq read_run_def
              lift_result_def run_commit_def clean Let_def)
      next
        case None
        let ?w = "w\<lparr>rtx := ?l', rcommits := rcommits w + 1, rdurable := ?l'\<rparr>"
        have tail: "(r, w') = (case catch (enqueue_calc_request inst par t ds)
            (\<lambda>e. op_bind (fail_run (bi_private_id inst)) (\<lambda>_. raise e)) env ?w of
             (Inl e, v) \<Rightarrow> (Inl e, v) | (Inr _, v) \<Rightarrow> ret inst env v)"
          using run ds res inst None
          by (simp add: create_brainstorm_request_def op_bind_def create_row_eq touch_user_eq read_run_def
              lift_result_def run_commit_def clean Let_def)
        show ?thesis
        proof (cases rule: enqueue_cases [of inst par t ds env ?w])
          case (1 e)
          with tail id show ?thesis
            by (cases "run_commit_fault env (rcommits w + 1)")
              (auto simp: catch_def op_bind_def fail_run_def asks_def write_run_def run_commit_def raise_def Let_def
                intro: unqueued)
        next
          case (2 lane m)
          with tail show ?thesis by (intro queued [of inst ?l' preset lane m]) (auto simp: catch_def ret_def)
        qed
      qed
    qed
  qed
qed

text \<open>\<open>gains ps t l rows l'\<close>: the ledger gained the runs \<open>rows\<close>, of users \<open>ps\<close> and source \<open>t\<close>.\<close>

definition gains :: "string list \<Rightarrow> string \<Rightarrow> ledger \<Rightarrow> brainstorm_request list \<Rightarrow> ledger \<Rightarrow> bool" where
  "gains ps t l rows l' \<longleftrightarrow>
     requests l' = requests l @ rows \<and> ledger_wf l' \<and> map br_pubkey rows = map Some ps
     \<and> (\<forall>row\<in>set rows. br_trigger_source row = t)"

lemma gains_refl: "ledger_wf l \<Longrightarrow> gains [] t l [] l"
  by (simp add: gains_def)

lemma gains_trans: "gains ps t l rows l' \<Longrightarrow> gains qs t l' rows' l'' \<Longrightarrow> gains (ps @ qs) t l (rows @ rows') l''"
  by (auto simp: gains_def)

lemma requests_triggered [simp]: "requests (triggered env par ex l) = requests l"
  by (simp add: triggered_def)

lemma new_row_facts:
  "requests (snd (new_row env algo par p fr fn t preset l)) = requests l @ [fst (new_row env algo par p fr fn t preset l)]"
  "br_private_id (fst (new_row env algo par p fr fn t preset l)) = next_request_id l"
  "br_pubkey (fst (new_row env algo par p fr fn t preset l)) = Some p"
  "br_trigger_source (fst (new_row env algo par p fr fn t preset l)) = t"
  "next_request_id (snd (new_row env algo par p fr fn t preset l)) = next_request_id l + 1"
  "base (snd (new_row env algo par p fr fn t preset l)) = base l"
  by (simp_all add: new_row_def create_brainstorm_request_on_db_def Let_def)

lemma new_row_gains:
  assumes "ledger_wf l"
  shows "gains [p] t l [fst (new_row env algo par p fr fn t preset l)]
    (triggered env par ex (snd (new_row env algo par p fr fn t preset l)))"
proof -
  have "ledger_wf (snd (new_row env algo par p fr fn t preset l))"
    using assms by (force simp: new_row_facts ledger_wf_def unique_on_def)
  then show ?thesis by (simp add: gains_def ledger_wf_triggered new_row_facts)
qed

lemma fail_new_row_gains:
  assumes wf: "ledger_wf l" and g: "gains [p] t l [row] l'" and id: "br_private_id row = next_request_id l"
  shows "\<exists>row'. gains [p] t l [row'] (update_brainstorm_request_status_by_id_on_db (br_private_id row) FAILURE db_now l')"
proof -
  let ?f = "\<lambda>r. r\<lparr>br_status := FAILURE, br_updated_at := db_now\<rparr>"
  let ?l = "update_brainstorm_request_status_by_id_on_db (br_private_id row) FAILURE db_now l'"
  have "br_private_id r \<noteq> br_private_id row" if "r \<in> set (requests l)" for r
    using wf id that by (auto simp: ledger_wf_def)
  then have "map (\<lambda>r. if br_private_id r = br_private_id row then ?f r else r) (requests l) = requests l"
    by (intro map_idI) auto
  then have "requests ?l = requests l @ [?f row]"
    using g by (simp add: gains_def update_brainstorm_request_status_by_id_on_db_def update_requests_def sql_update_def)
  moreover have "ledger_wf ?l"
    unfolding update_brainstorm_request_status_by_id_on_db_def
    by (rule ledger_wf_update_requests) (use g in \<open>auto simp: gains_def\<close>)
  ultimately have "gains [p] t l [?f row] ?l" using g by (simp add: gains_def)
  then show ?thesis ..
qed

lemma create_gains:
  assumes run: "create_brainstorm_request algo par p ex fr fn t env w = (r, w')"
    and clean: "rtx w = rdurable w" and wf: "ledger_wf (rdurable w)"
  obtains (refused) e where "r = Inl e" "rdurable w' = rdurable w"
  | (unqueued) e row where "r = Inl e" "gains [p] t (rdurable w) [row] (rdurable w')"
  | (queued) inst row where "r = Inr inst" "gains [p] t (rdurable w) [row] (rdurable w')"
      "rtx w' = rdurable w'" "admitted w' = admitted w"
proof (cases rule: create_cases [OF run clean])
  case (1 e) then show ?thesis by (rule refused)
next
  case (2 preset inst lane m l)
  from new_row_gains [OF wf, of p t env algo par fr fn preset ex] 2 show ?thesis by (intro queued) simp_all
next
  case (3 preset e l)
  let ?row = "fst (new_row env algo par p fr fn t preset (rdurable w))"
  have g: "gains [p] t (rdurable w) [?row] l" using new_row_gains [OF wf] 3 by simp
  have id: "br_private_id ?row = next_request_id (rdurable w)"
    by (simp add: new_row_facts)
  from fail_new_row_gains [OF wf g id, of "run_db_now env"] 3 g show ?thesis by (elim exE disjE) (auto intro: unqueued)
qed

end
