(* ===== verification/Result_Stages.thy ===== *)
theory Result_Stages
  imports Run_Requests
begin

text \<open>
  What the server does with a worker's answer to a run, up to publishing it: the tiers a
  score falls in (\<^verbatim>\<open>app/core/tier_thresholds.py\<close>, \<^verbatim>\<open>app/services/verified_cutoffs.py\<close>), the
  stage that records the result and the stages' closing of a lost message
  (\<^verbatim>\<open>app/message_queue_tasks/message_queue_consumer.py\<close>,
  \<^verbatim>\<open>set_brainstorm_request_as_ongoing.py\<close>), and the life of a run under all of them and the
  reaper (\<^verbatim>\<open>app/cronjobs/fail_stale_ongoing_brainstorm_requests.py\<close>).

  A result has the shape \<^verbatim>\<open>app/models/grapeRankResult.py\<close> documents; a field read with
  \<^verbatim>\<open>.get\<close> is an option. A float is a rational, and \<^verbatim>\<open>round(x, 2)\<close> its nearest hundredth.
  Pydantic's reading of preset parameters is a parameter.
\<close>

section \<open>Scorecards\<close>

record scorecard =
  card_observer :: string
  card_observee :: string
  card_influence :: rat
  card_hops :: rat
  card_trusted_followers :: "rat option"
  card_trusted_reporters :: "rat option"
  card_trusted_muters :: "rat option"

text \<open>The scorecards are a dictionary: None where the key is absent or null.\<close>

record graperank_result =
  gr_scorecards :: "(string \<times> scorecard) list option"
  gr_success :: bool
  gr_changed :: "string list"
  gr_neo4j_write :: "string list option"
  gr_neo4j_clear :: "string list"
  gr_neo4j_floor :: "rat option"
  gr_error :: "json option"

definition cards_of :: "graperank_result \<Rightarrow> (string \<times> scorecard) list" where
  "cards_of g = (case gr_scorecards g of None \<Rightarrow> [] | Some d \<Rightarrow> d)"

text \<open>Python's \<^verbatim>\<open>int\<close> of a number, and \<^verbatim>\<open>round\<close>, which goes to the even one of two equally
  near.\<close>

definition trunc :: "rat \<Rightarrow> int" where
  "trunc x = (if x < 0 then \<lceil>x\<rceil> else \<lfloor>x\<rfloor>)"

definition round_even :: "rat \<Rightarrow> int" where
  "round_even x =
     (let f = \<lfloor>x\<rfloor>; d = x - of_int f
      in if d < 1 / 2 then f else if d > 1 / 2 then f + 1 else if even f then f else f + 1)"

definition round2 :: "rat \<Rightarrow> rat" where
  "round2 x = of_int (round_even (100 * x)) / 100"

lemma round_even_mono: "x \<le> y \<Longrightarrow> round_even x \<le> round_even y"
proof -
  assume xy: "x \<le> y"
  then have f: "\<lfloor>x\<rfloor> \<le> \<lfloor>y\<rfloor>" by (rule floor_mono)
  show ?thesis
  proof (cases "\<lfloor>x\<rfloor> = \<lfloor>y\<rfloor>")
    case True
    then show ?thesis using xy by (auto simp: round_even_def Let_def)
  next
    case False
    with f have "\<lfloor>x\<rfloor> + 1 \<le> \<lfloor>y\<rfloor>" by linarith
    moreover have "round_even x \<le> \<lfloor>x\<rfloor> + 1" "\<lfloor>y\<rfloor> \<le> round_even y" by (auto simp: round_even_def Let_def)
    ultimately show ?thesis by linarith
  qed
qed

lemma round2_mono: "x \<le> y \<Longrightarrow> round2 x \<le> round2 y"
  by (simp add: round2_def divide_right_mono round_even_mono)

section \<open>Tiers\<close>

definition TIER_HIGH :: rat where "TIER_HIGH = 50 / 100"
definition TIER_MEDIUM_HIGH :: rat where "TIER_MEDIUM_HIGH = 20 / 100"
definition TIER_MEDIUM :: rat where "TIER_MEDIUM = 7 / 100"
definition DEFAULT_VERIFIED_THRESHOLD :: rat where "DEFAULT_VERIFIED_THRESHOLD = 2 / 100"

definition FLAGGED_TIER :: string where
  "FLAGGED_TIER = ''low_and_reported_by_2_or_more_trusted_pubkeys''"

definition TIER_NAMES :: "string list" where
  "TIER_NAMES = [''high'', ''medium_high'', ''medium'', ''medium_low'', ''low'', FLAGGED_TIER]"

definition classify_tier :: "rat option \<Rightarrow> rat \<Rightarrow> rat \<Rightarrow> string" where
  "classify_tier influence trusted_reporters verified_line =
     (case influence of
        Some i \<Rightarrow>
          if i > verified_line then
            if i \<ge> TIER_HIGH then ''high''
            else if i \<ge> TIER_MEDIUM_HIGH then ''medium_high''
            else if i \<ge> TIER_MEDIUM then ''medium''
            else ''medium_low''
          else if trusted_reporters \<ge> 2 then FLAGGED_TIER else ''low''
      | None \<Rightarrow> if trusted_reporters \<ge> 2 then FLAGGED_TIER else ''low'')"

lemma classify_tier_name: "classify_tier i t v \<in> set TIER_NAMES"
  by (auto simp: classify_tier_def TIER_NAMES_def split: option.split)

text \<open>The same bands as the read endpoints' queries state them (\<^verbatim>\<open>_TIER_PREDICATES\<close> of
  \<^verbatim>\<open>app/repos/user_repo.py\<close>), one condition per tier on a node's stored influence and its
  verified reporters.\<close>

definition verified_above :: "rat option \<Rightarrow> rat \<Rightarrow> bool" where
  "verified_above influence line \<longleftrightarrow> (case influence of None \<Rightarrow> False | Some i \<Rightarrow> i > line)"

definition unverified :: "rat option \<Rightarrow> rat \<Rightarrow> bool" where
  "unverified influence line \<longleftrightarrow> (case influence of None \<Rightarrow> True | Some i \<Rightarrow> i \<le> line)"

definition TIER_PREDICATES :: "(string \<times> (rat option \<Rightarrow> rat \<Rightarrow> rat \<Rightarrow> bool)) list" where
  "TIER_PREDICATES =
     [(''high'', \<lambda>influence tr line. verified_above influence line \<and> the influence \<ge> TIER_HIGH),
      (''medium_high'', \<lambda>influence tr line. verified_above influence line \<and> the influence \<ge> TIER_MEDIUM_HIGH \<and> the influence < TIER_HIGH),
      (''medium'', \<lambda>influence tr line. verified_above influence line \<and> the influence \<ge> TIER_MEDIUM \<and> the influence < TIER_MEDIUM_HIGH),
      (''medium_low'', \<lambda>influence tr line. verified_above influence line \<and> the influence < TIER_MEDIUM),
      (''low'', \<lambda>influence tr line. unverified influence line \<and> tr < 2),
      (FLAGGED_TIER, \<lambda>influence tr line. unverified influence line \<and> tr \<ge> 2)]"

text \<open>Exactly the tier the result writer counts a subject under has its condition true.\<close>

lemma classify_tier_cypher:
  assumes "(tier, condition) \<in> set TIER_PREDICATES"
  shows "condition influence tr line \<longleftrightarrow> classify_tier influence tr line = tier"
proof -
  have "list_all (\<lambda>(tier, condition). condition influence tr line \<longleftrightarrow> classify_tier influence tr line = tier) TIER_PREDICATES"
    by (cases influence) (simp_all add: TIER_PREDICATES_def classify_tier_def verified_above_def unverified_def FLAGGED_TIER_def
        TIER_HIGH_def TIER_MEDIUM_HIGH_def TIER_MEDIUM_def)
  then show ?thesis using assms by (auto simp: list_all_iff)
qed

record verified_cutoffs =
  vc_follower :: rat
  vc_muter :: rat
  vc_reporter :: rat

definition verified_line :: "verified_cutoffs \<Rightarrow> rat" where
  "verified_line c = vc_follower c"

definition KIND_TO_CUTOFF :: "(string \<times> (verified_cutoffs \<Rightarrow> rat)) list" where
  "KIND_TO_CUTOFF = [(''followed_by'', vc_follower), (''following'', vc_follower), (''muted_by'', vc_muter),
     (''muting'', vc_follower), (''reported_by'', vc_reporter), (''reporting'', vc_follower)]"

definition for_kind :: "verified_cutoffs \<Rightarrow> string \<Rightarrow> (exn, rat) result" where
  "for_kind c kind = (case map_of KIND_TO_CUTOFF kind of None \<Rightarrow> Inl KeyError | Some f \<Rightarrow> Inr (f c))"

definition as_kind_map :: "verified_cutoffs \<Rightarrow> (string \<times> rat) list" where
  "as_kind_map c = map (\<lambda>(kind, f). (kind, f c)) KIND_TO_CUTOFF"

definition FALLBACK_VERIFIED_CUTOFFS :: verified_cutoffs where
  "FALLBACK_VERIFIED_CUTOFFS = \<lparr>vc_follower = DEFAULT_VERIFIED_THRESHOLD, vc_muter = 1 / 100, vc_reporter = 10 / 100\<rparr>"

text \<open>\<open>cutoffs\<close> is \<^verbatim>\<open>build_cutoffs_from_params(GrapeRankPresetParams(**params))\<close>: None where
  pydantic refuses the parameters.\<close>

definition verified_line_for_run :: "(json \<Rightarrow> verified_cutoffs option) \<Rightarrow> brainstorm_request \<Rightarrow> rat" where
  "verified_line_for_run cutoffs row =
     (case br_graperank_params row of
        None \<Rightarrow> DEFAULT_VERIFIED_THRESHOLD
      | Some params \<Rightarrow>
          if \<not> truthy params then DEFAULT_VERIFIED_THRESHOLD
          else (case cutoffs params of
                  None \<Rightarrow> DEFAULT_VERIFIED_THRESHOLD
                | Some c \<Rightarrow> verified_line c))"

section \<open>Counting a run's scorecards\<close>

text \<open>\<^verbatim>\<open>d[k] = f(d.get(k, x))\<close> on a dictionary: in place, or at the end.\<close>

fun dict_update :: "'k \<Rightarrow> 'v \<Rightarrow> ('v \<Rightarrow> 'v) \<Rightarrow> ('k \<times> 'v) list \<Rightarrow> ('k \<times> 'v) list" where
  "dict_update k x f [] = [(k, f x)]"
| "dict_update k x f ((k', v) # d) = (if k' = k then (k, f v) # d else (k', v) # dict_update k x f d)"

lemma map_of_dict_update:
  "map_of (dict_update k x f d) = (map_of d)(k \<mapsto> f (case map_of d k of None \<Rightarrow> x | Some v \<Rightarrow> v))"
  by (induction d) (auto simp: fun_eq_iff)

lemma keys_dict_update: "fst ` set (dict_update k x f d) = insert k (fst ` set d)"
  by (induction k x f d rule: dict_update.induct) (simp_all add: insert_commute)

lemma distinct_dict_update: "distinct (map fst d) \<Longrightarrow> distinct (map fst (dict_update k x f d))"
proof (induction d)
  case (Cons p d)
  then show ?case using keys_dict_update [of k x f d] by (cases p) (auto simp: image_iff)
qed simp

type_synonym counts = "(string \<times> (int \<times> nat) list) list"

definition empty_counts :: counts where
  "empty_counts = map (\<lambda>name. (name, [])) TIER_NAMES"

definition card_tier :: "rat \<Rightarrow> scorecard \<Rightarrow> string" where
  "card_tier line c =
     classify_tier (Some (card_influence c)) (case card_trusted_reporters c of None \<Rightarrow> 0 | Some n \<Rightarrow> n) line"

definition bucket_card :: "rat \<Rightarrow> rat \<Rightarrow> scorecard \<Rightarrow> counts \<times> (string \<times> rat) list \<Rightarrow> counts \<times> (string \<times> rat) list" where
  "bucket_card cutoff line c acc =
     (dict_update (card_tier line c) [] (dict_update (trunc (card_hops c)) 0 Suc) (fst acc),
      (let rounded = round2 (card_influence c)
       in if rounded \<ge> cutoff then dict_update (card_observee c) rounded (\<lambda>_. rounded) (snd acc) else snd acc))"

definition bucket_scorecards_by_confidence_and_hops ::
  "rat \<Rightarrow> (string \<times> scorecard) list \<Rightarrow> rat \<Rightarrow> counts \<times> (string \<times> rat) list" where
  "bucket_scorecards_by_confidence_and_hops cutoff cards line =
     fold (bucket_card cutoff line) (map snd cards) (empty_counts, [])"

text \<open>The number under a tier and a distance.\<close>

definition count_at :: "counts \<Rightarrow> string \<Rightarrow> int \<Rightarrow> nat" where
  "count_at d tier hops =
     (case map_of d tier of None \<Rightarrow> 0 | Some by_hops \<Rightarrow> (case map_of by_hops hops of None \<Rightarrow> 0 | Some n \<Rightarrow> n))"

lemma count_at_bucket_card:
  "count_at (fst (bucket_card cutoff line c acc)) tier hops =
     count_at (fst acc) tier hops + of_bool (card_tier line c = tier \<and> trunc (card_hops c) = hops)"
  by (auto simp: count_at_def bucket_card_def map_of_dict_update split: option.splits)

lemma whitelist_bucket_card:
  "map_of (snd (bucket_card cutoff line c acc)) =
     (if round2 (card_influence c) \<ge> cutoff then (map_of (snd acc))(card_observee c \<mapsto> round2 (card_influence c))
      else map_of (snd acc))"
  by (simp add: bucket_card_def map_of_dict_update Let_def)

lemma tiers_bucket_card:
  assumes "map fst (fst acc) = TIER_NAMES"
  shows "map fst (fst (bucket_card cutoff line c acc)) = TIER_NAMES"
proof -
  have "map fst (dict_update k x f d) = map fst d" if "k \<in> fst ` set d" for k x f and d :: counts
    using that
  proof (induction d)
    case (Cons p d)
    then show ?case by (cases p) (force simp: image_iff)
  qed simp
  then show ?thesis using assms classify_tier_name by (metis bucket_card_def card_tier_def fst_conv image_set)
qed

text \<open>Every scorecard is counted once, under its tier and distance; the whitelist has the last
  card of each observee that is at or above the cutoff.\<close>

lemma bucket_spec:
  fixes cards :: "(string \<times> scorecard) list"
  shows "map fst (fst (bucket_scorecards_by_confidence_and_hops cutoff cards line)) = TIER_NAMES"
    "count_at (fst (bucket_scorecards_by_confidence_and_hops cutoff cards line)) tier hops
       = length (filter (\<lambda>(_, c). card_tier line c = tier \<and> trunc (card_hops c) = hops) cards)"
    "map_of (snd (bucket_scorecards_by_confidence_and_hops cutoff cards line))
       = map_of (rev (map (\<lambda>(_, c). (card_observee c, round2 (card_influence c)))
           (filter (\<lambda>(_, c). round2 (card_influence c) \<ge> cutoff) cards)))"
proof (induction cards rule: rev_induct)
  case Nil
  show "map fst (fst (bucket_scorecards_by_confidence_and_hops cutoff [] line)) = TIER_NAMES"
    by (simp add: bucket_scorecards_by_confidence_and_hops_def empty_counts_def comp_def)
  show "count_at (fst (bucket_scorecards_by_confidence_and_hops cutoff [] line)) tier hops
       = length (filter (\<lambda>(_, c). card_tier line c = tier \<and> trunc (card_hops c) = hops) [])"
    by (simp add: bucket_scorecards_by_confidence_and_hops_def count_at_def empty_counts_def TIER_NAMES_def)
  show "map_of (snd (bucket_scorecards_by_confidence_and_hops cutoff [] line))
       = map_of (rev (map (\<lambda>(_, c). (card_observee c, round2 (card_influence c)))
           (filter (\<lambda>(_, c). round2 (card_influence c) \<ge> cutoff) [])))"
    by (simp add: bucket_scorecards_by_confidence_and_hops_def)
next
  case (snoc p cards)
  obtain k c where p: "p = (k, c)" by (cases p)
  let ?b = "bucket_scorecards_by_confidence_and_hops cutoff cards line"
  have step: "bucket_scorecards_by_confidence_and_hops cutoff (cards @ [p]) line = bucket_card cutoff line c ?b"
    by (simp add: bucket_scorecards_by_confidence_and_hops_def p)
  show "map fst (fst (bucket_scorecards_by_confidence_and_hops cutoff (cards @ [p]) line)) = TIER_NAMES"
    unfolding step by (rule tiers_bucket_card [OF snoc(1)])
  show "count_at (fst (bucket_scorecards_by_confidence_and_hops cutoff (cards @ [p]) line)) tier hops
       = length (filter (\<lambda>(_, c). card_tier line c = tier \<and> trunc (card_hops c) = hops) (cards @ [p]))"
    unfolding step count_at_bucket_card snoc(2) by (simp add: p)
  show "map_of (snd (bucket_scorecards_by_confidence_and_hops cutoff (cards @ [p]) line))
       = map_of (rev (map (\<lambda>(_, c). (card_observee c, round2 (card_influence c)))
           (filter (\<lambda>(_, c). round2 (card_influence c) \<ge> cutoff) (cards @ [p]))))"
    unfolding step whitelist_bucket_card snoc(3) by (simp add: p)
qed

text \<open>\<^verbatim>\<open>json.dumps\<close> of the counts.\<close>

definition dump_counts :: "counts \<Rightarrow> string" where
  "dump_counts d =
     ''{'' @ join_with '', '' (map (\<lambda>(tier, by_hops).
        CHR 0x22 # tier @ [CHR 0x22] @ '': {'' @ join_with '', '' (map (\<lambda>(hops, n).
          CHR 0x22 # show_int hops @ [CHR 0x22] @ '': '' @ show_nat n) by_hops) @ ''}'') d) @ ''}''"

section \<open>The stages' sessions\<close>

definition dumped_graperank_error :: "graperank_error \<Rightarrow> json" where
  "dumped_graperank_error e =
     JObj [(''code'', JStr (ge_code e)), (''message'', case ge_message e of None \<Rightarrow> JNull | Some m \<Rightarrow> JStr m)]"

text \<open>\<^verbatim>\<open>GrapeRankError.model_validate(error).model_dump() if error else None\<close>.\<close>

definition result_error :: "json option \<Rightarrow> (exn, json option) result" where
  "result_error raw =
     (case raw of
        None \<Rightarrow> Inr None
      | Some e \<Rightarrow>
          if truthy e then result_bind (validate_graperank_error e) (\<lambda>v. Inr (Some (dumped_graperank_error v)))
          else Inr None)"

definition result_status :: "graperank_result \<Rightarrow> string" where
  "result_status g = (if gr_success g then SUCCESS else FAILURE)"

text \<open>The observer of the first scorecard.\<close>

definition result_observer :: "graperank_result \<Rightarrow> string option" where
  "result_observer g = (case cards_of g of [] \<Rightarrow> None | (_, c) # _ \<Rightarrow> Some (card_observer c))"

text \<open>A statement that takes the database's clock.\<close>

definition stamped :: "(datetime \<Rightarrow> ledger \<Rightarrow> ledger) \<Rightarrow> unit run_op" where
  "stamped f = op_bind (asks run_db_now) (\<lambda>db_now. write_run (f db_now))"

definition on_user :: "string option \<Rightarrow> (string \<Rightarrow> unit run_op) \<Rightarrow> unit run_op" where
  "on_user pubkey f = (case pubkey of None \<Rightarrow> ret () | Some p \<Rightarrow> op_when (p \<noteq> []) (f p))"

definition record_result :: "(json \<Rightarrow> verified_cutoffs option) \<Rightarrow> rat \<Rightarrow> int \<Rightarrow> graperank_result \<Rightarrow> unit run_op" where
  "record_result cutoffs cutoff rid g =
     op_bind (read_run (select_brainstorm_request_by_id_on_db rid)) (\<lambda>found.
     op_bind (lift_result found) (\<lambda>row.
     let (counts, whitelist) =
           bucket_scorecards_by_confidence_and_hops cutoff (cards_of g) (verified_line_for_run cutoffs row) in
     op_bind (lift_result (result_error (gr_error g))) (\<lambda>error.
     op_bind (stamped (update_brainstorm_request_result_by_id_on_db rid (dump_counts counts) (result_status g) error)) (\<lambda>_.
     op_bind (op_when (result_status g = FAILURE)
       (op_bind (stamped (update_brainstorm_request_ta_status_by_id_on_db rid FAILURE)) (\<lambda>_.
          stamped (update_brainstorm_request_internal_publication_status_by_id_on_db rid FAILURE)))) (\<lambda>_.
     op_bind (op_when (result_status g = SUCCESS \<and> cards_of g \<noteq> [])
       (on_user (result_observer g) (\<lambda>p. stamped (upsert_observer_whitelist_on_db p whitelist rid)))) (\<lambda>_.
       on_user (result_observer g)
         (\<lambda>p. op_bind (asks run_utc_now) (\<lambda>utc. write_run (on_base (update_last_time_calculated_graperank_on_db p utc))))))))))"

definition committed :: "unit run_op \<Rightarrow> unit run_op" where
  "committed m = in_run_session (op_bind m (\<lambda>_. run_commit))"

definition process_message :: "(json \<Rightarrow> verified_cutoffs option) \<Rightarrow> rat \<Rightarrow> int \<Rightarrow> graperank_result \<Rightarrow> unit run_op" where
  "process_message cutoffs cutoff rid g = committed (record_result cutoffs cutoff rid g)"

definition process_job_started_message :: "int \<Rightarrow> unit run_op" where
  "process_job_started_message rid =
     committed (stamped (update_brainstorm_request_result_by_id_on_db rid [] ONGOING None))"

definition fail_result_stage :: "int \<Rightarrow> string \<Rightarrow> unit run_op" where
  "fail_result_stage rid reason =
     committed (stamped (update_brainstorm_request_result_by_id_on_db rid (dump_counts empty_counts) FAILURE
       (Some (dumped_graperank_error \<lparr>ge_code = ''RESULT_PAYLOAD_LOST'', ge_message = Some reason\<rparr>))))"

definition fail_ta_stage :: "int \<Rightarrow> unit run_op" where
  "fail_ta_stage rid =
     committed (stamped (update_brainstorm_request_ta_status_by_id_on_db rid FAILURE))"

definition fail_neo4j_stage :: "int \<Rightarrow> unit run_op" where
  "fail_neo4j_stage rid =
     committed (stamped (update_brainstorm_request_internal_publication_status_by_id_on_db rid FAILURE))"

section \<open>What recording a result leaves\<close>

text \<open>The ledger after the statements of \<^verbatim>\<open>process_message\<close>.\<close>

definition recorded ::
  "run_env \<Rightarrow> int \<Rightarrow> counts \<times> (string \<times> rat) list \<Rightarrow> json option \<Rightarrow> graperank_result \<Rightarrow> ledger \<Rightarrow> ledger" where
  "recorded env rid buckets error g l =
     (let now = run_db_now env;
          l1 = update_brainstorm_request_result_by_id_on_db rid (dump_counts (fst buckets)) (result_status g) error now l;
          l2 = (if result_status g = FAILURE
                then update_brainstorm_request_internal_publication_status_by_id_on_db rid FAILURE now
                       (update_brainstorm_request_ta_status_by_id_on_db rid FAILURE now l1)
                else l1)
      in case result_observer g of
           None \<Rightarrow> l2
         | Some p \<Rightarrow>
             if p = [] then l2
             else on_base (update_last_time_calculated_graperank_on_db p (run_utc_now env))
                    (if result_status g = SUCCESS then upsert_observer_whitelist_on_db p (snd buckets) rid now l2 else l2))"

lemma cards_of_observer: "result_observer g = None \<longleftrightarrow> cards_of g = []"
  by (simp add: result_observer_def split: list.split prod.split)

lemma record_result_eq:
  "record_result cutoffs cutoff rid g env w =
     (case request_of rid (rtx w) of
        None \<Rightarrow> (Inl (HTTPException 404 []), w)
      | Some row \<Rightarrow>
          (case result_error (gr_error g) of
             Inl e \<Rightarrow> (Inl e, w)
           | Inr error \<Rightarrow> (Inr (), w\<lparr>rtx := recorded env rid (bucket_scorecards_by_confidence_and_hops cutoff (cards_of g)
               (verified_line_for_run cutoffs row)) error g (rtx w)\<rparr>)))"
  by (auto simp: record_result_def stamped_def on_user_def recorded_def run_op_defs select_brainstorm_request_by_id_on_db_def
      Let_def result_status_def cards_of_observer [symmetric] split: option.splits sum.splits prod.splits)

text \<open>A session that commits what it wrote, or nothing.\<close>

lemma committed_cases:
  assumes "committed m env w = (r, w')" "m env w = (x, w1)"
  obtains (nothing) e where "r = Inl e" "rdurable w' = rdurable w1" "rtx w' = rdurable w'"
  | (all) "x = Inr ()" "rdurable w' = rtx w1" "rtx w' = rdurable w'"
proof (cases x)
  case (Inl e)
  show ?thesis by (rule nothing [of e]) (use assms Inl in \<open>auto simp: committed_def in_run_session_def run_op_defs\<close>)
next
  case (Inr u)
  show ?thesis
  proof (cases "run_commit_fault env (rcommits w1)")
    case None
    show ?thesis
      by (rule all; cases "run_commit_fault env (Suc (rcommits w1))")
        (use assms Inr None in \<open>auto simp: committed_def in_run_session_def run_op_defs run_commit_def Let_def\<close>)
  next
    case (Some e)
    show ?thesis
      by (rule nothing [of e]) (use assms Inr Some in \<open>auto simp: committed_def in_run_session_def run_op_defs run_commit_def Let_def\<close>)
  qed
qed

lemma process_message_cases:
  assumes "process_message cutoffs cutoff rid g env w = (r, w')" "rtx w = rdurable w"
  obtains (raised) e where "r = Inl e" "rdurable w' = rdurable w" "rtx w' = rdurable w'"
  | (saved) row error where "request_of rid (rdurable w) = Some row" "result_error (gr_error g) = Inr error"
      "rdurable w' = recorded env rid (bucket_scorecards_by_confidence_and_hops cutoff (cards_of g)
         (verified_line_for_run cutoffs row)) error g (rdurable w)" "rtx w' = rdurable w'"
proof -
  obtain x w1 where m: "record_result cutoffs cutoff rid g env w = (x, w1)" by (cases "record_result cutoffs cutoff rid g env w")
  from m have w1: "rdurable w1 = rdurable w"
    by (auto simp: record_result_eq split: option.splits sum.splits)
  from assms(1)[unfolded process_message_def] m show ?thesis
  proof (cases rule: committed_cases)
    case (nothing e)
    then show ?thesis using w1 raised by simp
  next
    case all
    from m \<open>x = Inr ()\<close> assms(2) obtain row error where re: "request_of rid (rdurable w) = Some row" "result_error (gr_error g) = Inr error"
      "w1 = w\<lparr>rtx := recorded env rid (bucket_scorecards_by_confidence_and_hops cutoff (cards_of g)
         (verified_line_for_run cutoffs row)) error g (rdurable w)\<rparr>"
      by (auto simp: record_result_eq split: option.splits sum.splits)
    show ?thesis by (rule saved [OF re(1,2)]) (use all re(3) in auto)
  qed
qed

lemma request_of_update:
  assumes "\<And>r. br_private_id (f r) = br_private_id r"
  shows "request_of rid (update_requests p now f l) =
    map_option (\<lambda>r. if p r then (f r)\<lparr>br_updated_at := now\<rparr> else r) (request_of rid l)"
  using assms by (simp add: request_of_def update_requests_def lookup_by_sql_update)

lemmas stage_statements = update_brainstorm_request_result_by_id_on_db_def update_brainstorm_request_ta_status_by_id_on_db_def
  update_brainstorm_request_internal_publication_status_by_id_on_db_def

lemma request_of_base [simp]: "request_of rid (on_base f l) = request_of rid l"
  by (simp add: request_of_def on_base_def)

lemma request_of_whitelist [simp]: "request_of rid (upsert_observer_whitelist_on_db p s i now l) = request_of rid l"
  by (simp add: request_of_def upsert_observer_whitelist_on_db_def Let_def)

lemma whitelists_update [simp]: "whitelists (update_requests p now f l) = whitelists l"
  by (simp add: update_requests_def)

lemma whitelists_base [simp]: "whitelists (on_base f l) = whitelists l"
  by (simp add: on_base_def)

lemma request_key: "request_of rid l = Some r \<Longrightarrow> br_private_id r = rid"
  unfolding request_of_def by (rule lookup_by_key)

text \<open>The row of the run and every other row, after \<^verbatim>\<open>process_message\<close>'s statements.\<close>

lemma request_of_recorded:
  "request_of i (recorded env rid buckets error g l) =
     map_option (\<lambda>r. if i \<noteq> rid then r else
       (let r1 = (if br_status r \<in> set NON_TERMINAL
                  then r\<lparr>br_status := result_status g, br_count_values := Some (dump_counts (fst buckets)), br_error := error,
                         br_updated_at := run_db_now env\<rparr>
                  else r)
        in if gr_success g then r1
           else r1\<lparr>br_status_ta_publication := FAILURE, br_status_internal_publication := Some FAILURE,
                  br_updated_at := run_db_now env\<rparr>))
     (request_of i l)"
proof -
  let ?now = "run_db_now env"
  let ?l1 = "update_brainstorm_request_result_by_id_on_db rid (dump_counts (fst buckets)) (result_status g) error ?now l"
  let ?l2 = "if gr_success g then ?l1
    else update_brainstorm_request_internal_publication_status_by_id_on_db rid FAILURE ?now
           (update_brainstorm_request_ta_status_by_id_on_db rid FAILURE ?now ?l1)"
  have "request_of i (recorded env rid buckets error g l) = request_of i ?l2"
    by (cases "result_observer g") (simp_all add: recorded_def Let_def result_status_def)
  also have "\<dots> = map_option (\<lambda>r. if i \<noteq> rid then r else
       (let r1 = (if br_status r \<in> set NON_TERMINAL
                  then r\<lparr>br_status := result_status g, br_count_values := Some (dump_counts (fst buckets)), br_error := error,
                         br_updated_at := ?now\<rparr>
                  else r)
        in if gr_success g then r1
           else r1\<lparr>br_status_ta_publication := FAILURE, br_status_internal_publication := Some FAILURE, br_updated_at := ?now\<rparr>))
     (request_of i l)"
  proof (cases "request_of i l")
    case (Some r)
    from request_key [OF this] have "br_private_id r = i" .
    with Some show ?thesis by (cases "i = rid") (simp_all add: stage_statements request_of_update Let_def)
  qed (simp add: stage_statements request_of_update)
  finally show ?thesis .
qed

interpretation snapshot: row_upsert ow_observer_pubkey
  "\<lambda>w. w\<lparr>ow_scores := scores, ow_last_request_id := Some rid, ow_updated_at := now\<rparr>"
  "\<lparr>ow_observer_pubkey = p, ow_scores = scores, ow_last_request_id = Some rid, ow_updated_at = now\<rparr>"
  for p :: string and scores :: "(string \<times> rat) list" and rid :: int and now :: datetime
  by unfold_locales simp

lemma lookup_upserted:
  "lookup_by ow_observer_pubkey p (whitelists (upsert_observer_whitelist_on_db q scores rid now l)) =
     (if p = q then Some \<lparr>ow_observer_pubkey = p, ow_scores = scores, ow_last_request_id = Some rid, ow_updated_at = now\<rparr>
      else lookup_by ow_observer_pubkey p (whitelists l))"
proof (cases "p = q")
  case True
  then show ?thesis using snapshot.upsert_lookup_same [where p = q and scores = scores and rid = rid and now = now and rows = "whitelists l"]
      lookup_by_key [of ow_observer_pubkey q "whitelists l"]
    by (auto simp: upsert_observer_whitelist_on_db_def Let_def split: option.splits intro!: observer_whitelist.equality)
next
  case False
  then show ?thesis using snapshot.upsert_lookup_other [of p q] by (simp add: upsert_observer_whitelist_on_db_def Let_def)
qed

lemma whitelist_recorded:
  "lookup_by ow_observer_pubkey p (whitelists (recorded env rid buckets error g l)) =
     (if gr_success g \<and> result_observer g = Some p \<and> p \<noteq> []
      then Some \<lparr>ow_observer_pubkey = p, ow_scores = snd buckets, ow_last_request_id = Some rid, ow_updated_at = run_db_now env\<rparr>
      else lookup_by ow_observer_pubkey p (whitelists l))"
  by (cases "result_observer g") (auto simp: recorded_def Let_def result_status_def stage_statements lookup_upserted)


end
