(* ===== verification/Ledger_Laws.thy ===== *)
theory Ledger_Laws
  imports Result_Stages
begin

text \<open>
  What every operation on the ledger keeps. A law is a reflexive and transitive relation of
  ledgers; an operation is lawful when all it commits, and all its transaction sees, is
  related to what was committed before. The locale proves once that the operations'
  combinators are lawful where their statements are. Its interpretations are the laws
  the pipeline relies on.
\<close>

named_theorems lawful_intros \<open>rules that reduce an operation being lawful to its statements\<close>

definition lawful :: "(ledger \<Rightarrow> ledger \<Rightarrow> bool) \<Rightarrow> 'a run_op \<Rightarrow> bool" where
  "lawful L m \<longleftrightarrow> (\<forall>env w r w'. m env w = (r, w') \<longrightarrow> L (rdurable w) (rtx w) \<longrightarrow>
     L (rdurable w) (rdurable w') \<and> L (rdurable w') (rtx w'))"

lemma lawfulD:
  "lawful L m \<Longrightarrow> m env w = (r, w') \<Longrightarrow> L (rdurable w) (rtx w) \<Longrightarrow> L (rdurable w) (rdurable w') \<and> L (rdurable w') (rtx w')"
  unfolding lawful_def by blast

text \<open>A session leaves what its transaction sees committed.\<close>

lemma session_clean: "in_run_session m env w = (r, w') \<Longrightarrow> rtx w' = rdurable w'"
  by (auto simp: in_run_session_def run_op_defs run_commit_def Let_def split: prod.splits sum.splits option.splits)

locale ledger_law =
  fixes L :: "ledger \<Rightarrow> ledger \<Rightarrow> bool"
  assumes law_refl: "L l l"
    and law_trans: "L l l' \<Longrightarrow> L l' l'' \<Longrightarrow> L l l''"
begin

lemma lawful_quiet [lawful_intros]:
  "lawful L (ret x)" "lawful L (raise e)" "lawful L (asks f)" "lawful L (read_run g)" "lawful L (lift_result r)"
  by (auto simp: lawful_def run_op_defs intro: law_refl)

lemma lawful_write [lawful_intros]: "(\<And>l. L l (f l)) \<Longrightarrow> lawful L (write_run f)"
  by (auto simp: lawful_def run_op_defs intro: law_refl law_trans)

lemma lawful_exec [lawful_intros]: "(\<And>l. L l (snd (f l))) \<Longrightarrow> lawful L (exec_run f)"
  by (fastforce simp: lawful_def run_op_defs split: prod.splits intro: law_refl law_trans)

lemma lawful_commit [lawful_intros]: "lawful L run_commit" "lawful L run_rollback"
  by (auto simp: lawful_def run_op_defs run_commit_def Let_def intro: law_refl split: option.splits)

lemma lawful_bind [lawful_intros]:
  assumes "lawful L m" "\<And>x. lawful L (f x)"
  shows "lawful L (op_bind m f)"
  unfolding lawful_def
proof (intro allI impI)
  fix env w r w'
  assume run: "op_bind m f env w = (r, w')" and l: "L (rdurable w) (rtx w)"
  obtain x w1 where m: "m env w = (x, w1)" by (cases "m env w")
  note one = lawfulD [OF assms(1) m l]
  show "L (rdurable w) (rdurable w') \<and> L (rdurable w') (rtx w')"
  proof (cases x)
    case (Inl e)
    then show ?thesis using run m one by (auto simp: op_bind_def)
  next
    case (Inr v)
    then have "f v env w1 = (r, w')" using run m by (simp add: op_bind_def)
    from lawfulD [OF assms(2) this] one show ?thesis by (blast intro: law_trans)
  qed
qed

lemma lawful_catch [lawful_intros]:
  assumes "lawful L m" "\<And>e. lawful L (h e)"
  shows "lawful L (catch m h)"
  unfolding lawful_def
proof (intro allI impI)
  fix env w r w'
  assume run: "catch m h env w = (r, w')" and l: "L (rdurable w) (rtx w)"
  obtain x w1 where m: "m env w = (x, w1)" by (cases "m env w")
  note one = lawfulD [OF assms(1) m l]
  show "L (rdurable w) (rdurable w') \<and> L (rdurable w') (rtx w')"
  proof (cases x)
    case (Inr v)
    then show ?thesis using run m one by (auto simp: catch_def)
  next
    case (Inl e)
    then have "h e env w1 = (r, w')" using run m by (simp add: catch_def)
    from lawfulD [OF assms(2) this] one show ?thesis by (blast intro: law_trans)
  qed
qed

lemma lawful_when [lawful_intros]: "lawful L m \<Longrightarrow> lawful L (op_when b m)"
  by (auto simp: op_when_def intro: lawful_quiet)

lemma lawful_session [lawful_intros]: "lawful L m \<Longrightarrow> lawful L (in_run_session m)"
  unfolding in_run_session_def by (intro lawful_intros)

lemma lawful_committed [lawful_intros]: "lawful L m \<Longrightarrow> lawful L (committed m)"
  unfolding committed_def by (intro lawful_intros)

lemma lawful_stamped [lawful_intros]: "(\<And>t l. L l (f t l)) \<Longrightarrow> lawful L (stamped f)"
  unfolding stamped_def by (intro lawful_intros)

lemma lawful_on_user [lawful_intros]: "(\<And>p. lawful L (f p)) \<Longrightarrow> lawful L (on_user pubkey f)"
  unfolding on_user_def by (auto intro: lawful_intros split: option.split)

text \<open>What a lawful operation commits, started on a clean session.\<close>

lemma lawful_durable:
  "lawful L m \<Longrightarrow> m env w = (r, w') \<Longrightarrow> rtx w = rdurable w \<Longrightarrow> L (rdurable w) (rdurable w')"
  using lawfulD law_refl by metis

end

section \<open>Laws of a run's row\<close>

text \<open>Every run that existed before is related to what it was; ids are never used again.\<close>

definition runs_from :: "(brainstorm_request \<Rightarrow> brainstorm_request \<Rightarrow> bool) \<Rightarrow> ledger \<Rightarrow> ledger \<Rightarrow> bool" where
  "runs_from P l l' \<longleftrightarrow> next_request_id l \<le> next_request_id l'
     \<and> (\<forall>r'\<in>set (requests l'). br_private_id r' < next_request_id l \<longrightarrow>
          (\<exists>r\<in>set (requests l). br_private_id r = br_private_id r' \<and> P r r'))"

locale row_law =
  fixes P :: "brainstorm_request \<Rightarrow> brainstorm_request \<Rightarrow> bool"
  assumes row_refl: "P r r" and row_trans: "P r r' \<Longrightarrow> P r' r'' \<Longrightarrow> P r r''"
begin

lemma runs_from_update:
  assumes "\<And>r. p r \<Longrightarrow> P r ((f r)\<lparr>br_updated_at := now\<rparr>)" "\<And>r. br_private_id (f r) = br_private_id r"
  shows "runs_from P l (update_requests p now f l)"
proof -
  have "\<exists>r\<in>set (requests l). br_private_id r = br_private_id r' \<and> P r r'" if mem: "r' \<in> set (requests (update_requests p now f l))" for r'
  proof -
    obtain r where "r \<in> set (requests l)" "r' = (if p r then (f r)\<lparr>br_updated_at := now\<rparr> else r)"
      using mem sql_update_mem [of r' p "\<lambda>r. (f r)\<lparr>br_updated_at := now\<rparr>" "requests l"]
      by (auto simp: update_requests_def)
    then show ?thesis using assms row_refl by (intro bexI [of _ r]) auto
  qed
  then show ?thesis by (auto simp: runs_from_def update_requests_def)
qed

lemma runs_from_other:
  "requests l' = requests l \<Longrightarrow> next_request_id l' = next_request_id l \<Longrightarrow> runs_from P l l'"
  using row_refl by (auto simp: runs_from_def)

lemma runs_from_new: "runs_from P l (l\<lparr>requests := requests l @ [r], next_request_id := next_request_id l + 1\<rparr>)"
  if "br_private_id r = next_request_id l"
  using that row_refl by (auto simp: runs_from_def)

lemma runs_from_delete: "runs_from P l (l\<lparr>requests := filter q (requests l)\<rparr>)"
  using row_refl by (auto simp: runs_from_def)

end

sublocale row_law \<subseteq> runs: ledger_law "runs_from P"
proof
  show "runs_from P l l" for l by (rule runs_from_other) simp_all
  fix l l' l''
  assume "runs_from P l l'" "runs_from P l' l''"
  then show "runs_from P l l''" unfolding runs_from_def
    by (smt (verit, best) order_less_le_trans order_trans row_trans)
qed

section \<open>The law of a run's life\<close>

text \<open>A failed run stays failed, a decided one stays decided, and what a run was started with
  never changes.\<close>

definition lives :: "brainstorm_request \<Rightarrow> brainstorm_request \<Rightarrow> bool" where
  "lives r r' \<longleftrightarrow> (br_status r = FAILURE \<longrightarrow> br_status r' = FAILURE)
     \<and> (br_status r \<notin> set NON_TERMINAL \<longrightarrow> br_status r' \<notin> set NON_TERMINAL)
     \<and> br_password r' = br_password r \<and> br_parameters r' = br_parameters r \<and> br_algorithm r' = br_algorithm r
     \<and> br_pubkey r' = br_pubkey r \<and> br_graperank_preset_used r' = br_graperank_preset_used r
     \<and> br_graperank_params r' = br_graperank_params r \<and> br_trigger_source r' = br_trigger_source r
     \<and> br_force_full_neo4j r' = br_force_full_neo4j r \<and> br_created_at r' = br_created_at r"

interpretation life: row_law lives
  by unfold_locales (auto simp: lives_def)

abbreviation life_law :: "ledger \<Rightarrow> ledger \<Rightarrow> bool" where
  "life_law \<equiv> runs_from lives"

lemma FAILURE_terminal [simp]: "FAILURE \<notin> set NON_TERMINAL" "SUCCESS \<notin> set NON_TERMINAL"
  by (simp_all add: NON_TERMINAL_def)

lemma life_statements [lawful_intros]:
  "life_law l (update_brainstorm_request_result_by_id_on_db rid counts status error now l)"
  "life_law l (update_brainstorm_request_ta_status_by_id_on_db rid status now l)"
  "life_law l (update_brainstorm_request_internal_publication_status_by_id_on_db rid status now l)"
  "life_law l (update_brainstorm_request_publish_duration_by_id_on_db rid seconds now l)"
  "life_law l (update_brainstorm_request_status_by_id_on_db rid FAILURE now l)"
  "life_law l (mark_brainstorm_request_force_full_relay_on_db rid now l)"
  "life_law l (snd (fail_stale_in_pipeline_brainstorm_requests_on_db utc threshold now l))"
  by (auto simp: update_brainstorm_request_result_by_id_on_db_def update_brainstorm_request_ta_status_by_id_on_db_def
      update_brainstorm_request_internal_publication_status_by_id_on_db_def
      update_brainstorm_request_publish_duration_by_id_on_db_def update_brainstorm_request_status_by_id_on_db_def
      mark_brainstorm_request_force_full_relay_on_db_def fail_stale_in_pipeline_brainstorm_requests_on_db_def
      reap_def lives_def Let_def intro!: life.runs_from_update)

lemma life_others [lawful_intros]:
  "life_law l (snd (create_brainstorm_request_on_db password now algorithm parameters pubkey preset params fr fn source l))"
  "life_law l (snd (delete_brainstorm_request_by_id_on_db rid l))"
  "life_law l (on_base f l)" "life_law l (upsert_observer_whitelist_on_db p scores rid now l)"
  by (auto simp: create_brainstorm_request_on_db_def delete_brainstorm_request_by_id_on_db_def Let_def
      intro!: life.runs_from_new life.runs_from_delete)
    (auto simp: upsert_observer_whitelist_on_db_def on_base_def Let_def intro!: life.runs_from_other)

lemma life_stages [lawful_intros]:
  "lawful life_law (process_message cutoffs cutoff rid g)" "lawful life_law (process_job_started_message rid)"
  "lawful life_law (fail_result_stage rid reason)" "lawful life_law (fail_ta_stage rid)" "lawful life_law (fail_neo4j_stage rid)"
  unfolding process_message_def record_result_def process_job_started_message_def fail_result_stage_def fail_ta_stage_def
    fail_neo4j_stage_def Let_def
  by (auto intro!: lawful_intros split: prod.split)

end
