(* ===== verification/Relay_Publisher.thy ===== *)
theory Relay_Publisher
  imports Errors "HOL-Library.Multiset"
begin

text \<open>
  Sending signed events to a relay until each is answered
  (\<^verbatim>\<open>app/message_queue_tasks/relay_publisher.py\<close>). A publisher has one producer, a queue of
  events to send, and a fixed number of workers, each with at most one connection. Between
  two awaits a task runs alone, so a step of the relation below is what one task does
  between two awaits, and the steps of all tasks interleave freely; so do the relay's
  answers, the connections' ends and the timers of the retries.

  An event stands for its id; a JSON message of the relay is the answer it carries.
\<close>

section \<open>Configuration, statistics and state\<close>

record publish_config =
  pc_connections :: nat
  max_in_flight :: nat
  max_outstanding :: nat
  max_event_attempts :: nat
  max_connect_attempts :: nat

definition PUBLISH_CONFIG :: publish_config where
  "PUBLISH_CONFIG = \<lparr>pc_connections = 4, max_in_flight = 2000, max_outstanding = 10000, max_event_attempts = 5,
     max_connect_attempts = 5\<rparr>"

record publish_stats =
  n_events :: nat
  n_acked :: nat
  n_failed :: nat
  n_retried :: nat
  n_reconnects :: nat
  aborted :: bool

definition n_unacked :: "publish_stats \<Rightarrow> nat" where
  "n_unacked st = n_events st - n_acked st"

text \<open>An item is an event's id and the number of false OKs it got.\<close>

type_synonym 'e item = "'e \<times> nat"

text \<open>A worker is waiting before its next connection, connected with the items it sent and
  whether one was answered, has given up, or has stopped. \<^verbatim>\<open>failures\<close> counts its connections
  without progress.\<close>

datatype 'e worker = Between nat | Connected nat "'e item list" bool | GaveUp | Stopped

text \<open>The last four fields of a publisher record what happened: the events the relay accepted,
  the ones given up, how often it refused one, and how many connections ended with an
  answer.\<close>

record 'e publisher =
  source :: "'e list"
  todo :: "'e item list"
  later :: "'e item list"
  workers :: "nat \<Rightarrow> 'e worker"
  stats :: publish_stats
  n_resolved :: nat
  produced_all :: bool
  is_done :: bool
  dead_workers :: nat
  oks :: "'e list"
  failures_of :: "'e list"
  n_rejects :: nat
  n_progress :: nat

text \<open>The relay's machine-readable prefix of a refusal.\<close>

definition reject_reason :: "string \<Rightarrow> string" where
  "reject_reason message =
     (let (prefix, sep, _) = partition_on CHR '':'' message; p = strip prefix
      in if sep \<and> p \<noteq> [] then p else ''unknown'')"

definition new_publisher :: "publish_config \<Rightarrow> 'e list \<Rightarrow> 'e publisher" where
  "new_publisher cfg events =
     \<lparr>source = events, todo = [], later = [],
      workers = (\<lambda>i. if i < pc_connections cfg then Between 0 else Stopped),
      stats = \<lparr>n_events = 0, n_acked = 0, n_failed = 0, n_retried = 0, n_reconnects = 0, aborted = False\<rparr>,
      n_resolved = 0, produced_all = False, is_done = False, dead_workers = 0, oks = [], failures_of = [], n_rejects = 0, n_progress = 0\<rparr>"

section \<open>What one task does between two awaits\<close>

definition finish :: "'e publisher \<Rightarrow> 'e publisher" where
  "finish s = s\<lparr>is_done := True\<rparr>"

definition check_done :: "'e publisher \<Rightarrow> 'e publisher" where
  "check_done s = (if produced_all s \<and> n_resolved s = n_events (stats s) then finish s else s)"

definition resolve :: "'e publisher \<Rightarrow> 'e publisher" where
  "resolve s = check_done (s\<lparr>n_resolved := n_resolved s + 1\<rparr>)"

text \<open>The producer's turn: \<^verbatim>\<open>outstanding\<close> was acquired, so fewer than \<^verbatim>\<open>max_outstanding\<close> events
  are unresolved.\<close>

definition produce :: "'e \<Rightarrow> 'e list \<Rightarrow> 'e publisher \<Rightarrow> 'e publisher" where
  "produce e rest s =
     s\<lparr>source := rest, stats := (stats s)\<lparr>n_events := n_events (stats s) + 1\<rparr>, todo := todo s @ [(e, 0)]\<rparr>"

definition produced :: "'e publisher \<Rightarrow> 'e publisher" where
  "produced s = check_done (s\<lparr>produced_all := True\<rparr>)"

definition set_worker :: "nat \<Rightarrow> 'e worker \<Rightarrow> 'e publisher \<Rightarrow> 'e publisher" where
  "set_worker i v s = s\<lparr>workers := (workers s)(i := v)\<rparr>"

definition send_item :: "nat \<Rightarrow> nat \<Rightarrow> 'e item list \<Rightarrow> bool \<Rightarrow> 'e item \<Rightarrow> 'e item list \<Rightarrow> 'e publisher \<Rightarrow> 'e publisher" where
  "send_item i failures pending progress it rest s =
     set_worker i (Connected failures (pending @ [it]) progress) (s\<lparr>todo := rest\<rparr>)"

text \<open>The relay answered an item that was in flight: OK true, or OK false with a message.\<close>

definition answer_true :: "nat \<Rightarrow> nat \<Rightarrow> 'e item list \<Rightarrow> 'e item \<Rightarrow> 'e publisher \<Rightarrow> 'e publisher" where
  "answer_true i failures pending it s =
     resolve (set_worker i (Connected failures (remove1 it pending) True)
       (s\<lparr>stats := (stats s)\<lparr>n_acked := n_acked (stats s) + 1\<rparr>, oks := fst it # oks s\<rparr>))"

definition answer_false :: "publish_config \<Rightarrow> nat \<Rightarrow> nat \<Rightarrow> 'e item list \<Rightarrow> 'e item \<Rightarrow> 'e publisher \<Rightarrow> 'e publisher" where
  "answer_false cfg i failures pending it s =
     (let attempts = snd it + 1;
          s' = set_worker i (Connected failures (remove1 it pending) True) (s\<lparr>n_rejects := n_rejects s + 1\<rparr>)
      in if attempts \<ge> max_event_attempts cfg then resolve (s'\<lparr>failures_of := fst it # failures_of s'\<rparr>)
         else s'\<lparr>stats := (stats s')\<lparr>n_retried := n_retried (stats s') + 1\<rparr>, later := later s' @ [(fst it, attempts)]\<rparr>)"

text \<open>A connection ended, or could not be made: what it had in flight goes back to the queue,
  and the worker waits for its next try, gives up, or stops.\<close>

definition connection_ends :: "publish_config \<Rightarrow> nat \<Rightarrow> nat \<Rightarrow> 'e item list \<Rightarrow> bool \<Rightarrow> 'e publisher \<Rightarrow> 'e publisher" where
  "connection_ends cfg i failures pending progress s =
     (let s' = s\<lparr>todo := todo s @ pending, n_progress := n_progress s + of_bool progress\<rparr>;
          failures' = (if progress then 0 else failures + 1)
      in if is_done s' then set_worker i Stopped s'
         else if failures' \<ge> max_connect_attempts cfg
         then (let s'' = set_worker i GaveUp (s'\<lparr>dead_workers := dead_workers s' + 1\<rparr>)
               in if dead_workers s'' = pc_connections cfg
                  then finish (s''\<lparr>stats := (stats s'')\<lparr>aborted := True\<rparr>\<rparr>) else s'')
         else set_worker i (Between failures') (s'\<lparr>stats := (stats s')\<lparr>n_reconnects := n_reconnects (stats s') + 1\<rparr>\<rparr>))"

inductive pub_step :: "publish_config \<Rightarrow> 'e publisher \<Rightarrow> 'e publisher \<Rightarrow> bool" for cfg where
  produces: "\<not> is_done s \<Longrightarrow> source s = e # rest \<Longrightarrow> n_events (stats s) - n_resolved s < max_outstanding cfg \<Longrightarrow>
    pub_step cfg s (produce e rest s)"
| exhausted: "\<not> is_done s \<Longrightarrow> source s = [] \<Longrightarrow> \<not> produced_all s \<Longrightarrow> pub_step cfg s (produced s)"
| connects: "workers s i = Between failures \<Longrightarrow> \<not> is_done s \<Longrightarrow>
    pub_step cfg s (set_worker i (Connected failures [] False) s)"
| no_connection: "workers s i = Between failures \<Longrightarrow> pub_step cfg s (connection_ends cfg i failures [] False s)"
| sends: "workers s i = Connected failures pending progress \<Longrightarrow> length pending < max_in_flight cfg \<Longrightarrow>
    todo s = it # rest \<Longrightarrow> pub_step cfg s (send_item i failures pending progress it rest s)"
| accepted: "workers s i = Connected failures pending progress \<Longrightarrow> it \<in> set pending \<Longrightarrow>
    pub_step cfg s (answer_true i failures pending it s)"
| refused: "workers s i = Connected failures pending progress \<Longrightarrow> it \<in> set pending \<Longrightarrow>
    pub_step cfg s (answer_false cfg i failures pending it s)"
| drops: "workers s i = Connected failures pending progress \<Longrightarrow>
    pub_step cfg s (connection_ends cfg i failures pending progress s)"
| timer: "later s = xs @ it # ys \<Longrightarrow> pub_step cfg s (s\<lparr>later := xs @ ys, todo := todo s @ [it]\<rparr>)"

abbreviation pub_run :: "publish_config \<Rightarrow> 'e publisher \<Rightarrow> 'e publisher \<Rightarrow> bool" where
  "pub_run cfg \<equiv> (pub_step cfg)\<^sup>*\<^sup>*"

text \<open>What \<^verbatim>\<open>publish_events\<close> returns, once \<^verbatim>\<open>done\<close> is set: the producer ended, or every worker gave
  up.\<close>

definition final_stats :: "'e publisher \<Rightarrow> publish_stats" where
  "final_stats s = (stats s)\<lparr>n_failed := n_events (stats s) - n_acked (stats s)\<rparr>"

definition publish_events :: "publish_config \<Rightarrow> 'e list \<Rightarrow> publish_stats \<Rightarrow> 'e list \<Rightarrow> bool" where
  "publish_events cfg events st ok \<longleftrightarrow>
     (\<exists>s. pub_run cfg (new_publisher cfg events) s \<and> is_done s \<and> st = final_stats s \<and> ok = oks s)"

section \<open>Every event is somewhere\<close>

fun in_flight :: "'e worker \<Rightarrow> 'e item list" where
  "in_flight (Connected _ pending _) = pending"
| "in_flight _ = []"

definition flying :: "publish_config \<Rightarrow> 'e publisher \<Rightarrow> 'e item multiset" where
  "flying cfg s = (\<Sum>i<pc_connections cfg. mset (in_flight (workers s i)))"

definition unresolved :: "publish_config \<Rightarrow> 'e publisher \<Rightarrow> 'e item multiset" where
  "unresolved cfg s = mset (todo s) + mset (later s) + flying cfg s"

lemma sum_fun_upd:
  fixes g :: "'b \<Rightarrow> 'a :: comm_monoid_add" and n :: nat
  assumes "i < n"
  shows "(\<Sum>j<n. g ((h(i := v)) j)) + g (h i) = (\<Sum>j<n. g (h j)) + g v"
proof -
  have "(\<Sum>j<n. g ((h(i := v)) j)) = g v + (\<Sum>j\<in>{..<n} - {i}. g (h j))"
    using assms by (subst sum.remove [of _ i]) auto
  moreover have "(\<Sum>j<n. g (h j)) = g (h i) + (\<Sum>j\<in>{..<n} - {i}. g (h j))"
    using assms by (subst sum.remove [of _ i]) auto
  ultimately show ?thesis by (simp add: ac_simps)
qed

lemma flying_set_worker:
  assumes "i < pc_connections cfg"
  shows "flying cfg (set_worker i v s) + mset (in_flight (workers s i)) = flying cfg s + mset (in_flight v)"
  using sum_fun_upd [OF assms, of "\<lambda>w. mset (in_flight w)" "workers s" v] by (simp add: flying_def set_worker_def)

lemma flying_cong: "workers s' = workers s \<Longrightarrow> flying cfg s' = flying cfg s"
  by (simp add: flying_def)

lemma resolve_frames [simp]:
  "todo (resolve s) = todo s" "later (resolve s) = later s" "workers (resolve s) = workers s" "oks (resolve s) = oks s"
  "failures_of (resolve s) = failures_of s" "source (resolve s) = source s" "stats (resolve s) = stats s"
  "n_resolved (resolve s) = n_resolved s + 1" "produced_all (resolve s) = produced_all s"
  "n_rejects (resolve s) = n_rejects s" "n_progress (resolve s) = n_progress s" "dead_workers (resolve s) = dead_workers s"
  by (simp_all add: resolve_def check_done_def finish_def)

definition accounted :: "publish_config \<Rightarrow> 'e list \<Rightarrow> 'e publisher \<Rightarrow> bool" where
  "accounted cfg events s \<longleftrightarrow>
     mset events = mset (source s) + image_mset fst (unresolved cfg s) + mset (oks s) + mset (failures_of s)
     \<and> n_events (stats s) + length (source s) = length events
     \<and> n_acked (stats s) = length (oks s) \<and> n_resolved s = length (oks s) + length (failures_of s)
     \<and> (\<forall>i\<ge>pc_connections cfg. workers s i = Stopped)"

lemma accounted_worker: "accounted cfg events s \<Longrightarrow> workers s i \<noteq> Stopped \<Longrightarrow> i < pc_connections cfg"
  by (meson accounted_def linorder_not_less)

text \<open>What each step does to the unresolved items.\<close>

lemma unresolved_send:
  assumes "i < pc_connections cfg" "workers s i = Connected f p g" "todo s = it # rest"
  shows "unresolved cfg (send_item i f p g it rest s) = unresolved cfg s"
  using flying_set_worker [OF assms(1), of "Connected f (p @ [it]) g" "s\<lparr>todo := rest\<rparr>"] assms(2,3)
    flying_cong [of "s\<lparr>todo := rest\<rparr>" s cfg]
  by (simp add: unresolved_def send_item_def set_worker_def)

lemma flying_true:
  assumes "i < pc_connections cfg" "workers s i = Connected f p g" "it \<in> set p" "workers s' = (workers s)(i := Connected f (remove1 it p) True)"
  shows "flying cfg s' + {#it#} = flying cfg s"
proof -
  have "flying cfg s' + mset p = flying cfg s + mset (remove1 it p)"
  proof -
    have "flying cfg s' = flying cfg (set_worker i (Connected f (remove1 it p) True) s)"
      by (rule flying_cong) (simp add: assms(4) set_worker_def)
    then show ?thesis using flying_set_worker [OF assms(1), of "Connected f (remove1 it p) True" s] assms(2) by simp
  qed
  moreover have "mset p = mset (remove1 it p) + {#it#}" using assms(3) by simp
  ultimately have "(flying cfg s' + {#it#}) + mset (remove1 it p) = flying cfg s + mset (remove1 it p)"
    by (metis add.assoc add.commute)
  then show ?thesis by (rule add_right_imp_eq)
qed

lemma answer_frames [simp]:
  "todo (answer_true i f p it s) = todo s" "later (answer_true i f p it s) = later s"
  "workers (answer_true i f p it s) = (workers s)(i := Connected f (remove1 it p) True)"
  "todo (answer_false cfg i f p it s) = todo s"
  "later (answer_false cfg i f p it s) =
     (if snd it + 1 \<ge> max_event_attempts cfg then later s else later s @ [(fst it, snd it + 1)])"
  "workers (answer_false cfg i f p it s) = (workers s)(i := Connected f (remove1 it p) True)"
  by (simp_all add: answer_true_def answer_false_def set_worker_def Let_def)

lemma unresolved_true:
  assumes "i < pc_connections cfg" "workers s i = Connected f p g" "it \<in> set p"
  shows "unresolved cfg (answer_true i f p it s) + {#it#} = unresolved cfg s"
  using flying_true [OF assms, of "answer_true i f p it s"] by (simp add: unresolved_def)

lemma unresolved_false:
  assumes "i < pc_connections cfg" "workers s i = Connected f p g" "it \<in> set p"
  shows "unresolved cfg (answer_false cfg i f p it s) + {#it#} =
    (if snd it + 1 \<ge> max_event_attempts cfg then unresolved cfg s else unresolved cfg s + {#(fst it, snd it + 1)#})"
  using flying_true [OF assms, of "answer_false cfg i f p it s"] by (simp add: unresolved_def)

lemma connection_ends_frames [simp]:
  "later (connection_ends cfg i f p g s) = later s" "todo (connection_ends cfg i f p g s) = todo s @ p"
  "oks (connection_ends cfg i f p g s) = oks s" "failures_of (connection_ends cfg i f p g s) = failures_of s"
  "source (connection_ends cfg i f p g s) = source s" "n_resolved (connection_ends cfg i f p g s) = n_resolved s"
  "produced_all (connection_ends cfg i f p g s) = produced_all s" "n_rejects (connection_ends cfg i f p g s) = n_rejects s"
  "n_events (stats (connection_ends cfg i f p g s)) = n_events (stats s)"
  "n_acked (stats (connection_ends cfg i f p g s)) = n_acked (stats s)"
  "\<exists>v. in_flight v = [] \<and> workers (connection_ends cfg i f p g s) = (workers s)(i := v)"
  by (auto simp: connection_ends_def set_worker_def finish_def Let_def intro: exI [of _ Stopped] exI [of _ GaveUp]
      exI [of _ "Between f" for f])

lemma unresolved_ends:
  assumes "i < pc_connections cfg" "in_flight (workers s i) = p"
  shows "unresolved cfg (connection_ends cfg i f p g s) = unresolved cfg s"
proof -
  obtain v where v: "in_flight v = []" "workers (connection_ends cfg i f p g s) = (workers s)(i := v)"
    using connection_ends_frames(11) by blast
  have "flying cfg (connection_ends cfg i f p g s) + mset p = flying cfg s"
    using flying_set_worker [OF assms(1), of v s] v assms(2) by (simp add: flying_def set_worker_def)
  then show ?thesis by (simp add: unresolved_def) (metis add.assoc add.commute)
qed

lemma accounted_step:
  assumes "pub_step cfg s s'" "accounted cfg events s"
  shows "accounted cfg events s'"
  using assms(1)
proof cases
  case (produces e rest)
  then show ?thesis using assms(2) by (auto simp: accounted_def produce_def unresolved_def flying_def)
next
  case exhausted
  then show ?thesis using assms(2) by (auto simp: accounted_def produced_def check_done_def finish_def unresolved_def flying_def)
next
  case (connects i f)
  then have i: "i < pc_connections cfg" using accounted_worker [OF assms(2)] by simp
  then have "unresolved cfg s' = unresolved cfg s"
    using flying_set_worker [OF i, of "Connected f [] False" s] connects by (simp add: unresolved_def set_worker_def)
  then show ?thesis using assms(2) connects i by (auto simp: accounted_def set_worker_def)
next
  case (no_connection i f)
  then have i: "i < pc_connections cfg" using accounted_worker [OF assms(2)] by simp
  moreover have "unresolved cfg s' = unresolved cfg s" using unresolved_ends [OF i, of s "[]"] no_connection by simp
  moreover obtain v where "workers s' = (workers s)(i := v)" using connection_ends_frames(11) no_connection(1) by blast
  ultimately show ?thesis using assms(2) no_connection(1) by (auto simp: accounted_def)
next
  case (sends i f p g it rest)
  then have i: "i < pc_connections cfg" using accounted_worker [OF assms(2)] by simp
  then show ?thesis using assms(2) unresolved_send [OF i sends(2,4)] sends by (auto simp: accounted_def send_item_def set_worker_def)
next
  case (accepted i f p g it)
  then have i: "i < pc_connections cfg" using accounted_worker [OF assms(2)] by simp
  have "image_mset fst (unresolved cfg s) = image_mset fst (unresolved cfg s') + {#fst it#}"
    using unresolved_true [OF i accepted(2,3)] accepted(1) by (metis image_mset_single image_mset_union)
  then show ?thesis using assms(2) accepted(1) i by (auto simp: accounted_def answer_true_def set_worker_def)
next
  case (refused i f p g it)
  then have i: "i < pc_connections cfg" using accounted_worker [OF assms(2)] by simp
  have "image_mset fst (unresolved cfg s') + {#fst it#} = image_mset fst (unresolved cfg s) +
     (if snd it + 1 \<ge> max_event_attempts cfg then {#} else {#fst it#})"
    using arg_cong [OF unresolved_false [OF i refused(2,3)], of "image_mset fst"] refused(1) by auto
  then show ?thesis using assms(2) refused(1) i
    by (auto simp: accounted_def answer_false_def set_worker_def Let_def split: if_splits)
next
  case (drops i f p g)
  then have i: "i < pc_connections cfg" using accounted_worker [OF assms(2)] by simp
  moreover have "unresolved cfg s' = unresolved cfg s" using unresolved_ends [OF i, of s p] drops by simp
  moreover obtain v where "workers s' = (workers s)(i := v)" using connection_ends_frames(11) drops(1) by blast
  ultimately show ?thesis using assms(2) drops(1) by (auto simp: accounted_def)
next
  case (timer xs it ys)
  then show ?thesis using assms(2) by (auto simp: accounted_def unresolved_def flying_def)
qed

lemma accounted_size:
  assumes "accounted cfg events s"
  shows "n_events (stats s) = size (unresolved cfg s) + n_resolved s"
proof -
  have "size (mset events) = size (mset (source s) + image_mset fst (unresolved cfg s) + mset (oks s) + mset (failures_of s))"
    using assms by (simp add: accounted_def)
  then have "length events = length (source s) + size (unresolved cfg s) + length (oks s) + length (failures_of s)" by simp
  then show ?thesis using assms by (simp add: accounted_def)
qed

lemma in_flight_unresolved:
  assumes "accounted cfg events s" "workers s i = Connected f p g" "it \<in> set p"
  shows "it \<in># unresolved cfg s"
proof -
  have i: "i < pc_connections cfg" using accounted_worker [OF assms(1)] assms(2) by simp
  have "it \<in># unresolved cfg (answer_true i f p it s) + {#it#}" by simp
  then show ?thesis unfolding unresolved_true [OF i assms(2,3)] .
qed

lemma all_resolved:
  assumes "accounted cfg events s" "n_resolved s = n_events (stats s)" "workers s i = Connected f p g"
  shows "it \<notin> set p"
  using accounted_size [OF assms(1)] in_flight_unresolved [OF assms(1,3), of it] assms(2) by auto

subsection \<open>When it is done\<close>

definition ended :: "'e publisher \<Rightarrow> bool" where
  "ended s \<longleftrightarrow> (produced_all s \<longrightarrow> source s = [])
     \<and> (is_done s \<longrightarrow> aborted (stats s) \<or> produced_all s \<and> n_resolved s = n_events (stats s))"

lemma ended_resolve:
  assumes "ended s" "is_done s \<Longrightarrow> aborted (stats s)"
  shows "ended (resolve s)"
  using assms by (auto simp: ended_def resolve_def check_done_def finish_def)

lemma ended_step:
  assumes "pub_step cfg s s'" "ended s" "accounted cfg events s"
  shows "ended s'"
proof -
  have open_item: "aborted (stats s)" if "is_done s" "workers s i = Connected f p g" "it \<in> set p" for i f p g it
    using all_resolved [OF assms(3) _ that(2), of it] that(1,3) assms(2) by (auto simp: ended_def)
  show ?thesis using assms(1)
  proof cases
    case (produces e rest)
    then show ?thesis using assms(2) by (auto simp: ended_def produce_def)
  next
    case exhausted
    then show ?thesis using assms(2) by (auto simp: ended_def produced_def check_done_def finish_def)
  next
    case (accepted i f p g it)
    then show ?thesis using open_item [OF _ accepted(2,3)] assms(2) unfolding accepted(1) answer_true_def
      by (intro ended_resolve) (auto simp: ended_def set_worker_def)
  next
    case (refused i f p g it)
    note op = open_item [OF _ refused(2,3)]
    show ?thesis
    proof (cases "max_event_attempts cfg \<le> snd it + 1")
      case True
      have "ended (resolve ((set_worker i (Connected f (remove1 it p) True) (s\<lparr>n_rejects := n_rejects s + 1\<rparr>))
          \<lparr>failures_of := fst it # failures_of s\<rparr>))"
        by (rule ended_resolve) (use assms(2) op in \<open>auto simp: ended_def set_worker_def\<close>)
      then show ?thesis using True by (simp add: refused(1) answer_false_def Let_def set_worker_def)
    next
      case False
      then show ?thesis using assms(2) by (auto simp: refused(1) answer_false_def Let_def ended_def set_worker_def)
    qed
  next
    case (no_connection i f)
    then show ?thesis using assms(2) by (auto simp: ended_def connection_ends_def set_worker_def finish_def Let_def)
  next
    case (drops i f p g)
    then show ?thesis using assms(2) by (auto simp: ended_def connection_ends_def set_worker_def finish_def Let_def)
  qed (use assms(2) in \<open>auto simp: ended_def set_worker_def send_item_def\<close>)
qed

subsection \<open>How often it tries\<close>

definition tried :: "publish_config \<Rightarrow> 'e publisher \<Rightarrow> bool" where
  "tried cfg s \<longleftrightarrow> (\<forall>it\<in>#unresolved cfg s. snd it < max_event_attempts cfg)
     \<and> n_rejects s \<le> (\<Sum>it\<in>#unresolved cfg s. snd it) + max_event_attempts cfg * n_resolved s"

lemma tried_step:
  assumes "pub_step cfg s s'" "tried cfg s" "accounted cfg events s" "0 < max_event_attempts cfg"
  shows "tried cfg s'"
  using assms(1)
proof cases
  case (produces e rest)
  have "unresolved cfg s' = unresolved cfg s + {#(e, 0)#}" "n_rejects s' = n_rejects s" "n_resolved s' = n_resolved s"
    by (simp_all add: produces(1) produce_def unresolved_def flying_def)
  then show ?thesis using assms(2,4) by (simp add: tried_def)
next
  case exhausted
  have "unresolved cfg s' = unresolved cfg s" "n_rejects s' = n_rejects s" "n_resolved s' = n_resolved s"
    by (simp_all add: exhausted(1) produced_def check_done_def finish_def unresolved_def flying_def)
  then show ?thesis using assms(2) by (simp add: tried_def)
next
  case (connects i f)
  then have i: "i < pc_connections cfg" using accounted_worker [OF assms(3)] by simp
  have "unresolved cfg s' = unresolved cfg s"
    using flying_set_worker [OF i, of "Connected f [] False" s] connects by (simp add: unresolved_def set_worker_def)
  then show ?thesis using assms(2) connects by (simp add: tried_def set_worker_def)
next
  case (no_connection i f)
  then have i: "i < pc_connections cfg" using accounted_worker [OF assms(3)] by simp
  then show ?thesis using assms(2) unresolved_ends [OF i, of s "[]"] no_connection by (simp add: tried_def)
next
  case (sends i f p g it rest)
  then have i: "i < pc_connections cfg" using accounted_worker [OF assms(3)] by simp
  then show ?thesis using assms(2) unresolved_send [OF i sends(2,4)] sends by (simp add: tried_def send_item_def set_worker_def)
next
  case (accepted i f p g it)
  then have i: "i < pc_connections cfg" using accounted_worker [OF assms(3)] by simp
  have u: "unresolved cfg s = unresolved cfg s' + {#it#}" using unresolved_true [OF i accepted(2,3)] accepted(1) by simp
  have "n_rejects s' = n_rejects s" "n_resolved s' = Suc (n_resolved s)" by (simp_all add: accepted(1) answer_true_def set_worker_def)
  then show ?thesis using assms(2) unfolding tried_def u by auto
next
  case (refused i f p g it)
  then have i: "i < pc_connections cfg" using accounted_worker [OF assms(3)] by simp
  note u = unresolved_false [OF i refused(2,3), folded refused(1)]
  have lt: "snd it < max_event_attempts cfg" using in_flight_unresolved [OF assms(3) refused(2,3)] assms(2) by (simp add: tried_def)
  have r: "n_rejects s' = Suc (n_rejects s)"
    "n_resolved s' = (if snd it + 1 \<ge> max_event_attempts cfg then Suc (n_resolved s) else n_resolved s)"
    by (simp_all add: refused(1) answer_false_def set_worker_def Let_def)
  show ?thesis
  proof (cases "snd it + 1 \<ge> max_event_attempts cfg")
    case True
    then have "unresolved cfg s = unresolved cfg s' + {#it#}" using u by simp
    then show ?thesis using assms(2) True lt by (auto simp: tried_def r)
  next
    case False
    then have U: "unresolved cfg s' + {#it#} = unresolved cfg s + {#(fst it, snd it + 1)#}" using u by simp
    from arg_cong [OF U, of "\<lambda>M. \<Sum>x\<in>#M. snd x"]
    have "(\<Sum>x\<in>#unresolved cfg s'. snd x) = (\<Sum>x\<in>#unresolved cfg s. snd x) + 1" by simp
    moreover have "snd x < max_event_attempts cfg" if "x \<in># unresolved cfg s'" for x
    proof -
      have "x \<in># unresolved cfg s + {#(fst it, snd it + 1)#}" using that unfolding U [symmetric] by simp
      then show ?thesis using assms(2) False by (auto simp: tried_def)
    qed
    ultimately show ?thesis using assms(2) False by (simp add: tried_def r)
  qed
next
  case (drops i f p g)
  then have i: "i < pc_connections cfg" using accounted_worker [OF assms(3)] by simp
  then show ?thesis using assms(2) unresolved_ends [OF i, of s p] drops by (simp add: tried_def)
next
  case (timer xs it ys)
  have "unresolved cfg s' = unresolved cfg s" by (simp add: timer unresolved_def flying_def)
  then show ?thesis using assms(2) timer by (simp add: tried_def)
qed

text \<open>A worker's connections without progress, as many as it may have once it is over.\<close>

fun failed_connects :: "nat \<Rightarrow> 'e worker \<Rightarrow> nat" where
  "failed_connects m (Between n) = n"
| "failed_connects m (Connected n _ _) = n"
| "failed_connects m _ = m"

fun has_progress :: "'e worker \<Rightarrow> nat" where
  "has_progress (Connected _ _ progress) = of_bool progress"
| "has_progress _ = 0"

definition sum_workers :: "publish_config \<Rightarrow> ('e worker \<Rightarrow> nat) \<Rightarrow> 'e publisher \<Rightarrow> nat" where
  "sum_workers cfg g s = (\<Sum>i<pc_connections cfg. g (workers s i))"

lemma sum_workers_upd:
  assumes "i < pc_connections cfg" "workers s' = (workers s)(i := v)"
  shows "sum_workers cfg g s' + g (workers s i) = sum_workers cfg g s + g v"
  using sum_fun_upd [OF assms(1), of g "workers s" v] by (simp add: sum_workers_def assms(2))

lemma sum_workers_cong: "workers s' = workers s \<Longrightarrow> sum_workers cfg g s' = sum_workers cfg g s"
  by (simp add: sum_workers_def)

definition reconnected :: "publish_config \<Rightarrow> 'e publisher \<Rightarrow> bool" where
  "reconnected cfg s \<longleftrightarrow>
     (\<forall>i. failed_connects (max_connect_attempts cfg) (workers s i) \<le> max_connect_attempts cfg)
     \<and> (\<forall>i f p g. workers s i \<in> {Between f, Connected f p g} \<longrightarrow> f < max_connect_attempts cfg)
     \<and> n_reconnects (stats s) \<le> sum_workers cfg (failed_connects (max_connect_attempts cfg)) s + max_connect_attempts cfg * n_progress s
     \<and> n_progress s + sum_workers cfg has_progress s \<le> length (oks s) + n_rejects s"

lemma reconnected_small:
  "reconnected cfg s \<Longrightarrow> workers s i = Between f \<or> workers s i = Connected f p g \<Longrightarrow> f < max_connect_attempts cfg"
  unfolding reconnected_def by blast

text \<open>A step that replaces one worker.\<close>

lemma reconnected_upd:
  assumes r: "reconnected cfg s" and i: "i < pc_connections cfg" and w: "workers s' = (workers s)(i := v)"
    and v: "failed_connects (max_connect_attempts cfg) v \<le> max_connect_attempts cfg"
      "\<And>f p g. v \<in> {Between f, Connected f p g} \<Longrightarrow> f < max_connect_attempts cfg"
    and n: "n_reconnects (stats s') + failed_connects (max_connect_attempts cfg) (workers s i) + max_connect_attempts cfg * n_progress s
      \<le> n_reconnects (stats s) + failed_connects (max_connect_attempts cfg) v + max_connect_attempts cfg * n_progress s'"
    and p: "n_progress s' + has_progress v + length (oks s) + n_rejects s
      \<le> n_progress s + has_progress (workers s i) + length (oks s') + n_rejects s'"
  shows "reconnected cfg s'"
proof -
  note f = sum_workers_upd [OF i w, of "failed_connects (max_connect_attempts cfg)"] and h = sum_workers_upd [OF i w, of has_progress]
  have "n_reconnects (stats s') \<le> sum_workers cfg (failed_connects (max_connect_attempts cfg)) s' + max_connect_attempts cfg * n_progress s'"
    "n_progress s' + sum_workers cfg has_progress s' \<le> length (oks s') + n_rejects s'"
    using r n p f h by (auto simp: reconnected_def)
  then show ?thesis using r v by (auto simp: reconnected_def w)
qed

lemma reconnected_same:
  assumes "reconnected cfg s" "workers s' = workers s" "n_reconnects (stats s') = n_reconnects (stats s)" "n_progress s' = n_progress s"
    "oks s' = oks s" "n_rejects s' = n_rejects s"
  shows "reconnected cfg s'"
  using assms sum_workers_cong [OF assms(2)] by (simp add: reconnected_def)

lemma reconnected_ends:
  assumes r: "reconnected cfg s" and i: "i < pc_connections cfg" and m: "0 < max_connect_attempts cfg"
    and w: "workers s i = Between f \<and> \<not> g \<or> workers s i = Connected f p g"
  shows "reconnected cfg (connection_ends cfg i f q g s)"
proof -
  have f: "f < max_connect_attempts cfg" using reconnected_small [OF r, of i f p g] w by blast
  have w': "failed_connects (max_connect_attempts cfg) (workers s i) = f" "has_progress (workers s i) = of_bool g" using w by auto
  consider (stop) "is_done s" | (give) "\<not> is_done s" "\<not> g" "f + 1 \<ge> max_connect_attempts cfg"
    | (again) "\<not> is_done s" "g \<or> f + 1 < max_connect_attempts cfg" by linarith
  then show ?thesis
  proof cases
    case stop
    show ?thesis by (rule reconnected_upd [OF r i, of _ Stopped])
        (use stop f w' in \<open>auto simp: connection_ends_def set_worker_def Let_def\<close>)
  next
    case give
    show ?thesis by (rule reconnected_upd [OF r i, of _ GaveUp])
        (use give f w' in \<open>auto simp: connection_ends_def set_worker_def finish_def Let_def\<close>)
  next
    case again
    show ?thesis by (rule reconnected_upd [OF r i, of _ "Between (if g then 0 else f + 1)"])
        (use again f w' m in \<open>auto simp: connection_ends_def set_worker_def Let_def\<close>)
  qed
qed

lemma reconnected_step:
  assumes "pub_step cfg s s'" "reconnected cfg s" "accounted cfg events s" "0 < max_connect_attempts cfg"
  shows "reconnected cfg s'"
proof -
  note worker = accounted_worker [OF assms(3)]
  have small: "f < max_connect_attempts cfg" if "workers s i = Connected f p g \<or> workers s i = Between f" for i f p g
    using reconnected_small [OF assms(2), of i f p g] that by blast
  show ?thesis using assms(1)
  proof cases
    case (connects i f)
    show ?thesis by (rule reconnected_upd [OF assms(2) worker, of i _ "Connected f [] False"])
        (use connects small [of i f] in \<open>auto simp: set_worker_def\<close>)
  next
    case (no_connection i f)
    show ?thesis unfolding no_connection(1) by (rule reconnected_ends [OF assms(2) worker assms(4)]) (use no_connection in auto)
  next
    case (sends i f p g it rest)
    show ?thesis by (rule reconnected_upd [OF assms(2) worker, of i _ "Connected f (p @ [it]) g"])
        (use sends small [of i f] in \<open>auto simp: set_worker_def send_item_def\<close>)
  next
    case (accepted i f p g it)
    show ?thesis by (rule reconnected_upd [OF assms(2) worker, of i _ "Connected f (remove1 it p) True"])
        (use accepted small [of i f] in \<open>auto simp: set_worker_def answer_true_def\<close>)
  next
    case (refused i f p g it)
    show ?thesis by (rule reconnected_upd [OF assms(2) worker, of i _ "Connected f (remove1 it p) True"])
        (use refused small [of i f] in \<open>auto simp: set_worker_def answer_false_def Let_def\<close>)
  next
    case (drops i f p g)
    show ?thesis unfolding drops(1) by (rule reconnected_ends [OF assms(2) worker assms(4)]) (use drops in auto)
  qed (rule reconnected_same [OF assms(2)]; auto simp: produce_def produced_def check_done_def finish_def)+
qed

section \<open>What publishing promises\<close>

definition pub_ok :: "publish_config \<Rightarrow> 'e list \<Rightarrow> 'e publisher \<Rightarrow> bool" where
  "pub_ok cfg events s \<longleftrightarrow> accounted cfg events s \<and> ended s \<and> tried cfg s \<and> reconnected cfg s"

lemma pub_ok_run:
  assumes "pub_run cfg s s'" "pub_ok cfg events s" "0 < max_event_attempts cfg" "0 < max_connect_attempts cfg"
  shows "pub_ok cfg events s'"
  using assms
proof (induction rule: rtranclp_induct)
  case (step y z)
  then have "pub_ok cfg events y" by simp
  then show ?case
    using accounted_step [OF step(2)] ended_step [OF step(2)] tried_step [OF step(2)] reconnected_step [OF step(2)] assms(3,4)
    unfolding pub_ok_def by blast
qed simp

lemma new_publisher_ok:
  assumes "0 < max_connect_attempts cfg"
  shows "pub_ok cfg events (new_publisher cfg events)"
  using assms
  by (auto simp: pub_ok_def accounted_def ended_def tried_def reconnected_def new_publisher_def unresolved_def flying_def
      sum_workers_def)

lemma sum_snd_le:
  fixes U :: "'e item multiset"
  shows "\<forall>it\<in>#U. snd it < a \<Longrightarrow> (\<Sum>it\<in>#U. snd it) \<le> a * size U"
  by (induction U) auto

lemma reconnects_bound:
  assumes "pub_ok cfg events s"
  shows "n_reconnects (stats s) \<le> max_connect_attempts cfg * (pc_connections cfg + (max_event_attempts cfg + 1) * length events)"
proof -
  let ?M = "max_connect_attempts cfg" and ?A = "max_event_attempts cfg"
  have a: "accounted cfg events s" and t: "tried cfg s" and r: "reconnected cfg s" using assms by (simp_all add: pub_ok_def)
  have le: "n_events (stats s) \<le> length events" "length (oks s) \<le> n_resolved s" using a by (auto simp: accounted_def)
  have "(\<Sum>it\<in>#unresolved cfg s. snd it) \<le> ?A * size (unresolved cfg s)" using t by (intro sum_snd_le) (simp add: tried_def)
  then have "n_rejects s \<le> ?A * (size (unresolved cfg s) + n_resolved s)" using t by (simp add: tried_def distrib_left)
  also have "\<dots> \<le> ?A * length events" using accounted_size [OF a] le(1) by simp
  finally have "n_progress s \<le> (?A + 1) * length events"
    using r le accounted_size [OF a] by (simp add: reconnected_def)
  then have "?M * n_progress s \<le> ?M * ((?A + 1) * length events)" by (rule mult_left_mono) simp
  moreover have "sum_workers cfg (failed_connects ?M) s \<le> pc_connections cfg * ?M"
    using sum_bounded_above [of "{..<pc_connections cfg}" "\<lambda>i. failed_connects ?M (workers s i)" ?M] r
    by (simp add: sum_workers_def reconnected_def)
  ultimately show ?thesis using r by (simp add: reconnected_def distrib_left mult.commute)
qed

text \<open>What a returned report says.\<close>

lemma delivery_report:
  assumes "publish_events cfg events st ok" "0 < max_event_attempts cfg" "0 < max_connect_attempts cfg"
  shows "mset ok \<subseteq># mset events" "n_acked st = length ok" "n_failed st = n_unacked st"
    "\<not> aborted st \<Longrightarrow> n_events st = length events"
    "n_reconnects st \<le> max_connect_attempts cfg * (pc_connections cfg + (max_event_attempts cfg + 1) * length events)"
proof -
  from assms(1) obtain s where s: "pub_run cfg (new_publisher cfg events) s" "is_done s" "st = final_stats s" "ok = oks s"
    by (auto simp: publish_events_def)
  have ok: "pub_ok cfg events s" by (rule pub_ok_run [OF s(1) new_publisher_ok [OF assms(3)] assms(2,3)])
  then have a: "accounted cfg events s" by (simp add: pub_ok_def)
  show "mset ok \<subseteq># mset events" using a unfolding s(4) accounted_def
    by (metis mset_subset_eq_add_left mset_subset_eq_add_right subset_mset.order_trans)
  show "n_acked st = length ok" using a by (simp add: s(3,4) final_stats_def accounted_def)
  show "n_failed st = n_unacked st" by (simp add: s(3) final_stats_def n_unacked_def)
  show "n_events st = length events" if "\<not> aborted st"
    using that ok s(2) a by (auto simp: s(3) final_stats_def pub_ok_def ended_def accounted_def)
  show "n_reconnects st \<le> max_connect_attempts cfg * (pc_connections cfg + (max_event_attempts cfg + 1) * length events)"
    using reconnects_bound [OF ok] by (simp add: s(3) final_stats_def)
qed

lemma clean_report:
  assumes "publish_events cfg events st ok" "0 < max_event_attempts cfg" "0 < max_connect_attempts cfg"
    "\<not> aborted st" "n_unacked st = 0"
  shows "mset ok = mset events"
proof -
  note report = delivery_report [OF assms(1,2,3)]
  have "size (mset ok) = size (mset events)"
    using report(2) report(4) [OF assms(4)] size_mset_mono [OF report(1)] assms(5) by (simp add: n_unacked_def)
  then show ?thesis using report(1) by (metis mset_subset_size nat_neq_iff subset_mset.le_imp_less_or_eq)
qed

text \<open>
  C21. Delivery to the relay. Whatever connections fail, however often the relay refuses an
  event and however the tasks interleave, when \<^verbatim>\<open>publish_events\<close> returns: it counts as acked
  exactly the events the relay answered with a true OK, none twice and none that was not
  asked for; where it did not abort, every event was produced; so where it reports neither
  an abort nor an unacked event, the relay accepted every event. And it gives up in time:
  it opens at most a bounded number of connections, linear in the number of events.
\<close>
theorem published_means_accepted:
  assumes "publish_events cfg events st ok" "0 < max_event_attempts cfg" "0 < max_connect_attempts cfg"
  shows "mset ok \<subseteq># mset events \<and> n_acked st = length ok \<and> n_failed st = n_unacked st
    \<and> (\<not> aborted st \<longrightarrow> n_events st = length events)
    \<and> (\<not> aborted st \<and> n_unacked st = 0 \<longrightarrow> mset ok = mset events)
    \<and> n_reconnects st \<le> max_connect_attempts cfg * (pc_connections cfg + (max_event_attempts cfg + 1) * length events)"
  using delivery_report [OF assms] clean_report [OF assms] by blast

text \<open>One event, accepted at the first try.\<close>

lemma one_event_delivery:
  "publish_events PUBLISH_CONFIG [e] \<lparr>n_events = 1, n_acked = 1, n_failed = 0, n_retried = 0, n_reconnects = 0, aborted = False\<rparr> [e]"
proof -
  let ?c = PUBLISH_CONFIG
  let ?s0 = "new_publisher ?c [e]"
  let ?s1 = "produce e [] ?s0"
  let ?s2 = "set_worker 0 (Connected 0 [] False) ?s1"
  let ?s3 = "send_item 0 0 [] False (e, 0) [] ?s2"
  let ?s4 = "answer_true 0 0 [(e, 0)] (e, 0) ?s3"
  let ?s5 = "produced ?s4"
  note defs = new_publisher_def produce_def PUBLISH_CONFIG_def set_worker_def send_item_def answer_true_def resolve_def
    check_done_def finish_def produced_def
  have "pub_step ?c ?s0 ?s1" by (rule produces) (simp_all add: defs)
  moreover have "pub_step ?c ?s1 ?s2" by (rule connects) (simp_all add: defs)
  moreover have "pub_step ?c ?s2 ?s3" by (rule sends) (simp_all add: defs)
  moreover have "pub_step ?c ?s3 ?s4" by (rule accepted [of _ _ _ _ False]) (simp_all add: defs)
  moreover have "pub_step ?c ?s4 ?s5" by (rule exhausted) (simp_all add: defs)
  ultimately have "pub_run ?c ?s0 ?s5" by (meson r_into_rtranclp rtranclp_trans)
  moreover have "is_done ?s5" "final_stats ?s5 = \<lparr>n_events = 1, n_acked = 1, n_failed = 0, n_retried = 0, n_reconnects = 0, aborted = False\<rparr>"
    "oks ?s5 = [e]" by (simp_all add: defs final_stats_def)
  ultimately show ?thesis unfolding publish_events_def by metis
qed

theorem published_means_accepted_witness:
  "\<exists>st ok. publish_events PUBLISH_CONFIG [''e''] st ok \<and> \<not> aborted st \<and> mset ok = mset [''e''] \<and> n_acked st = length ok
     \<and> n_reconnects st \<le> 5 * (4 + 6 * 1)"
proof -
  let ?st = "\<lparr>n_events = 1, n_acked = 1, n_failed = 0, n_retried = 0, n_reconnects = 0, aborted = False\<rparr>"
  have "publish_events PUBLISH_CONFIG [''e''] ?st [''e'']" by (rule one_event_delivery)
  moreover have "0 < max_event_attempts PUBLISH_CONFIG" "0 < max_connect_attempts PUBLISH_CONFIG"
    "pc_connections PUBLISH_CONFIG = 4" "max_connect_attempts PUBLISH_CONFIG = 5" "max_event_attempts PUBLISH_CONFIG = 5"
    by (simp_all add: PUBLISH_CONFIG_def)
  moreover from published_means_accepted [OF calculation(1,2,3)]
  have "mset [''e''] = mset [''e''] \<and> n_acked ?st = length [''e'']" by (simp only: simp_thms)
  ultimately show ?thesis using published_means_accepted [of PUBLISH_CONFIG "[''e'']" ?st "[''e'']"]
    by (intro exI [of _ ?st] exI [of _ "[''e'']"]) simp
qed

text \<open>What a client of the publisher relies on: events the relay was asked for, and, where the
  report is clean, all of them.\<close>

locale confirmed_delivery =
  fixes delivers :: "'e list \<Rightarrow> publish_stats \<Rightarrow> 'e list \<Rightarrow> bool"
  assumes only_asked: "delivers events st ok \<Longrightarrow> set ok \<subseteq> set events"
    and clean: "delivers events st ok \<Longrightarrow> \<not> aborted st \<Longrightarrow> n_unacked st = 0 \<Longrightarrow> set ok = set events"

interpretation relay: confirmed_delivery "publish_events PUBLISH_CONFIG"
proof
  have pos: "0 < max_event_attempts PUBLISH_CONFIG" "0 < max_connect_attempts PUBLISH_CONFIG" by (simp_all add: PUBLISH_CONFIG_def)
  fix events ok :: "'a list" and st
  assume d: "publish_events PUBLISH_CONFIG events st ok"
  from delivery_report(1) [OF d pos] show "set ok \<subseteq> set events" by (metis set_mset_mono set_mset_mset)
  show "set ok = set events" if "\<not> aborted st" "n_unacked st = 0"
    using clean_report [OF d pos that] by (metis set_mset_mset)
qed

end
