(* ===== verification/Publish.thy ===== *)
theory Publish
  imports Ledger_Laws Relay_Publisher "HOL-Library.List_Lexorder" "HOL-Library.Char_ord"
begin

text \<open>
  Publishing a run's scores as Trusted Assertions
  (\<^verbatim>\<open>app/message_queue_tasks/upload_nostr_events.py\<close>, \<^verbatim>\<open>ta_signing.py\<close>): what is asserted and
  what is deleted, the events, and the stage that sends them and records the observer's
  published state, which \<^verbatim>\<open>app/repos/brainstorm_nsec.py\<close> keeps as packed bytes. Strings of
  bytes are strings of characters.

  Parameters: the relay (what it holds under the assistant's key after an event it
  accepted), the parsing of an nsec, the outcome of publishing the assistant's profile, and
  the time a run took. An event is signed by nostr-sdk; what is kept of it here is its
  kind, tags and content.
\<close>

section \<open>Packed pubkeys\<close>

definition unhex_digit :: "char \<Rightarrow> nat option" where
  "unhex_digit c =
     (let n = (of_char c :: nat) in
      if 48 \<le> n \<and> n \<le> 57 then Some (n - 48)
      else if 97 \<le> n \<and> n \<le> 102 then Some (n - 87)
      else if 65 \<le> n \<and> n \<le> 70 then Some (n - 55) else None)"

definition hex_char :: "nat \<Rightarrow> char" where
  "hex_char d = char_of (if d < 10 then 48 + d else 87 + d)"

definition ascii_space :: "char \<Rightarrow> bool" where
  "ascii_space c = (let n = (of_char c :: nat) in n = 32 \<or> 9 \<le> n \<and> n \<le> 13)"

text \<open>\<^verbatim>\<open>bytes.fromhex\<close>, which skips white space between bytes, and \<^verbatim>\<open>bytes.hex\<close>.\<close>

fun fromhex :: "string \<Rightarrow> (exn, string) result" where
  "fromhex [] = Inr []"
| "fromhex [c] = (if ascii_space c then Inr [] else Inl (ValueError []))"
| "fromhex (c # d # s) =
     (if ascii_space c then fromhex (d # s)
      else case (unhex_digit c, unhex_digit d) of
             (Some x, Some y) \<Rightarrow> result_bind (fromhex s) (\<lambda>bs. Inr (char_of (16 * x + y) # bs))
           | _ \<Rightarrow> Inl (ValueError []))"

definition tohex :: "string \<Rightarrow> string" where
  "tohex bs = concat (map (\<lambda>b. let n = (of_char b :: nat) in [hex_char (n div 16), hex_char (n mod 16)]) bs)"

definition PUBKEY_BYTES :: nat where "PUBKEY_BYTES = 32"

fun pack_pubkeys :: "string list \<Rightarrow> (exn, string) result" where
  "pack_pubkeys [] = Inr []"
| "pack_pubkeys (pk # pks) = result_bind (fromhex pk) (\<lambda>bs. result_bind (pack_pubkeys pks) (\<lambda>rest. Inr (bs @ rest)))"

text \<open>Slices of \<open>n\<close>, the last one shorter.\<close>

function chunks :: "nat \<Rightarrow> 'a list \<Rightarrow> 'a list list" where
  "chunks n xs = (if xs = [] \<or> n = 0 then [] else take n xs # chunks n (drop n xs))"
  by pat_completeness auto
termination by (relation "measure (\<lambda>(_, xs). length xs)") auto

declare chunks.simps [simp del]

definition unpack_pubkeys :: "string option \<Rightarrow> string list" where
  "unpack_pubkeys blob = (case blob of None \<Rightarrow> [] | Some bs \<Rightarrow> map tohex (chunks PUBKEY_BYTES bs))"

text \<open>A pubkey as nostr writes it: 64 lower-case hexadecimal digits.\<close>

definition lower_hex :: "char \<Rightarrow> bool" where
  "lower_hex c = (let n = (of_char c :: nat) in 48 \<le> n \<and> n \<le> 57 \<or> 97 \<le> n \<and> n \<le> 102)"

definition is_pubkey :: "string \<Rightarrow> bool" where
  "is_pubkey s \<longleftrightarrow> length s = 64 \<and> list_all lower_hex s"

lemma unhex_digit_lower:
  assumes "lower_hex c"
  shows "\<exists>x<16. unhex_digit c = Some x \<and> hex_char x = c" "\<not> ascii_space c"
proof -
  have "char_of (of_char c :: nat) = c" by simp
  then show "\<exists>x<16. unhex_digit c = Some x \<and> hex_char x = c"
    using assms unfolding lower_hex_def unhex_digit_def hex_char_def Let_def
    by (cases "(of_char c :: nat) \<le> 57") auto
  show "\<not> ascii_space c" using assms by (auto simp: lower_hex_def ascii_space_def Let_def)
qed

lemma fromhex_lower:
  "list_all lower_hex s \<Longrightarrow> length s = 2 * n \<Longrightarrow> \<exists>bs. fromhex s = Inr bs \<and> tohex bs = s \<and> length bs = n"
proof (induction n arbitrary: s)
  case (Suc n)
  then obtain c d t where s: "s = c # d # t" by (metis length_0_conv list.exhaust mult_Suc_right add_2_eq_Suc nat.simps(3) length_Suc_conv)
  then have cd: "lower_hex c" "lower_hex d" "list_all lower_hex t" "length t = 2 * n" using Suc by auto
  obtain x where x: "x < 16" "unhex_digit c = Some x" "hex_char x = c" using unhex_digit_lower(1) [OF cd(1)] by blast
  obtain y where y: "y < 16" "unhex_digit d = Some y" "hex_char y = d" using unhex_digit_lower(1) [OF cd(2)] by blast
  obtain bs where bs: "fromhex t = Inr bs" "tohex bs = t" "length bs = n" using Suc(1) [OF cd(3,4)] by blast
  have "(of_char (char_of (16 * x + y) :: char) :: nat) = 16 * x + y" using x(1) y(1) by (simp add: of_char_of)
  then show ?case using s x y bs unhex_digit_lower(2) [OF cd(1)] by (auto simp: tohex_def Let_def)
qed (simp add: tohex_def)

lemma chunks_append:
  assumes "length xs = n" "0 < n"
  shows "chunks n (xs @ ys) = xs # chunks n ys"
  using assms by (subst chunks.simps) auto

text \<open>What is stored is what was published.\<close>

lemma unpack_pack:
  assumes "list_all is_pubkey pks"
  shows "\<exists>bs. pack_pubkeys pks = Inr bs \<and> unpack_pubkeys (Some bs) = pks"
  using assms
proof (induction pks)
  case Nil
  then show ?case by (simp add: unpack_pubkeys_def chunks.simps)
next
  case (Cons pk pks)
  then obtain rest where rest: "pack_pubkeys pks = Inr rest" "unpack_pubkeys (Some rest) = pks" by auto
  obtain bs where bs: "fromhex pk = Inr bs" "tohex bs = pk" "length bs = 32"
    using fromhex_lower [of pk 32] Cons(2) by (auto simp: is_pubkey_def)
  then show ?case using rest chunks_append [of bs 32 rest] by (auto simp: unpack_pubkeys_def PUBKEY_BYTES_def)
qed

section \<open>The events\<close>

record ta_input =
  ti_observee :: string
  ti_rank :: int
  ti_followers :: int
  ti_reporters :: int
  ti_muters :: int
  ti_hops :: int

definition TA_KIND :: nat where "TA_KIND = 30382"
definition DELETION_KIND :: nat where "DELETION_KIND = 5"
definition DELETION_COORDS_PER_EVENT :: nat where "DELETION_COORDS_PER_EVENT = 200"
definition UNREACHABLE_HOPS :: int where "UNREACHABLE_HOPS = 999"
definition DELETION_CONTENT :: string where "DELETION_CONTENT = ''dropped below cutoff''"
definition CLIENT_TAG :: "string list" where "CLIENT_TAG = [''client'', ''Brainstorm'']"

definition ta_tags :: "ta_input \<Rightarrow> string list list" where
  "ta_tags t =
     [[''d'', ti_observee t], [''rank'', show_int (ti_rank t)], [''followers'', show_int (ti_followers t)],
      [''reporters'', show_int (ti_reporters t)], [''muters'', show_int (ti_muters t)], CLIENT_TAG]
     @ (if ti_hops t < UNREACHABLE_HOPS then [[''hops'', show_int (ti_hops t)]] else [])"

record nostr_event =
  ev_kind :: nat
  ev_tags :: "string list list"
  ev_content :: string

definition sign_ta_json :: "ta_input \<Rightarrow> nostr_event" where
  "sign_ta_json t = \<lparr>ev_kind = TA_KIND, ev_tags = ta_tags t, ev_content = []\<rparr>"

definition ta_coordinate :: "string \<Rightarrow> string \<Rightarrow> string" where
  "ta_coordinate signing_pubkey observee = show_nat TA_KIND @ '':'' @ signing_pubkey @ '':'' @ observee"

definition atag_deletion_tags :: "string list \<Rightarrow> string \<Rightarrow> nat \<Rightarrow> string list list list" where
  "atag_deletion_tags observees signing_pubkey chunk_size =
     map (\<lambda>c. map (\<lambda>o'. [''a'', ta_coordinate signing_pubkey o']) c @ [CLIENT_TAG]) (chunks chunk_size observees)"

definition sign_deletion_json :: "string list list \<Rightarrow> nostr_event" where
  "sign_deletion_json tags = \<lparr>ev_kind = DELETION_KIND, ev_tags = tags, ev_content = DELETION_CONTENT\<rparr>"

text \<open>The run's assertions, then its deletions.\<close>

definition sign_publish_events :: "ta_input list \<Rightarrow> string list \<Rightarrow> string \<Rightarrow> nostr_event list" where
  "sign_publish_events inputs deletion_observees pubkey_hex =
     map sign_ta_json inputs
     @ map sign_deletion_json (atag_deletion_tags deletion_observees pubkey_hex DELETION_COORDS_PER_EVENT)"

section \<open>The plan\<close>

definition int_or_0 :: "rat option \<Rightarrow> int" where
  "int_or_0 x = (case x of None \<Rightarrow> 0 | Some r \<Rightarrow> trunc r)"

definition ta_input_of :: "scorecard \<Rightarrow> ta_input" where
  "ta_input_of c =
     \<lparr>ti_observee = card_observee c, ti_rank = round_even (card_influence c * 100),
      ti_followers = int_or_0 (card_trusted_followers c), ti_reporters = int_or_0 (card_trusted_reporters c),
      ti_muters = int_or_0 (card_trusted_muters c), ti_hops = trunc (card_hops c)\<rparr>"

definition above_cutoff :: "rat \<Rightarrow> scorecard \<Rightarrow> bool" where
  "above_cutoff cutoff c \<longleftrightarrow> round2 (card_influence c) \<ge> cutoff"

text \<open>\<^verbatim>\<open>sorted(..., reverse=True)\<close> keeps the order of equals.\<close>

definition prepare_ta_inputs :: "graperank_result \<Rightarrow> rat \<Rightarrow> bool \<Rightarrow> ta_input list" where
  "prepare_ta_inputs g cutoff full_sync =
     map ta_input_of (sort_key (\<lambda>c. - card_influence c) (map snd
       (filter (\<lambda>(pubkey, c). (full_sync \<or> pubkey \<in> set (gr_changed g)) \<and> above_cutoff cutoff c) (cards_of g))))"

text \<open>Sets are kept as lists without duplicates; the result is sorted.\<close>

definition delete_from_sets :: "string list \<Rightarrow> string list \<Rightarrow> bool \<Rightarrow> string list" where
  "delete_from_sets fell_off below_cutoff sweep_below_cutoff =
     sort (remdups (if sweep_below_cutoff then fell_off @ below_cutoff else fell_off))"

definition compute_delete_observees :: "string list \<Rightarrow> string list \<Rightarrow> string list \<Rightarrow> bool \<Rightarrow> string list" where
  "compute_delete_observees previously currently below_cutoff sweep_below_cutoff =
     delete_from_sets (filter (\<lambda>o'. o' \<notin> set currently) previously) below_cutoff sweep_below_cutoff"

record publish_plan =
  currently_published :: "string list"
  plan_deletes :: "string list"

definition plan_publish :: "graperank_result \<Rightarrow> string list \<Rightarrow> rat \<Rightarrow> bool \<Rightarrow> publish_plan" where
  "plan_publish g previously cutoff sweep_below_cutoff =
     (let cards = map snd (cards_of g);
          currently = map card_observee (filter (above_cutoff cutoff) cards);
          below = map card_observee (filter (\<lambda>c. \<not> above_cutoff cutoff c) cards);
          fell_off = filter (\<lambda>o'. o' \<notin> set currently) previously
      in \<lparr>currently_published = currently, plan_deletes = delete_from_sets fell_off below sweep_below_cutoff\<rparr>)"

definition resolve_full_sync :: "bool \<Rightarrow> bool option \<Rightarrow> bool" where
  "resolve_full_sync setting_full force_full \<longleftrightarrow> setting_full \<or> force_full = Some True"

text \<open>\<^verbatim>\<open>compute_delete_observees\<close> is the plan's delete set stated on its own.\<close>

lemma plan_deletes_eq:
  "plan_deletes (plan_publish g previously cutoff sweep) =
     compute_delete_observees previously (currently_published (plan_publish g previously cutoff sweep))
       (map card_observee (filter (\<lambda>c. \<not> above_cutoff cutoff c) (map snd (cards_of g)))) sweep"
  by (simp add: plan_publish_def compute_delete_observees_def Let_def)

section \<open>What the relay holds\<close>

text \<open>What a reader finds under the assistant's coordinate of an observee.\<close>

type_synonym store = "string \<Rightarrow> string list list option"

text \<open>What NIP-01 says of addressable events and NIP-09 of their deletion: an accepted assertion
  is what is found for its observee, an accepted deletion removes what it names.\<close>

definition relay_laws :: "(nostr_event \<Rightarrow> store \<Rightarrow> store) \<Rightarrow> string \<Rightarrow> bool" where
  "relay_laws accept signing_pubkey \<longleftrightarrow>
     (\<forall>t st. accept (sign_ta_json t) st = st(ti_observee t \<mapsto> ta_tags t))
     \<and> (\<forall>os st. accept (sign_deletion_json (map (\<lambda>o'. [''a'', ta_coordinate signing_pubkey o']) os @ [CLIENT_TAG])) st
          = (\<lambda>o'. if o' \<in> set os then None else st o'))"

text \<open>The assertions a set of scorecards stands for.\<close>

definition published_view :: "rat \<Rightarrow> (string \<times> scorecard) list \<Rightarrow> store" where
  "published_view cutoff cards o' =
     (case map_of cards o' of None \<Rightarrow> None
      | Some c \<Rightarrow> if above_cutoff cutoff c then Some (ta_tags (ta_input_of c)) else None)"

text \<open>The scorecards of a run are a dictionary under their observees.\<close>

definition keyed :: "(string \<times> scorecard) list \<Rightarrow> bool" where
  "keyed cards \<longleftrightarrow> distinct (map fst cards) \<and> (\<forall>(k, c)\<in>set cards. card_observee c = k)"

lemma set_chunks: "0 < n \<Longrightarrow> concat (chunks n xs) = xs"
  by (induction n xs rule: chunks.induct) (subst chunks.simps, auto)

lemma currently_published_set:
  assumes "keyed (cards_of g)"
  shows "set (currently_published (plan_publish g previously cutoff sweep)) = dom (published_view cutoff (cards_of g))"
    (is "?a = ?b")
proof -
  have "o' \<in> ?a \<longleftrightarrow> (\<exists>c. (o', c) \<in> set (cards_of g) \<and> above_cutoff cutoff c)" for o'
  proof -
    have "card_observee c = k" if "(k, c) \<in> set (cards_of g)" for k c using that assms by (auto simp: keyed_def)
    then show ?thesis by (force simp: plan_publish_def Let_def)
  qed
  moreover have "o' \<in> ?b \<longleftrightarrow> (\<exists>c. (o', c) \<in> set (cards_of g) \<and> above_cutoff cutoff c)" for o'
  proof -
    have "o' \<in> ?b \<longleftrightarrow> (\<exists>c. map_of (cards_of g) o' = Some c \<and> above_cutoff cutoff c)"
      by (auto simp: published_view_def dom_def split: option.splits if_splits)
    then show ?thesis using assms by (simp add: keyed_def map_of_eq_Some_iff)
  qed
  ultimately show ?thesis by blast
qed

lemma sign_ta_observee: "sign_ta_json t = sign_ta_json t' \<Longrightarrow> ti_observee t = ti_observee t'"
  by (simp add: sign_ta_json_def ta_tags_def)

lemma kinds_apart [simp]: "sign_ta_json t \<noteq> sign_deletion_json tags" "sign_deletion_json tags \<noteq> sign_ta_json t"
  by (simp_all add: sign_ta_json_def sign_deletion_json_def TA_KIND_def DELETION_KIND_def)

definition deletion_event :: "string \<Rightarrow> string list \<Rightarrow> nostr_event" where
  "deletion_event pk os = sign_deletion_json (map (\<lambda>o'. [''a'', ta_coordinate pk o']) os @ [CLIENT_TAG])"

lemma stream_events:
  "e \<in> set (sign_publish_events inputs deletes pk) \<longleftrightarrow>
     (\<exists>t\<in>set inputs. e = sign_ta_json t) \<or> (\<exists>os\<in>set (chunks DELETION_COORDS_PER_EVENT deletes). e = deletion_event pk os)"
  by (auto simp: sign_publish_events_def atag_deletion_tags_def deletion_event_def)

text \<open>What is found for an observee after accepted events of the stream, in any order.\<close>

lemma accepted_assertion:
  assumes laws: "relay_laws accept pk" and same: "\<And>t. t \<in> set inputs \<Longrightarrow> ti_observee t = x \<Longrightarrow> ta_tags t = tags"
    and "x \<notin> set deletes" "set es \<subseteq> set (sign_publish_events inputs deletes pk)"
  shows "fold accept es st x = (if \<exists>t\<in>set inputs. ti_observee t = x \<and> sign_ta_json t \<in> set es then Some tags else st x)"
  using assms(4)
proof (induction es arbitrary: st)
  case (Cons e es)
  then have es: "set es \<subseteq> set (sign_publish_events inputs deletes pk)" and e: "e \<in> set (sign_publish_events inputs deletes pk)" by auto
  from e show ?case unfolding stream_events
  proof (elim disjE bexE)
    fix t assume t: "t \<in> set inputs" "e = sign_ta_json t"
    then have "accept e st = st(ti_observee t \<mapsto> ta_tags t)" using laws by (simp add: relay_laws_def)
    moreover have "ti_observee t' = ti_observee t" if "sign_ta_json t' = e" for t' using that t sign_ta_observee by blast
    ultimately have step: "accept e st x = (if ti_observee t = x then Some tags else st x)"
      "(\<exists>t\<in>set inputs. ti_observee t = x \<and> sign_ta_json t \<in> set (e # es)) \<longleftrightarrow>
         ti_observee t = x \<or> (\<exists>t\<in>set inputs. ti_observee t = x \<and> sign_ta_json t \<in> set es)"
      subgoal using same [OF t(1)] by (cases "ti_observee t = x") simp_all
      subgoal using t \<open>\<And>t'. sign_ta_json t' = e \<Longrightarrow> ti_observee t' = ti_observee t\<close> by (metis list.set_intros(1,2) set_ConsD)
      done
    show ?thesis unfolding step(2) using Cons(1) [OF es, of "accept e st"] step(1) by (simp, blast)
  next
    fix os assume os: "os \<in> set (chunks DELETION_COORDS_PER_EVENT deletes)" "e = deletion_event pk os"
    then have "set os \<subseteq> set deletes" using set_chunks [of DELETION_COORDS_PER_EVENT deletes]
      by (metis DELETION_COORDS_PER_EVENT_def UN_upper set_concat zero_less_numeral)
    then have "x \<notin> set os" using assms(3) by auto
    moreover have "accept e st = (\<lambda>o'. if o' \<in> set os then None else st o')"
      using laws os by (simp add: relay_laws_def deletion_event_def)
    ultimately show ?thesis using Cons(1) [OF es, of "accept e st"] os by (auto simp: deletion_event_def)
  qed
qed simp

lemma deletion_event_inj: "deletion_event pk os = deletion_event pk os' \<Longrightarrow> os = os'"
proof -
  assume "deletion_event pk os = deletion_event pk os'"
  then have "map (\<lambda>o'. [''a'', ta_coordinate pk o']) os = map (\<lambda>o'. [''a'', ta_coordinate pk o']) os'"
    by (simp add: deletion_event_def sign_deletion_json_def)
  moreover have "inj (\<lambda>o'. [''a'', ta_coordinate pk o'])" by (rule injI) (simp add: ta_coordinate_def)
  ultimately show ?thesis by (metis inj_map_eq_map)
qed

lemma accepted_deletion:
  assumes laws: "relay_laws accept pk" and x: "x \<notin> ti_observee ` set inputs" and "set es \<subseteq> set (sign_publish_events inputs deletes pk)"
  shows "fold accept es st x = (if \<exists>os. x \<in> set os \<and> deletion_event pk os \<in> set es then None else st x)"
  using assms(3)
proof (induction es arbitrary: st)
  case (Cons e es)
  then have es: "set es \<subseteq> set (sign_publish_events inputs deletes pk)" and e: "e \<in> set (sign_publish_events inputs deletes pk)" by auto
  from e show ?case unfolding stream_events
  proof (elim disjE bexE)
    fix t assume t: "t \<in> set inputs" "e = sign_ta_json t"
    then have "accept e st x = st x" using laws x by (auto simp: relay_laws_def)
    moreover have "deletion_event pk os \<noteq> e" for os using t by (simp add: deletion_event_def)
    ultimately show ?thesis using Cons(1) [OF es, of "accept e st"] by auto
  next
    fix os assume os: "e = deletion_event pk os"
    then have st: "accept e st x = (if x \<in> set os then None else st x)" using laws by (simp add: relay_laws_def deletion_event_def)
    have found: "(\<exists>os. x \<in> set os \<and> deletion_event pk os \<in> set (e # es)) \<longleftrightarrow>
        x \<in> set os \<or> (\<exists>os. x \<in> set os \<and> deletion_event pk os \<in> set es)" using os deletion_event_inj by auto
    show ?thesis unfolding found using Cons(1) [OF es, of "accept e st"] st by (simp, blast)
  qed
qed simp

text \<open>All of them accepted: what is asserted is found, what is deleted is gone, the rest stays.\<close>

lemma accepted_all:
  assumes laws: "relay_laws accept pk" and es: "set es = set (sign_publish_events inputs deletes pk)"
    and apart: "ti_observee ` set inputs \<inter> set deletes = {}"
    and same: "inj_on ti_observee (set inputs)"
  shows "t \<in> set inputs \<Longrightarrow> fold accept es st (ti_observee t) = Some (ta_tags t)"
    "x \<in> set deletes \<Longrightarrow> fold accept es st x = None"
    "x \<notin> ti_observee ` set inputs \<Longrightarrow> x \<notin> set deletes \<Longrightarrow> fold accept es st x = st x"
proof -
  have sub: "set es \<subseteq> set (sign_publish_events inputs deletes pk)" using es by simp
  show "fold accept es st (ti_observee t) = Some (ta_tags t)" if "t \<in> set inputs"
  proof -
    have "ti_observee t \<notin> set deletes" using apart that by auto
    moreover have "ta_tags t' = ta_tags t" if "t' \<in> set inputs" "ti_observee t' = ti_observee t" for t'
      using inj_onD [OF same that(2) that(1) \<open>t \<in> set inputs\<close>] by simp
    moreover have "sign_ta_json t \<in> set es" using that unfolding es stream_events by blast
    ultimately have "fold accept es st (ti_observee t) =
        (if \<exists>t'\<in>set inputs. ti_observee t' = ti_observee t \<and> sign_ta_json t' \<in> set es then Some (ta_tags t) else st (ti_observee t))"
      by (intro accepted_assertion [OF laws _ _ sub]) auto
    then show ?thesis using that \<open>sign_ta_json t \<in> set es\<close> by auto
  qed
  show "fold accept es st x = None" if "x \<in> set deletes"
  proof -
    have "x \<in> set (concat (chunks DELETION_COORDS_PER_EVENT deletes))"
      using that set_chunks [of DELETION_COORDS_PER_EVENT deletes] by (simp add: DELETION_COORDS_PER_EVENT_def)
    then obtain os where os: "os \<in> set (chunks DELETION_COORDS_PER_EVENT deletes)" "x \<in> set os" by auto
    then have "deletion_event pk os \<in> set es" unfolding es stream_events by blast
    moreover have "x \<notin> ti_observee ` set inputs" using that apart by auto
    ultimately show ?thesis using accepted_deletion [OF laws _ sub, of x st] os(2) by auto
  qed
  show "fold accept es st x = st x" if "x \<notin> ti_observee ` set inputs" "x \<notin> set deletes"
  proof -
    have "fold accept es st x = (if \<exists>t\<in>set inputs. ti_observee t = x \<and> sign_ta_json t \<in> set es then Some [] else st x)"
      by (rule accepted_assertion [OF laws _ that(2) sub]) (use that(1) in auto)
    then show ?thesis using that(1) by auto
  qed
qed

text \<open>A run's assertions and deletions are about different observees, one assertion each.\<close>

lemma prepare_ta_inputs_set:
  "set (prepare_ta_inputs g cutoff full) =
     ta_input_of ` {c. \<exists>k. (k, c) \<in> set (cards_of g) \<and> (full \<or> k \<in> set (gr_changed g)) \<and> above_cutoff cutoff c}"
  by (force simp: prepare_ta_inputs_def)

lemma delete_set:
  "set (plan_deletes (plan_publish g previously cutoff sweep)) =
     (set previously - set (currently_published (plan_publish g previously cutoff sweep)))
     \<union> (if sweep then card_observee ` {c. \<exists>k. (k, c) \<in> set (cards_of g) \<and> \<not> above_cutoff cutoff c} else {})"
  by (auto simp: plan_publish_def delete_from_sets_def Let_def image_iff) force+

lemma keyed_card: "keyed cards \<Longrightarrow> (k, c) \<in> set cards \<Longrightarrow> card_observee c = k \<and> map_of cards k = Some c"
  by (auto simp: keyed_def)

lemma ti_observee_of [simp]: "ti_observee (ta_input_of c) = card_observee c"
  by (simp add: ta_input_of_def)

text \<open>Once the relay accepted all of it, it holds exactly the assertions of the scorecards: where
  a full run asserts all of them, and where the scores a delta run leaves out had been
  asserted as they are.\<close>

lemma publish_in_sync:
  assumes laws: "relay_laws accept pk" and keyed: "keyed (cards_of g)"
    and ok: "set ok = set (sign_publish_events (prepare_ta_inputs g cutoff full)
      (plan_deletes (plan_publish g previously cutoff sweep)) pk)"
    and dom: "dom st \<subseteq> set previously"
    and unchanged: "\<And>k c. (k, c) \<in> set (cards_of g) \<Longrightarrow> \<not> full \<Longrightarrow> k \<notin> set (gr_changed g) \<Longrightarrow> above_cutoff cutoff c \<Longrightarrow>
      st k = Some (ta_tags (ta_input_of c))"
  shows "fold accept ok st = published_view cutoff (cards_of g)"
proof
  fix x
  let ?in = "prepare_ta_inputs g cutoff full" and ?plan = "plan_publish g previously cutoff sweep"
  let ?view = "published_view cutoff (cards_of g)"
  note cur = currently_published_set [OF keyed, of previously cutoff sweep]
  have in_view: "?view (ti_observee t) = Some (ta_tags t)" if "t \<in> set ?in" for t
    using that keyed_card [OF keyed] by (auto simp: prepare_ta_inputs_set published_view_def)
  have out_view: "?view y = None" if "y \<in> set (plan_deletes ?plan)" for y
    using that keyed_card [OF keyed] cur by (auto simp: delete_set published_view_def split: if_splits)
  have apart: "ti_observee ` set ?in \<inter> set (plan_deletes ?plan) = {}" using in_view out_view by force
  have same: "inj_on ti_observee (set ?in)"
  proof (rule inj_onI)
    fix t t' assume ts: "t \<in> set ?in" "t' \<in> set ?in" "ti_observee t = ti_observee t'"
    obtain k c k' c' where "(k, c) \<in> set (cards_of g)" "t = ta_input_of c" "(k', c') \<in> set (cards_of g)" "t' = ta_input_of c'"
      using ts(1,2) by (auto simp: prepare_ta_inputs_set)
    then show "t = t'" using keyed_card [OF keyed, of k c] keyed_card [OF keyed, of k' c'] ts(3) by simp
  qed
  note all = accepted_all [OF laws ok apart same]
  consider (asserted) t where "t \<in> set ?in" "x = ti_observee t" | (deleted) "x \<in> set (plan_deletes ?plan)"
    | (left) "x \<notin> ti_observee ` set ?in" "x \<notin> set (plan_deletes ?plan)" by blast
  then show "fold accept ok st x = ?view x"
  proof cases
    case asserted
    show ?thesis unfolding asserted(2) using all(1) [OF asserted(1), of st] in_view [OF asserted(1)] by metis
  next
    case deleted
    show ?thesis using all(2) [OF deleted, of st] out_view [OF deleted] by metis
  next
    case left
    have kept: "fold accept ok st x = st x" by (rule all(3) [OF left])
    show ?thesis
    proof (cases "?view x")
      case None
      then have "x \<notin> set previously" using left(2) cur by (auto simp: delete_set)
      then show ?thesis using dom kept None by (auto simp: dom_def)
    next
      case (Some tags)
      then obtain c where c: "map_of (cards_of g) x = Some c" "above_cutoff cutoff c" "tags = ta_tags (ta_input_of c)"
        by (auto simp: published_view_def split: option.splits if_splits)
      then have mem: "(x, c) \<in> set (cards_of g)" by (simp add: map_of_SomeD)
      have "\<not> (full \<or> x \<in> set (gr_changed g))"
        using left(1) mem c(2) keyed_card [OF keyed mem] by (auto simp: prepare_ta_inputs_set image_iff)
      then show ?thesis using unchanged [OF mem] c kept Some by simp
    qed
  qed
qed

section \<open>The publishing stage\<close>

definition get_last_published_pubkeys_by_pubkey_on_db :: "string \<Rightarrow> db \<Rightarrow> string list" where
  "get_last_published_pubkeys_by_pubkey_on_db pubkey d = unpack_pubkeys (Option.bind (nsec_of pubkey d) bn_last_published_pubkeys)"

definition update_last_published_pubkeys_by_pubkey_on_db ::
  "string \<Rightarrow> string list \<Rightarrow> int \<Rightarrow> db \<Rightarrow> (exn, db) result" where
  "update_last_published_pubkeys_by_pubkey_on_db pubkey published rid d =
     result_bind (pack_pubkeys published) (\<lambda>blob.
       Inr (update_nsec pubkey (\<lambda>r. r\<lparr>bn_last_published_pubkeys := Some blob,
         bn_last_published_graperank_request_id := Some rid\<rparr>) d))"

text \<open>The relay side of a publishing stage, and what is a parameter of it: \<open>up_publish\<close> is a call
  of \<^verbatim>\<open>publish_events\<close>, with the events the relay accepted and what it returned or raised.\<close>

record upload_state =
  up_run :: run_session
  up_store :: store

record upload_env =
  up_cutoff :: rat
  up_relay_full_sync :: bool
  up_sweep_below_cutoff :: bool
  up_parse_keys :: "brainstorm_nsec \<Rightarrow> (exn, string) result"
  up_kind0 :: "string \<Rightarrow> (exn, unit) result"
  up_publish :: "nostr_event list \<Rightarrow> nostr_event list \<times> (exn, publish_stats) result"
  up_accept :: "nostr_event \<Rightarrow> store \<Rightarrow> store"
  up_duration :: rat

type_synonym 'a up_op = "(run_env, upload_state, 'a) act"

definition in_runs :: "'a run_op \<Rightarrow> 'a up_op" where
  "in_runs m env u = (case m env (up_run u) of (r, w) \<Rightarrow> (r, u\<lparr>up_run := w\<rparr>))"

text \<open>The first session: the observer's key, whether this run publishes in full, and the run
  marked as publishing.\<close>

definition open_publish :: "bool \<Rightarrow> int \<Rightarrow> string \<Rightarrow> (brainstorm_nsec \<times> bool) run_op" where
  "open_publish setting_full rid observer =
     in_run_session (
     op_bind (asks run_keys) (\<lambda>ks.
     op_bind (exec_run (\<lambda>l. case get_or_create_brainstorm_observer_nsec_by_pubkey_on_db ks observer (base l) of
                              (x, d) \<Rightarrow> (fst x, on_base (\<lambda>_. d) l))) (\<lambda>nsec.
     op_bind (read_run (select_brainstorm_request_by_id_on_db rid)) (\<lambda>found.
     op_bind (lift_result found) (\<lambda>row.
     op_bind (read_run (\<lambda>l. \<not> resolve_full_sync setting_full (br_force_full_relay row)
                           \<and> relay_publish_gap_pending_on_db observer rid l)) (\<lambda>gap.
     op_bind (op_when gap (stamped (mark_brainstorm_request_force_full_relay_on_db rid))) (\<lambda>_.
     op_bind (stamped (update_brainstorm_request_ta_status_by_id_on_db rid ONGOING)) (\<lambda>_.
     op_bind run_commit (\<lambda>_.
       ret (nsec, resolve_full_sync setting_full (br_force_full_relay row) \<or> gap))))))))))"

definition ensure_assistant_kind0_published :: "(string \<Rightarrow> (exn, unit) result) \<Rightarrow> string \<Rightarrow> datetime option \<Rightarrow> unit run_op" where
  "ensure_assistant_kind0_published publish_kind0 observer published_at =
     (if published_at \<noteq> None then ret ()
      else catch (committed (
             op_bind (lift_result (publish_kind0 observer)) (\<lambda>_.
             op_bind (asks run_utc_now) (\<lambda>utc.
               write_run (on_base (update_assistant_kind0_published_at_on_db observer utc))))))
           (\<lambda>_. ret ()))"

text \<open>The last session: the run published, the observer's new baseline, its clocks.\<close>

definition close_publish :: "int \<Rightarrow> string \<Rightarrow> string list \<Rightarrow> bool \<Rightarrow> rat \<Rightarrow> unit run_op" where
  "close_publish rid observer published full duration =
     committed (
     op_bind (stamped (update_brainstorm_request_ta_status_by_id_on_db rid SUCCESS)) (\<lambda>_.
     op_bind (read_run (\<lambda>l. update_last_published_pubkeys_by_pubkey_on_db observer published rid (base l))) (\<lambda>packed.
     op_bind (lift_result packed) (\<lambda>d.
     op_bind (write_run (on_base (\<lambda>_. d))) (\<lambda>_.
     op_bind (asks run_utc_now) (\<lambda>utc.
     op_bind (write_run (on_base (update_last_time_published_graperank_on_db observer utc))) (\<lambda>_.
     op_bind (stamped (update_brainstorm_request_publish_duration_by_id_on_db rid duration)) (\<lambda>_.
       op_when full (write_run (on_base (reset_runs_since_full_on_db observer)))))))))))"

definition send_events :: "upload_env \<Rightarrow> nostr_event list \<Rightarrow> publish_stats up_op" where
  "send_events ue events env u =
     (case up_publish ue events of
        (ok, r) \<Rightarrow> (r, u\<lparr>up_store := fold (up_accept ue) ok (up_store u)\<rparr>))"

text \<open>The error's text, which is only logged, is left out.\<close>

definition publish_scores :: "upload_env \<Rightarrow> int \<Rightarrow> graperank_result \<Rightarrow> string \<Rightarrow> brainstorm_nsec \<times> bool \<Rightarrow> unit up_op" where
  "publish_scores ue rid g observer opened =
     (let (nsec, full) = opened in
      op_bind (in_runs (lift_result (up_parse_keys ue nsec))) (\<lambda>pubkey_hex.
      op_bind (in_runs (ensure_assistant_kind0_published (up_kind0 ue) observer (bn_assistant_kind0_published_at nsec))) (\<lambda>_.
      let inputs = prepare_ta_inputs g (up_cutoff ue) full in
      op_bind (in_runs (in_run_session (read_run (\<lambda>l. get_last_published_pubkeys_by_pubkey_on_db observer (base l))))) (\<lambda>previously.
      let plan = plan_publish g previously (up_cutoff ue) (up_sweep_below_cutoff ue) in
      op_bind (send_events ue (sign_publish_events inputs (plan_deletes plan) pubkey_hex)) (\<lambda>st.
      if aborted st \<or> n_unacked st \<noteq> 0 then raise (RuntimeError [])
      else in_runs (close_publish rid observer (currently_published plan) full (up_duration ue)))))))"

definition process_nostr_upload_message :: "upload_env \<Rightarrow> int \<Rightarrow> graperank_result \<Rightarrow> unit up_op" where
  "process_nostr_upload_message ue rid g =
     (case result_observer g of
        None \<Rightarrow> if gr_success g then in_runs (committed (stamped (update_brainstorm_request_ta_status_by_id_on_db rid SUCCESS)))
                else ret ()
      | Some observer \<Rightarrow>
          op_bind (in_runs (open_publish (up_relay_full_sync ue) rid observer)) (\<lambda>opened.
            catch (publish_scores ue rid g observer opened) (\<lambda>_. in_runs (fail_ta_stage rid))))"

section \<open>What publishing leaves behind\<close>

abbreviation baseline :: "string \<Rightarrow> ledger \<Rightarrow> string list" where
  "baseline observer l \<equiv> get_last_published_pubkeys_by_pubkey_on_db observer (base l)"

text \<open>Only the last session of a run that was published moves the observer's baseline.\<close>

definition keeps_baseline :: "string \<Rightarrow> ledger \<Rightarrow> ledger \<Rightarrow> bool" where
  "keeps_baseline p l l' \<longleftrightarrow> baseline p l' = baseline p l \<and> (nsec_of p (base l) \<noteq> None \<longrightarrow> nsec_of p (base l') \<noteq> None)"

interpretation kept: ledger_law "keeps_baseline p" for p :: string
  by unfold_locales (auto simp: keeps_baseline_def)

lemma keeps_baseline_same: "base l' = base l \<Longrightarrow> keeps_baseline p l l'"
  by (simp add: keeps_baseline_def)

lemma base_update_requests [simp]: "base (update_requests p now f l) = base l"
  by (simp add: update_requests_def)

lemma nsec_of_update:
  assumes "\<And>r. bn_pubkey (f r) = bn_pubkey r"
  shows "nsec_of p (update_nsec q f d) = map_option (\<lambda>r. if p = q then f r else r) (nsec_of p d)"
proof -
  have "nsec_of p (update_nsec q f d) = map_option (\<lambda>r. if bn_pubkey r = q then f r else r) (nsec_of p d)"
    using assms by (simp add: nsec_of_def update_nsec_def lookup_by_sql_update)
  moreover have "bn_pubkey r = p" if "nsec_of p d = Some r" for r using that unfolding nsec_of_def by (rule lookup_by_key)
  ultimately show ?thesis by (cases "nsec_of p d") auto
qed

lemma keeps_baseline_user:
  assumes "\<And>r. bn_pubkey (f r) = bn_pubkey r" "\<And>r. bn_last_published_pubkeys (f r) = bn_last_published_pubkeys r"
  shows "keeps_baseline p l (on_base (update_nsec q f) l)"
  using assms by (cases "nsec_of p (base l)")
    (auto simp: keeps_baseline_def on_base_def get_last_published_pubkeys_by_pubkey_on_db_def nsec_of_update)

lemma keeps_baseline_runs: "keeps_baseline p l (update_requests q now f l)"
  by (rule keeps_baseline_same) simp

lemma keeps_baseline_get_or_create:
  "keeps_baseline p l (snd (case get_or_create_brainstorm_observer_nsec_by_pubkey_on_db ks q (base l) of
     (x, d) \<Rightarrow> (fst x, on_base (\<lambda>_. d) l)))"
  by (auto simp: keeps_baseline_def on_base_def get_or_create_brainstorm_observer_nsec_by_pubkey_on_db_def Let_def
      get_last_published_pubkeys_by_pubkey_on_db_def nsec_of_def lookup_by_append fresh_nsec_def split: option.splits)

lemma keeps_baseline_stages:
  "lawful (keeps_baseline p) (open_publish setting rid observer)"
  "lawful (keeps_baseline p) (ensure_assistant_kind0_published k observer t)"
  "lawful (keeps_baseline p) (in_run_session (read_run f))"
  unfolding open_publish_def ensure_assistant_kind0_published_def mark_brainstorm_request_force_full_relay_on_db_def
    update_brainstorm_request_ta_status_by_id_on_db_def
  by (auto intro!: lawful_intros keeps_baseline_runs keeps_baseline_get_or_create keeps_baseline_user
      simp: update_assistant_kind0_published_at_on_db_def)

text \<open>After the first session the observer has a row.\<close>

lemma open_publish_row:
  assumes "open_publish setting rid observer env w = (Inr x, w')"
  shows "nsec_of observer (base (rdurable w')) \<noteq> None"
  using assms
  by (auto simp: open_publish_def in_run_session_def run_op_defs run_commit_def stamped_def Let_def
      mark_brainstorm_request_force_full_relay_on_db_def update_brainstorm_request_ta_status_by_id_on_db_def on_base_def
      get_or_create_brainstorm_observer_nsec_by_pubkey_on_db_def nsec_of_def lookup_by_append fresh_nsec_def
      split: prod.splits sum.splits option.splits if_splits)

definition publishes_in_full :: "bool \<Rightarrow> int \<Rightarrow> string \<Rightarrow> ledger \<Rightarrow> bool" where
  "publishes_in_full setting_full rid observer l \<longleftrightarrow>
     (\<exists>row. request_of rid l = Some row \<and> resolve_full_sync setting_full (br_force_full_relay row))
     \<or> relay_publish_gap_pending_on_db observer rid l"

lemma open_publish_full:
  assumes "open_publish setting rid observer env w = (Inr (n, full), w')"
  shows "full \<longleftrightarrow> publishes_in_full setting rid observer (rtx w)"
proof -
  let ?l = "on_base (\<lambda>_. snd (get_or_create_brainstorm_observer_nsec_by_pubkey_on_db (run_keys env) observer (base (rtx w)))) (rtx w)"
  have gap: "relay_publish_gap_pending_on_db observer rid ?l = relay_publish_gap_pending_on_db observer rid (rtx w)"
    by (simp add: relay_publish_gap_pending_on_db_def full_publish_ok_def)
  obtain x d where gc: "get_or_create_brainstorm_observer_nsec_by_pubkey_on_db (run_keys env) observer (base (rtx w)) = (x, d)"
    by (cases "get_or_create_brainstorm_observer_nsec_by_pubkey_on_db (run_keys env) observer (base (rtx w))")
  show ?thesis
  proof (cases "request_of rid (rtx w)")
    case None
    then show ?thesis using assms gc
      by (auto simp: open_publish_def in_run_session_def run_op_defs select_brainstorm_request_by_id_on_db_def)
  next
    case (Some row)
    then show ?thesis using assms gc gap
      by (auto simp: open_publish_def in_run_session_def run_op_defs run_commit_def stamped_def Let_def publishes_in_full_def
          select_brainstorm_request_by_id_on_db_def split: prod.splits sum.splits option.splits if_splits)
  qed
qed

lemma close_publish_saved:
  assumes run: "close_publish rid observer published full dur env w = (Inr (), w')"
    and row: "nsec_of observer (base (rtx w)) \<noteq> None" and keys: "list_all is_pubkey published"
  shows "baseline observer (rdurable w') = published"
proof -
  obtain blob where blob: "pack_pubkeys published = Inr blob" "unpack_pubkeys (Some blob) = published" using unpack_pack [OF keys] by blast
  obtain n where n: "nsec_of observer (base (rtx w)) = Some n" using row by blast
  let ?now = "run_db_now env"
  let ?l1 = "update_brainstorm_request_ta_status_by_id_on_db rid SUCCESS ?now (rtx w)"
  let ?l2 = "on_base (\<lambda>_. update_nsec observer (\<lambda>r. r\<lparr>bn_last_published_pubkeys := Some blob,
         bn_last_published_graperank_request_id := Some rid\<rparr>) (base (rtx w))) ?l1"
  let ?l3 = "update_brainstorm_request_publish_duration_by_id_on_db rid dur ?now
     (on_base (update_last_time_published_graperank_on_db observer (run_utc_now env)) ?l2)"
  let ?l4 = "if full then on_base (reset_runs_since_full_on_db observer) ?l3 else ?l3"
  have "baseline observer ?l4 = published"
    by (simp add: get_last_published_pubkeys_by_pubkey_on_db_def on_base_def update_brainstorm_request_publish_duration_by_id_on_db_def
        update_last_time_published_graperank_on_db_def reset_runs_since_full_on_db_def nsec_of_update n blob(2))
  moreover have "rdurable w' = ?l4"
    using run unfolding close_publish_def
    by (auto simp: committed_def in_run_session_def run_op_defs run_commit_def stamped_def Let_def blob(1)
        update_last_published_pubkeys_by_pubkey_on_db_def update_brainstorm_request_ta_status_by_id_on_db_def
        split: sum.splits option.splits if_splits)
  ultimately show ?thesis by simp
qed

lemma fail_ta_stage_failed:
  assumes "fail_ta_stage rid env w = (Inr (), w')" "request_of rid (rdurable w') = Some row"
  shows "br_status_ta_publication row = FAILURE"
proof -
  have "rdurable w' = update_brainstorm_request_ta_status_by_id_on_db rid FAILURE (run_db_now env) (rtx w)"
    using assms(1) by (auto simp: fail_ta_stage_def committed_def in_run_session_def run_op_defs run_commit_def stamped_def Let_def
        split: option.splits)
  then show ?thesis using assms(2) request_key [of rid "rtx w"]
    by (cases "request_of rid (rtx w)") (auto simp: update_brainstorm_request_ta_status_by_id_on_db_def request_of_update)
qed

text \<open>A run that was published went through every step.\<close>

lemma publish_scores_published:
  assumes run: "publish_scores ue rid g observer (n, full) env s = (Inr (), s')"
    and clean: "rtx (up_run s) = rdurable (up_run s)" and row: "nsec_of observer (base (rdurable (up_run s))) \<noteq> None"
  obtains pk ok st w where "up_parse_keys ue n = Inr pk"
    "up_publish ue (sign_publish_events (prepare_ta_inputs g (up_cutoff ue) full)
       (plan_deletes (plan_publish g (baseline observer (rdurable (up_run s))) (up_cutoff ue) (up_sweep_below_cutoff ue))) pk) = (ok, Inr st)"
    "\<not> aborted st" "n_unacked st = 0" "up_store s' = fold (up_accept ue) ok (up_store s)"
    "close_publish rid observer (currently_published (plan_publish g (baseline observer (rdurable (up_run s)))
       (up_cutoff ue) (up_sweep_below_cutoff ue))) full (up_duration ue) env w = (Inr (), up_run s')"
    "nsec_of observer (base (rtx w)) \<noteq> None"
proof -
  obtain pk where pk: "up_parse_keys ue n = Inr pk"
    using run by (cases "up_parse_keys ue n") (auto simp: publish_scores_def in_runs_def run_op_defs)
  obtain x w1 where k: "ensure_assistant_kind0_published (up_kind0 ue) observer (bn_assistant_kind0_published_at n) env (up_run s) = (x, w1)"
    by (cases "ensure_assistant_kind0_published (up_kind0 ue) observer (bn_assistant_kind0_published_at n) env (up_run s)")
  have clean1: "rtx w1 = rdurable w1"
    using k clean by (auto simp: ensure_assistant_kind0_published_def committed_def catch_def ret_def
        split: if_splits prod.splits sum.splits dest!: session_clean)
  have one: "keeps_baseline observer (rdurable (up_run s)) (rdurable w1)"
    using kept.lawful_durable [OF keeps_baseline_stages(2) k clean] .
  obtain y w2 where r: "in_run_session (read_run (\<lambda>l. baseline observer l)) env w1 = (y, w2)"
    by (cases "in_run_session (read_run (\<lambda>l. baseline observer l)) env w1")
  have two: "keeps_baseline observer (rdurable w1) (rdurable w2)" "rtx w2 = rdurable w2"
    using kept.lawful_durable [OF keeps_baseline_stages(3) r clean1] session_clean [OF r] by auto
  have x: "x = Inr ()" "y = Inr (baseline observer (rtx w1))"
    using run pk k r by (auto simp: publish_scores_def in_runs_def run_op_defs in_run_session_def run_commit_def Let_def
        split: sum.splits option.splits)
  let ?previously = "baseline observer (rdurable (up_run s))"
  let ?plan = "plan_publish g ?previously (up_cutoff ue) (up_sweep_below_cutoff ue)"
  let ?events = "sign_publish_events (prepare_ta_inputs g (up_cutoff ue) full) (plan_deletes ?plan) pk"
  have prev: "baseline observer (rtx w1) = ?previously" using one clean1 by (simp add: keeps_baseline_def)
  obtain ok out where p: "up_publish ue ?events = (ok, out)" by (cases "up_publish ue ?events")
  note steps = run [unfolded publish_scores_def] pk k r x prev p
  obtain st where st: "out = Inr st" "\<not> aborted st" "n_unacked st = 0" "up_store s' = fold (up_accept ue) ok (up_store s)"
    "close_publish rid observer (currently_published ?plan) full (up_duration ue) env w2 = (Inr (), up_run s')"
    using steps by (auto simp: in_runs_def op_bind_def lift_result_def send_events_def raise_def Let_def split: sum.splits if_splits prod.splits)
  have "nsec_of observer (base (rtx w2)) \<noteq> None" using one two row by (simp add: keeps_baseline_def)
  with that pk p st show ?thesis by blast
qed


text \<open>A failed publish is where the baseline and the relay part: assertions the relay accepted
  before the run failed are not recorded, so the next run's delete set, taken from the
  recorded baseline, leaves an observee that fell below the cutoff since on the relay.\<close>

lemma unrecorded_assertion_is_orphaned:
  assumes "relay_laws accept pk" "x \<notin> set previously" "st x = Some tags"
    "keyed (cards_of g)" "map_of (cards_of g) x = None"
    "set ok = set (sign_publish_events (prepare_ta_inputs g cutoff True)
      (plan_deletes (plan_publish g previously cutoff sweep)) pk)"
  shows "fold accept ok st x = Some tags \<and> x \<notin> set (currently_published (plan_publish g previously cutoff sweep))"
proof -
  let ?in = "prepare_ta_inputs g cutoff True" and ?plan = "plan_publish g previously cutoff sweep"
  have gone: "card_observee c \<noteq> x" if "(k, c) \<in> set (cards_of g)" for k c
    using keyed_card [OF assms(4) that] assms(5) by auto
  have cur: "x \<notin> set (currently_published ?plan)" using gone by (auto simp: plan_publish_def Let_def) blast
  have x: "x \<notin> ti_observee ` set ?in" "x \<notin> set (plan_deletes ?plan)" "x \<notin> set (currently_published ?plan)"
    using gone assms(2) cur by (auto simp: prepare_ta_inputs_set delete_set split: if_splits) blast+
  have "fold accept ok st x = (if \<exists>t\<in>set ?in. ti_observee t = x \<and> sign_ta_json t \<in> set ok then Some [] else st x)"
    by (rule accepted_assertion [OF assms(1) _ x(2)]) (use x(1) assms(6) in auto)
  then show ?thesis using x assms(3) by auto
qed

end
