(* ===== verification/Graph_Scores.thy ===== *)
theory Graph_Scores
  imports Publish
begin

text \<open>
  Writing a run's scores to the graph (\<^verbatim>\<open>app/message_queue_tasks/write_neo4j_results.py\<close> and the
  queries of \<^verbatim>\<open>app/repos/user_repo.py\<close> it sends). A node of the graph is its properties; an
  observer's scores on it are three properties named after the observer. Each batch is a
  transaction of its own, and the faults of those transactions are a parameter.
\<close>

section \<open>The graph\<close>

type_synonym graph = "string \<Rightarrow> (string \<Rightarrow> rat option) option"

text \<open>\<^verbatim>\<open>MATCH (n:NostrUser {pubkey: ...}) SET n += props\<close>: nothing where there is no such node, and a
  null removes a property.\<close>

definition set_props :: "string \<Rightarrow> (string \<times> rat option) list \<Rightarrow> graph \<Rightarrow> graph" where
  "set_props pubkey props g =
     (case g pubkey of
        None \<Rightarrow> g
      | Some old \<Rightarrow> g(pubkey \<mapsto> (\<lambda>k. case map_of props k of None \<Rightarrow> old k | Some v \<Rightarrow> v)))"

definition set_observer_scores :: "(string \<times> (string \<times> rat option) list) list \<Rightarrow> graph \<Rightarrow> graph" where
  "set_observer_scores rows = fold (\<lambda>(pubkey, props). set_props pubkey props) rows"

definition clear_observer_scores :: "string list \<Rightarrow> string list \<Rightarrow> graph \<Rightarrow> graph" where
  "clear_observer_scores ks pubkeys = fold (\<lambda>pubkey. set_props pubkey (map (\<lambda>k. (k, None)) ks)) pubkeys"

definition holds_any :: "string list \<Rightarrow> graph \<Rightarrow> string \<Rightarrow> bool" where
  "holds_any ks g pubkey \<longleftrightarrow> (case g pubkey of None \<Rightarrow> False | Some props \<Rightarrow> list_ex (\<lambda>k. props k \<noteq> None) ks)"

section \<open>Rows\<close>

definition PERSISTED_FIELDS :: "(string \<times> (scorecard \<Rightarrow> rat)) list" where
  "PERSISTED_FIELDS =
     [(''influence'', card_influence), (''hops'', \<lambda>c. of_int (trunc (card_hops c))),
      (''trusted_followers'', \<lambda>c. of_int (int_or_0 (card_trusted_followers c)))]"

definition score_key :: "string \<Rightarrow> string \<Rightarrow> string" where
  "score_key observer field = field @ ''_'' @ observer"

definition score_keys :: "string \<Rightarrow> string list" where
  "score_keys observer = map (\<lambda>(field, _). score_key observer field) PERSISTED_FIELDS"

definition score_row :: "string \<Rightarrow> scorecard \<Rightarrow> string \<times> (string \<times> rat option) list" where
  "score_row observer c =
     (card_observee c, map (\<lambda>(field, cast). (score_key observer field, Some (cast c))) PERSISTED_FIELDS)"

section \<open>The stage\<close>

definition BATCH_SIZE :: nat where "BATCH_SIZE = 5000"

record graph_state =
  gs_run :: run_session
  gs_graph :: graph
  gs_txs :: nat

record graph_env =
  ge_full_write :: bool
  ge_cleanup_interval_days :: int
  ge_fault :: "nat \<Rightarrow> exn option"
  ge_holders :: "string list \<Rightarrow> graph \<Rightarrow> string list"

type_synonym 'a graph_op = "(run_env, graph_state, 'a) act"

definition on_runs :: "'a run_op \<Rightarrow> 'a graph_op" where
  "on_runs m env s = (case m env (gs_run s) of (r, w) \<Rightarrow> (r, s\<lparr>gs_run := w\<rparr>))"

definition write_batch :: "graph_env \<Rightarrow> (graph \<Rightarrow> graph) \<Rightarrow> unit graph_op" where
  "write_batch ge f env s =
     (let s' = s\<lparr>gs_txs := gs_txs s + 1\<rparr> in
      case ge_fault ge (gs_txs s) of
        Some e \<Rightarrow> (Inl e, s')
      | None \<Rightarrow> (Inr (), s'\<lparr>gs_graph := f (gs_graph s')\<rparr>))"

fun write_batches_of :: "graph_env \<Rightarrow> ('r list \<Rightarrow> graph \<Rightarrow> graph) \<Rightarrow> 'r list list \<Rightarrow> unit graph_op" where
  "write_batches_of ge work [] = ret ()"
| "write_batches_of ge work (b # bs) = op_bind (write_batch ge (work b)) (\<lambda>_. write_batches_of ge work bs)"

definition write_batches :: "graph_env \<Rightarrow> ('r list \<Rightarrow> graph \<Rightarrow> graph) \<Rightarrow> 'r list \<Rightarrow> unit graph_op" where
  "write_batches ge work items = write_batches_of ge work (chunks BATCH_SIZE items)"

definition clear_unreached :: "graph_env \<Rightarrow> string list \<Rightarrow> string list \<Rightarrow> unit graph_op" where
  "clear_unreached ge ks scored =
     op_bind (\<lambda>env s. (Inr (ge_holders ge ks (gs_graph s)), s)) (\<lambda>holders.
       write_batches ge (clear_observer_scores ks) (filter (\<lambda>pk. pk \<notin> set scored) holders))"

definition cleanup_due :: "datetime option \<Rightarrow> int \<Rightarrow> datetime \<Rightarrow> bool" where
  "cleanup_due last_at interval_days now \<longleftrightarrow>
     (if interval_days \<le> 0 then False
      else case last_at of None \<Rightarrow> True | Some t \<Rightarrow> now - t \<ge> timedelta_hours (24 * interval_days))"

definition get_last_neo4j_cleanup_at_on_db :: "string \<Rightarrow> db \<Rightarrow> datetime option" where
  "get_last_neo4j_cleanup_at_on_db pubkey d = Option.bind (nsec_of pubkey d) bn_last_neo4j_cleanup_at"

text \<open>The first session: whether the run is forced, and whether unreached scores are cleared.\<close>

definition open_write :: "int \<Rightarrow> int \<Rightarrow> string \<Rightarrow> (bool \<times> bool) run_op" where
  "open_write interval_days rid observer =
     in_run_session (
     op_bind (read_run (select_brainstorm_request_by_id_on_db rid)) (\<lambda>found.
     op_bind (lift_result found) (\<lambda>row.
     let forced = (br_force_full_neo4j row = Some True) in
     op_bind (read_run (\<lambda>l. get_last_neo4j_cleanup_at_on_db observer (base l))) (\<lambda>last_at.
     op_bind (asks run_utc_now) (\<lambda>utc.
     op_bind (stamped (update_brainstorm_request_internal_publication_status_by_id_on_db rid ONGOING)) (\<lambda>_.
     op_bind run_commit (\<lambda>_.
       ret (forced, forced \<or> cleanup_due last_at interval_days utc))))))))"

definition close_write :: "int \<Rightarrow> string \<Rightarrow> bool \<Rightarrow> unit run_op" where
  "close_write rid observer cleared =
     committed (
     op_bind (stamped (update_brainstorm_request_internal_publication_status_by_id_on_db rid SUCCESS)) (\<lambda>_.
       op_when cleared (op_bind (asks run_utc_now) (\<lambda>utc. write_run (on_base (mark_neo4j_cleanup_on_db observer utc))))))"

text \<open>The scorecards a run writes: the changed ones, or all above the worker's floor.\<close>

definition cards_to_write :: "bool \<Rightarrow> graperank_result \<Rightarrow> scorecard list" where
  "cards_to_write full g =
     (let cards = map snd (cards_of g) in
      if \<not> full then (let changed = (case gr_neo4j_write g of None \<Rightarrow> [] | Some ws \<Rightarrow> ws)
                      in filter (\<lambda>c. card_observee c \<in> set changed) cards)
      else case gr_neo4j_floor g of None \<Rightarrow> cards | Some persist_floor \<Rightarrow> filter (\<lambda>c. card_influence c > persist_floor) cards)"

definition process_neo4j_write_message :: "graph_env \<Rightarrow> int \<Rightarrow> graperank_result \<Rightarrow> unit graph_op" where
  "process_neo4j_write_message ge rid g =
     (case result_observer g of
        None \<Rightarrow> if gr_success g
                then on_runs (committed (stamped (update_brainstorm_request_internal_publication_status_by_id_on_db rid SUCCESS)))
                else ret ()
      | Some observer \<Rightarrow>
          op_bind (on_runs (open_write (ge_cleanup_interval_days ge) rid observer)) (\<lambda>(forced, cleanup).
          let full = (ge_full_write ge \<or> forced \<or> gr_neo4j_write g = None); ks = score_keys observer in
          op_bind (write_batches ge set_observer_scores (map (score_row observer) (cards_to_write full g))) (\<lambda>_.
          op_bind (write_batches ge (clear_observer_scores ks) (gr_neo4j_clear g)) (\<lambda>_.
          op_bind (if cleanup then clear_unreached ge ks (map (\<lambda>(_, c). card_observee c) (cards_of g)) else ret ()) (\<lambda>_.
            on_runs (close_write rid observer cleanup))))))"

section \<open>What the graph holds afterwards\<close>

text \<open>A batch at a time is all at once.\<close>

lemma fold_chunks:
  assumes "\<And>xs ys s. work (xs @ ys) s = work ys (work xs s)" "\<And>s. work [] s = s" "0 < n"
  shows "fold work (chunks n items) s = work items s"
  using assms(3)
proof (induction n items arbitrary: s rule: chunks.induct)
  case (1 n xs)
  show ?case
  proof (cases "xs = []")
    case True
    then show ?thesis by (simp add: chunks.simps assms(2))
  next
    case False
    have "work xs s = work (take n xs @ drop n xs) s" by simp
    also have "\<dots> = work (drop n xs) (work (take n xs) s)" by (rule assms(1))
    finally show ?thesis using 1 False by (simp add: chunks.simps [of n xs])
  qed
qed

lemma write_batches_of_ok:
  "write_batches_of ge work bs env s = (Inr (), s') \<Longrightarrow> gs_graph s' = fold work bs (gs_graph s) \<and> gs_run s' = gs_run s"
proof (induction bs arbitrary: s)
  case (Cons b bs)
  then show ?case
    by (cases "ge_fault ge (gs_txs s)") (auto simp: op_bind_def write_batch_def Let_def)
qed (simp add: ret_def)

lemma write_batches_ok:
  assumes "write_batches ge work items env s = (Inr (), s')"
    "\<And>xs ys g. work (xs @ ys) g = work ys (work xs g)" "\<And>g. work [] g = g"
  shows "gs_graph s' = work items (gs_graph s) \<and> gs_run s' = gs_run s"
  using write_batches_of_ok [OF assms(1) [unfolded write_batches_def]] fold_chunks [of work BATCH_SIZE items "gs_graph s"] assms(2,3)
  by (simp add: BATCH_SIZE_def)

lemma work_append [simp]:
  "set_observer_scores (xs @ ys) g = set_observer_scores ys (set_observer_scores xs g)" "set_observer_scores [] g = g"
  "clear_observer_scores ks (ps @ qs) g = clear_observer_scores ks qs (clear_observer_scores ks ps g)"
  "clear_observer_scores ks [] g = g"
  by (simp_all add: set_observer_scores_def clear_observer_scores_def)

text \<open>An observer's scores on a node, and those a scorecard stands for.\<close>

definition scores_on :: "string \<Rightarrow> graph \<Rightarrow> string \<Rightarrow> rat option list" where
  "scores_on observer g pk = (case g pk of None \<Rightarrow> [] | Some props \<Rightarrow> map props (score_keys observer))"

definition scores_of_card :: "scorecard \<Rightarrow> rat option list" where
  "scores_of_card c = map (\<lambda>(_, cast). Some (cast c)) PERSISTED_FIELDS"

definition no_scores :: "rat option list" where
  "no_scores = map (\<lambda>_. None) PERSISTED_FIELDS"

lemma set_props_at: "set_props pubkey props g pk = (if pk = pubkey
    then map_option (\<lambda>old k. case map_of props k of None \<Rightarrow> old k | Some v \<Rightarrow> v) (g pk) else g pk)"
  by (auto simp: set_props_def split: option.split)

lemma dom_set_props [simp]: "dom (set_props pubkey props g) = dom g"
  by (auto simp: set_props_at split: if_splits)

lemma score_keys_simps: "score_keys observer = [''influence_'' @ observer, ''hops_'' @ observer, ''trusted_followers_'' @ observer]"
  by (simp add: score_keys_def PERSISTED_FIELDS_def score_key_def)

text \<open>A row writes its observer's three properties of its node and nothing else.\<close>

lemma scores_on_row:
  "scores_on observer (set_props (card_observee c) (snd (score_row observer c)) g) pk =
     (if pk = card_observee c \<and> g pk \<noteq> None then scores_of_card c else scores_on observer g pk)"
  by (auto simp: scores_on_def set_props_at score_keys_simps scores_of_card_def score_row_def PERSISTED_FIELDS_def score_key_def
      split: option.splits)

lemma scores_on_clear_one:
  "scores_on observer (set_props p (map (\<lambda>k. (k, None)) (score_keys observer)) g) pk =
     (if pk = p \<and> g pk \<noteq> None then no_scores else scores_on observer g pk)"
  by (auto simp: scores_on_def set_props_at score_keys_simps no_scores_def PERSISTED_FIELDS_def split: option.splits)

definition prop_on :: "graph \<Rightarrow> string \<Rightarrow> string \<Rightarrow> rat option" where
  "prop_on g pk k = (case g pk of None \<Rightarrow> None | Some props \<Rightarrow> props k)"

definition same_elsewhere :: "string \<Rightarrow> graph \<Rightarrow> graph \<Rightarrow> bool" where
  "same_elsewhere observer g g' \<longleftrightarrow> (\<forall>pk. g' pk = None \<longleftrightarrow> g pk = None)
     \<and> (\<forall>pk k. k \<notin> set (score_keys observer) \<longrightarrow> prop_on g' pk k = prop_on g pk k)"

lemma same_elsewhere_trans: "same_elsewhere observer g g' \<Longrightarrow> same_elsewhere observer g' g'' \<Longrightarrow> same_elsewhere observer g g''"
  by (simp add: same_elsewhere_def)

lemma same_elsewhere_set_props:
  assumes "fst ` set props \<subseteq> set (score_keys observer)"
  shows "same_elsewhere observer g (set_props p props g)"
proof -
  have "map_of props k = None" if "k \<notin> set (score_keys observer)" for k
    using that assms by (auto simp: map_of_eq_None_iff)
  then show ?thesis by (auto simp: same_elsewhere_def prop_on_def set_props_at split: option.split)
qed

text \<open>All rows, all clears.\<close>

lemma scores_on_set:
  assumes "distinct (map card_observee cs)"
  shows "same_elsewhere observer g (set_observer_scores (map (score_row observer) cs) g)
    \<and> scores_on observer (set_observer_scores (map (score_row observer) cs) g) pk =
       (if g pk = None then [] else case map_of (map (\<lambda>c. (card_observee c, c)) cs) pk of
          None \<Rightarrow> scores_on observer g pk | Some c \<Rightarrow> scores_of_card c)"
  using assms
proof (induction cs arbitrary: g)
  case Nil
  show ?case by (simp add: same_elsewhere_def scores_on_def)
next
  case (Cons c cs)
  let ?g = "set_props (card_observee c) (snd (score_row observer c)) g"
  have step: "set_observer_scores (map (score_row observer) (c # cs)) g = set_observer_scores (map (score_row observer) cs) ?g"
    by (simp add: set_observer_scores_def score_row_def)
  have one: "same_elsewhere observer g ?g"
    by (rule same_elsewhere_set_props) (auto simp: score_row_def score_keys_def)
  have d: "distinct (map card_observee cs)" using Cons(2) by simp
  note rest = Cons(1) [OF d, of ?g]
  have none: "?g pk = None \<longleftrightarrow> g pk = None" using one by (simp add: same_elsewhere_def)
  have fresh: "map_of (map (\<lambda>c. (card_observee c, c)) cs) (card_observee c) = None" using Cons(2)
    by (auto simp: map_of_eq_None_iff comp_def)
  show ?case
    using rest same_elsewhere_trans [OF one] fresh unfolding step none scores_on_row
    by (cases "pk = card_observee c") (auto split: option.split)
qed

lemma scores_on_clear:
  "same_elsewhere observer g (clear_observer_scores (score_keys observer) pks g)
   \<and> scores_on observer (clear_observer_scores (score_keys observer) pks g) pk =
     (if g pk \<noteq> None \<and> pk \<in> set pks then no_scores else scores_on observer g pk)"
proof (induction pks arbitrary: g)
  case (Cons p pks)
  let ?g = "set_props p (map (\<lambda>k. (k, None)) (score_keys observer)) g"
  have step: "clear_observer_scores (score_keys observer) (p # pks) g = clear_observer_scores (score_keys observer) pks ?g"
    by (simp add: clear_observer_scores_def)
  have one: "same_elsewhere observer g ?g" by (rule same_elsewhere_set_props) (auto simp: image_iff)
  have none: "?g pk = None \<longleftrightarrow> g pk = None" using one by (simp add: same_elsewhere_def)
  show ?case using Cons [of ?g] same_elsewhere_trans [OF one] unfolding step none scores_on_clear_one by auto
qed (simp_all add: same_elsewhere_def)

section \<open>After the stage\<close>

text \<open>What a card stands for: its scores above the worker's persist floor, none at or below.\<close>

definition persisted :: "graperank_result \<Rightarrow> scorecard \<Rightarrow> bool" where
  "persisted g c \<longleftrightarrow> (case gr_neo4j_floor g of None \<Rightarrow> True | Some f \<Rightarrow> card_influence c > f)"

definition writes_in_full :: "graph_env \<Rightarrow> int \<Rightarrow> graperank_result \<Rightarrow> ledger \<Rightarrow> bool" where
  "writes_in_full ge rid g l \<longleftrightarrow> ge_full_write ge \<or> gr_neo4j_write g = None
     \<or> (\<exists>row. request_of rid l = Some row \<and> br_force_full_neo4j row = Some True)"

definition cleans_up :: "graph_env \<Rightarrow> run_env \<Rightarrow> int \<Rightarrow> string \<Rightarrow> ledger \<Rightarrow> bool" where
  "cleans_up ge env rid observer l \<longleftrightarrow> (\<exists>row. request_of rid l = Some row \<and> br_force_full_neo4j row = Some True)
     \<or> cleanup_due (get_last_neo4j_cleanup_at_on_db observer (base l)) (ge_cleanup_interval_days ge) (run_utc_now env)"

lemma open_write_eq:
  assumes "open_write days rid observer env w = (Inr (forced, cleanup), w')"
  shows "forced \<longleftrightarrow> (\<exists>row. request_of rid (rtx w) = Some row \<and> br_force_full_neo4j row = Some True)"
    "cleanup \<longleftrightarrow> forced \<or> cleanup_due (get_last_neo4j_cleanup_at_on_db observer (base (rtx w))) days (run_utc_now env)"
  using assms
  by (cases "request_of rid (rtx w)";
      auto simp: open_write_def in_run_session_def run_op_defs run_commit_def stamped_def Let_def
        select_brainstorm_request_by_id_on_db_def split: sum.splits option.splits)+

text \<open>The graph a completed stage leaves, as its three writes.\<close>

lemma process_neo4j_graph:
  assumes run: "process_neo4j_write_message ge rid g env s = (Inr (), s')" and observer: "result_observer g = Some observer"
  defines "l \<equiv> rtx (gs_run s)"
  defines "g1 \<equiv> set_observer_scores (map (score_row observer) (cards_to_write (writes_in_full ge rid g l) g)) (gs_graph s)"
  defines "g2 \<equiv> clear_observer_scores (score_keys observer) (gr_neo4j_clear g) g1"
  shows "gs_graph s' = (if cleans_up ge env rid observer l
    then clear_observer_scores (score_keys observer) (filter (\<lambda>pk. pk \<notin> (\<lambda>(_, c). card_observee c) ` set (cards_of g))
           (ge_holders ge (score_keys observer) g2)) g2
    else g2)"
proof -
  obtain x w1 where opened: "open_write (ge_cleanup_interval_days ge) rid observer env (gs_run s) = (x, w1)"
    by (cases "open_write (ge_cleanup_interval_days ge) rid observer env (gs_run s)")
  then obtain forced cleanup where x: "x = Inr (forced, cleanup)"
    using run observer by (cases x) (auto simp: process_neo4j_write_message_def on_runs_def op_bind_def)
  note flags = open_write_eq [OF opened [unfolded x]]
  have full: "writes_in_full ge rid g l \<longleftrightarrow> ge_full_write ge \<or> forced \<or> gr_neo4j_write g = None"
    and clean: "cleans_up ge env rid observer l \<longleftrightarrow> cleanup"
    using flags by (auto simp: writes_in_full_def cleans_up_def l_def)
  let ?s1 = "s\<lparr>gs_run := w1\<rparr>"
  let ?cards = "cards_to_write (writes_in_full ge rid g l) g"
  obtain y s2 where w: "write_batches ge set_observer_scores (map (score_row observer) ?cards) env ?s1 = (y, s2)"
    by (cases "write_batches ge set_observer_scores (map (score_row observer) ?cards) env ?s1")
  obtain z s3 where c: "write_batches ge (clear_observer_scores (score_keys observer)) (gr_neo4j_clear g) env s2 = (z, s3)"
    by (cases "write_batches ge (clear_observer_scores (score_keys observer)) (gr_neo4j_clear g) env s2")
  have yz: "y = Inr ()" "z = Inr ()"
    using run observer opened x w c
    by (auto simp: process_neo4j_write_message_def on_runs_def op_bind_def full [symmetric] Let_def split: sum.splits)
  have g2: "gs_graph s3 = g2"
    using write_batches_ok [OF w [unfolded yz]] write_batches_ok [OF c [unfolded yz]] by (simp add: g1_def g2_def)
  let ?scored = "map (\<lambda>(_, c). card_observee c) (cards_of g)"
  let ?clean = "if cleanup then clear_unreached ge (score_keys observer) ?scored else ret ()"
  obtain u s4 where u: "?clean env s3 = (u, s4)" by (cases "?clean env s3")
  have last: "u = Inr ()" "gs_graph s' = gs_graph s4"
    using run observer opened x w c yz u
    by (auto simp: process_neo4j_write_message_def on_runs_def op_bind_def full [symmetric] Let_def split: sum.splits prod.splits)
  show ?thesis
  proof (cases cleanup)
    case True
    then have "write_batches ge (clear_observer_scores (score_keys observer))
        (filter (\<lambda>pk. pk \<notin> set ?scored) (ge_holders ge (score_keys observer) (gs_graph s3))) env s3 = (Inr (), s4)"
      using u last by (simp add: clear_unreached_def op_bind_def)
    from write_batches_ok [OF this] show ?thesis using True clean last g2 by simp
  next
    case False
    then show ?thesis using u last clean g2 by (simp add: ret_def)
  qed
qed

lemma written_card:
  assumes "keyed cards"
  shows "distinct (map card_observee (filter P (map snd cards)))
    \<and> map_of (map (\<lambda>c. (card_observee c, c)) (filter P (map snd cards))) pk =
      (case map_of cards pk of None \<Rightarrow> None | Some c \<Rightarrow> if P c then Some c else None)"
  using assms
proof (induction cards)
  case (Cons p cards)
  obtain k c where p: "p = (k, c)" by (cases p)
  have k: "card_observee c = k" and rest: "keyed cards" and new: "k \<notin> fst ` set cards"
    using Cons(2) by (auto simp: keyed_def p)
  have "card_observee c' \<noteq> k" if "(k', c') \<in> set cards" for k' c'
    using that rest new by (force simp: keyed_def)
  then have "card_observee c \<notin> card_observee ` set (filter P (map snd cards))" using k by auto blast
  moreover have "map_of cards k = None" using new by (simp add: map_of_eq_None_iff)
  ultimately show ?case using Cons(1) [OF rest] k by (auto simp: p split: option.split)
qed simp

text \<open>What the worker promises: the cards it does not report as changed are stored as they are,
  it reports none below its floor as changed, and it names those below it that still have
  scores.\<close>

definition worker_reports :: "string \<Rightarrow> graperank_result \<Rightarrow> graph \<Rightarrow> bool" where
  "worker_reports observer g gr \<longleftrightarrow> (\<forall>(k, c)\<in>set (cards_of g).
     if persisted g c
     then k \<notin> set (gr_neo4j_clear g)
       \<and> (case gr_neo4j_write g of None \<Rightarrow> True | Some ws \<Rightarrow> k \<in> set ws \<or> scores_on observer gr k \<in> {[], scores_of_card c})
     else (scores_on observer gr k \<notin> {[], no_scores} \<longrightarrow> k \<in> set (gr_neo4j_clear g))
       \<and> (case gr_neo4j_write g of None \<Rightarrow> True | Some ws \<Rightarrow> k \<notin> set ws))"

lemma not_holding: "gr pk \<noteq> None \<Longrightarrow> \<not> holds_any (score_keys observer) gr pk \<Longrightarrow> scores_on observer gr pk = no_scores"
  by (auto simp: holds_any_def scores_on_def no_scores_def score_keys_simps PERSISTED_FIELDS_def)

text \<open>The card a run writes for a node.\<close>

lemma cards_to_write_at:
  assumes "keyed (cards_of g)"
  shows "distinct (map card_observee (cards_to_write full g))
    \<and> map_of (map (\<lambda>c. (card_observee c, c)) (cards_to_write full g)) pk =
      (case map_of (cards_of g) pk of
         None \<Rightarrow> None
       | Some c \<Rightarrow> if (if full then persisted g c else case gr_neo4j_write g of None \<Rightarrow> False | Some ws \<Rightarrow> pk \<in> set ws)
                  then Some c else None)"
proof -
  let ?P = "\<lambda>c. if full then persisted g c else card_observee c \<in> set (case gr_neo4j_write g of None \<Rightarrow> [] | Some ws \<Rightarrow> ws)"
  have "cards_to_write full g = filter ?P (map snd (cards_of g))"
    by (auto simp: cards_to_write_def persisted_def Let_def split: option.split)
  moreover have "card_observee c = pk" if "map_of (cards_of g) pk = Some c" for c
    using keyed_card [OF assms map_of_SomeD [OF that]] by simp
  ultimately show ?thesis using written_card [OF assms, of ?P pk] by (auto split: option.splits)
qed


end
