(* ===== verification/Scheduler.thy ===== *)
theory Scheduler
  imports Run_Requests "HOL-Library.Product_Lexorder"
begin

text \<open>
  The scheduler of runs: its decisions (\<^verbatim>\<open>app/services/scheduler.py\<close>), the candidates it
  reads (\<^verbatim>\<open>app/repos/scheduler_repo.py\<close>), one cycle (\<^verbatim>\<open>app/cronjobs/scheduler.py\<close>), the
  quota on manual runs (\<^verbatim>\<open>manual_quota.py\<close>), the every-Nth full run
  (\<^verbatim>\<open>publish_drift.py\<close>, \<^verbatim>\<open>app/cronjobs/periodic_graperank_trigger.py\<close>) and the measured metrics
  (\<^verbatim>\<open>scheduler_metrics.py\<close>). Durations are microseconds; the shares of the lanes are
  rationals where the code divides floats.
\<close>

section \<open>Decisions\<close>

record scheduler_candidate =
  cand_pubkey :: string
  cand_priority :: int
  cand_interval_seconds :: int
  cand_last_published :: "datetime option"
  cand_last_failed_at :: "datetime option"
  cand_enabled :: bool

definition RETRY_BACKOFF_SECONDS :: int where "RETRY_BACKOFF_SECONDS = 3600"

definition request_in_pipeline :: "string \<Rightarrow> string \<Rightarrow> bool" where
  "request_in_pipeline status ta_status =
     (if status \<in> set [WAITING, ONGOING] then True
      else status = SUCCESS \<and> ta_status \<in> set [WAITING, ONGOING])"

definition lane_deficit :: "int list \<Rightarrow> (int \<Rightarrow> int) \<Rightarrow> int \<Rightarrow> rat" where
  "lane_deficit active counts p =
     (let total_weight = sum_list (map (\<lambda>q. q + 1) active);
          total_admitted = sum_list (map counts active);
          target = of_int (p + 1) / of_int total_weight;
          current = (if total_admitted \<noteq> 0 then of_int (counts p) / of_int total_admitted else 0)
      in target - current)"

definition choose_admission_lane :: "int list \<Rightarrow> (int \<Rightarrow> int) \<Rightarrow> (exn, int) result" where
  "choose_admission_lane active counts =
     (case max_by (\<lambda>p. (lane_deficit active counts p, p)) active of
        None \<Rightarrow> Inl (ValueError ''max() iterable argument is empty'')
      | Some p \<Rightarrow> if sum_list (map (\<lambda>q. q + 1) active) = 0 then Inl ZeroDivisionError else Inr p)"

definition admission_budget :: "int \<Rightarrow> int \<Rightarrow> bool \<Rightarrow> int" where
  "admission_budget target inflight interactive_in_flight =
     (if interactive_in_flight then 0 else max 0 (target - inflight))"

definition is_overdue :: "scheduler_candidate \<Rightarrow> datetime \<Rightarrow> bool" where
  "is_overdue c now =
     (case cand_last_published c of
        None \<Rightarrow> True
      | Some t \<Rightarrow> now - t \<ge> timedelta_seconds (cand_interval_seconds c))"

text \<open>\<^verbatim>\<open>float("inf")\<close> is above every age.\<close>

definition overdue_seconds :: "scheduler_candidate \<Rightarrow> datetime \<Rightarrow> nat \<times> int" where
  "overdue_seconds c now = (case cand_last_published c of None \<Rightarrow> (1, 0) | Some t \<Rightarrow> (0, now - t))"

definition in_retry_backoff :: "scheduler_candidate \<Rightarrow> datetime \<Rightarrow> int \<Rightarrow> bool" where
  "in_retry_backoff c now backoff =
     (case cand_last_failed_at c of
        None \<Rightarrow> False
      | Some t \<Rightarrow> now - t < timedelta_seconds backoff)"

definition eligible :: "datetime \<Rightarrow> int \<Rightarrow> scheduler_candidate \<Rightarrow> bool" where
  "eligible now backoff c \<longleftrightarrow> cand_enabled c \<and> is_overdue c now \<and> \<not> in_retry_backoff c now backoff"

definition urgency :: "datetime \<Rightarrow> scheduler_candidate \<Rightarrow> int \<times> nat \<times> int" where
  "urgency now c = (cand_priority c, overdue_seconds c now)"

text \<open>\<^verbatim>\<open>sorted(..., reverse=True)\<close>: descending, and equal elements keep their order.\<close>

definition sorted_desc :: "('a \<Rightarrow> 'k::linorder) \<Rightarrow> 'a list \<Rightarrow> 'a list" where
  "sorted_desc key xs = rev (sort_key key (rev xs))"

definition rank_overdue_candidates :: "scheduler_candidate list \<Rightarrow> datetime \<Rightarrow> int \<Rightarrow> scheduler_candidate list" where
  "rank_overdue_candidates candidates now backoff =
     sorted_desc (urgency now) (filter (eligible now backoff) candidates)"

section \<open>Candidates\<close>

definition failed_runs :: "string \<Rightarrow> ledger \<Rightarrow> brainstorm_request list" where
  "failed_runs pubkey l = filter (\<lambda>r. br_pubkey r = Some pubkey \<and> br_status r = FAILURE) (requests l)"

definition candidate_of :: "scheduling \<Rightarrow> ledger \<Rightarrow> brainstorm_nsec \<Rightarrow> scheduler_candidate" where
  "candidate_of by_default l n =
     (let policy = Option.bind (bn_scheduling_id n) (\<lambda>sid. get_scheduling_on_db sid (base l));
          tier = (case policy of None \<Rightarrow> by_default | Some s \<Rightarrow> s)
      in \<lparr>cand_pubkey = bn_pubkey n, cand_priority = sc_priority tier,
          cand_interval_seconds = sc_schedule_interval_seconds tier,
          cand_last_published = bn_last_time_published_graperank n,
          cand_last_failed_at = sql_max br_updated_at (failed_runs (bn_pubkey n) l),
          cand_enabled = sc_enabled tier\<rparr>)"

definition load_scheduler_candidates_on_db :: "string \<Rightarrow> scheduling \<Rightarrow> ledger \<Rightarrow> scheduler_candidate list" where
  "load_scheduler_candidates_on_db platform_pubkey by_default l =
     map (candidate_of by_default l)
       (filter (\<lambda>n. bn_pubkey n \<noteq> platform_pubkey \<and> \<not> any_request_in_pipeline_for_pubkey_on_db (bn_pubkey n) l)
         (nsecs (base l)))"

section \<open>One cycle\<close>

type_synonym lane_queues = "(int \<times> scheduler_candidate list) list"

text \<open>\<^verbatim>\<open>lanes.setdefault(priority, []).append(candidate)\<close>.\<close>

fun append_to_lane :: "scheduler_candidate \<Rightarrow> lane_queues \<Rightarrow> lane_queues" where
  "append_to_lane c [] = [(cand_priority c, [c])]"
| "append_to_lane c ((p, q) # ls) =
     (if p = cand_priority c then (p, q @ [c]) # ls else (p, q) # append_to_lane c ls)"

definition bucket_lanes :: "scheduler_candidate list \<Rightarrow> lane_queues" where
  "bucket_lanes ranked = fold append_to_lane ranked []"

definition active_lanes :: "lane_queues \<Rightarrow> int list" where
  "active_lanes ls = map fst (filter (\<lambda>pq. snd pq \<noteq> []) ls)"

definition pick_lane :: "bool \<Rightarrow> int list \<Rightarrow> (int \<Rightarrow> int) \<Rightarrow> (exn, int) result" where
  "pick_lane fairness active counts =
     (if fairness then choose_admission_lane active counts else Inr (Max (set active)))"

fun pop_lane :: "int \<Rightarrow> lane_queues \<Rightarrow> (scheduler_candidate \<times> lane_queues) option" where
  "pop_lane lane [] = None"
| "pop_lane lane ((p, q) # ls) =
     (if p = lane then (case q of [] \<Rightarrow> None | c # q' \<Rightarrow> Some (c, (p, q') # ls))
      else map_option (\<lambda>(c, ls'). (c, (p, q) # ls')) (pop_lane lane ls))"

definition waiting :: "lane_queues \<Rightarrow> nat" where
  "waiting ls = sum_list (map (\<lambda>pq. length (snd pq)) ls)"

lemma pop_lane_waiting: "pop_lane lane ls = Some (c, ls') \<Longrightarrow> waiting ls = Suc (waiting ls')"
  by (induction ls arbitrary: ls') (auto simp: waiting_def split: if_splits list.splits)

definition has_grapevine :: "run_env \<Rightarrow> string \<Rightarrow> (exn, bool) result" where
  "has_grapevine env pubkey = result_bind (user_follows env pubkey) (\<lambda>n. Inr (n > 0))"

definition admit :: "scheduler_candidate \<Rightarrow> int \<Rightarrow> unit run_op" where
  "admit c lane =
     op_bind (create_brainstorm_request ''graperank'' (cand_pubkey c) (cand_pubkey c) True False False TRIGGER_SCHEDULED)
       (\<lambda>_ env w. (Inr (), w\<lparr>admitted := (admitted w)(lane := admitted w lane + 1)\<rparr>))"

function admission_loop :: "int \<Rightarrow> lane_queues \<Rightarrow> int \<Rightarrow> run_env \<Rightarrow> run_session \<Rightarrow> (exn, int) result \<times> run_session" where
  "admission_loop budget ls enqueued env w =
     (if \<not> (enqueued < budget \<and> active_lanes ls \<noteq> []) then (Inr enqueued, w)
      else case pick_lane (scheduler_fairness_enabled env) (active_lanes ls) (admitted w) of
             Inl e \<Rightarrow> (Inl e, w)
           | Inr lane \<Rightarrow>
               (case pop_lane lane ls of
                  None \<Rightarrow> (Inl KeyError, w)
                | Some (c, ls') \<Rightarrow>
                    (case has_grapevine env (cand_pubkey c) of
                       Inl e \<Rightarrow> (Inl e, w)
                     | Inr False \<Rightarrow> admission_loop budget ls' enqueued env w
                     | Inr True \<Rightarrow>
                         (case admit c lane env w of
                            (Inl e, w') \<Rightarrow> (Inl e, w')
                          | (Inr _, w') \<Rightarrow> admission_loop budget ls' (enqueued + 1) env w'))))"
  by pat_completeness auto
termination
  by (relation "measure (\<lambda>(_, ls, _, _, _). waiting ls)") (auto dest: pop_lane_waiting)

declare admission_loop.simps [simp del]

definition run_cycle :: "unit run_op" where
  "run_cycle =
     op_bind (read_run count_scheduled_publishing_inflight_on_db) (\<lambda>inflight.
     op_bind (read_run any_interactive_in_pipeline_on_db) (\<lambda>interactive.
     op_bind (asks scheduler_inflight_target) (\<lambda>target.
       (let budget = admission_budget target (int inflight) interactive in
        if budget \<le> 0 then ret ()
        else op_bind (read_run (\<lambda>l. get_default_scheduling_on_db (base l))) (\<lambda>found.
          case found of
            None \<Rightarrow> ret ()
          | Some by_default \<Rightarrow>
              op_bind (asks periodic_graperank_pubkey) (\<lambda>platform.
              op_bind (read_run (load_scheduler_candidates_on_db platform by_default)) (\<lambda>candidates.
              op_bind (asks run_utc_now) (\<lambda>utc.
              op_bind (admission_loop budget
                  (bucket_lanes (rank_overdue_candidates candidates utc RETRY_BACKOFF_SECONDS)) 0) (\<lambda>_.
                ret ()))))))))) "

section \<open>The quota on manual runs\<close>

record quota_decision =
  qd_allowed :: bool
  qd_reset_at :: "datetime option"

definition manual_quota_decision ::
  "int \<Rightarrow> datetime option \<Rightarrow> int \<Rightarrow> int \<Rightarrow> datetime \<Rightarrow> quota_decision" where
  "manual_quota_decision count oldest_in_window limit window_seconds now =
     (if count < limit then \<lparr>qd_allowed = True, qd_reset_at = None\<rparr>
      else \<lparr>qd_allowed = False,
            qd_reset_at = Some ((case oldest_in_window of None \<Rightarrow> now | Some t \<Rightarrow> t) + timedelta_seconds window_seconds)\<rparr>)"

text \<open>The text of the refusal is the parameter \<open>message\<close>.\<close>

definition enforce_manual_quota ::
  "(string \<Rightarrow> int \<Rightarrow> int \<Rightarrow> datetime \<Rightarrow> string) \<Rightarrow> string \<Rightarrow> datetime \<Rightarrow> ledger \<Rightarrow> (exn, unit) result" where
  "enforce_manual_quota message pubkey now l =
     (case get_scheduling_for_pubkey_on_db pubkey (base l) of
        None \<Rightarrow> Inr ()
      | Some policy \<Rightarrow>
          let limit = sc_manual_quota_limit policy;
              window = sc_manual_quota_window_seconds policy;
              counted = count_successful_manual_runs_in_window_on_db pubkey (now - timedelta_seconds window) l;
              decision = manual_quota_decision (fst counted) (snd counted) limit window now
          in if qd_allowed decision then Inr ()
             else case qd_reset_at decision of
                    None \<Rightarrow> Inl AssertionError
                  | Some reset_at \<Rightarrow> Inl (HTTPException 429 (message (sc_name policy) limit window reset_at)))"

section \<open>Full runs against drift\<close>

definition backstop_due :: "int \<Rightarrow> int \<Rightarrow> bool" where
  "backstop_due runs_since_full every_n \<longleftrightarrow> every_n > 0 \<and> runs_since_full + 1 \<ge> every_n"

datatype resync_target = RESYNC_RELAY | RESYNC_NEO4J | RESYNC_BOTH

record force_full =
  ff_relay :: bool
  ff_neo4j :: bool

fun RESYNC_TARGETS :: "resync_target \<Rightarrow> force_full" where
  "RESYNC_TARGETS RESYNC_RELAY = \<lparr>ff_relay = True, ff_neo4j = False\<rparr>"
| "RESYNC_TARGETS RESYNC_NEO4J = \<lparr>ff_relay = False, ff_neo4j = True\<rparr>"
| "RESYNC_TARGETS RESYNC_BOTH = \<lparr>ff_relay = True, ff_neo4j = True\<rparr>"

definition resync_observer_endpoint :: "string \<Rightarrow> resync_target \<Rightarrow> brainstorm_request_instance run_op" where
  "resync_observer_endpoint pubkey target =
     (let force = RESYNC_TARGETS target in
      create_brainstorm_request ''graperank'' pubkey pubkey False (ff_relay force) (ff_neo4j force) TRIGGER_ADMIN)"

definition trigger_graperank :: "string \<Rightarrow> (bool \<times> brainstorm_request_instance) run_op" where
  "trigger_graperank pubkey = in_run_session (
     op_bind (asks run_keys) (\<lambda>ks.
     op_bind (exec_run (\<lambda>l. case get_or_create_brainstorm_observer_nsec_by_pubkey_on_db ks pubkey (base l) of
                              ((row, _), d) \<Rightarrow> (row, l\<lparr>base := d\<rparr>))) (\<lambda>row.
     op_bind (asks (\<lambda>env. backstop_due (bn_runs_since_full row) (full_sync_every_n_runs env))) (\<lambda>due.
     op_bind (op_when (\<not> due) (write_run (on_base (increment_runs_since_full_on_db pubkey)))) (\<lambda>_.
     op_bind (create_brainstorm_request ''graperank'' pubkey pubkey True due due TRIGGER_PERIODIC) (\<lambda>inst.
       ret (due, inst)))))))"

definition PERIOD_HOURS :: int where "PERIOD_HOURS = 2"

text \<open>\<^verbatim>\<open>now.replace(hour=aligned_hour, minute=0, second=0, microsecond=0)\<close>: the start of the
  two-hour span of the day that holds \<open>now\<close>.\<close>

definition previous_aligned_mark :: "datetime \<Rightarrow> datetime" where
  "previous_aligned_mark now =
     (let day = timedelta_hours 24; hour = (now mod day) div timedelta_hours 1;
          aligned_hour = (hour div PERIOD_HOURS) * PERIOD_HOURS
      in now - now mod day + timedelta_hours aligned_hour)"

definition next_aligned_mark :: "datetime \<Rightarrow> datetime" where
  "next_aligned_mark now = previous_aligned_mark now + timedelta_hours PERIOD_HOURS"

definition needs_catch_up :: "string \<Rightarrow> datetime \<Rightarrow> ledger \<Rightarrow> bool" where
  "needs_catch_up pubkey now l =
     (case select_latest_non_waiting_brainstorm_request_on_db pubkey l of
        None \<Rightarrow> True
      | Some r \<Rightarrow> br_created_at r < previous_aligned_mark now)"

section \<open>Measured metrics\<close>

definition throughput_per_day :: "nat \<Rightarrow> int \<Rightarrow> rat" where
  "throughput_per_day count window_seconds =
     (if window_seconds \<le> 0 then 0 else of_nat count * 86400 / of_int window_seconds)"

definition demand_per_day :: "(nat \<times> int) list \<Rightarrow> rat" where
  "demand_per_day tiers =
     sum_list (map (\<lambda>(count, cadence). of_nat count * 86400 / of_int cadence) (filter (\<lambda>t. snd t > 0) tiers))"

definition tier_slip :: "datetime option \<Rightarrow> int \<Rightarrow> datetime \<Rightarrow> int" where
  "tier_slip oldest_last_published cadence_seconds now =
     (case oldest_last_published of
        None \<Rightarrow> 0
      | Some t \<Rightarrow> max 0 (now - t - timedelta_seconds cadence_seconds))"

section \<open>Weighted lanes\<close>

lemma max_by_Some: "xs \<noteq> [] \<Longrightarrow> \<exists>x. max_by key xs = Some x"
  using max_by_None by (cases "max_by key xs") auto

lemma sum_weights_pos: "\<forall>p\<in>set ps. 0 \<le> p \<Longrightarrow> ps \<noteq> [] \<Longrightarrow> 0 < sum_list (map (\<lambda>q. q + 1) (ps :: int list))"
proof (induction ps)
  case (Cons p ps)
  then show ?case by (cases ps) auto
qed simp

text \<open>The counts after \<open>n\<close> admissions while the lanes \<open>active\<close> stay non-empty, from a fresh
  start.\<close>

fun fair_counts :: "int list \<Rightarrow> nat \<Rightarrow> int \<Rightarrow> int" where
  "fair_counts active 0 = (\<lambda>_. 0)"
| "fair_counts active (Suc n) =
     (let counts = fair_counts active n in
      case choose_admission_lane active counts of
        Inl _ \<Rightarrow> counts
      | Inr lane \<Rightarrow> counts(lane := counts lane + 1))"

definition share :: "int list \<Rightarrow> int \<Rightarrow> rat" where
  "share active p = of_int (p + 1) / of_int (sum_list (map (\<lambda>q. q + 1) active))"

lemma of_int_sum_list: "of_int (sum_list xs) = (sum_list (map of_int xs) :: rat)"
  by (induction xs) auto

lemma share_sum:
  assumes "distinct active" "active \<noteq> []" "\<forall>p\<in>set active. 0 \<le> p"
  shows "(\<Sum>p\<in>set active. share active p) = 1"
proof -
  have "(0::rat) < of_int (sum_list (map (\<lambda>q. q + 1) active))" using sum_weights_pos [OF assms(3,2)] by simp
  moreover have "(\<Sum>p\<in>set active. of_int (p + 1) :: rat) = of_int (sum_list (map (\<lambda>q. q + 1) active))"
    using assms(1) by (simp add: of_int_sum_list o_def sum.distinct_set_conv_list)
  ultimately show ?thesis by (simp add: share_def sum_divide_distrib [symmetric])
qed

lemma share_pos:
  assumes "p \<in> set active" "\<forall>p\<in>set active. 0 \<le> p"
  shows "0 < share active p"
proof -
  have "active \<noteq> []" using assms(1) by auto
  with sum_weights_pos [OF assms(2)] assms show ?thesis by (auto simp: share_def)
qed

text \<open>The lane that is chosen is not over its share.\<close>

lemma chosen_lane_behind:
  assumes "distinct active" "active \<noteq> []" "\<forall>p\<in>set active. 0 \<le> p"
    and total: "(\<Sum>p\<in>set active. counts p) = int n" and nonneg: "\<forall>p\<in>set active. 0 \<le> counts p"
  obtains lane where "choose_admission_lane active counts = Inr lane" "lane \<in> set active"
    "of_int (counts lane) \<le> of_nat n * share active lane"
proof -
  obtain lane where max: "max_by (\<lambda>p. (lane_deficit active counts p, p)) active = Some lane"
    using max_by_Some [OF assms(2)] by blast
  have mem: "lane \<in> set active" by (rule max_by_mem [OF max])
  have choose: "choose_admission_lane active counts = Inr lane"
    using max sum_weights_pos [OF assms(3,2)] by (simp add: choose_admission_lane_def)
  have all: "sum_list (map counts active) = int n"
    using total assms(1) by (simp add: sum.distinct_set_conv_list)
  have "of_int (counts lane) \<le> of_nat n * share active lane"
  proof (cases "n = 0")
    case True
    then have "counts lane = 0" using total nonneg mem by (simp add: sum_nonneg_eq_0_iff)
    then show ?thesis using True by simp
  next
    case False
    have deficit: "lane_deficit active counts p = share active p - of_int (counts p) / of_nat n" for p
      using False all by (simp add: lane_deficit_def share_def Let_def)
    have le: "lane_deficit active counts p \<le> lane_deficit active counts lane" if "p \<in> set active" for p
      using max_by_ge [OF max that] by (auto simp: less_eq_prod_def)
    have "(\<Sum>p\<in>set active. lane_deficit active counts p) = 0"
      using False total share_sum [OF assms(1-3)]
      by (simp add: deficit sum_subtractf sum_divide_distrib [symmetric] of_int_sum [symmetric] del: of_int_sum)
    moreover have "(\<Sum>p\<in>set active. lane_deficit active counts p) \<le> of_nat (card (set active)) * lane_deficit active counts lane"
      using sum_bounded_above [of "set active" "lane_deficit active counts"] le by simp
    ultimately have "0 \<le> lane_deficit active counts lane"
      using mem assms(2) by (auto simp: zero_le_mult_iff card_gt_0_iff)
    then show ?thesis using False by (simp add: deficit field_simps)
  qed
  with choose mem show thesis by (rule that)
qed

lemma fair_counts_invariant:
  assumes "distinct active" "active \<noteq> []" "\<forall>p\<in>set active. 0 \<le> p"
  shows "(\<Sum>p\<in>set active. fair_counts active n p) = int n
    \<and> (\<forall>p\<in>set active. 0 \<le> fair_counts active n p \<and> of_int (fair_counts active n p) < of_nat n * share active p + 1)"
proof (induction n)
  case (Suc n)
  let ?c = "fair_counts active n"
  obtain lane where lane: "choose_admission_lane active ?c = Inr lane" "lane \<in> set active"
      "of_int (?c lane) \<le> of_nat n * share active lane"
    using chosen_lane_behind [OF assms, of ?c n] Suc by auto
  have eq: "fair_counts active (Suc n) = ?c(lane := ?c lane + 1)" by (simp add: lane Let_def)
  have "(\<Sum>p\<in>set active. fair_counts active (Suc n) p) = int (Suc n)"
    unfolding eq using Suc lane(2) by (simp add: sum.remove [of _ lane])
  moreover have "of_int ((?c(lane := ?c lane + 1)) p) < of_nat (Suc n) * share active p + 1" if "p \<in> set active" for p
  proof -
    have "of_int (?c p) < of_nat n * share active p + 1" using Suc that by blast
    moreover have "0 < share active p" by (rule share_pos [OF that assms(3)])
    ultimately show ?thesis using lane(3) by (auto simp: distrib_right)
  qed
  ultimately show ?case using Suc unfolding eq by auto
qed simp


text \<open>A policy of priority -1 has weight nothing: alone in a cycle its lane divides by zero.\<close>

lemma negative_priority_raises: "choose_admission_lane [-1] counts = Inl ZeroDivisionError"
  by (simp add: choose_admission_lane_def)

section \<open>The quota\<close>

definition manual_runs_at :: "string \<Rightarrow> int \<Rightarrow> ledger \<Rightarrow> datetime \<Rightarrow> brainstorm_request list" where
  "manual_runs_at pubkey window l now = filter (manual_run_in_window pubkey (now - timedelta_seconds window)) (requests l)"

lemma manual_runs_shrink:
  assumes "r \<in> set (manual_runs_at pubkey window l now)" "br_created_at r < t - timedelta_seconds window" "now \<le> t"
  shows "length (manual_runs_at pubkey window l t) < length (manual_runs_at pubkey window l now)"
proof -
  have sub: "manual_runs_at pubkey window l t
      = filter (manual_run_in_window pubkey (t - timedelta_seconds window)) (manual_runs_at pubkey window l now)"
    unfolding manual_runs_at_def filter_filter using assms(3)
    by (intro filter_cong) (auto simp: manual_run_in_window_def)
  have "\<not> manual_run_in_window pubkey (t - timedelta_seconds window) r"
    using assms(2) by (simp add: manual_run_in_window_def)
  then show ?thesis unfolding sub by (rule length_filter_less [OF assms(1)])
qed

text \<open>
  C17. The manual quota is exact: a user is let through iff fewer than the policy's limit of
  their manual runs were created in the window and published. Where they are refused it is
  with 429, the reset time they are told is not in the past, and it is true: at every later
  moment fewer of those runs count, so a user exactly at the limit is let through again.
\<close>
theorem manual_quota_exact:
  assumes policy: "get_scheduling_for_pubkey_on_db pubkey (base l) = Some policy"
    and limit: "1 \<le> sc_manual_quota_limit policy"
  shows "(enforce_manual_quota message pubkey now l = Inr ()
      \<longleftrightarrow> int (length (manual_runs_at pubkey (sc_manual_quota_window_seconds policy) l now)) < sc_manual_quota_limit policy)
    \<and> (enforce_manual_quota message pubkey now l \<noteq> Inr () \<longrightarrow>
        (\<exists>reset_at. enforce_manual_quota message pubkey now l
            = Inl (HTTPException 429 (message (sc_name policy) (sc_manual_quota_limit policy)
                (sc_manual_quota_window_seconds policy) reset_at))
          \<and> now \<le> reset_at
          \<and> (\<forall>t > reset_at.
               length (manual_runs_at pubkey (sc_manual_quota_window_seconds policy) l t)
                 < length (manual_runs_at pubkey (sc_manual_quota_window_seconds policy) l now)
               \<and> (int (length (manual_runs_at pubkey (sc_manual_quota_window_seconds policy) l now))
                    = sc_manual_quota_limit policy \<longrightarrow> enforce_manual_quota message pubkey t l = Inr ()))))"
proof -
  let ?window = "sc_manual_quota_window_seconds policy"
  let ?runs = "manual_runs_at pubkey ?window l"
  have allowed: "enforce_manual_quota message pubkey t l = Inr () \<longleftrightarrow> int (length (?runs t)) < sc_manual_quota_limit policy" for t
    using policy
    by (auto simp: enforce_manual_quota_def manual_quota_decision_def count_successful_manual_runs_in_window_on_db_def
        manual_runs_at_def Let_def)
  have "\<exists>reset_at. enforce_manual_quota message pubkey now l
            = Inl (HTTPException 429 (message (sc_name policy) (sc_manual_quota_limit policy) ?window reset_at))
          \<and> now \<le> reset_at \<and> (\<forall>t > reset_at. length (?runs t) < length (?runs now))"
    if full: "\<not> int (length (?runs now)) < sc_manual_quota_limit policy"
  proof -
    have ne: "?runs now \<noteq> []" using full limit by auto
    define oldest where "oldest = Min (set (map br_created_at (?runs now)))"
    have "oldest \<in> set (map br_created_at (?runs now))" unfolding oldest_def using ne by (intro Min_in) auto
    then obtain r where r: "r \<in> set (?runs now)" "br_created_at r = oldest" by auto
    have inside: "now - timedelta_seconds ?window \<le> oldest"
      using r by (auto simp: manual_runs_at_def manual_run_in_window_def)
    have "enforce_manual_quota message pubkey now l
        = Inl (HTTPException 429 (message (sc_name policy) (sc_manual_quota_limit policy) ?window
            (oldest + timedelta_seconds ?window)))"
      using policy full ne
      by (simp add: enforce_manual_quota_def manual_quota_decision_def count_successful_manual_runs_in_window_on_db_def
          manual_runs_at_def Let_def sql_min_def oldest_def)
    moreover have "length (?runs t) < length (?runs now)" if "oldest + timedelta_seconds ?window < t" for t
      using manual_runs_shrink [OF r(1), of t] r(2) inside that by simp
    ultimately show ?thesis using inside by (intro exI [of _ "oldest + timedelta_seconds ?window"]) auto
  qed
  then show ?thesis using allowed by fastforce
qed

end
