(* ===== verification/Scheduler_Cycle.thy ===== *)
theory Scheduler_Cycle
  imports Scheduler "HOL-Library.Multiset"
begin

text \<open>
  What a cycle of the scheduler does to the ledger (\<^verbatim>\<open>app/cronjobs/scheduler.py\<close>,
  \<^verbatim>\<open>_run_cycle\<close>) and what the periodic trigger does to the every-Nth counter: the loop's
  specification for any choice of lane, its end where the services answer, its equality
  with the ranked list when lanes are strict, and the concrete ledger the properties of the
  scheduler are applied to.
\<close>

section \<open>The admission loop\<close>

definition queued :: "lane_queues \<Rightarrow> scheduler_candidate list" where
  "queued ls = concat (map snd ls)"

definition granted :: "run_env \<Rightarrow> scheduler_candidate \<Rightarrow> bool" where
  "granted env c \<longleftrightarrow> has_grapevine env (cand_pubkey c) = Inr True"

lemma pop_lane_queued: "pop_lane lane ls = Some (c, ls') \<Longrightarrow> mset (queued ls) = add_mset c (mset (queued ls'))"
  by (induction ls arbitrary: ls') (auto simp: queued_def split: if_splits list.splits)

lemma active_lanes_Nil: "active_lanes ls = [] \<Longrightarrow> queued ls = []"
  by (auto simp: active_lanes_def queued_def filter_empty_conv)

lemma admit_cases:
  assumes run: "admit c lane env w = (r, w')"
    and clean: "rtx w = rdurable w" and wf: "ledger_wf (rdurable w)"
  obtains (refused) e where "r = Inl e" "rdurable w' = rdurable w"
  | (unqueued) e row where "r = Inl e" "gains [cand_pubkey c] TRIGGER_SCHEDULED (rdurable w) [row] (rdurable w')"
  | (admitted) row where "r = Inr ()" "gains [cand_pubkey c] TRIGGER_SCHEDULED (rdurable w) [row] (rdurable w')"
      "rtx w' = rdurable w'"
proof -
  let ?create = "create_brainstorm_request ''graperank'' (cand_pubkey c) (cand_pubkey c) True False False TRIGGER_SCHEDULED"
  obtain x v where create: "?create env w = (x, v)" by fastforce
  show ?thesis
    using create_gains [OF create clean wf] run create
    by cases (auto simp: admit_def op_bind_def intro: refused unqueued admitted)
qed

text \<open>One turn of the loop.\<close>

lemma admission_loop_cases:
  assumes "admission_loop budget ls enqueued env w = (r, w')"
  obtains (finished) "r = Inr enqueued" "w' = w" "budget \<le> enqueued \<or> queued ls = []"
  | (failed) e where "r = Inl e" "w' = w" "enqueued < budget"
  | (skipped) lane c ls' where "pick_lane (scheduler_fairness_enabled env) (active_lanes ls) (admitted w) = Inr lane"
      "pop_lane lane ls = Some (c, ls')" "\<not> granted env c" "enqueued < budget"
      "admission_loop budget ls' enqueued env w = (r, w')"
  | (refused) lane c ls' e where "pick_lane (scheduler_fairness_enabled env) (active_lanes ls) (admitted w) = Inr lane"
      "pop_lane lane ls = Some (c, ls')" "granted env c" "enqueued < budget"
      "admit c lane env w = (Inl e, w')" "r = Inl e"
  | (took) lane c ls' v where "pick_lane (scheduler_fairness_enabled env) (active_lanes ls) (admitted w) = Inr lane"
      "pop_lane lane ls = Some (c, ls')" "granted env c" "enqueued < budget"
      "admit c lane env w = (Inr (), v)" "admission_loop budget ls' (enqueued + 1) env v = (r, w')"
proof (cases "enqueued < budget \<and> active_lanes ls \<noteq> []")
  case False
  with assms active_lanes_Nil [of ls] show ?thesis
    by (intro finished) (auto simp: admission_loop.simps [of budget ls])
next
  case True
  show ?thesis
  proof (cases "pick_lane (scheduler_fairness_enabled env) (active_lanes ls) (admitted w)")
    case (Inl e)
    with assms True show ?thesis by (intro failed [of e]) (auto simp: admission_loop.simps [of budget ls])
  next
    case (Inr lane)
    with assms True show ?thesis
      by (auto simp: admission_loop.simps [of budget ls] granted_def
          split: sum.splits option.splits prod.splits bool.splits
          intro: failed skipped refused took)
  qed
qed

text \<open>What the loop admits: some of the candidates it was given, each with a grapevine, no
  more than the budget allows; and where it ends without an error it stopped at the budget
  or admitted every candidate with a grapevine.\<close>

definition loop_admits ::
  "int \<Rightarrow> lane_queues \<Rightarrow> int \<Rightarrow> run_env \<Rightarrow> ledger \<Rightarrow> (exn, int) result \<Rightarrow> run_session \<Rightarrow> scheduler_candidate list
     \<Rightarrow> brainstorm_request list \<Rightarrow> bool" where
  "loop_admits budget ls enqueued env l r w' cs rows \<longleftrightarrow>
     gains (map cand_pubkey cs) TRIGGER_SCHEDULED l rows (rdurable w')
     \<and> mset cs \<subseteq># mset (queued ls) \<and> (\<forall>c\<in>set cs. granted env c)
     \<and> int (length cs) \<le> max 0 (budget - enqueued)
     \<and> (\<forall>n. r = Inr n \<longrightarrow> n = enqueued + int (length cs) \<and> rtx w' = rdurable w'
         \<and> (budget \<le> n \<or> {c \<in> set (queued ls). granted env c} \<subseteq> set cs))"

lemma queued_set_pop: "pop_lane lane ls = Some (c, ls') \<Longrightarrow> set (queued ls) = insert c (set (queued ls'))"
  by (metis pop_lane_queued set_mset_add_mset_insert set_mset_mset)

lemma admission_loop_spec:
  assumes "admission_loop budget ls enqueued env w = (r, w')"
    and "rtx w = rdurable w" and "ledger_wf (rdurable w)"
  shows "\<exists>cs rows. loop_admits budget ls enqueued env (rdurable w) r w' cs rows"
  using assms
proof (induction "waiting ls" arbitrary: ls enqueued w rule: less_induct)
  case less
  note clean = less(3) and wf = less(4)
  show ?case
    using less(2)
  proof (cases rule: admission_loop_cases)
    case finished
    with gains_refl [OF wf] clean have "loop_admits budget ls enqueued env (rdurable w) r w' [] []"
      by (auto simp: loop_admits_def)
    then show ?thesis by blast
  next
    case failed
    with gains_refl [OF wf] have "loop_admits budget ls enqueued env (rdurable w) r w' [] []"
      by (auto simp: loop_admits_def)
    then show ?thesis by blast
  next
    case (skipped lane c ls')
    have "waiting ls' < waiting ls" using pop_lane_waiting [OF skipped(2)] by simp
    from less(1) [OF this skipped(5) clean wf] obtain cs rows where
      "loop_admits budget ls' enqueued env (rdurable w) r w' cs rows" by blast
    then have "loop_admits budget ls enqueued env (rdurable w) r w' cs rows"
      using skipped(3) pop_lane_queued [OF skipped(2)] queued_set_pop [OF skipped(2)]
      by (auto simp: loop_admits_def intro: subset_mset.trans)
    then show ?thesis by blast
  next
    case (refused lane c ls' e)
    have sub: "{#c#} \<subseteq># mset (queued ls)" by (simp add: pop_lane_queued [OF refused(2)])
    from refused(5) clean wf show ?thesis
    proof (cases rule: admit_cases)
      case (unqueued e' row)
      with refused sub have "loop_admits budget ls enqueued env (rdurable w) r w' [c] [row]"
        by (auto simp: loop_admits_def)
      then show ?thesis by blast
    next
      case (refused e')
      with gains_refl [OF wf] \<open>r = Inl e\<close> have "loop_admits budget ls enqueued env (rdurable w) r w' [] []"
        by (auto simp: loop_admits_def)
      then show ?thesis by blast
    qed simp
  next
    case (took lane c ls' v)
    have smaller: "waiting ls' < waiting ls" using pop_lane_waiting [OF took(2)] by simp
    from took(5) clean wf obtain row where
      v: "gains [cand_pubkey c] TRIGGER_SCHEDULED (rdurable w) [row] (rdurable v)" "rtx v = rdurable v"
      by (cases rule: admit_cases) auto
    then have "ledger_wf (rdurable v)" by (simp add: gains_def)
    from less(1) [OF smaller took(6) v(2) this] obtain cs rows where
      rest: "loop_admits budget ls' (enqueued + 1) env (rdurable v) r w' cs rows" by blast
    have "loop_admits budget ls enqueued env (rdurable w) r w' (c # cs) (row # rows)"
      using rest took(3,4) pop_lane_queued [OF took(2)] queued_set_pop [OF took(2)] gains_trans [OF v(1)]
      by (fastforce simp: loop_admits_def)
    then show ?thesis by blast
  qed
qed

section \<open>A cycle\<close>

lemma append_to_lane_queued: "mset (queued (append_to_lane c ls)) = add_mset c (mset (queued ls))"
  by (induction ls rule: append_to_lane.induct) (auto simp: queued_def)

lemma bucket_lanes_queued: "mset (queued (bucket_lanes cs)) = mset cs"
proof -
  have "mset (queued (fold append_to_lane cs ls)) = mset cs + mset (queued ls)" for ls
    by (induction cs arbitrary: ls) (auto simp: append_to_lane_queued)
  then show ?thesis by (simp add: bucket_lanes_def queued_def)
qed

lemma mset_sorted_desc [simp]: "mset (sorted_desc key xs) = mset xs"
  by (simp add: sorted_desc_def)

definition cycle_budget :: "run_env \<Rightarrow> ledger \<Rightarrow> int" where
  "cycle_budget env l =
     admission_budget (scheduler_inflight_target env) (int (count_scheduled_publishing_inflight_on_db l))
       (any_interactive_in_pipeline_on_db l)"

definition cycle_lanes :: "run_env \<Rightarrow> scheduling \<Rightarrow> ledger \<Rightarrow> lane_queues" where
  "cycle_lanes env by_default l =
     bucket_lanes (rank_overdue_candidates (load_scheduler_candidates_on_db (periodic_graperank_pubkey env) by_default l)
       (run_utc_now env) RETRY_BACKOFF_SECONDS)"

text \<open>Who a cycle may admit.\<close>

definition schedulable :: "run_env \<Rightarrow> scheduling \<Rightarrow> ledger \<Rightarrow> brainstorm_nsec \<Rightarrow> bool" where
  "schedulable env by_default l n \<longleftrightarrow>
     n \<in> set (nsecs (base l)) \<and> bn_pubkey n \<noteq> periodic_graperank_pubkey env
     \<and> \<not> any_request_in_pipeline_for_pubkey_on_db (bn_pubkey n) l
     \<and> eligible (run_utc_now env) RETRY_BACKOFF_SECONDS (candidate_of by_default l n)
     \<and> has_grapevine env (bn_pubkey n) = Inr True"

lemma cand_pubkey_candidate_of [simp]: "cand_pubkey (candidate_of by_default l n) = bn_pubkey n"
  by (simp add: candidate_of_def Let_def)

lemma set_queued_cycle_lanes:
  "{c \<in> set (queued (cycle_lanes env by_default l)). granted env c}
     = candidate_of by_default l ` {n. schedulable env by_default l n}"
proof -
  have "set (queued (cycle_lanes env by_default l))
      = set (filter (eligible (run_utc_now env) RETRY_BACKOFF_SECONDS)
          (load_scheduler_candidates_on_db (periodic_graperank_pubkey env) by_default l))"
    unfolding cycle_lanes_def rank_overdue_candidates_def
    by (metis bucket_lanes_queued mset_eq_setD mset_sorted_desc)
  then show ?thesis
    by (auto simp: load_scheduler_candidates_on_db_def schedulable_def granted_def)
qed

lemma distinct_cycle_pubkeys:
  assumes "ledger_wf l"
  shows "distinct (map cand_pubkey (queued (cycle_lanes env by_default l)))"
proof -
  let ?cs = "filter (eligible (run_utc_now env) RETRY_BACKOFF_SECONDS)
          (load_scheduler_candidates_on_db (periodic_graperank_pubkey env) by_default l)"
  have "mset (queued (cycle_lanes env by_default l)) = mset ?cs"
    by (simp add: cycle_lanes_def rank_overdue_candidates_def bucket_lanes_queued)
  then have "mset (map cand_pubkey (queued (cycle_lanes env by_default l))) = mset (map cand_pubkey ?cs)"
    by (simp only: mset_map)
  moreover have "distinct (map cand_pubkey ?cs)"
    using assms
    by (auto simp: load_scheduler_candidates_on_db_def ledger_wf_def unique_on_def filter_map o_def
        intro: distinct_map_filter)
  ultimately show ?thesis using mset_eq_imp_distinct_iff by blast
qed

lemma run_cycle_eq:
  "run_cycle env w =
     (if cycle_budget env (rtx w) \<le> 0 then (Inr (), w)
      else case get_default_scheduling_on_db (base (rtx w)) of
             None \<Rightarrow> (Inr (), w)
           | Some by_default \<Rightarrow>
               (case admission_loop (cycle_budget env (rtx w)) (cycle_lanes env by_default (rtx w)) 0 env w of
                  (Inl e, w') \<Rightarrow> (Inl e, w')
                | (Inr _, w') \<Rightarrow> (Inr (), w')))"
  by (auto simp: run_cycle_def op_bind_def read_run_def asks_def ret_def cycle_budget_def cycle_lanes_def Let_def
      split: option.split prod.split sum.split)

lemma in_run_session_durable:
  assumes "in_run_session m env w = (r, w')" and "m env w = (x, v)"
    and "\<And>y. x = Inr y \<Longrightarrow> rtx v = rdurable v"
  shows "rdurable w' = rdurable v"
  using assms
  by (auto simp: in_run_session_def catch_def op_bind_def run_commit_def run_rollback_def ret_def raise_def Let_def
      split: sum.splits option.splits)

definition cycle_admits ::
  "run_env \<Rightarrow> ledger \<Rightarrow> scheduler_candidate list \<Rightarrow> brainstorm_request list \<Rightarrow> ledger \<Rightarrow> bool" where
  "cycle_admits env l cs rows l' \<longleftrightarrow>
     gains (map cand_pubkey cs) TRIGGER_SCHEDULED l rows l'
     \<and> int (length cs) \<le> cycle_budget env l \<and> distinct (map cand_pubkey cs)
     \<and> (cs \<noteq> [] \<longrightarrow> (\<exists>by_default. get_default_scheduling_on_db (base l) = Some by_default
         \<and> set cs \<subseteq> candidate_of by_default l ` {n. schedulable env by_default l n}))"

lemma cycle_budget_nonneg: "0 \<le> cycle_budget env l"
  by (simp add: cycle_budget_def admission_budget_def)

lemma cycle_admits_Nil: "ledger_wf l \<Longrightarrow> cycle_admits env l [] [] l"
  by (simp add: cycle_admits_def gains_refl cycle_budget_nonneg)

lemma loop_admits_cycle_admits:
  assumes "loop_admits (cycle_budget env l) (cycle_lanes env by_default l) 0 env l r v cs rows"
    and "get_default_scheduling_on_db (base l) = Some by_default" and "ledger_wf l"
  shows "cycle_admits env l cs rows (rdurable v)"
proof -
  have "mset (map cand_pubkey cs) \<subseteq># mset (map cand_pubkey (queued (cycle_lanes env by_default l)))"
    using assms(1) by (simp add: loop_admits_def image_mset_subseteq_mono)
  with distinct_cycle_pubkeys [OF assms(3)] have "distinct (map cand_pubkey cs)"
    by (metis distinct_append ex_mset mset_append mset_eq_imp_distinct_iff subset_mset.le_iff_add)
  moreover have "set cs \<subseteq> {c \<in> set (queued (cycle_lanes env by_default l)). granted env c}"
    using assms(1) by (auto simp: loop_admits_def dest: mset_subset_eqD)
  ultimately show ?thesis
    using assms(1,2) cycle_budget_nonneg [of env l] set_queued_cycle_lanes
    by (auto simp: cycle_admits_def loop_admits_def)
qed

lemma cycle_spec:
  assumes "in_run_session run_cycle env w = (r, w')" and clean: "rtx w = rdurable w" and wf: "ledger_wf (rdurable w)"
  shows "\<exists>cs rows. cycle_admits env (rdurable w) cs rows (rdurable w')"
proof -
  obtain x v where cycle: "run_cycle env w = (x, v)" by fastforce
  have "(\<exists>cs rows. cycle_admits env (rdurable w) cs rows (rdurable v)) \<and> (\<forall>y. x = Inr y \<longrightarrow> rtx v = rdurable v)"
  proof (cases "cycle_budget env (rtx w) \<le> 0 \<or> get_default_scheduling_on_db (base (rtx w)) = None")
    case True
    then have "v = w" using cycle by (auto simp: run_cycle_eq split: if_splits)
    then show ?thesis using clean cycle_admits_Nil [OF wf] by auto
  next
    case False
    then obtain by_default where d: "get_default_scheduling_on_db (base (rdurable w)) = Some by_default"
      by (auto simp: clean)
    obtain y where loop: "admission_loop (cycle_budget env (rdurable w)) (cycle_lanes env by_default (rdurable w)) 0 env w = (y, v)"
      using cycle False d by (auto simp: run_cycle_eq clean split: prod.splits sum.splits)
    from admission_loop_spec [OF loop clean wf] obtain cs rows where
      admits: "loop_admits (cycle_budget env (rdurable w)) (cycle_lanes env by_default (rdurable w)) 0 env (rdurable w) y v cs rows"
      by blast
    have "\<exists>n. y = Inr n" if "x = Inr u" for u
      using that cycle False d loop by (auto simp: run_cycle_eq clean split: sum.splits)
    then show ?thesis
      using loop_admits_cycle_admits [OF admits d wf] admits by (auto simp: loop_admits_def)
  qed
  then show ?thesis using in_run_session_durable [OF assms(1) cycle] by metis
qed

lemma inflight_after:
  assumes "requests l' = requests l @ rows"
  shows "count_scheduled_publishing_inflight_on_db l' \<le> count_scheduled_publishing_inflight_on_db l + length rows"
  using assms by (simp add: count_scheduled_publishing_inflight_on_db_def)

text \<open>
  C14. One cycle of the scheduler, whatever fails in it, only adds scheduled runs to the
  committed ledger: at most the budget, at most one per user, and each for a user who is
  overdue on an enabled policy, out of retry backoff, follows somebody, is not the platform's
  own observer and has no run in the pipeline. So the scheduled runs in flight never exceed
  the target by a cycle's doing, and a cycle adds none while a manual or admin run is in
  the pipeline.
\<close>
theorem cycle_admits_within_budget:
  assumes "in_run_session run_cycle env w = (r, w')"
    and "rtx w = rdurable w" and "ledger_wf (rdurable w)"
  shows "\<exists>rows. requests (rdurable w') = requests (rdurable w) @ rows
    \<and> ledger_wf (rdurable w')
    \<and> int (length rows) \<le> cycle_budget env (rdurable w)
    \<and> distinct (map br_pubkey rows)
    \<and> (\<forall>row\<in>set rows. br_trigger_source row = TRIGGER_SCHEDULED
        \<and> (\<exists>by_default n. get_default_scheduling_on_db (base (rdurable w)) = Some by_default
            \<and> schedulable env by_default (rdurable w) n \<and> br_pubkey row = Some (bn_pubkey n)))
    \<and> int (count_scheduled_publishing_inflight_on_db (rdurable w'))
        \<le> max (scheduler_inflight_target env) (int (count_scheduled_publishing_inflight_on_db (rdurable w)))
    \<and> (any_interactive_in_pipeline_on_db (rdurable w) \<longrightarrow> rows = [])"
proof -
  obtain cs rows where admits: "cycle_admits env (rdurable w) cs rows (rdurable w')"
    using cycle_spec [OF assms] by blast
  then have rows: "requests (rdurable w') = requests (rdurable w) @ rows" "ledger_wf (rdurable w')"
      "map br_pubkey rows = map Some (map cand_pubkey cs)" "\<forall>row\<in>set rows. br_trigger_source row = TRIGGER_SCHEDULED"
    by (simp_all add: cycle_admits_def gains_def)
  have len: "length rows = length cs" using rows(3) by (metis length_map)
  have "distinct (map br_pubkey rows)"
    using admits unfolding rows(3) cycle_admits_def by (simp add: distinct_map inj_on_def)
  moreover have "\<exists>by_default n. get_default_scheduling_on_db (base (rdurable w)) = Some by_default
            \<and> schedulable env by_default (rdurable w) n \<and> br_pubkey row = Some (bn_pubkey n)" if "row \<in> set rows" for row
  proof -
    have "br_pubkey row \<in> set (map Some (map cand_pubkey cs))" using that rows(3) by (metis image_eqI list.set_map)
    then obtain c where "c \<in> set cs" "br_pubkey row = Some (cand_pubkey c)" by auto
    with admits show ?thesis by (force simp: cycle_admits_def)
  qed
  moreover have bound: "int (length rows) \<le> cycle_budget env (rdurable w)"
    using admits len by (simp add: cycle_admits_def)
  moreover have "int (count_scheduled_publishing_inflight_on_db (rdurable w'))
        \<le> max (scheduler_inflight_target env) (int (count_scheduled_publishing_inflight_on_db (rdurable w)))"
    using inflight_after [OF rows(1)] bound by (auto simp: cycle_budget_def admission_budget_def split: if_splits)
  moreover have "rows = []" if "any_interactive_in_pipeline_on_db (rdurable w)"
    using bound that by (simp add: cycle_budget_def admission_budget_def)
  ultimately show ?thesis using rows by blast
qed

section \<open>A cycle ends\<close>

text \<open>What a cycle needs of the services around it to end without an error.\<close>

definition presets_ok :: "run_env \<Rightarrow> ledger \<Rightarrow> bool" where
  "presets_ok env l \<longleftrightarrow>
     (\<forall>preset \<in> {PRESET_DEFAULT, PRESET_PERMISSIVE, PRESET_RESTRICTIVE}.
        \<exists>row. get_preset_on_db (preset_value preset) l = Some row \<and> preset_params env (gp_params row) \<noteq> None)
     \<and> (\<forall>pubkey raw. get_graperank_custom_params_by_pubkey_on_db pubkey (base l) = Some raw \<longrightarrow> preset_params env raw \<noteq> None)"

definition services_up :: "run_env \<Rightarrow> bool" where
  "services_up env \<longleftrightarrow>
     (\<forall>n. run_commit_fault env n = None) \<and> (\<forall>n. push_fault env n = None)
     \<and> (\<forall>p. \<exists>n. user_follows env p = Inr n)
     \<and> (\<forall>p. \<exists>ds. fetch_designated_pubkeys env p = Inr ds)"

lemma resolve_preset_params_ok:
  assumes "presets_ok env (rtx w)"
  shows "\<exists>x. resolve_preset_params preset (Some p) env w = (Inr x, w)"
proof -
  have builtin: "\<exists>x. resolve_builtin t env w = (Inr x, w)" if "t \<noteq> PRESET_CUSTOM" for t
    using assms that
    by (cases t) (auto simp: presets_ok_def resolve_builtin_def validated_params_def run_op_defs split: option.splits)
  show ?thesis
  proof (cases "preset = PRESET_CUSTOM")
    case False then show ?thesis using builtin by (simp add: resolve_preset_params_def)
  next
    case True
    show ?thesis
    proof (cases "get_graperank_custom_params_by_pubkey_on_db p (base (rtx w))")
      case None
      with True builtin [of PRESET_DEFAULT] show ?thesis
        by (simp add: resolve_preset_params_def op_bind_def read_run_def)
    next
      case (Some raw)
      then obtain y where "preset_params env raw = Some y" using assms by (auto simp: presets_ok_def)
      with True Some show ?thesis
        by (simp add: resolve_preset_params_def op_bind_def read_run_def validated_params_def ret_def)
    qed
  qed
qed

lemma presets_new_row [simp]:
  "presets (snd (new_row env algo par p fr fn t preset l)) = presets l"
  by (simp add: new_row_def create_brainstorm_request_on_db_def Let_def)

lemma nsec_of_triggered:
  "map_option bn_graperank_custom_params (nsec_of q (base (triggered env par True l)))
     = map_option bn_graperank_custom_params (nsec_of q (base l))"
  by (auto simp: triggered_def on_base_def update_last_time_triggered_graperank_on_db_def update_nsec_def nsec_of_def
      lookup_by_sql_update option.map_comp o_def intro!: option.map_cong)

lemma presets_ok_triggered:
  assumes "presets_ok env l"
  shows "presets_ok env (triggered env par True (snd (new_row env algo par p fr fn t preset l)))"
proof -
  let ?l = "snd (new_row env algo par p fr fn t preset l)"
  have "get_graperank_custom_params_by_pubkey_on_db q (base (triggered env par True ?l))
      = get_graperank_custom_params_by_pubkey_on_db q (base l)" for q
    using nsec_of_triggered [of q env par ?l]
    by (cases "nsec_of q (base l)"; cases "nsec_of q (base (triggered env par True ?l))")
      (auto simp: get_graperank_custom_params_by_pubkey_on_db_def new_row_facts)
  moreover have "get_preset_on_db q (triggered env par True ?l) = get_preset_on_db q l" for q
    by (simp add: get_preset_on_db_def triggered_def on_base_def)
  ultimately show ?thesis using assms by (simp add: presets_ok_def)
qed

lemma create_succeeds:
  assumes "services_up env" "presets_ok env (rtx w)"
  obtains inst preset where "fst (create_brainstorm_request algo par p True fr fn t env w) = Inr inst"
    "rtx (snd (create_brainstorm_request algo par p True fr fn t env w))
       = triggered env par True (snd (new_row env algo par p fr fn t preset (rtx w)))"
proof -
  obtain ds where ds: "fetch_designated_pubkeys env par = Inr ds" using assms(1) unfolding services_up_def by blast
  obtain preset where res: "resolve_preset_params
      (normalize_preset (get_graperank_preset_by_pubkey_on_db par (base (rtx w)))) (Some par) env w = (Inr preset, w)"
    using resolve_preset_params_ok [OF assms(2)] by blast
  let ?row = "fst (new_row env algo par p fr fn t preset (rtx w))"
  let ?l = "snd (new_row env algo par p fr fn t preset (rtx w))"
  have "br_error ?row = None" by (simp add: new_row_def create_brainstorm_request_on_db_def Let_def)
  then obtain inst where inst: "brainstorm_request_db_obj_to_schema_converter ?row
      (count_brainstorm_requests_with_priority_over_one_on_db (br_private_id ?row) ?l) False = Inr inst"
    by (simp add: brainstorm_request_db_obj_to_schema_converter_def)
  have up: "run_commit_fault env n = None" "push_fault env n = None" for n
    using assms(1) by (auto simp: services_up_def)
  let ?w = "w\<lparr>rtx := triggered env par True ?l, rcommits := rcommits w + 1, rdurable := triggered env par True ?l\<rparr>"
  obtain lane m where push: "enqueue_calc_request inst par t ds env ?w = rpush lane m env ?w"
    using enqueue_is_push by blast
  show thesis
    by (rule that [of inst preset])
      (use ds res inst push in \<open>simp_all add: create_brainstorm_request_def op_bind_def create_row_eq touch_user_eq
         read_run_def lift_result_def run_commit_def Let_def catch_def rpush_def up ret_def\<close>)
qed

lemma pick_lane_active:
  assumes "active \<noteq> []" and "fairness \<longrightarrow> (\<forall>p\<in>set active. 0 \<le> p)"
  obtains lane where "pick_lane fairness active counts = Inr lane" "lane \<in> set active"
proof (cases fairness)
  case True
  obtain p where p: "max_by (\<lambda>p. (lane_deficit active counts p, p)) active = Some p"
    using max_by_Some [OF assms(1)] by blast
  then have "pick_lane fairness active counts = Inr p"
    using True sum_weights_pos [of active] assms by (simp add: pick_lane_def choose_admission_lane_def)
  with max_by_mem [OF p] show thesis by (intro that)
next
  case False
  with assms(1) show thesis by (intro that [of "Max (set active)"]) (auto simp: pick_lane_def)
qed

lemma pop_lane_fst: "pop_lane lane ls = Some (c, ls') \<Longrightarrow> map fst ls' = map fst ls"
  by (induction ls arbitrary: ls') (auto split: if_splits list.splits)

lemma pop_active_lane:
  assumes "lane \<in> set (active_lanes ls)" "distinct (map fst ls)"
  obtains c ls' where "pop_lane lane ls = Some (c, ls')" "map fst ls' = map fst ls"
  using assms
proof (induction ls arbitrary: thesis)
  case (Cons pq ls)
  obtain p q where pq: "pq = (p, q)" by fastforce
  show ?case
  proof (cases "p = lane")
    case True
    with Cons(3,4) pq have "q \<noteq> []" by (auto simp: active_lanes_def image_iff)
    with True pq show ?thesis by (cases q) (auto intro: Cons(2))
  next
    case False
    with Cons(3,4) pq have "lane \<in> set (active_lanes ls)" "distinct (map fst ls)"
      by (auto simp: active_lanes_def split: if_splits)
    from Cons(1) [OF _ this] obtain c ls' where "pop_lane lane ls = Some (c, ls')" "map fst ls' = map fst ls" by blast
    with False pq show ?thesis by (intro Cons(2)) auto
  qed
qed (simp add: active_lanes_def)

lemma admission_loop_ok:
  assumes "services_up env" "presets_ok env (rtx w)" "distinct (map fst ls)"
    and "scheduler_fairness_enabled env \<longrightarrow> (\<forall>p\<in>set (map fst ls). 0 \<le> p)"
  shows "\<exists>n. fst (admission_loop budget ls enqueued env w) = Inr n"
  using assms
proof (induction "waiting ls" arbitrary: ls enqueued w rule: less_induct)
  case less
  show ?case
  proof (cases "enqueued < budget \<and> active_lanes ls \<noteq> []")
    case False then show ?thesis by (auto simp: admission_loop.simps [of budget ls])
  next
    case True
    have "\<forall>p\<in>set (active_lanes ls). 0 \<le> p" if "scheduler_fairness_enabled env"
      using less(5) that by (auto simp: active_lanes_def)
    with True obtain lane where lane: "pick_lane (scheduler_fairness_enabled env) (active_lanes ls) (admitted w) = Inr lane"
        "lane \<in> set (active_lanes ls)" using pick_lane_active by metis
    obtain c ls' where pop: "pop_lane lane ls = Some (c, ls')" "map fst ls' = map fst ls"
      using pop_active_lane [OF lane(2) less(4)] .
    have smaller: "waiting ls' < waiting ls" using pop_lane_waiting [OF pop(1)] by simp
    have same: "distinct (map fst ls')" "scheduler_fairness_enabled env \<longrightarrow> (\<forall>p\<in>set (map fst ls'). 0 \<le> p)"
      using less(4,5) pop(2) by simp_all
    obtain n where n: "user_follows env (cand_pubkey c) = Inr n" using less(2) unfolding services_up_def by blast
    let ?create = "create_brainstorm_request ''graperank'' (cand_pubkey c) (cand_pubkey c) True False False TRIGGER_SCHEDULED env w"
    obtain inst preset where created: "fst ?create = Inr inst"
        "rtx (snd ?create) = triggered env (cand_pubkey c) True (snd (new_row env ''graperank'' (cand_pubkey c) (cand_pubkey c) False False TRIGGER_SCHEDULED preset (rtx w)))"
      using create_succeeds [OF less(2,3)] .
    let ?v = "(snd ?create)\<lparr>admitted := (admitted (snd ?create))(lane := admitted (snd ?create) lane + 1)\<rparr>"
    have admit: "admit c lane env w = (Inr (), ?v)"
      using created(1) by (cases ?create) (auto simp: admit_def op_bind_def)
    have "presets_ok env (rtx ?v)" using presets_ok_triggered [OF less(3)] created(2) by simp
    with less(1) [OF smaller less(2) _ same] less(1) [OF smaller less(2,3) same] show ?thesis
      using True lane pop n admit
      by (simp add: admission_loop.simps [of budget ls] has_grapevine_def split: bool.split)
  qed
qed

lemma append_to_lane_keys: "set (map fst (append_to_lane c ls)) = insert (cand_priority c) (set (map fst ls))"
  by (induction c ls rule: append_to_lane.induct) auto

lemma append_to_lane_distinct: "distinct (map fst ls) \<Longrightarrow> distinct (map fst (append_to_lane c ls))"
proof (induction c ls rule: append_to_lane.induct)
  case (2 c p q ls)
  then show ?case using append_to_lane_keys [of c ls] by (auto simp del: set_map)
qed simp

lemmas append_to_lane_fst = append_to_lane_keys append_to_lane_distinct

lemma bucket_lanes_fst:
  "distinct (map fst (bucket_lanes cs))" "set (map fst (bucket_lanes cs)) = cand_priority ` set cs"
proof -
  have "distinct (map fst ls) \<Longrightarrow> distinct (map fst (fold append_to_lane cs ls))" for ls
    by (induction cs arbitrary: ls) (simp_all add: append_to_lane_fst)
  then show "distinct (map fst (bucket_lanes cs))" by (simp add: bucket_lanes_def)
  have "set (map fst (fold append_to_lane cs ls)) = cand_priority ` set cs \<union> set (map fst ls)" for ls
    by (induction cs arbitrary: ls) (simp_all only: fold_simps append_to_lane_fst, auto)
  then show "set (map fst (bucket_lanes cs)) = cand_priority ` set cs" by (simp add: bucket_lanes_def)
qed

lemma default_scheduling_mem: "get_default_scheduling_on_db d = Some s \<Longrightarrow> s \<in> set (schedulings d)"
  by (simp add: get_default_scheduling_on_db_def find_Some_iff) force

lemma candidate_priority:
  assumes "get_default_scheduling_on_db (base l) = Some by_default"
  shows "\<exists>s\<in>set (schedulings (base l)). cand_priority (candidate_of by_default l n) = sc_priority s"
proof -
  have "\<exists>s\<in>set (schedulings (base l)). s = (case Option.bind (bn_scheduling_id n) (\<lambda>sid. get_scheduling_on_db sid (base l)) of
      None \<Rightarrow> by_default | Some s \<Rightarrow> s)"
    using default_scheduling_mem [OF assms]
    by (auto simp: get_scheduling_on_db_def bind_eq_Some_conv split: option.split dest: lookup_by_mem)
  then show ?thesis by (auto simp: candidate_of_def Let_def)
qed

lemma set_sorted_desc [simp]: "set (sorted_desc key xs) = set xs"
  by (simp add: sorted_desc_def)

lemma cycle_lanes_fst:
  assumes "get_default_scheduling_on_db (base l) = Some by_default" "\<forall>s\<in>set (schedulings (base l)). 0 \<le> sc_priority s"
  shows "\<forall>p\<in>set (map fst (cycle_lanes env by_default l)). 0 \<le> p"
proof
  fix p assume "p \<in> set (map fst (cycle_lanes env by_default l))"
  then obtain n where "p = cand_priority (candidate_of by_default l n)"
    unfolding cycle_lanes_def bucket_lanes_fst
    by (auto simp: rank_overdue_candidates_def load_scheduler_candidates_on_db_def)
  moreover obtain s where "s \<in> set (schedulings (base l))" "cand_priority (candidate_of by_default l n) = sc_priority s"
    using candidate_priority [OF assms(1), of n] by blast
  ultimately show "0 \<le> p" using assms(2) by simp
qed


section \<open>Strict priority\<close>

text \<open>The reference: take the candidates in rank order.\<close>

fun admit_in_order :: "int \<Rightarrow> scheduler_candidate list \<Rightarrow> int \<Rightarrow> run_env \<Rightarrow> run_session \<Rightarrow> (exn, int) result \<times> run_session" where
  "admit_in_order budget [] enqueued env w = (Inr enqueued, w)"
| "admit_in_order budget (c # cs) enqueued env w =
     (if \<not> enqueued < budget then (Inr enqueued, w)
      else case has_grapevine env (cand_pubkey c) of
             Inl e \<Rightarrow> (Inl e, w)
           | Inr False \<Rightarrow> admit_in_order budget cs enqueued env w
           | Inr True \<Rightarrow>
               (case admit c (cand_priority c) env w of
                  (Inl e, w') \<Rightarrow> (Inl e, w')
                | (Inr _, w') \<Rightarrow> admit_in_order budget cs (enqueued + 1) env w'))"

text \<open>Lanes from the highest priority down, each holding candidates of its own priority.\<close>

definition lanes_descend :: "lane_queues \<Rightarrow> bool" where
  "lanes_descend ls \<longleftrightarrow> sorted_wrt (>) (map fst ls) \<and> (\<forall>(p, q)\<in>set ls. \<forall>c\<in>set q. cand_priority c = p)"

lemma append_to_lane_descend:
  assumes "lanes_descend ls" "\<forall>p\<in>set (map fst ls). cand_priority c \<le> p"
  shows "lanes_descend (append_to_lane c ls) \<and> queued (append_to_lane c ls) = queued ls @ [c]"
  using assms
proof (induction ls rule: append_to_lane.induct)
  case (2 c p q ls)
  show ?case
  proof (cases "p = cand_priority c")
    case True
    with 2(3) have "ls = []" using 2(2) by (cases ls) (auto simp: lanes_descend_def)
    with True 2(2) show ?thesis by (auto simp: lanes_descend_def queued_def)
  next
    case False
    with 2(2,3) have "lanes_descend ls" "\<forall>p\<in>set (map fst ls). cand_priority c \<le> p" "cand_priority c < p"
      by (auto simp: lanes_descend_def)
    with 2(1) [OF False] 2(2) False append_to_lane_fst(1) [of c ls] show ?thesis
      by (auto simp: lanes_descend_def queued_def)
  qed
qed (simp add: lanes_descend_def queued_def)

lemma fold_append_descend:
  assumes "lanes_descend ls" "sorted_wrt (\<lambda>a b. cand_priority b \<le> cand_priority a) cs"
    "\<forall>p\<in>set (map fst ls). \<forall>c\<in>set cs. cand_priority c \<le> p"
  shows "lanes_descend (fold append_to_lane cs ls) \<and> queued (fold append_to_lane cs ls) = queued ls @ cs"
  using assms
proof (induction cs arbitrary: ls)
  case (Cons c cs)
  have "lanes_descend (append_to_lane c ls)" "queued (append_to_lane c ls) = queued ls @ [c]"
    using append_to_lane_descend [OF Cons(2)] Cons(4) by auto
  moreover have "\<forall>p\<in>set (map fst (append_to_lane c ls)). \<forall>c\<in>set cs. cand_priority c \<le> p"
    using Cons(3,4) unfolding append_to_lane_fst by auto
  ultimately show ?case using Cons(1) [of "append_to_lane c ls"] Cons(3) by simp
qed simp

lemma sorted_wrt_sorted_desc: "sorted_wrt (\<lambda>a b. key b \<le> key a) (sorted_desc key xs)"
  unfolding sorted_desc_def sorted_wrt_rev by (metis sorted_sort_key sorted_map)

lemma ranked_descend:
  "lanes_descend (bucket_lanes (rank_overdue_candidates cs now backoff))
   \<and> queued (bucket_lanes (rank_overdue_candidates cs now backoff)) = rank_overdue_candidates cs now backoff"
proof -
  have "sorted_wrt (\<lambda>a b. cand_priority b \<le> cand_priority a) (rank_overdue_candidates cs now backoff)"
    unfolding rank_overdue_candidates_def
    by (rule sorted_wrt_mono_rel [OF _ sorted_wrt_sorted_desc])
      (auto simp: urgency_def less_eq_prod_def)
  then show ?thesis
    using fold_append_descend [of "[]"] by (simp add: bucket_lanes_def lanes_descend_def queued_def)
qed

lemma Max_active_head:
  assumes "lanes_descend ((p, q) # ls)" "q \<noteq> []"
  shows "Max (set (active_lanes ((p, q) # ls))) = p"
  using assms by (intro Max_eqI) (auto simp: active_lanes_def lanes_descend_def)

lemma strict_turn:
  assumes "lanes_descend ls" "active_lanes ls \<noteq> []"
  obtains c ls' where "pop_lane (Max (set (active_lanes ls))) ls = Some (c, ls')" "queued ls = c # queued ls'"
    "Max (set (active_lanes ls)) = cand_priority c" "lanes_descend ls'"
  using assms
proof (induction ls arbitrary: thesis)
  case (Cons pq ls)
  obtain p q where pq: "pq = (p, q)" by fastforce
  show ?case
  proof (cases q)
    case Nil
    then have "active_lanes (pq # ls) = active_lanes ls" by (simp add: active_lanes_def pq)
    moreover from this Cons(3,4) pq have below: "lanes_descend ls" "active_lanes ls \<noteq> []" "\<forall>p'\<in>set (map fst ls). p' < p"
      by (auto simp: lanes_descend_def)
    moreover have "Max (set (active_lanes ls)) \<noteq> p"
    proof -
      have "Max (set (active_lanes ls)) \<in> set (active_lanes ls)" using below(2) by simp
      then have "Max (set (active_lanes ls)) \<in> set (map fst ls)" by (auto simp: active_lanes_def)
      with below(3) show ?thesis by blast
    qed
    moreover obtain c ls' where pop: "pop_lane (Max (set (active_lanes ls))) ls = Some (c, ls')" "queued ls = c # queued ls'"
        "Max (set (active_lanes ls)) = cand_priority c" "lanes_descend ls'"
      using Cons(1) [OF _ below(1,2)] by blast
    moreover have "map fst ls' = map fst ls"
      using pop(1) by (rule pop_lane_fst)
    ultimately show ?thesis
      using Cons(3) pq Nil by (intro Cons(2) [of c "(p, q) # ls'"]) (auto simp: queued_def lanes_descend_def)
  next
    case (Cons c q')
    with Cons.prems(2) pq have "Max (set (active_lanes (pq # ls))) = p" using Max_active_head by blast
    with Cons Cons.prems(2) pq show ?thesis
      by (intro Cons.prems(1) [of c "(p, q') # ls"]) (auto simp: queued_def lanes_descend_def)
  qed
qed (simp add: active_lanes_def)

lemma admission_loop_strict:
  assumes "lanes_descend ls" "\<not> scheduler_fairness_enabled env"
  shows "admission_loop budget ls enqueued env w = admit_in_order budget (queued ls) enqueued env w"
  using assms
proof (induction "waiting ls" arbitrary: ls enqueued w rule: less_induct)
  case less
  show ?case
  proof (cases "active_lanes ls = []")
    case True
    with active_lanes_Nil [of ls] show ?thesis by (simp add: admission_loop.simps [of budget ls])
  next
    case False
    obtain c ls' where turn: "pop_lane (Max (set (active_lanes ls))) ls = Some (c, ls')" "queued ls = c # queued ls'"
        "Max (set (active_lanes ls)) = cand_priority c" "lanes_descend ls'"
      using strict_turn [OF less(2) False] .
    have "waiting ls' < waiting ls" using pop_lane_waiting [OF turn(1)] by simp
    note ih = less(1) [OF this turn(4) less(3)]
    show ?thesis
      using turn False less(3)
      by (simp add: admission_loop.simps [of budget ls] pick_lane_def ih
          split: sum.split bool.split prod.split)
  qed
qed

lemma admit_in_order_spec:
  assumes "admit_in_order budget cs enqueued env w = (r, w')"
    and "rtx w = rdurable w" and "ledger_wf (rdurable w)"
  shows "\<exists>k rows. gains (map cand_pubkey (take k (filter (granted env) cs))) TRIGGER_SCHEDULED (rdurable w) rows (rdurable w')
    \<and> (\<forall>n. r = Inr n \<longrightarrow> k = nat (budget - enqueued) \<and> rtx w' = rdurable w')"
  using assms
proof (induction budget cs enqueued env w rule: admit_in_order.induct)
  case (1 budget enqueued env w)
  then show ?case using gains_refl by (intro exI [of _ "nat (budget - enqueued)"] exI [of _ "[]"]) auto
next
  case (2 budget c cs enqueued env w)
  note clean = 2(4) and wf = 2(5)
  have stop: ?case if "rdurable w' = rdurable w" "\<forall>n. r = Inr n \<longrightarrow> budget \<le> enqueued \<and> rtx w' = rdurable w'"
    using gains_refl [OF wf] that by (intro exI [of _ 0] exI [of _ "[]"]) auto
  show ?case
  proof (cases "enqueued < budget \<and> (\<exists>b. has_grapevine env (cand_pubkey c) = Inr b)")
    case False
    with 2(3) clean stop show ?thesis by (auto split: sum.splits if_splits)
  next
    case True
    then obtain b where b: "has_grapevine env (cand_pubkey c) = Inr b" by blast
    show ?thesis
    proof (cases b)
      case False
      with b have "\<not> granted env c" by (simp add: granted_def)
      moreover have "admit_in_order budget cs enqueued env w = (r, w')" using 2(3) True b False by simp
      ultimately show ?thesis using 2(2) [OF _ b _ _ clean wf] True False by simp
    next
      case granted: True
      with b have c: "granted env c" by (simp add: granted_def)
      obtain x v where admit: "admit c (cand_priority c) env w = (x, v)" by fastforce
      from admit clean wf show ?thesis
      proof (cases rule: admit_cases)
        case (refused e)
        with 2(3) True b granted admit have "r = Inl e" "w' = v" by auto
        with refused show ?thesis by (intro stop) auto
      next
        case (unqueued e row)
        with 2(3) True b granted admit c show ?thesis by (intro exI [of _ 1] exI [of _ "[row]"]) auto
      next
        case (admitted row)
        with 2(3) True b granted admit have run: "admit_in_order budget cs (enqueued + 1) env v = (r, w')" by simp
        have "ledger_wf (rdurable v)" using admitted(2) by (simp add: gains_def)
        from 2(1) [OF _ b _ admit [symmetric] _ run admitted(3) this] True granted admitted(1) obtain k rows where
          rest: "gains (map cand_pubkey (take k (filter (granted env) cs))) TRIGGER_SCHEDULED (rdurable v) rows (rdurable w')"
          "\<forall>n. r = Inr n \<longrightarrow> k = nat (budget - (enqueued + 1)) \<and> rtx w' = rdurable w'" by auto
        from gains_trans [OF admitted(2) rest(1)] rest(2) True c show ?thesis
          by (intro exI [of _ "Suc k"] exI [of _ "row # rows"]) auto
      qed
    qed
  qed
qed

text \<open>
  With weighted lanes off, splitting the candidates into priority lanes changes nothing:
  a cycle admits them in rank order. The runs it adds are for a prefix of the ranked,
  schedulable users, exactly as many as the budget has room for when nothing fails, and the
  rank never puts a user before one of higher priority, nor before one of the same priority
  who is more overdue.
\<close>
lemma strict_cycle_follows_the_rank:
  fixes env :: run_env and w :: run_session and by_default :: scheduling
  defines "ranked \<equiv> rank_overdue_candidates
      (load_scheduler_candidates_on_db (periodic_graperank_pubkey env) by_default (rdurable w))
      (run_utc_now env) RETRY_BACKOFF_SECONDS"
  assumes run: "in_run_session run_cycle env w = (r, w')"
    and clean: "rtx w = rdurable w" and wf: "ledger_wf (rdurable w)"
    and d: "get_default_scheduling_on_db (base (rdurable w)) = Some by_default"
    and strict: "\<not> scheduler_fairness_enabled env"
  shows "\<exists>rows k. requests (rdurable w') = requests (rdurable w) @ rows
    \<and> map br_pubkey rows = map (\<lambda>c. Some (cand_pubkey c)) (take k (filter (granted env) ranked))
    \<and> (r = Inr () \<longrightarrow> k = nat (cycle_budget env (rdurable w)))
    \<and> sorted_wrt (\<lambda>a b. urgency (run_utc_now env) b \<le> urgency (run_utc_now env) a) ranked"
proof -
  have sorted: "sorted_wrt (\<lambda>a b. urgency (run_utc_now env) b \<le> urgency (run_utc_now env) a) ranked"
    unfolding ranked_def rank_overdue_candidates_def by (rule sorted_wrt_sorted_desc)
  obtain x v where cycle: "run_cycle env w = (x, v)" by fastforce
  have r: "x = Inr ()" if "r = Inr ()"
    using run cycle that by (auto simp: in_run_session_def catch_def op_bind_def raise_def run_rollback_def split: sum.splits)
  have "\<exists>k rows. gains (map cand_pubkey (take k (filter (granted env) ranked))) TRIGGER_SCHEDULED (rdurable w) rows (rdurable v)
      \<and> (x = Inr () \<longrightarrow> k = nat (cycle_budget env (rdurable w)) \<and> rtx v = rdurable v)"
  proof (cases "cycle_budget env (rdurable w) \<le> 0")
    case True
    with cycle clean have "v = w" by (simp add: run_cycle_eq)
    with True gains_refl [OF wf] clean show ?thesis by (intro exI [of _ 0] exI [of _ "[]"]) auto
  next
    case False
    have "admission_loop (cycle_budget env (rdurable w)) (cycle_lanes env by_default (rdurable w)) 0 env w
        = admit_in_order (cycle_budget env (rdurable w)) ranked 0 env w"
      using admission_loop_strict strict ranked_descend unfolding cycle_lanes_def ranked_def by metis
    then obtain y where loop: "admit_in_order (cycle_budget env (rdurable w)) ranked 0 env w = (y, v)"
        "x = Inr () \<longrightarrow> (\<exists>n. y = Inr n)"
      using cycle False d clean by (auto simp: run_cycle_eq split: prod.splits sum.splits)
    from admit_in_order_spec [OF loop(1) clean wf] loop(2) show ?thesis by auto
  qed
  then obtain k rows where
    g: "gains (map cand_pubkey (take k (filter (granted env) ranked))) TRIGGER_SCHEDULED (rdurable w) rows (rdurable v)"
    and k: "x = Inr () \<longrightarrow> k = nat (cycle_budget env (rdurable w)) \<and> rtx v = rdurable v" by blast
  have "rdurable w' = rdurable v" by (rule in_run_session_durable [OF run cycle]) (use k in auto)
  with g k r sorted show ?thesis by (intro exI [of _ rows] exI [of _ k]) (auto simp: gains_def o_def)
qed

section \<open>The every-Nth full run\<close>

definition runs_since_full :: "string \<Rightarrow> ledger \<Rightarrow> int" where
  "runs_since_full pubkey l = (case nsec_of pubkey (base l) of None \<Rightarrow> 0 | Some r \<Rightarrow> bn_runs_since_full r)"

text \<open>The flags of \<open>n\<close> periodic triggers of one observer, none of which publishes in between.\<close>

fun trigger_times :: "nat \<Rightarrow> string \<Rightarrow> run_env \<Rightarrow> run_session \<Rightarrow> bool list" where
  "trigger_times 0 pubkey env w = []"
| "trigger_times (Suc n) pubkey env w =
     (case trigger_graperank pubkey env w of
        (Inr (due, _), w') \<Rightarrow> due # trigger_times n pubkey env w'
      | (Inl _, w') \<Rightarrow> trigger_times n pubkey env w')"

definition counted_run :: "string \<Rightarrow> run_env \<Rightarrow> ledger \<Rightarrow> ledger" where
  "counted_run pubkey env l =
     (let l' = on_base (\<lambda>d. snd (get_or_create_brainstorm_observer_nsec_by_pubkey_on_db (run_keys env) pubkey d)) l in
      if backstop_due (runs_since_full pubkey l) (full_sync_every_n_runs env) then l'
      else on_base (increment_runs_since_full_on_db pubkey) l')"

lemma nsec_of_increment:
  "nsec_of q (increment_runs_since_full_on_db p d)
     = (if q = p then map_option (\<lambda>r. r\<lparr>bn_runs_since_full := bn_runs_since_full r + 1\<rparr>) (nsec_of q d) else nsec_of q d)"
  by (simp add: increment_runs_since_full_on_db_def nsec_of_update_nsec)

lemma runs_since_full_counted_run:
  "runs_since_full pubkey (counted_run pubkey env l) =
     (if backstop_due (runs_since_full pubkey l) (full_sync_every_n_runs env) then runs_since_full pubkey l
      else runs_since_full pubkey l + 1)"
  by (cases "nsec_of pubkey (base l)")
    (simp_all add: counted_run_def Let_def runs_since_full_def on_base_def nsec_of_get_or_create nsec_of_increment
      fresh_nsec_def)

lemma runs_since_full_triggered:
  "runs_since_full q (triggered env par True (snd (new_row env algo par p fr fn t preset l))) = runs_since_full q l"
  by (auto simp: runs_since_full_def triggered_def on_base_def new_row_facts nsec_of_def
      update_last_time_triggered_graperank_on_db_def update_nsec_def lookup_by_sql_update split: option.split)

lemma presets_ok_counted_run:
  assumes "presets_ok env l" shows "presets_ok env (counted_run pubkey env l)"
proof -
  have "get_graperank_custom_params_by_pubkey_on_db q (base (counted_run pubkey env l))
      = get_graperank_custom_params_by_pubkey_on_db q (base l)" for q
    by (auto simp: get_graperank_custom_params_by_pubkey_on_db_def counted_run_def Let_def on_base_def nsec_of_get_or_create
        nsec_of_increment fresh_nsec_def split: option.split)
  moreover have "get_preset_on_db q (counted_run pubkey env l) = get_preset_on_db q l" for q
    by (simp add: get_preset_on_db_def counted_run_def on_base_def Let_def)
  ultimately show ?thesis using assms by (simp add: presets_ok_def)
qed

lemma new_row_force:
  "br_force_full_relay (fst (new_row env algo par p fr fn t preset l)) = Some fr"
  "br_force_full_neo4j (fst (new_row env algo par p fr fn t preset l)) = Some fn"
  by (simp_all add: new_row_def create_brainstorm_request_on_db_def Let_def)

lemma trigger_graperank_ok:
  fixes pubkey :: string
  assumes up: "services_up env" "presets_ok env (rtx w)"
  defines "due \<equiv> backstop_due (runs_since_full pubkey (rtx w)) (full_sync_every_n_runs env)"
  obtains inst w' where "trigger_graperank pubkey env w = (Inr (due, inst), w')" "presets_ok env (rtx w')"
    "runs_since_full pubkey (rtx w') = (if due then runs_since_full pubkey (rtx w) else runs_since_full pubkey (rtx w) + 1)"
    "br_force_full_relay (last (requests (rtx w'))) = Some due" "br_force_full_neo4j (last (requests (rtx w'))) = Some due"
proof -
  let ?v = "w\<lparr>rtx := counted_run pubkey env (rtx w)\<rparr>"
  let ?create = "create_brainstorm_request ''graperank'' pubkey pubkey True due due TRIGGER_PERIODIC env ?v"
  have "presets_ok env (rtx ?v)" using presets_ok_counted_run [OF up(2)] by simp
  from create_succeeds [OF up(1) this, of "''graperank''" pubkey pubkey due due TRIGGER_PERIODIC]
  obtain inst preset where ok: "fst ?create = Inr inst" "rtx (snd ?create) = triggered env pubkey True
         (snd (new_row env ''graperank'' pubkey pubkey due due TRIGGER_PERIODIC preset (counted_run pubkey env (rtx w))))"
    by auto
  then obtain c where create: "?create = (Inr inst, c)" by (metis prod.collapse)
  have created: "rtx c = triggered env pubkey True
         (snd (new_row env ''graperank'' pubkey pubkey due due TRIGGER_PERIODIC preset (counted_run pubkey env (rtx w))))"
    using ok(2) create by simp
  define w' where "w' = c\<lparr>rcommits := rcommits c + 1, rdurable := rtx c\<rparr>"
  obtain row b d where get: "get_or_create_brainstorm_observer_nsec_by_pubkey_on_db (run_keys env) pubkey (base (rtx w)) = ((row, b), d)"
    by (metis prod.collapse)
  have row: "bn_runs_since_full row = runs_since_full pubkey (rtx w)"
    using get by (auto simp: get_or_create_brainstorm_observer_nsec_by_pubkey_on_db_def runs_since_full_def Let_def
        fresh_nsec_def split: option.splits)
  have v: "?v = (if due then w\<lparr>rtx := (rtx w)\<lparr>base := d\<rparr>\<rparr>
      else w\<lparr>rtx := on_base (increment_runs_since_full_on_db pubkey) ((rtx w)\<lparr>base := d\<rparr>)\<rparr>)"
    using get by (simp add: counted_run_def on_base_def due_def)
  have "trigger_graperank pubkey env w = (Inr (due, inst), w')"
  proof (cases due)
    case True
    with create show ?thesis
      unfolding v using up(1) row get
      by (simp add: trigger_graperank_def in_run_session_def catch_def op_bind_def asks_def exec_run_def op_when_def ret_def
          run_commit_def services_up_def due_def w'_def v Let_def)
  next
    case False
    with create show ?thesis
      unfolding v using up(1) row get
      by (simp add: trigger_graperank_def in_run_session_def catch_def op_bind_def asks_def exec_run_def op_when_def ret_def
          write_run_def run_commit_def services_up_def due_def w'_def v Let_def)
  qed
  moreover have "presets_ok env (rtx w')"
    using presets_ok_triggered [OF presets_ok_counted_run [OF up(2)]] created by (simp add: w'_def)
  moreover have "runs_since_full pubkey (rtx w')
      = (if due then runs_since_full pubkey (rtx w) else runs_since_full pubkey (rtx w) + 1)"
    by (simp add: w'_def created runs_since_full_triggered runs_since_full_counted_run due_def)
  moreover have "br_force_full_relay (last (requests (rtx w'))) = Some due"
      "br_force_full_neo4j (last (requests (rtx w'))) = Some due"
    by (simp_all add: w'_def created new_row_facts new_row_force)
  ultimately show thesis by (rule that)
qed

text \<open>
  The backstop bounds drift: with every-Nth set to \<open>n > 0\<close>, an observer whose counter
  stands at \<open>c\<close> gets exactly \<open>n - 1 - c\<close> delta runs from the next periodic triggers (none if
  that is negative), and from then on every trigger asks for a full run of both sinks until
  one publishes and the counter is reset. So no \<open>n\<close> triggers in a row are all deltas.
\<close>
lemma backstop_forces_every_nth_run:
  assumes "services_up env" "presets_ok env (rtx w)"
    and "0 < full_sync_every_n_runs env"
  shows "trigger_times k pubkey env w
      = (let deltas = nat (full_sync_every_n_runs env - 1 - runs_since_full pubkey (rtx w))
         in replicate (min k deltas) False @ replicate (k - deltas) True)
    \<and> (0 \<le> runs_since_full pubkey (rtx w) \<and> full_sync_every_n_runs env \<le> int k \<longrightarrow> True \<in> set (trigger_times k pubkey env w))"
proof -
  have eq: "trigger_times k pubkey env w
      = (let deltas = nat (full_sync_every_n_runs env - 1 - runs_since_full pubkey (rtx w))
         in replicate (min k deltas) False @ replicate (k - deltas) True)"
    using assms(2)
  proof (induction k arbitrary: w)
    case (Suc k)
    let ?due = "backstop_due (runs_since_full pubkey (rtx w)) (full_sync_every_n_runs env)"
    obtain inst w' where run: "trigger_graperank pubkey env w = (Inr (?due, inst), w')" "presets_ok env (rtx w')"
      "runs_since_full pubkey (rtx w') = (if ?due then runs_since_full pubkey (rtx w) else runs_since_full pubkey (rtx w) + 1)"
      using trigger_graperank_ok [OF assms(1) Suc(2), of pubkey] by blast
    let ?d = "nat (full_sync_every_n_runs env - 1 - runs_since_full pubkey (rtx w))"
    have step: "trigger_times (Suc k) pubkey env w = ?due # trigger_times k pubkey env w'" using run(1) by simp
    show ?case
    proof (cases ?due)
      case True
      then have "?d = 0" using assms(3) by (simp add: backstop_due_def)
      with step True run(3) Suc(1) [OF run(2)] show ?thesis by (simp add: Let_def)
    next
      case False
      then have "?d = Suc (nat (full_sync_every_n_runs env - 1 - runs_since_full pubkey (rtx w')))"
        using assms(3) run(3) by (simp add: backstop_due_def nat_eq_iff)
      with step False Suc(1) [OF run(2)] show ?thesis by (simp add: Let_def)
    qed
  qed simp
  then show ?thesis using assms(3) by (auto simp: Let_def)
qed

section \<open>Concrete instances\<close>

definition example_tier :: scheduling where
  "example_tier =
     \<lparr>sc_id = 1, sc_name = ''free'', sc_schedule_interval_seconds = 3600, sc_priority = 0, sc_enabled = True,
      sc_manual_quota_limit = 1, sc_manual_quota_window_seconds = 10, sc_is_default = True,
      sc_is_public = True, sc_support_included = False\<rparr>"

definition example_base :: db where
  "example_base =
     \<lparr>nsecs = [fresh_nsec (\<lambda>_. ([], [])) ''alice'', fresh_nsec (\<lambda>_. ([], [])) ''bob''],
      schedulings = [example_tier], billing_plans = [], user_subscriptions = [], webhook_events = [],
      next_event_id = 1, next_plan_id = 1\<rparr>"

definition example_manual_run :: brainstorm_request where
  "example_manual_run =
     \<lparr>br_private_id = 1, br_password = [], br_status = SUCCESS, br_status_ta_publication = SUCCESS,
      br_status_internal_publication = Some SUCCESS, br_count_values = None, br_error = None,
      br_parameters = ''bob'', br_algorithm = ''graperank'', br_pubkey = Some ''bob'', br_graperank_preset_used = None,
      br_graperank_params = None, br_publish_duration_seconds = None, br_trigger_source = TRIGGER_MANUAL,
      br_force_full_relay = None, br_force_full_neo4j = None, br_created_at = 0, br_updated_at = 0\<rparr>"

definition example_ledger :: ledger where
  "example_ledger =
     \<lparr>base = example_base, requests = [example_manual_run], next_request_id = 2, whitelists = [],
      presets = [\<lparr>gp_id = ''DEFAULT'', gp_params = JObj []\<rparr>, \<lparr>gp_id = ''PERMISSIVE'', gp_params = JObj []\<rparr>,
                 \<lparr>gp_id = ''RESTRICTIVE'', gp_params = JObj []\<rparr>]\<rparr>"

definition example_run_session :: run_session where
  "example_run_session =
     \<lparr>rtx = example_ledger, rdurable = example_ledger, rcommits = 0, lanes = [], pushes = 0, admitted = (\<lambda>_. 0)\<rparr>"

definition example_run_env :: run_env where
  "example_run_env =
     \<lparr>scheduler_enabled = True, scheduler_inflight_target = 1, scheduler_fairness_enabled = False,
      periodic_graperank_pubkey = ''house'', full_sync_every_n_runs = 2, run_utc_now = 5000000, run_db_now = 5000000,
      user_follows = (\<lambda>_. Inr 1), designation_event = (\<lambda>_. Inr None), run_keys = (\<lambda>_. ([], [])),
      run_password = (\<lambda>_. []), preset_params = Some, iso = (\<lambda>_. []), run_commit_fault = (\<lambda>_. None),
      push_fault = (\<lambda>_. None)\<rparr>"

definition example_cycle :: "(exn, unit) result \<times> run_session" where
  "example_cycle = in_run_session run_cycle example_run_env example_run_session"

lemma example_ledger_wf: "ledger_wf (rdurable example_run_session)"
  by (simp add: example_run_session_def example_ledger_def ledger_wf_def unique_on_def example_manual_run_def
      example_base_def fresh_nsec_def)

lemma example_clean: "rtx example_run_session = rdurable example_run_session"
  by (simp add: example_run_session_def)

lemma example_default:
  "get_default_scheduling_on_db (base (rdurable example_run_session)) = Some example_tier"
  by code_simp

lemma example_services_up: "services_up example_run_env"
  by (auto simp: services_up_def example_run_env_def fetch_designated_pubkeys_def)

lemma example_presets_ok: "presets_ok example_run_env (rdurable example_run_session)"
  by (auto simp: presets_ok_def example_run_env_def example_run_session_def example_ledger_def get_preset_on_db_def)

theorem cycle_admits_within_budget_witness:
  "\<exists>rows. requests (rdurable (snd example_cycle)) = requests example_ledger @ rows
     \<and> map br_pubkey rows = [Some ''alice''] \<and> int (length rows) \<le> cycle_budget example_run_env example_ledger"
proof -
  have run: "in_run_session run_cycle example_run_env example_run_session = (fst example_cycle, snd example_cycle)"
    by (simp add: example_cycle_def)
  obtain rows where rows: "requests (rdurable (snd example_cycle)) = requests (rdurable example_run_session) @ rows"
      "int (length rows) \<le> cycle_budget example_run_env (rdurable example_run_session)"
    using cycle_admits_within_budget [OF run example_clean example_ledger_wf] by blast
  have "map br_pubkey (requests (rdurable (snd example_cycle))) = [Some ''bob'', Some ''alice'']" by code_simp
  with rows show ?thesis by (auto simp: example_run_session_def example_ledger_def example_manual_run_def)
qed



theorem manual_quota_exact_witness:
  "enforce_manual_quota (\<lambda>_ _ _ _. []) ''bob'' 5000000 example_ledger = Inl (HTTPException 429 [])
   \<and> enforce_manual_quota (\<lambda>_ _ _ _. []) ''bob'' 50000000 example_ledger = Inr ()"
proof -
  have policy: "get_scheduling_for_pubkey_on_db ''bob'' (base example_ledger) = Some example_tier" by code_simp
  have limit: "1 \<le> sc_manual_quota_limit example_tier" by (simp add: example_tier_def)
  have runs: "length (manual_runs_at ''bob'' 10 example_ledger 5000000) = 1"
    "length (manual_runs_at ''bob'' 10 example_ledger 50000000) = 0" by code_simp+
  have tier: "sc_manual_quota_limit example_tier = 1" "sc_manual_quota_window_seconds example_tier = 10"
    by (simp_all add: example_tier_def)
  show ?thesis
    using manual_quota_exact [OF policy limit, of "\<lambda>_ _ _ _. []" 5000000]
      manual_quota_exact [OF policy limit, of "\<lambda>_ _ _ _. []" 50000000] runs tier by auto
qed

end
