(* ===== verification/Run_Life.thy ===== *)
theory Run_Life
  imports Graph_Scores Scheduler_Cycle
begin

text \<open>
  The life of a run under all the sessions that write it: asking for it, the worker's start and
  result, the publishing and graph stages, the stages' closing of a lost message, an
  administrator's deletion and the reaper
  (\<^verbatim>\<open>app/cronjobs/fail_stale_ongoing_brainstorm_requests.py\<close>). Each session is one step, so the
  steps of any number of consumers and requests interleave; a session whose commit fails, or
  that raises, is a step as well.
\<close>

section \<open>The reaper\<close>

definition reaper_session :: "timedelta \<Rightarrow> int list run_op" where
  "reaper_session stale_threshold =
     in_run_session (op_bind (asks run_utc_now) (\<lambda>utc. op_bind (asks run_db_now) (\<lambda>db_now.
       exec_run (fail_stale_in_pipeline_brainstorm_requests_on_db utc stale_threshold db_now))))"

text \<open>One round of \<^verbatim>\<open>fail_stale_ongoing_brainstorm_requests_cronjob\<close>: an error is logged.\<close>

definition reaper_round :: "timedelta \<Rightarrow> unit run_op" where
  "reaper_round stale_threshold = catch (op_bind (reaper_session stale_threshold) (\<lambda>_. ret ())) (\<lambda>_. ret ())"

lemma reaped_row: "stale cutoff r \<Longrightarrow> \<not> in_pipeline_condition ((reap r)\<lparr>br_updated_at := now\<rparr>)"
  by (simp add: reap_def in_pipeline_condition_def)

text \<open>After it, nothing in the pipeline is older than the threshold; it reports the runs it
  failed and touches no other.\<close>

lemma reaper_exact:
  assumes "fail_stale_in_pipeline_brainstorm_requests_on_db utc threshold now l = (ids, l')"
  shows "\<forall>r\<in>set (requests l'). in_pipeline_condition r \<longrightarrow> utc - threshold \<le> br_updated_at r"
    "ids = map br_private_id (filter (\<lambda>r. in_pipeline_condition r \<and> br_updated_at r < utc - threshold) (requests l))"
    "r \<in> set (requests l) \<Longrightarrow> br_private_id r \<notin> set ids \<Longrightarrow> r \<in> set (requests l')"
proof -
  have l': "l' = update_requests (stale (utc - threshold)) now reap l"
    and ids: "ids = map br_private_id (filter (stale (utc - threshold)) (requests l))"
    using assms by (simp_all add: fail_stale_in_pipeline_brainstorm_requests_on_db_def Let_def)
  show "ids = map br_private_id (filter (\<lambda>r. in_pipeline_condition r \<and> br_updated_at r < utc - threshold) (requests l))"
    by (simp add: ids stale_def [abs_def])
  show "\<forall>r\<in>set (requests l'). in_pipeline_condition r \<longrightarrow> utc - threshold \<le> br_updated_at r"
  proof (intro ballI impI)
    fix r assume "r \<in> set (requests l')" "in_pipeline_condition r"
    then obtain r0 where "r = (if stale (utc - threshold) r0 then (reap r0)\<lparr>br_updated_at := now\<rparr> else r0)"
      using sql_update_mem [of r "stale (utc - threshold)"] unfolding l' update_requests_def by auto
    then show "utc - threshold \<le> br_updated_at r" using \<open>in_pipeline_condition r\<close> reaped_row
      by (auto simp: stale_def split: if_splits)
  qed
  show "r \<in> set (requests l')" if "r \<in> set (requests l)" "br_private_id r \<notin> set ids"
    using that sql_update_mem [of r "stale (utc - threshold)"] unfolding l' ids update_requests_def by force
qed

section \<open>Every session obeys the law of a run's life\<close>

lemma life_push [lawful_intros]: "lawful life_law (rpush lane m)"
  by (auto simp: lawful_def rpush_def Let_def split: option.splits intro: life.runs.law_refl)

lemma life_fetch [lawful_intros]: "lawful life_law (\<lambda>env w. (f env, w))"
  by (auto simp: lawful_def intro: life.runs.law_refl)

lemma life_presets [lawful_intros]: "lawful life_law (resolve_preset_params preset pubkey)"
  unfolding lawful_def using resolve_preset_params_state by (metis life.runs.law_refl snd_conv)

lemma life_create [lawful_intros]:
  "lawful life_law (create_brainstorm_request algo par p ex fr fn t)"
  unfolding create_brainstorm_request_def create_row_def touch_user_def enqueue_calc_request_def fail_run_def
  by (auto intro!: lawful_intros)

lemma life_publish [lawful_intros]:
  "lawful life_law (open_publish setting rid observer)" "lawful life_law (ensure_assistant_kind0_published k observer t)"
  "lawful life_law (close_publish rid observer published full dur)"
  unfolding open_publish_def ensure_assistant_kind0_published_def close_publish_def
  by (auto intro!: lawful_intros split: prod.split)

lemma life_write [lawful_intros]:
  "lawful life_law (open_write days rid observer)" "lawful life_law (close_write rid observer cleared)"
  unfolding open_write_def close_write_def Let_def by (auto intro!: lawful_intros)

lemma life_others_sessions [lawful_intros]:
  "lawful life_law (delete_brainstorm_request_by_id rid)" "lawful life_law (reaper_round threshold)"
  unfolding delete_brainstorm_request_by_id_def reaper_round_def reaper_session_def by (auto intro!: lawful_intros)

section \<open>The sessions, interleaved\<close>

definition run_commits :: "'a run_op \<Rightarrow> ledger \<Rightarrow> ledger \<Rightarrow> bool" where
  "run_commits m l l' \<longleftrightarrow> (\<exists>env w r w'. rtx w = l \<and> rdurable w = l \<and> m env w = (r, w') \<and> rdurable w' = l')"

inductive run_step :: "ledger \<Rightarrow> ledger \<Rightarrow> bool" where
  asked: "run_commits (create_brainstorm_request algo par p ex fr fn t) l l' \<Longrightarrow> run_step l l'"
| deleted: "run_commits (delete_brainstorm_request_by_id rid) l l' \<Longrightarrow> run_step l l'"
| started: "run_commits (process_job_started_message rid) l l' \<Longrightarrow> run_step l l'"
| answered: "run_commits (process_message cutoffs cutoff rid g) l l' \<Longrightarrow> run_step l l'"
| result_lost: "run_commits (fail_result_stage rid reason) l l' \<Longrightarrow> run_step l l'"
| publish_failed: "run_commits (fail_ta_stage rid) l l' \<Longrightarrow> run_step l l'"
| write_failed: "run_commits (fail_neo4j_stage rid) l l' \<Longrightarrow> run_step l l'"
| publishing: "run_commits (open_publish setting rid observer) l l' \<Longrightarrow> run_step l l'"
| introduced: "run_commits (ensure_assistant_kind0_published k observer t) l l' \<Longrightarrow> run_step l l'"
| published: "run_commits (close_publish rid observer pubkeys full dur) l l' \<Longrightarrow> run_step l l'"
| nothing_published: "run_commits (committed (stamped (update_brainstorm_request_ta_status_by_id_on_db rid SUCCESS))) l l' \<Longrightarrow> run_step l l'"
| writing: "run_commits (open_write days rid observer) l l' \<Longrightarrow> run_step l l'"
| written: "run_commits (close_write rid observer cleaned) l l' \<Longrightarrow> run_step l l'"
| nothing_written: "run_commits (committed (stamped
    (update_brainstorm_request_internal_publication_status_by_id_on_db rid SUCCESS))) l l' \<Longrightarrow> run_step l l'"
| reaped: "run_commits (reaper_round threshold) l l' \<Longrightarrow> run_step l l'"

abbreviation run_history :: "ledger \<Rightarrow> ledger \<Rightarrow> bool" where
  "run_history \<equiv> run_step\<^sup>*\<^sup>*"

lemma lawful_commits: "lawful life_law m \<Longrightarrow> run_commits m l l' \<Longrightarrow> life_law l l'"
  unfolding run_commits_def using life.runs.lawful_durable by metis

lemma life_step: "run_step l l' \<Longrightarrow> life_law l l'"
  by (cases rule: run_step.cases) (auto elim!: lawful_commits [rotated] intro!: lawful_intros)

lemma life_history: "run_history l l' \<Longrightarrow> life_law l l'"
  by (induction rule: rtranclp_induct) (auto intro: life.runs.law_refl life.runs.law_trans dest: life_step)


section \<open>A run on a small ledger\<close>

definition example_pubkey :: string where "example_pubkey = replicate 64 CHR ''a''"

definition example_card :: scorecard where
  "example_card = \<lparr>card_observer = ''alice'', card_observee = example_pubkey, card_influence = 1 / 2, card_hops = 1,
     card_trusted_followers = Some 3, card_trusted_reporters = None, card_trusted_muters = None\<rparr>"

definition example_result :: graperank_result where
  "example_result = \<lparr>gr_scorecards = Some [(example_pubkey, example_card)], gr_success = True, gr_changed = [],
     gr_neo4j_write = None, gr_neo4j_clear = [], gr_neo4j_floor = None, gr_error = None\<rparr>"

definition example_waiting_run :: brainstorm_request where
  "example_waiting_run = example_manual_run\<lparr>br_private_id := 2, br_status := WAITING, br_status_ta_publication := WAITING,
     br_pubkey := Some ''alice'', br_force_full_relay := Some True\<rparr>"

definition example_busy_session :: run_session where
  "example_busy_session =
     (let l = example_ledger\<lparr>requests := [example_manual_run, example_waiting_run], next_request_id := 3\<rparr>
      in example_run_session\<lparr>rtx := l, rdurable := l\<rparr>)"

definition example_recording :: "(exn, unit) result \<times> run_session" where
  "example_recording = process_message (\<lambda>_. None) (2 / 100) 2 example_result example_run_env example_busy_session"

lemma example_busy_clean: "rtx example_busy_session = rdurable example_busy_session"
  by (simp add: example_busy_session_def Let_def)

lemma example_waiting: "request_of 2 (rdurable example_busy_session) = Some example_waiting_run"
  by (simp add: example_busy_session_def request_of_def example_manual_run_def example_waiting_run_def Let_def)



text \<open>A relay that keeps the newest assertion of each observee and honours deletions.\<close>

definition example_accept :: "nostr_event \<Rightarrow> store \<Rightarrow> store" where
  "example_accept e st =
     (if ev_content e = [] then st(hd (ev_tags e) ! 1 \<mapsto> ev_tags e)
      else (\<lambda>o'. if [''a'', ta_coordinate ''pk'' o'] \<in> set (ev_tags e) then None else st o'))"

lemma example_relay_laws: "relay_laws example_accept ''pk''"
proof -
  have "[''a'', ta_coordinate ''pk'' x] \<in> set (map (\<lambda>o'. [''a'', ta_coordinate ''pk'' o']) os @ [CLIENT_TAG]) \<longleftrightarrow> x \<in> set os" for x os
    by (auto simp: CLIENT_TAG_def ta_coordinate_def)
  then show ?thesis
    by (auto simp: relay_laws_def example_accept_def sign_ta_json_def sign_deletion_json_def ta_tags_def DELETION_CONTENT_def fun_eq_iff)
qed

definition example_upload_env :: upload_env where
  "example_upload_env = \<lparr>up_cutoff = 2 / 100, up_relay_full_sync = False, up_sweep_below_cutoff = False,
     up_parse_keys = (\<lambda>_. Inr ''pk''), up_kind0 = (\<lambda>_. Inr ()),
     up_publish = (\<lambda>events. case events of
       [e] \<Rightarrow> ([e], Inr \<lparr>n_events = 1, n_acked = 1, n_failed = 0, n_retried = 0, n_reconnects = 0, aborted = False\<rparr>)
     | _ \<Rightarrow> ([], Inl (RuntimeError []))),
     up_accept = example_accept, up_duration = 1\<rparr>"

definition example_upload :: "(exn, unit) result \<times> upload_state" where
  "example_upload = process_nostr_upload_message example_upload_env 2 example_result example_run_env
     \<lparr>up_run = example_busy_session, up_store = (\<lambda>_. None)\<rparr>"

text \<open>Its sessions, one after the other.\<close>

definition example_opened :: "(exn, brainstorm_nsec \<times> bool) result \<times> run_session" where
  "example_opened = open_publish False 2 ''alice'' example_run_env example_busy_session"

definition example_introduced :: "(exn, unit) result \<times> run_session" where
  "example_introduced = ensure_assistant_kind0_published (\<lambda>_. Inr ()) ''alice'' None example_run_env (snd example_opened)"

definition example_previous :: "(exn, string list) result \<times> run_session" where
  "example_previous = in_run_session (read_run (\<lambda>l. baseline ''alice'' l)) example_run_env (snd example_introduced)"

definition example_closed :: "(exn, unit) result \<times> run_session" where
  "example_closed = close_publish 2 ''alice'' [example_pubkey] True 1 example_run_env (snd example_previous)"

lemma example_sessions:
  "map_sum id (\<lambda>(n, full). (bn_assistant_kind0_published_at n, full)) (fst example_opened) = Inr (None, True)"
  "fst example_introduced = Inr ()" "fst example_previous = Inr []" "fst example_closed = Inr ()"
  "map_option br_status_ta_publication (request_of 2 (rdurable (snd example_closed))) = Some SUCCESS"
  by code_simp+

lemma example_plan:
  "prepare_ta_inputs example_result (1 / 50) True = [ta_input_of example_card]"
  "plan_publish example_result [] (1 / 50) False = \<lparr>currently_published = [example_pubkey], plan_deletes = []\<rparr>"
  by code_simp+

lemma example_observer: "result_observer example_result = Some ''alice''"
  by (simp add: result_observer_def cards_of_def example_result_def example_card_def)

lemma example_upload_sessions: "fst example_upload = Inr ()" "up_run (snd example_upload) = snd example_closed"
proof -
  obtain n where o: "open_publish False 2 ''alice'' example_run_env example_busy_session = (Inr (n, True), snd example_opened)"
    "bn_assistant_kind0_published_at n = None"
    using example_sessions(1) unfolding example_opened_def
    by (cases "fst (open_publish False 2 ''alice'' example_run_env example_busy_session)") (auto simp: prod_eq_iff)
  have k: "ensure_assistant_kind0_published (\<lambda>_. Inr ()) ''alice'' None example_run_env (snd example_opened) = (Inr (), snd example_introduced)"
    using example_sessions(2) by (metis example_introduced_def prod.collapse)
  have b: "in_run_session (read_run (\<lambda>l. baseline ''alice'' l)) example_run_env (snd example_introduced) = (Inr [], snd example_previous)"
    using example_sessions(3) by (metis example_previous_def prod.collapse)
  have c: "close_publish 2 ''alice'' [example_pubkey] True 1 example_run_env (snd example_previous) = (Inr (), snd example_closed)"
    using example_sessions(4) by (metis example_closed_def prod.collapse)
  have e: "sign_publish_events [ta_input_of example_card] [] ''pk'' = [sign_ta_json (ta_input_of example_card)]"
    by (simp add: sign_publish_events_def atag_deletion_tags_def chunks.simps)
  show "fst example_upload = Inr ()" "up_run (snd example_upload) = snd example_closed"
    unfolding example_upload_def process_nostr_upload_message_def example_observer
    by (simp_all add: publish_scores_def example_upload_env_def in_runs_def op_bind_def catch_def lift_result_def send_events_def
        o k b c e example_plan n_unacked_def)
qed

lemma example_keyed: "keyed (cards_of example_result)" "\<forall>(k, _)\<in>set (cards_of example_result). is_pubkey k"
  by (auto simp: keyed_def cards_of_def example_result_def example_card_def is_pubkey_def example_pubkey_def lower_hex_def list_all_iff)


definition example_graph_env :: graph_env where
  "example_graph_env = \<lparr>ge_full_write = True, ge_cleanup_interval_days = 30, ge_fault = (\<lambda>_. None),
     ge_holders = (\<lambda>ks gr. filter (holds_any ks gr) [example_pubkey])\<rparr>"

definition example_graph :: graph where
  "example_graph = (\<lambda>_. None)(example_pubkey \<mapsto> (\<lambda>_. None))"

definition example_writing :: "(exn, unit) result \<times> graph_state" where
  "example_writing = process_neo4j_write_message example_graph_env 2 example_result example_run_env
     \<lparr>gs_run = example_busy_session, gs_graph = example_graph, gs_txs = 0\<rparr>"

text \<open>Without a fault of the graph, every batch is written.\<close>

lemma write_batches_progress:
  assumes "\<And>n. ge_fault ge n = None"
  shows "\<exists>s'. write_batches ge work items env s = (Inr (), s') \<and> gs_run s' = gs_run s"
proof -
  have "\<exists>s'. write_batches_of ge work bs env s = (Inr (), s') \<and> gs_run s' = gs_run s" for bs s
  proof (induction bs arbitrary: s)
    case (Cons b bs)
    from Cons.IH [of "s\<lparr>gs_txs := Suc (gs_txs s), gs_graph := work b (gs_graph s)\<rparr>"] show ?case
      by (simp add: op_bind_def write_batch_def Let_def assms)
  qed (simp add: ret_def)
  then show ?thesis by (simp add: write_batches_def)
qed

lemma clear_unreached_progress:
  assumes "\<And>n. ge_fault ge n = None"
  shows "\<exists>s'. clear_unreached ge ks scored env s = (Inr (), s') \<and> gs_run s' = gs_run s"
  using write_batches_progress [OF assms] by (simp add: clear_unreached_def op_bind_def)

definition example_write_opened :: "(exn, bool \<times> bool) result \<times> run_session" where
  "example_write_opened = open_write 30 2 ''alice'' example_run_env example_busy_session"

definition example_write_closed :: "(exn, unit) result \<times> run_session" where
  "example_write_closed = close_write 2 ''alice'' True example_run_env (snd example_write_opened)"

lemma example_write_sessions:
  "fst example_write_opened = Inr (False, True)" "fst example_write_closed = Inr ()"
  by code_simp+

lemma example_writing_succeeds: "fst example_writing = Inr ()"
proof -
  let ?ge = example_graph_env and ?ks = "score_keys ''alice''"
  let ?cards = "map (score_row ''alice'') (cards_to_write True example_result)"
  let ?scored = "map (\<lambda>(_, c). card_observee c) (cards_of example_result)"
  have nofault: "ge_fault ?ge n = None" for n by (simp add: example_graph_env_def)
  have o: "open_write 30 2 ''alice'' example_run_env example_busy_session = (Inr (False, True), snd example_write_opened)"
    using example_write_sessions(1) by (metis example_write_opened_def prod.collapse)
  have c: "close_write 2 ''alice'' True example_run_env (snd example_write_opened) = (Inr (), snd example_write_closed)"
    using example_write_sessions(2) by (metis example_write_closed_def prod.collapse)
  let ?s0 = "\<lparr>gs_run = snd example_write_opened, gs_graph = example_graph, gs_txs = 0\<rparr> :: graph_state"
  obtain s1 where s1: "write_batches ?ge set_observer_scores ?cards example_run_env ?s0 = (Inr (), s1)" "gs_run s1 = snd example_write_opened"
    using write_batches_progress [OF nofault] by force
  obtain s2 where s2: "write_batches ?ge (clear_observer_scores ?ks) (gr_neo4j_clear example_result) example_run_env s1 = (Inr (), s2)"
      "gs_run s2 = snd example_write_opened"
    using write_batches_progress [OF nofault] s1(2) by force
  obtain s3 where s3: "clear_unreached ?ge ?ks ?scored example_run_env s2 = (Inr (), s3)" "gs_run s3 = snd example_write_opened"
    using clear_unreached_progress [OF nofault] s2(2) by force
  have days: "ge_cleanup_interval_days ?ge = 30" "ge_full_write ?ge" by (simp_all add: example_graph_env_def)
  show ?thesis
    unfolding example_writing_def process_neo4j_write_message_def example_observer
    by (simp add: on_runs_def op_bind_def Let_def days o s1 s2 s3 c)
qed


end
