(* ===== verification/Duty_Keys.thy ===== *)
theory Duty_Keys
  imports Errors Py_Datetime "HOL-Library.List_Lexorder" "HOL-Library.Char_ord"
begin

text \<open>
  The keys of a Treasure Map (\<^verbatim>\<open>app/services/self_map_build.py\<close>, first half): their one spelling,
  what a key stands for, the order of specificity, which key wins an insight, and the finite
  set of probes that stands for all insights.
\<close>

section \<open>Kinds\<close>

definition TA_METRIC_TAGS :: "string list" where
  "TA_METRIC_TAGS = [''rank'', ''followers'', ''reporters'', ''muters'', ''hops'']"

definition PUBLISHED_SCORE_METRICS :: "string list" where
  "PUBLISHED_SCORE_METRICS = TA_METRIC_TAGS"

definition SCORE_KIND :: int where "SCORE_KIND = 30382"
definition SCORE_KINDS :: "int list" where "SCORE_KINDS = [30380..30389]"
definition LIST_KINDS :: "int list" where "LIST_KINDS = [30390..30399]"
definition CONCEPT_KINDS :: "int list" where "CONCEPT_KINDS = [39998, 39999]"

definition SYSTEM_WORDS :: "string list" where
  "SYSTEM_WORDS = [''tag'', ''pin'', ''dlist'', ''contexts'']"

definition NAMELESS_KEYS :: "string list" where
  "NAMELESS_KEYS = [''39998:'', ''39999:'', ''39999:dlist-header'', ''39999:duty-menu'']"

definition is_score_kind :: "int \<Rightarrow> bool" where "is_score_kind kind \<longleftrightarrow> 30380 \<le> kind \<and> kind \<le> 30389"
definition is_list_kind :: "int \<Rightarrow> bool" where "is_list_kind kind \<longleftrightarrow> 30390 \<le> kind \<and> kind \<le> 30399"
definition is_concept_kind :: "int \<Rightarrow> bool" where "is_concept_kind kind \<longleftrightarrow> kind \<in> set CONCEPT_KINDS"

lemmas kind_defs = SCORE_KIND_def SCORE_KINDS_def LIST_KINDS_def CONCEPT_KINDS_def is_score_kind_def is_list_kind_def
  is_concept_kind_def

lemma set_kinds: "kind \<in> set SCORE_KINDS \<longleftrightarrow> is_score_kind kind" "kind \<in> set LIST_KINDS \<longleftrightarrow> is_list_kind kind"
  by (simp_all only: kind_defs set_upto atLeastAtMost_iff)

section \<open>Keys\<close>

datatype scope = All | Metric string | D string | Unchecked string | Other

record duty_key =
  k_norm :: string
  k_slot :: string
  k_kinds :: "int list"
  k_segs :: "string list"
  k_rank :: int
  k_scope :: scope

record probe =
  p_kind :: int
  p_scope :: scope

text \<open>The kind slots: \<^verbatim>\<open>[0-9]{5}|3038x|3039x|\*\<close>, matched whole.\<close>

definition kind_slot :: "string \<Rightarrow> bool" where
  "kind_slot s \<longleftrightarrow> (length s = 5 \<and> list_all is_digit s) \<or> s = ''3038x'' \<or> s = ''3039x'' \<or> s = ''*''"

definition slot_kind :: "string \<Rightarrow> int" where
  "slot_kind s = foldl (\<lambda>acc c. acc * 10 + int (digit_val c)) 0 s"

definition concept_slot :: "string \<Rightarrow> bool" where
  "concept_slot s \<longleftrightarrow> s = ''39998'' \<or> s = ''39999''"

definition drop_empty :: "string list \<Rightarrow> string list" where
  "drop_empty segs = rev (dropWhile (\<lambda>s. s = []) (rev segs))"

definition normalize_key :: "string \<Rightarrow> string" where
  "normalize_key k =
     (case partition_on CHR '':'' k of (slot, _, rest) \<Rightarrow>
        if concept_slot slot then (if slot = ''39998'' \<and> rest = ''dlist-header'' then ''39998'' else k)
        else join_with '':'' (slot # drop_empty (if rest \<noteq> [] then split_on CHR '':'' rest else [])))"

definition concept_reading :: "string \<Rightarrow> int list \<times> int" where
  "concept_reading slot = (if slot = ''39998'' then (CONCEPT_KINDS, 2) else ([39999], 3))"

definition slot_reading :: "string \<Rightarrow> string list \<Rightarrow> int list \<times> int" where
  "slot_reading slot segs =
     (if slot = ''*'' then (SCORE_KINDS @ LIST_KINDS @ (if segs \<noteq> [] then [] else CONCEPT_KINDS), 0)
      else if slot = ''3038x'' then (SCORE_KINDS, 1)
      else if slot = ''3039x'' then (LIST_KINDS, 1)
      else ([slot_kind slot], 3))"

definition scope_of :: "string \<Rightarrow> string \<Rightarrow> int list \<Rightarrow> string list \<Rightarrow> scope" where
  "scope_of norm slot kinds segs =
     (if segs = [] then All
      else if slot \<noteq> ''*'' \<and> list_all is_score_kind kinds \<and> length segs = 1 \<and> hd segs \<noteq> []
              \<and> hd segs \<notin> set SYSTEM_WORDS
      then Metric (hd segs)
      else Unchecked norm)"

definition parse_str :: "string \<Rightarrow> duty_key option" where
  "parse_str k =
     (let slot = fst (partition_on CHR '':'' k); norm = normalize_key k in
      if \<not> kind_slot slot then None
      else if norm \<in> set NAMELESS_KEYS then None
      else if concept_slot slot
      then (if norm = slot
            then Some \<lparr>k_norm = norm, k_slot = slot, k_kinds = fst (concept_reading slot), k_segs = [],
                       k_rank = snd (concept_reading slot), k_scope = All\<rparr>
            else let d = drop (length slot + 1) norm
                 in Some \<lparr>k_norm = norm, k_slot = slot, k_kinds = [slot_kind slot], k_segs = [d], k_rank = 3, k_scope = D d\<rparr>)
      else let segs = tl (split_on CHR '':'' norm); reading = slot_reading slot segs
           in Some \<lparr>k_norm = norm, k_slot = slot, k_kinds = fst reading, k_segs = segs, k_rank = snd reading,
                    k_scope = scope_of norm slot (fst reading) segs\<rparr>)"

definition parse_key :: "json \<Rightarrow> duty_key option" where
  "parse_key k = (case k of JStr s \<Rightarrow> parse_str s | _ \<Rightarrow> None)"

section \<open>Specificity\<close>

text \<open>Two segments that differ: a value beats an empty one, and values go by spelling.\<close>

definition before :: "'a::linorder \<Rightarrow> 'a \<Rightarrow> 'a \<Rightarrow> int" where
  "before none va vb =
     (if va \<noteq> none \<and> vb = none then -1 else if vb \<noteq> none \<and> va = none then 1 else if va < vb then -1 else 1)"

definition compare_seg :: "string \<Rightarrow> string \<Rightarrow> int" where
  "compare_seg = before []"

fun compare_segs :: "string list \<Rightarrow> string list \<Rightarrow> int" where
  "compare_segs [] [] = 0"
| "compare_segs (a # as) [] = (if a = [] then compare_segs as [] else -1)"
| "compare_segs [] (b # bs) = (if b = [] then compare_segs [] bs else 1)"
| "compare_segs (a # as) (b # bs) =
     (if a = b then compare_segs as bs else compare_seg a b)"

definition compare_keys :: "duty_key \<Rightarrow> duty_key \<Rightarrow> int" where
  "compare_keys a b =
     (if k_rank a \<noteq> k_rank b then k_rank b - k_rank a
      else if k_slot a \<noteq> k_slot b then (if k_slot a < k_slot b then -1 else 1)
      else compare_segs (k_segs a) (k_segs b))"

definition matches :: "duty_key \<Rightarrow> probe \<Rightarrow> bool" where
  "matches k p \<longleftrightarrow>
     p_kind p \<in> set (k_kinds k)
     \<and> (case k_scope k of
          All \<Rightarrow> True
        | Metric v \<Rightarrow> p_scope p = Metric v
        | D v \<Rightarrow> p_scope p = D v
        | _ \<Rightarrow> p_scope p = Unchecked (k_norm k))"

definition covers :: "duty_key \<Rightarrow> duty_key \<Rightarrow> bool" where
  "covers row k \<longleftrightarrow>
     set (k_kinds k) \<subseteq> set (k_kinds row)
     \<and> (case k_scope row of
          All \<Rightarrow> True
        | Unchecked _ \<Rightarrow> k_norm row = k_norm k
        | s \<Rightarrow> k_scope k = s)"

definition meet_of :: "duty_key \<Rightarrow> int \<Rightarrow> duty_key option" where
  "meet_of k kind = parse_str (join_with '':'' (show_int kind # k_segs k))"

definition profiles_spelling :: "duty_key \<Rightarrow> bool" where
  "profiles_spelling k \<longleftrightarrow>
     (k_slot k = ''30392'' \<or> k_slot k = ''30382'') \<and> length (k_segs k) \<ge> 3
     \<and> (hd (k_segs k) = ''tag'' \<or> hd (k_segs k) = ''pin'') \<and> k_segs k ! 1 = []"

text \<open>The loop of \<^verbatim>\<open>winner_of\<close> and of \<^verbatim>\<open>Offer.covering\<close>: the first of the candidates none beats.\<close>

fun best_of :: "('t \<Rightarrow> 't \<Rightarrow> int) \<Rightarrow> ('t \<Rightarrow> bool) \<Rightarrow> 't option \<Rightarrow> 't list \<Rightarrow> 't option" where
  "best_of cmp ok best [] = best"
| "best_of cmp ok best (c # cs) =
     best_of cmp ok
       (if \<not> ok c then best
        else case best of None \<Rightarrow> Some c | Some b \<Rightarrow> if cmp c b < 0 then Some c else best) cs"

definition winner_of :: "'t list \<Rightarrow> probe \<Rightarrow> ('t \<Rightarrow> duty_key) \<Rightarrow> 't option" where
  "winner_of candidates p key_of =
     best_of (\<lambda>a b. compare_keys (key_of a) (key_of b)) (\<lambda>c. matches (key_of c) p) None candidates"

section \<open>Probes\<close>

text \<open>The keys of a dictionary, in the order they were first set.\<close>

definition dict_keys :: "'a list \<Rightarrow> 'a list" where
  "dict_keys xs = rev (remdups (rev xs))"

definition metrics_of :: "duty_key list \<Rightarrow> int \<Rightarrow> string list" where
  "metrics_of parsed kind =
     dict_keys ((if kind = SCORE_KIND then PUBLISHED_SCORE_METRICS else [])
       @ concat (map (\<lambda>k. case k_scope k of Metric v \<Rightarrow> if kind \<in> set (k_kinds k) then [v] else [] | _ \<Rightarrow> []) parsed))"

definition probe_at :: "int \<Rightarrow> scope \<Rightarrow> probe" where
  "probe_at kind s = \<lparr>p_kind = kind, p_scope = s\<rparr>"

text \<open>The probes a key adds of its own: its unchecked region, and kinds no family holds.\<close>

definition key_probes :: "duty_key \<Rightarrow> probe list" where
  "key_probes k =
     (case k_scope k of Unchecked _ \<Rightarrow> map (\<lambda>kind. probe_at kind (Unchecked (k_norm k))) (k_kinds k) | _ \<Rightarrow> [])
     @ map (\<lambda>kind. probe_at kind Other)
         (filter (\<lambda>kind. \<not> (is_score_kind kind \<or> is_list_kind kind \<or> is_concept_kind kind)) (k_kinds k))"

definition build_probes :: "duty_key list \<Rightarrow> probe list" where
  "build_probes parsed =
     dict_keys (
       concat (map (\<lambda>kind. map (\<lambda>m. probe_at kind (Metric m)) (metrics_of parsed kind) @ [probe_at kind Other]) SCORE_KINDS)
       @ map (\<lambda>kind. probe_at kind Other) LIST_KINDS
       @ concat (map (\<lambda>kind.
           concat (map (\<lambda>k. case k_scope k of D v \<Rightarrow> if kind \<in> set (k_kinds k) then [probe_at kind (D v)] else [] | _ \<Rightarrow> []) parsed)
           @ [probe_at kind Other]) CONCEPT_KINDS)
       @ concat (map key_probes parsed))"

section \<open>The order of specificity\<close>

text \<open>What the engine relies on: a three-way comparison that is a total preorder.\<close>

locale specificity =
  fixes cmp :: "'a \<Rightarrow> 'a \<Rightarrow> int"
  assumes cmp_swap: "cmp b a = - cmp a b"
    and cmp_trans: "cmp a b \<le> 0 \<Longrightarrow> cmp b c \<le> 0 \<Longrightarrow> cmp a c \<le> 0"
begin

lemma cmp_refl: "cmp a a = 0"
  using cmp_swap [of a a] by simp

lemma cmp_total: "cmp a b \<le> 0 \<or> cmp b a \<le> 0"
  using cmp_swap [of a b] by linarith

lemma best_of_from:
  assumes "best_of (\<lambda>a b. cmp (f a) (f b)) ok best xs = Some b" "\<forall>a. best = Some a \<longrightarrow> ok a"
  shows "ok b \<and> (b \<in> set xs \<or> best = Some b) \<and> (\<forall>c\<in>set xs. ok c \<longrightarrow> cmp (f b) (f c) \<le> 0)
    \<and> (\<forall>a. best = Some a \<longrightarrow> cmp (f b) (f a) \<le> 0)"
  using assms
proof (induction xs arbitrary: best)
  case Nil
  then show ?case by (simp add: cmp_refl)
next
  case (Cons c xs)
  show ?case
  proof (cases "ok c")
    case False
    with Cons.prems Cons.IH [of best] show ?thesis by auto
  next
    case True
    show ?thesis
    proof (cases best)
      case None
      with True Cons.prems Cons.IH [of "Some c"] show ?thesis by auto
    next
      case (Some a)
      show ?thesis
      proof (cases "cmp (f c) (f a) < 0")
        case better: True
        with True Some Cons.prems Cons.IH [of "Some c"] have b: "ok b" "b \<in> set xs \<or> c = b"
          "\<forall>x\<in>set xs. ok x \<longrightarrow> cmp (f b) (f x) \<le> 0" "cmp (f b) (f c) \<le> 0" by auto
        moreover from b(4) have "cmp (f b) (f a) \<le> 0" using better cmp_trans [of "f b" "f c" "f a"] by simp
        ultimately show ?thesis using Some by auto
      next
        case False
        with True Some Cons.prems Cons.IH [of "Some a"] have b: "ok b" "b \<in> set xs \<or> a = b"
          "\<forall>x\<in>set xs. ok x \<longrightarrow> cmp (f b) (f x) \<le> 0" "cmp (f b) (f a) \<le> 0" by auto
        moreover have "cmp (f a) (f c) \<le> 0" using False cmp_swap [of "f a" "f c"] by simp
        with b(4) have "cmp (f b) (f c) \<le> 0" by (rule cmp_trans)
        ultimately show ?thesis using Some by auto
      qed
    qed
  qed
qed

lemma best_of_Some:
  assumes "best_of (\<lambda>a b. cmp (f a) (f b)) ok None xs = Some b"
  shows "b \<in> set xs" "ok b" "c \<in> set xs \<Longrightarrow> ok c \<Longrightarrow> cmp (f b) (f c) \<le> 0"
  using best_of_from [OF assms] by auto

lemma best_of_None: "best_of (\<lambda>a b. cmp (f a) (f b)) ok best xs = None \<longleftrightarrow> best = None \<and> (\<forall>x\<in>set xs. \<not> ok x)"
  by (induction xs arbitrary: best) (auto split: option.split)

text \<open>Where no two candidates are equally specific, the order they are met in does not count.\<close>

lemma best_of_iff:
  assumes "\<And>x y. x \<in> set xs \<Longrightarrow> y \<in> set xs \<Longrightarrow> ok x \<Longrightarrow> ok y \<Longrightarrow> cmp (f x) (f y) = 0 \<Longrightarrow> x = y"
  shows "best_of (\<lambda>a b. cmp (f a) (f b)) ok None xs = Some b
    \<longleftrightarrow> b \<in> set xs \<and> ok b \<and> (\<forall>c\<in>set xs. ok c \<longrightarrow> cmp (f b) (f c) \<le> 0)"
proof
  assume "best_of (\<lambda>a b. cmp (f a) (f b)) ok None xs = Some b"
  then show "b \<in> set xs \<and> ok b \<and> (\<forall>c\<in>set xs. ok c \<longrightarrow> cmp (f b) (f c) \<le> 0)" using best_of_Some by metis
next
  assume b: "b \<in> set xs \<and> ok b \<and> (\<forall>c\<in>set xs. ok c \<longrightarrow> cmp (f b) (f c) \<le> 0)"
  then obtain b' where b': "best_of (\<lambda>a b. cmp (f a) (f b)) ok None xs = Some b'"
    using best_of_None [of f ok None xs] by (metis option.exhaust)
  then have "cmp (f b') (f b) \<le> 0" "cmp (f b) (f b') \<le> 0" using b best_of_Some [OF b'] by auto
  then have "cmp (f b) (f b') = 0" using cmp_swap [of "f b" "f b'"] by linarith
  then show "best_of (\<lambda>a b. cmp (f a) (f b)) ok None xs = Some b" using assms b best_of_Some(1,2) [OF b'] b' by metis
qed

end

lemma before_swap: "a \<noteq> b \<Longrightarrow> before none b a = - before none a b"
  by (auto simp: before_def)

lemma before_trans: "before none a b \<le> 0 \<Longrightarrow> before none b c \<le> 0 \<Longrightarrow> a \<noteq> b \<Longrightarrow> b \<noteq> c \<Longrightarrow> a \<noteq> c \<and> before none a c \<le> 0"
  by (auto simp: before_def split: if_splits)

lemma before_none: "a \<noteq> none \<Longrightarrow> before none a none = -1 \<and> before none none a = 1"
  by (simp add: before_def)

lemmas compare_seg_swap = before_swap [where none = "[] :: string", folded compare_seg_def]
lemmas compare_seg_trans = before_trans [where none = "[] :: string", folded compare_seg_def]
lemmas compare_seg_none = before_none [where none = "[] :: string", folded compare_seg_def]

lemma compare_segs_swap: "compare_segs b a = - compare_segs a b"
proof (induction a b rule: compare_segs.induct)
  case (2 a as)
  then show ?case by (cases "a = []") simp_all
next
  case (3 b bs)
  then show ?case by (cases "b = []") simp_all
next
  case (4 a as b bs)
  show ?case
  proof (cases "a = b")
    case True
    then show ?thesis by (simp only: compare_segs.simps simp_thms if_True) (rule 4 [OF True])
  next
    case False
    then show ?thesis using compare_seg_swap [OF False] by (simp only: compare_segs.simps False False [symmetric] if_False)
  qed
qed simp

lemma compare_segs_trans: "compare_segs a b \<le> 0 \<Longrightarrow> compare_segs b c \<le> 0 \<Longrightarrow> compare_segs a c \<le> 0"
proof (induction a b arbitrary: c rule: compare_segs.induct)
  case 1
  then show ?case by simp
next
  case (2 a as)
  then show ?case by (cases c) (auto simp: compare_seg_none split: if_splits)
next
  case (3 b bs)
  then show ?case by (cases c) (auto simp: compare_seg_none split: if_splits)
next
  case (4 a as b bs)
  show ?case
  proof (cases c)
    case Nil
    then show ?thesis using 4 compare_seg_none [of a] compare_seg_none [of b] by (auto split: if_splits)
  next
    case (Cons x c')
    show ?thesis
    proof (cases "a = b \<or> b = x")
      case True
      then show ?thesis using 4 Cons by (auto split: if_splits)
    next
      case False
      then show ?thesis using 4(2,3) Cons compare_seg_trans [of a b x] by (simp split: if_splits)
    qed
  qed
qed

interpretation spelled: specificity compare_segs
  by unfold_locales (fact compare_segs_swap, fact compare_segs_trans)

interpretation keyed_by: specificity compare_keys
proof
  show "compare_keys b a = - compare_keys a b" for a b
    using compare_segs_swap [of "k_segs b" "k_segs a"] by (auto simp: compare_keys_def dest: order.asym)
  show "compare_keys a c \<le> 0" if "compare_keys a b \<le> 0" "compare_keys b c \<le> 0" for a b c
    using that compare_segs_trans [of "k_segs a" "k_segs b" "k_segs c"]
    by (auto simp: compare_keys_def split: if_splits)
qed

section \<open>One spelling\<close>

lemma split_on_parts: "\<forall>w\<in>set (split_on c s). c \<notin> set w"
proof (induction s)
  case (Cons x xs)
  then show ?case by (cases "split_on c xs") auto
qed simp

lemma drop_empty_idem [simp]: "drop_empty (drop_empty segs) = drop_empty segs"
proof -
  have "dropWhile (\<lambda>s. s = []) (dropWhile (\<lambda>s. s = []) xs) = dropWhile (\<lambda>s. s = []) xs" for xs :: "string list"
    by (induction xs) auto
  then show ?thesis by (simp add: drop_empty_def)
qed

lemma set_drop_empty: "set (drop_empty segs) \<subseteq> set segs"
  by (auto simp: drop_empty_def dest: set_dropWhileD)

text \<open>Slot and rest of a key put together from segments without colons.\<close>

lemma partition_on_join:
  assumes "CHR '':'' \<notin> set slot"
  shows "partition_on CHR '':'' (join_with '':'' (slot # segs)) = (slot, segs \<noteq> [], join_with '':'' segs)"
proof (cases segs)
  case Nil
  have whole: "takeWhile (\<lambda>x. x \<noteq> CHR '':'') slot = slot" "dropWhile (\<lambda>x. x \<noteq> CHR '':'') slot = []"
    using assms by (auto simp: takeWhile_eq_all_conv dropWhile_eq_Nil_conv)
  show ?thesis unfolding Nil partition_on_def join_with.simps whole using assms by simp
next
  case (Cons v segs')
  have "\<forall>x\<in>set slot. x \<noteq> CHR '':''" using assms by blast
  then show ?thesis using partition_on_eq [of slot "CHR '':''" "join_with '':'' segs"] Cons by simp
qed

lemma partition_on_whole:
  "k = (case partition_on c k of (s, b, r) \<Rightarrow> if b then s @ c # r else s) \<and> (c \<notin> set k \<longrightarrow> snd (snd (partition_on c k)) = [])"
  by (induction k) (auto simp: partition_on_def)

lemma partition_on_fst: "CHR '':'' \<notin> set (fst (partition_on CHR '':'' k))"
  by (auto simp: partition_on_def dest: set_takeWhileD)

lemma normal_segments:
  assumes "normal = drop_empty (if rest \<noteq> [] then split_on CHR '':'' rest else [])"
  shows "drop_empty (if join_with '':'' normal \<noteq> [] then split_on CHR '':'' (join_with '':'' normal) else []) = normal"
    "normal = [] \<longleftrightarrow> join_with '':'' normal = []" "\<forall>w\<in>set normal. CHR '':'' \<notin> set w"
proof -
  show parts: "\<forall>w\<in>set normal. CHR '':'' \<notin> set w"
  proof (cases "rest = []")
    case False
    then show ?thesis using assms set_drop_empty [of "split_on CHR '':'' rest"] split_on_parts [of "CHR '':''" rest] by auto
  qed (simp add: assms drop_empty_def)
  have last: "normal = [] \<or> last normal \<noteq> []"
    using hd_dropWhile [of "\<lambda>s. s = []" "rev (if rest \<noteq> [] then split_on CHR '':'' rest else [])"]
    unfolding assms drop_empty_def by (metis last_rev rev_is_Nil_conv)
  have "join_with '':'' ws \<noteq> []" if "ws \<noteq> []" "last ws \<noteq> []" for ws
    using that by (induction ws rule: induct_list012) auto
  then show empty: "normal = [] \<longleftrightarrow> join_with '':'' normal = []" using last by auto
  show "drop_empty (if join_with '':'' normal \<noteq> [] then split_on CHR '':'' (join_with '':'' normal) else []) = normal"
  proof (cases "normal = []")
    case False
    then have "split_on CHR '':'' (join_with '':'' normal) = normal" using split_on_join parts by metis
    then show ?thesis using False empty assms drop_empty_idem by metis
  qed (simp add: drop_empty_def)
qed

lemma normalize_slot: "fst (partition_on CHR '':'' (normalize_key k)) = fst (partition_on CHR '':'' k)"
proof -
  obtain slot b rest where k: "partition_on CHR '':'' k = (slot, b, rest)" by (metis prod.exhaust)
  have slot: "CHR '':'' \<notin> set slot" using partition_on_fst [of k] k by simp
  have "fst (partition_on CHR '':'' ''39998'') = ''39998''" by (simp add: partition_on_def)
  then show ?thesis using k partition_on_join [OF slot] by (auto simp: normalize_key_def concept_slot_def)
qed

lemma normalize_idem: "normalize_key (normalize_key k) = normalize_key k"
proof -
  obtain slot b rest where k: "partition_on CHR '':'' k = (slot, b, rest)" by (metis prod.exhaust)
  have slot: "CHR '':'' \<notin> set slot" using partition_on_fst [of k] k by simp
  have bare: "normalize_key ''39998'' = ''39998''" by (simp add: normalize_key_def partition_on_def concept_slot_def)
  show ?thesis
  proof (cases "concept_slot slot")
    case True
    then show ?thesis using k bare by (auto simp: normalize_key_def [of k])
  next
    case False
    let ?segs = "drop_empty (if rest \<noteq> [] then split_on CHR '':'' rest else [])"
    have nk: "normalize_key k = join_with '':'' (slot # ?segs)" using k False by (simp add: normalize_key_def)
    have "normalize_key (join_with '':'' (slot # ?segs)) = join_with '':'' (slot # ?segs)"
      using normal_segments(1) [OF refl, of rest] False partition_on_join [OF slot, of ?segs]
      by (simp add: normalize_key_def [of "join_with '':'' (slot # ?segs)"])
    then show ?thesis using nk by simp
  qed
qed

text \<open>A parsed key is read again from its spelling.\<close>

lemma parse_normalize: "parse_str (normalize_key k) = parse_str k"
  by (simp add: parse_str_def normalize_slot normalize_idem)

lemma k_norm_parse: "parse_str k = Some p \<Longrightarrow> k_norm p = normalize_key k"
  by (auto simp: parse_str_def Let_def split: if_splits)

lemma parse_norm: "parse_str k = Some p \<Longrightarrow> parse_str (k_norm p) = Some p"
  by (simp add: k_norm_parse parse_normalize)

definition is_key :: "duty_key \<Rightarrow> bool" where
  "is_key p \<longleftrightarrow> parse_str (k_norm p) = Some p"

lemma is_key_parse: "parse_str k = Some p \<Longrightarrow> is_key p"
  by (simp add: is_key_def parse_norm)

lemma parsed_parts:
  assumes "parse_str k = Some p"
  shows "k_norm p = join_with '':'' (k_slot p # k_segs p) \<and> drop_empty (k_segs p) = k_segs p"
proof -
  obtain slot b rest where k: "partition_on CHR '':'' k = (slot, b, rest)" by (metis prod.exhaust)
  have slot: "CHR '':'' \<notin> set slot" using partition_on_fst [of k] k by simp
  show ?thesis
  proof (cases "concept_slot slot")
    case False
    let ?segs = "drop_empty (if rest \<noteq> [] then split_on CHR '':'' rest else [])"
    have "normalize_key k = join_with '':'' (slot # ?segs)" using k False by (simp add: normalize_key_def)
    moreover have "split_on CHR '':'' (join_with '':'' (slot # ?segs)) = slot # ?segs"
      using normal_segments(3) [OF refl, of rest] slot by (intro split_on_join) auto
    ultimately show ?thesis using assms k False by (auto simp: parse_str_def Let_def split: if_splits)
  next
    case True
    have whole: "k = (if b then slot @ CHR '':'' # rest else slot)"
      using partition_on_whole [of k "CHR '':''"] k by simp
    show ?thesis
    proof (cases "normalize_key k = slot")
      case False
      then have norm: "normalize_key k = slot @ CHR '':'' # rest" "b"
        using True k whole by (auto simp: normalize_key_def concept_slot_def split: if_splits)
      have "slot @ CHR '':'' # rest \<notin> set NAMELESS_KEYS"
        using assms norm(1) by (auto simp: parse_str_def Let_def split: if_splits)
      then have "rest \<noteq> []" using True by (auto simp: NAMELESS_KEYS_def concept_slot_def)
      then show ?thesis using assms k True False norm by (auto simp: parse_str_def Let_def drop_empty_def split: if_splits)
    qed (use assms k True in \<open>auto simp: parse_str_def Let_def drop_empty_def split: if_splits\<close>)
  qed
qed

section \<open>Equally specific keys are one key\<close>

lemma drop_empty_Cons: "drop_empty (x # xs) = (if x = [] \<and> drop_empty xs = [] then [] else x # drop_empty xs)"
  by (auto simp: drop_empty_def dropWhile_append)

lemma drop_empty_Nil [simp]: "drop_empty [] = []"
  by (simp add: drop_empty_def)

lemma compare_seg_nonzero: "compare_seg a b \<noteq> 0"
  by (simp add: compare_seg_def before_def)

lemma compare_segs_zero: "compare_segs a b = 0 \<Longrightarrow> drop_empty a = drop_empty b"
  by (induction a b rule: compare_segs.induct) (auto simp: drop_empty_Cons compare_seg_nonzero split: if_splits)

lemma compare_keys_zero:
  assumes "is_key p" "is_key q" "compare_keys p q = 0"
  shows "p = q"
proof -
  have slot: "k_slot p = k_slot q" and zero: "compare_segs (k_segs p) (k_segs q) = 0"
    using assms(3) by (simp_all add: compare_keys_def split: if_splits)
  have parts: "k_norm r = join_with '':'' (k_slot r # k_segs r)" "drop_empty (k_segs r) = k_segs r" if "is_key r" for r
    using parsed_parts that unfolding is_key_def by blast+
  have "k_segs p = k_segs q"
    using parts(2) [OF assms(1)] parts(2) [OF assms(2)] compare_segs_zero [OF zero] by (rule box_equals [rotated])
  then have "k_norm p = k_norm q" using parts(1) [OF assms(1)] parts(1) [OF assms(2)] slot by (simp only:)
  then have "Some p = Some q" using assms(1,2) unfolding is_key_def by (simp only:)
  then show ?thesis by (simp only: option.inject)
qed

lemma best_of_cong:
  "(\<And>x. x \<in> set xs \<Longrightarrow> ok x = ok' x) \<Longrightarrow> best_of cmp ok best xs = best_of cmp ok' best xs"
  by (induction xs arbitrary: best) auto

lemma winner_of_cong:
  "(\<And>c. c \<in> set cs \<Longrightarrow> matches (key_of c) p = matches (key_of c) q) \<Longrightarrow> winner_of cs p key_of = winner_of cs q key_of"
  unfolding winner_of_def by (rule best_of_cong)

lemma winner_of_None: "winner_of cs p key_of = None \<longleftrightarrow> (\<forall>c\<in>set cs. \<not> matches (key_of c) p)"
  by (simp add: winner_of_def keyed_by.best_of_None)

lemma winner_of_Some:
  assumes "winner_of cs p key_of = Some b"
  shows "b \<in> set cs" "matches (key_of b) p" "c \<in> set cs \<Longrightarrow> matches (key_of c) p \<Longrightarrow> compare_keys (key_of b) (key_of c) \<le> 0"
  using keyed_by.best_of_Some [OF assms [unfolded winner_of_def]] by auto

lemma winner_of_iff:
  assumes "\<forall>c\<in>set cs. is_key (key_of c)" "inj_on (\<lambda>c. k_norm (key_of c)) (set cs)"
  shows "winner_of cs p key_of = Some b \<longleftrightarrow> b \<in> set cs \<and> matches (key_of b) p
    \<and> (\<forall>c\<in>set cs. matches (key_of c) p \<longrightarrow> compare_keys (key_of b) (key_of c) \<le> 0)"
  unfolding winner_of_def
proof (rule keyed_by.best_of_iff)
  fix x y assume xy: "x \<in> set cs" "y \<in> set cs" "compare_keys (key_of x) (key_of y) = 0"
  then have "key_of x = key_of y" using assms(1) compare_keys_zero by blast
  then show "x = y" using assms(2) xy by (simp add: inj_on_def)
qed

section \<open>What the engine's shapes stand for\<close>

lemma kinds_nonempty: "SCORE_KINDS \<noteq> []" "LIST_KINDS \<noteq> []" "CONCEPT_KINDS \<noteq> []"
  by (auto simp: kind_defs)

lemma parsed_scope:
  assumes "parse_str k = Some p"
  shows "k_kinds p \<noteq> [] \<and> (case k_scope p of
      Metric v \<Rightarrow> list_all is_score_kind (k_kinds p)
    | D v \<Rightarrow> list_all is_concept_kind (k_kinds p)
    | Unchecked v \<Rightarrow> v = k_norm p
    | Other \<Rightarrow> False
    | All \<Rightarrow> True)"
proof -
  let ?slot = "fst (partition_on CHR '':'' k)"
  have "slot_kind ?slot \<in> set CONCEPT_KINDS" if "concept_slot ?slot"
    using that by (auto simp: concept_slot_def slot_kind_def digit_val_def CONCEPT_KINDS_def)
  then show ?thesis using assms kinds_nonempty
    by (auto simp: parse_str_def Let_def concept_reading_def slot_reading_def scope_of_def is_concept_kind_def
        split: if_splits)
qed

lemma is_key_scope:
  assumes "is_key p"
  shows "k_kinds p \<noteq> []" "k_scope p \<noteq> Other" "k_scope p = Unchecked v \<Longrightarrow> v = k_norm p"
    "k_scope p = Metric v \<Longrightarrow> kind \<in> set (k_kinds p) \<Longrightarrow> is_score_kind kind"
    "k_scope p = D v \<Longrightarrow> kind \<in> set (k_kinds p) \<Longrightarrow> is_concept_kind kind"
  using parsed_scope [OF assms [unfolded is_key_def]] by (auto simp: list_all_iff split: scope.splits)

text \<open>A row covers a key exactly where it matches every insight the key matches.\<close>

lemma covers_iff:
  assumes "is_key row" "is_key k"
  shows "covers row k \<longleftrightarrow> (\<forall>p. matches k p \<longrightarrow> matches row p)"
proof
  assume "covers row k"
  then show "\<forall>p. matches k p \<longrightarrow> matches row p"
  proof (cases "k_norm row = k_norm k")
    case True
    then have "row = k" using assms by (simp add: is_key_def)
    then show ?thesis by simp
  next
    case False
    then show ?thesis using \<open>covers row k\<close> is_key_scope(2) [OF assms(1)]
      by (auto simp: covers_def matches_def split: scope.splits)
  qed
next
  assume all: "\<forall>p. matches k p \<longrightarrow> matches row p"
  define own where "own kind = probe_at kind (case k_scope k of All \<Rightarrow> Other | s \<Rightarrow> s)" for kind
  have own: "matches k (own kind)" if "kind \<in> set (k_kinds k)" for kind
    using that is_key_scope(2,3) [OF assms(2)] by (auto simp: own_def matches_def probe_at_def split: scope.splits)
  then have row: "matches row (own kind)" if "kind \<in> set (k_kinds k)" for kind using all that by blast
  have "p_kind (own kind) = kind" for kind by (simp add: own_def probe_at_def)
  then have "set (k_kinds k) \<subseteq> set (k_kinds row)" using row unfolding matches_def by (metis subsetI)
  moreover have "matches row (own (hd (k_kinds k)))" using row is_key_scope(1) [OF assms(2)] by simp
  ultimately show "covers row k"
    using is_key_scope(2,3) [OF assms(1)] is_key_scope(2,3) [OF assms(2)]
    by (auto simp: covers_def matches_def own_def probe_at_def split: scope.splits)
qed

section \<open>The probes stand for all insights\<close>

lemma dict_keys_facts [simp]: "set (dict_keys xs) = set xs" "distinct (dict_keys xs)"
  by (simp_all add: dict_keys_def)

lemma build_probes_other:
  assumes "is_score_kind kind \<or> is_list_kind kind \<or> is_concept_kind kind \<or> (\<exists>k\<in>set ks. kind \<in> set (k_kinds k))"
  shows "probe_at kind Other \<in> set (build_probes ks)"
proof (cases "is_score_kind kind \<or> is_list_kind kind \<or> is_concept_kind kind")
  case True
  then show ?thesis by (auto simp: build_probes_def is_concept_kind_def simp flip: set_kinds)
next
  case False
  then obtain k where k: "k \<in> set ks" "kind \<in> set (k_kinds k)" using assms by blast
  then have "probe_at kind Other \<in> set (key_probes k)" using False by (auto simp: key_probes_def)
  then show ?thesis using k(1) by (auto simp: build_probes_def)
qed

lemma build_probes_named:
  assumes "k \<in> set ks" "is_key k" "kind \<in> set (k_kinds k)" "k_scope k \<noteq> All"
  shows "probe_at kind (k_scope k) \<in> set (build_probes ks)"
proof (cases "k_scope k")
  case (Metric m)
  then have "kind \<in> set SCORE_KINDS" using is_key_scope(4) assms by (simp add: set_kinds)
  moreover have "m \<in> set (metrics_of ks kind)" using Metric assms(1,3) by (force simp: metrics_of_def)
  ultimately show ?thesis using Metric by (auto simp: build_probes_def)
next
  case (D d)
  then have "kind \<in> set CONCEPT_KINDS" using is_key_scope(5) assms by (simp add: is_concept_kind_def)
  moreover have "probe_at kind (D d) \<in> set (concat (map (\<lambda>k. case k_scope k of D v \<Rightarrow> if kind \<in> set (k_kinds k) then [probe_at kind (D v)] else [] | _ \<Rightarrow> []) ks))"
    using D assms(1,3) by force
  ultimately show ?thesis using D by (auto simp: build_probes_def)
next
  case (Unchecked v)
  then have "v = k_norm k" using is_key_scope(3) assms(2) by blast
  then have "probe_at kind (k_scope k) \<in> set (key_probes k)" using Unchecked assms(3) by (auto simp: key_probes_def)
  then show ?thesis using assms(1) by (auto simp: build_probes_def)
qed (use assms is_key_scope(2) in auto)

lemma probe_for:
  assumes "\<forall>k\<in>set ks. is_key k" "k \<in> set ks" "matches k q"
  shows "\<exists>p\<in>set (build_probes ks). p_kind p = p_kind q \<and> (\<forall>k\<in>set ks. matches k p \<longleftrightarrow> matches k q)"
proof (cases "\<exists>k'\<in>set ks. p_kind q \<in> set (k_kinds k') \<and> k_scope k' \<noteq> All \<and> p_scope q = k_scope k'")
  case True
  then obtain k' where k': "k' \<in> set ks" "p_kind q \<in> set (k_kinds k')" "k_scope k' \<noteq> All" "p_scope q = k_scope k'" by blast
  then have "probe_at (p_kind q) (p_scope q) \<in> set (build_probes ks)" using build_probes_named assms(1) by simp
  moreover have "probe_at (p_kind q) (p_scope q) = q" by (simp add: probe_at_def)
  ultimately show ?thesis by auto
next
  case False
  let ?p = "probe_at (p_kind q) Other"
  have "p_kind q \<in> set (k_kinds k)" using assms(3) by (simp add: matches_def)
  then have "?p \<in> set (build_probes ks)" using build_probes_other assms(2) by blast
  moreover have "matches k' ?p \<longleftrightarrow> matches k' q" if "k' \<in> set ks" for k'
    using False that assms(1) is_key_scope(2,3) [of k'] by (auto simp: matches_def probe_at_def split: scope.splits)
  moreover have "p_kind ?p = p_kind q" by (simp add: probe_at_def)
  ultimately show ?thesis by blast
qed

text \<open>
  C25. The finite set of probes decides every insight. For any insight some key of the Map
  matches there is a probe of the same kind which the keys match exactly as they match
  the insight, so that the winner among the Map's entries is the same; the winner, where
  there is one, is strictly more specific than every other entry that matches, whatever
  the order the entries stand in.
\<close>
theorem probes_decide_every_insight:
  assumes "\<forall>c\<in>set cs. is_key (key_of c)" "inj_on (\<lambda>c. k_norm (key_of c)) (set cs)" "c \<in> set cs" "matches (key_of c) q"
  shows "\<exists>p\<in>set (build_probes (map key_of cs)). p_kind p = p_kind q
    \<and> (\<forall>c\<in>set cs. matches (key_of c) p \<longleftrightarrow> matches (key_of c) q)
    \<and> (\<exists>b\<in>set cs. \<forall>cs'. set cs' = set cs \<longrightarrow> winner_of cs' p key_of = Some b \<and> winner_of cs' q key_of = Some b
         \<and> (\<forall>c\<in>set cs. matches (key_of c) q \<and> c \<noteq> b \<longrightarrow> compare_keys (key_of b) (key_of c) < 0))"
proof -
  obtain p where p: "p \<in> set (build_probes (map key_of cs))" "p_kind p = p_kind q"
    "\<forall>c\<in>set cs. matches (key_of c) p \<longleftrightarrow> matches (key_of c) q"
    using probe_for [of "map key_of cs" "key_of c" q] assms(1,3,4) by auto
  obtain b where b: "winner_of cs q key_of = Some b" using winner_of_None [of cs q key_of] assms(3,4) by (meson not_None_eq)
  note iff = winner_of_iff [where cs = cs and key_of = key_of, OF assms(1,2)]
  have "winner_of cs' q key_of = Some b \<and> winner_of cs' p key_of = Some b" if "set cs' = set cs" for cs'
  proof -
    have "winner_of cs' q key_of = Some b"
      using winner_of_iff [where cs = cs' and key_of = key_of, unfolded that, OF assms(1,2)] iff b by simp
    moreover have "winner_of cs' p key_of = winner_of cs' q key_of" by (rule winner_of_cong) (use p(3) that in simp)
    ultimately show ?thesis by simp
  qed
  moreover have "compare_keys (key_of b) (key_of c) < 0" if c: "c \<in> set cs" "matches (key_of c) q" "c \<noteq> b" for c
  proof -
    have "compare_keys (key_of b) (key_of c) \<le> 0" using winner_of_Some(3) [OF b] c by blast
    moreover have "compare_keys (key_of b) (key_of c) \<noteq> 0"
      using compare_keys_zero assms(1,2) c winner_of_Some(1) [OF b] by (metis inj_onD)
    ultimately show ?thesis by simp
  qed
  ultimately show ?thesis using p winner_of_Some(1) [OF b] by blast
qed

definition example_keys :: "duty_key list" where
  "example_keys = List.map_filter parse_str [''30382'', ''*'', ''30382:rank'', ''39999:dlist-header'']"

theorem probes_decide_every_insight_witness:
  "\<exists>p\<in>set (build_probes example_keys). p_kind p = 30382
     \<and> (\<forall>c\<in>set example_keys. matches c p \<longleftrightarrow> matches c (probe_at 30382 (Metric ''depth'')))"
proof -
  have "length example_keys = 3" "list_all is_key example_keys" "distinct (map k_norm example_keys)"
    "list_ex (\<lambda>c. matches c (probe_at 30382 (Metric ''depth''))) example_keys"
    by code_simp+
  then have keys: "\<forall>c\<in>set example_keys. is_key (id c)" "inj_on (\<lambda>c. k_norm (id c)) (set example_keys)"
    "\<exists>c\<in>set example_keys. matches (id c) (probe_at 30382 (Metric ''depth''))"
    by (auto simp: list_all_iff list_ex_iff distinct_map)
  from keys(3) obtain c where c: "c \<in> set example_keys" "matches (id c) (probe_at 30382 (Metric ''depth''))" by blast
  from probes_decide_every_insight [OF keys(1,2) c] show ?thesis by (auto simp: probe_at_def)
qed

end
