(* ===== verification/Self_Map.thy ===== *)
theory Self_Map
  imports Duty_Keys
begin

text \<open>
  What an Assistant's own Treasure Map should list (\<^verbatim>\<open>app/services/self_map_build.py\<close>, second half,
  and the rows of \<^verbatim>\<open>duty_menu_build.py\<close>): the reader's Map as groups, the Assistant's duties in it,
  the offer, what is live, the self-entries chosen, the lines that explain them, and reading
  and writing a version. A Python set of providers is a list without order meant; the identity
  of a group is its spelling, which no two groups of a Map share.
\<close>

section \<open>The reader's Map\<close>

text \<open>\<^verbatim>\<open>str.lower\<close> on the code points below 256.\<close>

definition lower_latin :: "char \<Rightarrow> char" where
  "lower_latin c = (let n = (of_char c :: nat) in
     if (65 \<le> n \<and> n \<le> 90) \<or> (192 \<le> n \<and> n \<le> 222 \<and> n \<noteq> 215) then char_of (n + 32) else c)"

definition py_lower :: "string \<Rightarrow> string" where
  "py_lower s = map lower_latin s"

definition hex64 :: "string \<Rightarrow> bool" where
  "hex64 s \<longleftrightarrow> length s = 64
     \<and> list_all (\<lambda>c. is_digit c \<or> (let n = (of_char c :: nat) in (97 \<le> n \<and> n \<le> 102) \<or> (65 \<le> n \<and> n \<le> 70))) s"

definition tags_of :: "json \<Rightarrow> json list" where
  "tags_of event = (case get_in event ''tags'' of JList tags \<Rightarrow> tags | _ \<Rightarrow> [])"

record group =
  g_key :: duty_key
  g_providers :: "string list"

fun map_tag :: "json \<Rightarrow> (duty_key \<times> string) option" where
  "map_tag (JList (k # JStr who # _)) =
     (case parse_key k of None \<Rightarrow> None | Some p \<Rightarrow> if hex64 who then Some (p, py_lower who) else None)"
| "map_tag _ = None"

fun add_provider :: "duty_key \<times> string \<Rightarrow> group list \<Rightarrow> group list" where
  "add_provider (p, who) [] = [\<lparr>g_key = p, g_providers = [who]\<rparr>]"
| "add_provider (p, who) (g # gs) =
     (if k_norm (g_key g) = k_norm p then g\<lparr>g_providers := List.insert who (g_providers g)\<rparr> # gs
      else g # add_provider (p, who) gs)"

definition map_groups :: "json \<Rightarrow> group list" where
  "map_groups event = fold add_provider (List.map_filter map_tag (tags_of event)) []"

definition MAX_MAP_KEYS :: nat where "MAX_MAP_KEYS = 64"

definition too_big_to_check :: "group list \<Rightarrow> bool" where
  "too_big_to_check groups \<longleftrightarrow> length groups > MAX_MAP_KEYS"

fun is_unchecked :: "scope \<Rightarrow> bool" where
  "is_unchecked (Unchecked _) = True"
| "is_unchecked _ = False"

fun published_metric :: "scope \<Rightarrow> bool" where
  "published_metric (Metric m) = (m \<in> set PUBLISHED_SCORE_METRICS)"
| "published_metric _ = False"

definition in_supported_sets :: "probe \<Rightarrow> bool" where
  "in_supported_sets p \<longleftrightarrow>
     (if is_unchecked (p_scope p) then True
      else if p_kind p = SCORE_KIND then published_metric (p_scope p)
      else \<not> is_concept_kind (p_kind p))"

record duty =
  d_probe :: probe
  d_winner :: "group option"
  d_duty :: bool

definition duty_at :: "group list \<Rightarrow> string \<Rightarrow> probe \<Rightarrow> duty" where
  "duty_at groups assistant p =
     (let winner = winner_of groups p g_key in
      \<lparr>d_probe = p, d_winner = winner,
       d_duty = (case winner of
          None \<Rightarrow> False
        | Some g \<Rightarrow> py_lower assistant \<in> set (g_providers g) \<and> (k_scope (g_key g) \<noteq> All \<or> in_supported_sets p))\<rparr>)"

definition duties_of :: "group list \<Rightarrow> string \<Rightarrow> probe list \<Rightarrow> duty list" where
  "duties_of groups assistant probes = map (duty_at groups assistant) probes"

section \<open>The offer and what is live\<close>

definition TRUSTED_LIST_KIND_ROW :: string where "TRUSTED_LIST_KIND_ROW = ''30392''"
definition DICTIONARY_KIND_ROWS :: "string list" where "DICTIONARY_KIND_ROWS = [''39998'', ''39999'']"

text \<open>The three relay settings; an unset one is empty.\<close>

record relay_settings =
  ta_relay_public_url :: string
  trusted_list_relay :: string
  dictionary_relay :: string

definition designation_rows :: "relay_settings \<Rightarrow> string \<Rightarrow> (string \<times> string \<times> string) list" where
  "designation_rows cfg assistant_pubkey =
     (let relay = ta_relay_public_url cfg;
          list_relay = (if trusted_list_relay cfg \<noteq> [] then trusted_list_relay cfg else relay)
      in map (\<lambda>tag. (''30382:'' @ tag, assistant_pubkey, relay)) TA_METRIC_TAGS
         @ [(TRUSTED_LIST_KIND_ROW, assistant_pubkey, list_relay)]
         @ (if dictionary_relay cfg \<noteq> []
            then map (\<lambda>kind. (kind, assistant_pubkey, dictionary_relay cfg)) DICTIONARY_KIND_ROWS else []))"

definition offer_rows :: "relay_settings \<Rightarrow> string \<Rightarrow> (string \<times> string) list" where
  "offer_rows cfg assistant_pubkey =
     map (\<lambda>(k, _, relay). (k, relay)) (filter (\<lambda>(_, _, relay). relay \<noteq> []) (designation_rows cfg assistant_pubkey))"

record offer_row =
  or_key :: duty_key
  or_relay :: string

fun new_offer :: "(string \<times> string) list \<Rightarrow> (exn, offer_row list) result" where
  "new_offer [] = Inr []"
| "new_offer ((k, relay) # rows) =
     (case parse_str k of
        None \<Rightarrow> Inl (ValueError (''an offer row's key doesn't parse: '' @ repr_str k))
      | Some p \<Rightarrow> result_bind (new_offer rows) (\<lambda>rest. Inr (\<lparr>or_key = p, or_relay = relay\<rparr> # rest)))"

definition offer_kinds :: "offer_row list \<Rightarrow> int list" where
  "offer_kinds rows = concat (map (\<lambda>r. k_kinds (or_key r)) rows)"

definition answer :: "offer_row list \<Rightarrow> probe \<Rightarrow> offer_row option" where
  "answer rows p = winner_of rows p or_key"

definition covering :: "offer_row list \<Rightarrow> duty_key \<Rightarrow> offer_row option" where
  "covering rows k = best_of (\<lambda>a b. compare_keys (or_key a) (or_key b)) (\<lambda>r. covers (or_key r) k) None rows"

definition order_of :: "offer_row list \<Rightarrow> duty_key \<Rightarrow> nat" where
  "order_of rows k =
     (case covering rows k of None \<Rightarrow> length rows | Some row \<Rightarrow> length (takeWhile (\<lambda>r. r \<noteq> row) rows))"

record upkeep =
  su_status :: string
  su_last_landed_at :: "int option"

text \<open>\<^verbatim>\<open>int(t.replace(tzinfo=utc).timestamp())\<close>: seconds since 1970, rounded towards zero.\<close>

definition EPOCH :: datetime where "EPOCH = timedelta_hours (24 * (ymd2ord 1970 1 1 - 1))"

definition unix_seconds :: "datetime \<Rightarrow> int" where
  "unix_seconds t = (let us = t - EPOCH in if us \<ge> 0 then us div 1000000 else - ((- us) div 1000000))"

definition scores_upkeep :: "datetime option \<Rightarrow> int option \<Rightarrow> datetime \<Rightarrow> upkeep" where
  "scores_upkeep last_published interval_seconds now =
     (case interval_seconds of
        None \<Rightarrow> \<lparr>su_status = ''not-scheduled'', su_last_landed_at = None\<rparr>
      | Some n \<Rightarrow>
          if n \<le> 0 then \<lparr>su_status = ''not-scheduled'', su_last_landed_at = None\<rparr>
          else case last_published of
                 None \<Rightarrow> \<lparr>su_status = ''not-landed'', su_last_landed_at = None\<rparr>
               | Some t \<Rightarrow>
                   if now - t > timedelta_seconds (2 * n)
                   then \<lparr>su_status = ''upkeep-stopped'', su_last_landed_at = Some (unix_seconds t)\<rparr>
                   else \<lparr>su_status = ''live'', su_last_landed_at = None\<rparr>)"

definition asks_for_scores :: "group list \<Rightarrow> string \<Rightarrow> bool" where
  "asks_for_scores groups assistant \<longleftrightarrow>
     list_ex (\<lambda>g. py_lower assistant \<in> set (g_providers g) \<and> SCORE_KIND \<in> set (k_kinds (g_key g))) groups"

record liveness =
  l_live :: bool
  l_relay :: "string option"
  l_reason :: "string option"
  l_last_landed_at :: "int option"

definition not_live :: "string \<Rightarrow> string \<Rightarrow> int option \<Rightarrow> liveness" where
  "not_live relay reason landed = \<lparr>l_live = False, l_relay = Some relay, l_reason = Some reason, l_last_landed_at = landed\<rparr>"

definition evaluate_live :: "probe \<Rightarrow> offer_row list \<Rightarrow> upkeep \<Rightarrow> liveness" where
  "evaluate_live p rows scores =
     (case answer rows p of
        None \<Rightarrow> \<lparr>l_live = False, l_relay = None, l_reason = None, l_last_landed_at = None\<rparr>
      | Some row \<Rightarrow>
          if is_unchecked (p_scope p) then not_live (or_relay row) ''unchecked'' None
          else if is_score_kind (p_kind p)
          then (if p_kind p \<noteq> SCORE_KIND \<or> \<not> published_metric (p_scope p)
                then not_live (or_relay row) ''not-published-here'' None
                else if su_status scores = ''live''
                then \<lparr>l_live = True, l_relay = Some (or_relay row), l_reason = None, l_last_landed_at = None\<rparr>
                else not_live (or_relay row) (su_status scores) (su_last_landed_at scores))
          else if is_list_kind (p_kind p) then not_live (or_relay row) ''not-scheduled'' None
          else not_live (or_relay row) ''not-published-here'' None)"

section \<open>What the Assistant's Treasure Map should list\<close>

type_synonym entry = "duty_key \<times> string"

text \<open>\<^verbatim>\<open>sorted(..., key=most_specific_first)\<close>: stable.\<close>

fun insert_key :: "duty_key \<Rightarrow> duty_key list \<Rightarrow> duty_key list" where
  "insert_key k [] = [k]"
| "insert_key k (x # xs) = (if compare_keys k x \<le> 0 then k # x # xs else x # insert_key k xs)"

definition most_specific_first :: "duty_key list \<Rightarrow> duty_key list" where
  "most_specific_first ks = foldr insert_key ks []"

definition has :: "entry list \<Rightarrow> string \<Rightarrow> bool" where
  "has chosen norm \<longleftrightarrow> list_ex (\<lambda>(k, _). k_norm k = norm) chosen"

text \<open>The duties a candidate would win among the entries chosen so far.\<close>

definition would_win :: "duty list \<Rightarrow> entry list \<Rightarrow> duty_key \<Rightarrow> duty list" where
  "would_win every chosen candidate =
     filter (\<lambda>d. d_duty d \<and> matches candidate (d_probe d)
       \<and> winner_of (map fst chosen @ [candidate]) (d_probe d) (\<lambda>k. k) = Some candidate) every"

definition live_at :: "(probe \<Rightarrow> liveness option) \<Rightarrow> string \<Rightarrow> probe \<Rightarrow> bool" where
  "live_at live relay p =
     (case live p of None \<Rightarrow> False | Some state \<Rightarrow> l_live state \<and> l_relay state = Some relay)"

definition valid :: "duty list \<Rightarrow> (probe \<Rightarrow> liveness option) \<Rightarrow> entry list \<Rightarrow> duty_key \<Rightarrow> string \<Rightarrow> bool" where
  "valid every live chosen candidate relay \<longleftrightarrow>
     (let won = would_win every chosen candidate in
      list_all (\<lambda>d. live_at live relay (d_probe d)) won \<and> won \<noteq> [])"

definition try_key ::
  "duty list \<Rightarrow> (probe \<Rightarrow> liveness option) \<Rightarrow> offer_row list \<Rightarrow> entry list \<Rightarrow> duty_key option \<Rightarrow> bool \<times> entry list" where
  "try_key every live rows chosen candidate =
     (case candidate of
        None \<Rightarrow> (False, chosen)
      | Some k \<Rightarrow>
          if has chosen (k_norm k) then (False, chosen)
          else case covering rows k of
                 None \<Rightarrow> (False, chosen)
               | Some row \<Rightarrow> if valid every live chosen k (or_relay row) then (True, chosen @ [(k, or_relay row)])
                             else (False, chosen))"

definition meets_of :: "offer_row list \<Rightarrow> duty_key \<Rightarrow> duty_key list" where
  "meets_of rows k =
     fold (\<lambda>kind meets.
       case (if kind \<in> set (offer_kinds rows) then meet_of k kind else None) of
         None \<Rightarrow> meets
       | Some m \<Rightarrow> if list_all (\<lambda>x. k_norm x \<noteq> k_norm m) meets then meets @ [m] else meets) (k_kinds k) []"

text \<open>The published metrics that are duties under the reader's own key.\<close>

definition metric_duties :: "duty list \<Rightarrow> duty_key \<Rightarrow> string list" where
  "metric_duties every k =
     filter (\<lambda>metric.
       case find (\<lambda>d. d_probe d = probe_at SCORE_KIND (Metric metric)) every of
         None \<Rightarrow> False
       | Some d \<Rightarrow> d_duty d \<and> (case d_winner d of None \<Rightarrow> False | Some g \<Rightarrow> k_norm (g_key g) = k_norm k))
       PUBLISHED_SCORE_METRICS"

definition try_meet ::
  "duty list \<Rightarrow> (probe \<Rightarrow> liveness option) \<Rightarrow> offer_row list \<Rightarrow> duty_key \<Rightarrow> duty_key \<Rightarrow> entry list \<Rightarrow> entry list" where
  "try_meet every live rows k meet chosen =
     (case (if k_norm meet \<noteq> k_norm k then try_key every live rows chosen (Some meet) else (False, chosen)) of
        (True, chosen') \<Rightarrow> chosen'
      | (False, chosen') \<Rightarrow>
          if k_kinds meet \<noteq> [SCORE_KIND] \<or> k_scope meet \<noteq> All then chosen'
          else fold (\<lambda>metric ch. snd (try_key every live rows ch (parse_str (''30382:'' @ metric))))
                 (metric_duties every k) chosen')"

definition try_mine ::
  "duty list \<Rightarrow> (probe \<Rightarrow> liveness option) \<Rightarrow> offer_row list \<Rightarrow> duty_key \<Rightarrow> entry list \<Rightarrow> entry list" where
  "try_mine every live rows k chosen =
     (if has chosen (k_norm k) then chosen
      else case try_key every live rows chosen (Some k) of
             (True, chosen') \<Rightarrow> chosen'
           | (False, chosen') \<Rightarrow> fold (try_meet every live rows k) (most_specific_first (meets_of rows k)) chosen')"

definition mine_of :: "group list \<Rightarrow> string \<Rightarrow> duty_key list" where
  "mine_of groups assistant = map g_key (filter (\<lambda>g. py_lower assistant \<in> set (g_providers g)) groups)"

definition choose_entries ::
  "group list \<Rightarrow> string \<Rightarrow> duty list \<Rightarrow> (probe \<Rightarrow> liveness option) \<Rightarrow> offer_row list \<Rightarrow> entry list" where
  "choose_entries groups assistant every live rows =
     fold (try_mine every live rows) (most_specific_first (mine_of groups assistant)) []"

definition build_should_say ::
  "group list \<Rightarrow> string \<Rightarrow> duty list \<Rightarrow> (probe \<Rightarrow> liveness option) \<Rightarrow> offer_row list \<Rightarrow> entry list" where
  "build_should_say groups assistant every live rows =
     sort_key (\<lambda>(k, _). order_of rows k) (choose_entries groups assistant every live rows)"

section \<open>The lines that explain it\<close>

record duty_line =
  dl_key :: string
  dl_status :: string
  dl_relay :: "string option"
  dl_reason :: "string option"
  dl_last_landed_at :: "int option"
  dl_entries :: "(string \<times> string) list"

definition plain_line :: "string \<Rightarrow> string \<Rightarrow> duty_line" where
  "plain_line k st = \<lparr>dl_key = k, dl_status = st, dl_relay = None, dl_reason = None, dl_last_landed_at = None, dl_entries = []\<rparr>"

definition line_key :: "duty_key \<Rightarrow> duty_key \<Rightarrow> string" where
  "line_key k row =
     (if covers row k then k_norm k
      else if covers k row then k_norm row
      else case (case filter (\<lambda>kind. kind \<in> set (k_kinds row)) (k_kinds k) of [kind] \<Rightarrow> meet_of k kind | _ \<Rightarrow> None) of
             None \<Rightarrow> k_norm k
           | Some m \<Rightarrow> if profiles_spelling m \<and> \<not> profiles_spelling k then k_norm k else k_norm m)"

text \<open>Every probe of a part has its state in \<open>live\<close>: the dictionary is built over all probes.\<close>

fun part_entries :: "entry list \<Rightarrow> (probe \<Rightarrow> liveness option) \<Rightarrow> (string \<times> string) list \<Rightarrow> probe list \<Rightarrow> (string \<times> string) list" where
  "part_entries should live entries [] = entries"
| "part_entries should live entries (p # ps) =
     (case winner_of should p fst of
        None \<Rightarrow> []
      | Some (k, relay) \<Rightarrow>
          if Some relay \<noteq> l_relay (the (live p)) then []
          else part_entries should live (if (k_norm k, relay) \<in> set entries then entries else entries @ [(k_norm k, relay)]) ps)"

definition part_line ::
  "duty_key \<Rightarrow> offer_row \<Rightarrow> duty list \<Rightarrow> (probe \<Rightarrow> liveness option) \<Rightarrow> entry list \<Rightarrow> duty_line" where
  "part_line k row part live should =
     (let line = (plain_line (line_key k (or_key row)) ''offered'')\<lparr>dl_relay := Some (or_relay row)\<rparr>;
          on_duty = map d_probe (filter d_duty part) in
      if on_duty = []
      then let first = the (live (d_probe (hd part)))
           in line\<lparr>dl_reason := (if l_live first then Some ''nothing-to-publish'' else l_reason first)\<rparr>
      else case find (\<lambda>l. \<not> l_live l) (map (\<lambda>p. the (live p)) on_duty) of
             Some down \<Rightarrow> line\<lparr>dl_reason := l_reason down, dl_last_landed_at := l_last_landed_at down\<rparr>
           | None \<Rightarrow> line\<lparr>dl_status := ''live'', dl_entries := part_entries should live [] on_duty\<rparr>)"

definition elsewhere_of :: "string \<Rightarrow> duty list \<Rightarrow> group \<Rightarrow> group list" where
  "elsewhere_of assistant every g =
     dict_keys (List.map_filter (\<lambda>d. case d_winner d of
         None \<Rightarrow> None
       | Some w \<Rightarrow> if w = g \<or> py_lower assistant \<in> set (g_providers w) \<or> \<not> matches (g_key g) (d_probe d)
                     \<or> compare_keys (g_key w) (g_key g) \<ge> 0
                  then None else Some w) every)"

definition group_lines ::
  "string \<Rightarrow> duty list \<Rightarrow> (probe \<Rightarrow> liveness option) \<Rightarrow> offer_row list \<Rightarrow> entry list \<Rightarrow> group \<Rightarrow> duty_line list \<Rightarrow> duty_line list" where
  "group_lines assistant every live rows should g lines =
     (if py_lower assistant \<notin> set (g_providers g) then lines
      else let won = filter (\<lambda>d. d_winner d = Some g) every;
               parts = List.map_filter (\<lambda>row.
                 case filter (\<lambda>d. answer rows (d_probe d) = Some row) won of
                   [] \<Rightarrow> None
                 | part \<Rightarrow> Some (part_line (g_key g) row part live should)) rows;
               missing = (if list_ex (\<lambda>d. d_duty d \<and> answer rows (d_probe d) = None) won
                          then [plain_line (k_norm (g_key g)) ''not-offered''] else [])
           in fold (\<lambda>w ls. let line = plain_line (k_norm (g_key w)) ''elsewhere'' in if line \<in> set ls then ls else ls @ [line])
                (elsewhere_of assistant every g) (lines @ parts @ missing))"

definition duty_lines ::
  "group list \<Rightarrow> string \<Rightarrow> duty list \<Rightarrow> (probe \<Rightarrow> liveness option) \<Rightarrow> offer_row list \<Rightarrow> entry list \<Rightarrow> duty_line list" where
  "duty_lines groups assistant every live rows should = fold (group_lines assistant every live rows should) groups []"

record self_map_check =
  smc_duties :: "duty_line list"
  smc_should_say :: "(string \<times> string) list"

definition evaluate_self_map ::
  "group list \<Rightarrow> (string \<times> string) list \<Rightarrow> string \<Rightarrow> upkeep \<Rightarrow> (exn, self_map_check) result" where
  "evaluate_self_map groups offered assistant scores =
     result_bind (new_offer offered) (\<lambda>rows.
       let probes = build_probes (map g_key groups);
           duties = duties_of groups assistant probes;
           live = map_of (map (\<lambda>p. (p, evaluate_live p rows scores)) probes);
           should = build_should_say groups assistant duties live rows
       in Inr \<lparr>smc_duties = duty_lines groups assistant duties live rows should,
               smc_should_say = map (\<lambda>(k, relay). (k_norm k, relay)) should\<rparr>)"

section \<open>A Map's groups\<close>

definition well_grouped :: "group list \<Rightarrow> bool" where
  "well_grouped groups \<longleftrightarrow> (\<forall>g\<in>set groups. is_key (g_key g)) \<and> distinct (map (\<lambda>g. k_norm (g_key g)) groups)"

lemma map_tag_key: "map_tag tag = Some (p, who) \<Longrightarrow> is_key p"
  by (cases tag rule: map_tag.cases) (auto simp: parse_key_def intro: is_key_parse split: option.splits json.splits if_splits)

lemma add_provider_norms:
  "(\<lambda>g. k_norm (g_key g)) ` set (add_provider (p, who) gs) = insert (k_norm p) ((\<lambda>g. k_norm (g_key g)) ` set gs)"
  by (induction gs) auto

lemma add_provider_well: "well_grouped gs \<Longrightarrow> is_key p \<Longrightarrow> well_grouped (add_provider (p, who) gs)"
proof (induction gs)
  case (Cons g gs)
  then show ?case using add_provider_norms [of p who gs] by (auto simp: well_grouped_def)
qed (simp add: well_grouped_def)

lemma map_groups_well: "well_grouped (map_groups event)"
proof -
  have "well_grouped (fold add_provider (List.map_filter map_tag tags) gs)" if "well_grouped gs" for tags gs
    using that
  proof (induction tags arbitrary: gs)
    case (Cons t tags)
    then show ?case using add_provider_well map_tag_key
      by (cases "map_tag t") (auto simp: map_filter_simps)
  qed (simp add: map_filter_simps)
  moreover have "well_grouped []" by (simp add: well_grouped_def)
  ultimately show ?thesis unfolding map_groups_def by blast
qed

lemma is_key_inj: "is_key a \<Longrightarrow> is_key b \<Longrightarrow> k_norm a = k_norm b \<Longrightarrow> a = b"
  unfolding is_key_def by (metis option.inject)

lemma well_grouped_inj: "well_grouped groups \<Longrightarrow> inj_on (\<lambda>g. k_norm (g_key g)) (set groups)"
  by (simp add: well_grouped_def distinct_map)

section \<open>No self-entry claims what is not live\<close>

definition entries_ok :: "entry list \<Rightarrow> bool" where
  "entries_ok chosen \<longleftrightarrow> (\<forall>(k, _)\<in>set chosen. is_key k) \<and> distinct (map (\<lambda>(k, _). k_norm k) chosen)"

definition claims_live :: "duty list \<Rightarrow> (probe \<Rightarrow> liveness option) \<Rightarrow> entry list \<Rightarrow> bool" where
  "claims_live every live chosen \<longleftrightarrow> (\<forall>d\<in>set every. d_duty d \<longrightarrow>
     (\<forall>k relay. winner_of chosen (d_probe d) fst = Some (k, relay) \<longrightarrow> live_at live relay (d_probe d)))"

lemma winner_entry_iff:
  assumes "entries_ok chosen"
  shows "winner_of chosen p fst = Some e \<longleftrightarrow> e \<in> set chosen \<and> matches (fst e) p
    \<and> (\<forall>c\<in>set chosen. matches (fst c) p \<longrightarrow> compare_keys (fst e) (fst c) \<le> 0)"
  by (rule winner_of_iff) (use assms in \<open>auto simp: entries_ok_def distinct_map case_prod_unfold\<close>)

lemma entries_ok_snoc: "entries_ok chosen \<Longrightarrow> is_key k \<Longrightarrow> \<not> has chosen (k_norm k) \<Longrightarrow> entries_ok (chosen @ [(k, relay)])"
  by (auto simp: entries_ok_def has_def list_ex_iff)

lemma winner_keys_iff:
  assumes "entries_ok (chosen @ [(k, relay)])"
  shows "winner_of (map fst chosen @ [k]) p (\<lambda>k. k) = Some k \<longleftrightarrow> winner_of (chosen @ [(k, relay)]) p fst = Some (k, relay)"
proof -
  have "winner_of (map fst chosen @ [k]) p (\<lambda>k. k) = Some k \<longleftrightarrow> k \<in> set (map fst chosen @ [k]) \<and> matches k p
      \<and> (\<forall>c\<in>set (map fst chosen @ [k]). matches c p \<longrightarrow> compare_keys k c \<le> 0)"
  proof (rule winner_of_iff)
    show keys: "\<forall>c\<in>set (map fst chosen @ [k]). is_key c" using assms by (auto simp: entries_ok_def)
    then show "inj_on (\<lambda>c. k_norm c) (set (map fst chosen @ [k]))" by (intro inj_onI is_key_inj) blast+
  qed
  then show ?thesis using winner_entry_iff [OF assms, of p "(k, relay)"] by auto
qed

lemma try_key_cases:
  "(\<exists>k row. candidate = Some k \<and> \<not> has chosen (k_norm k) \<and> covering rows k = Some row
      \<and> valid every live chosen k (or_relay row) \<and> try_key every live rows chosen candidate = (True, chosen @ [(k, or_relay row)]))
   \<or> try_key every live rows chosen candidate = (False, chosen)"
  by (cases candidate; cases "covering rows (the candidate)") (simp_all add: try_key_def)

lemma try_key_sound:
  assumes "\<forall>k. candidate = Some k \<longrightarrow> is_key k" "entries_ok chosen" "claims_live every live chosen"
  shows "entries_ok (snd (try_key every live rows chosen candidate)) \<and> claims_live every live (snd (try_key every live rows chosen candidate))"
  using try_key_cases [of candidate chosen rows every live]
proof (elim disjE exE conjE)
  fix k row
  let ?r = "or_relay row"
  assume tried: "candidate = Some k" "\<not> has chosen (k_norm k)" "valid every live chosen k ?r"
    "try_key every live rows chosen candidate = (True, chosen @ [(k, ?r)])"
  have ok: "entries_ok (chosen @ [(k, ?r)])" using entries_ok_snoc assms(1,2) tried(1,2) by blast
  have "live_at live relay (d_probe d)"
    if d: "d \<in> set every" "d_duty d" "winner_of (chosen @ [(k, ?r)]) (d_probe d) fst = Some (k', relay)" for d k' relay
  proof (cases "(k', relay) = (k, ?r)")
    case True
    then have "d \<in> set (would_win every chosen k)"
      using d winner_keys_iff [OF ok] winner_entry_iff [OF ok] by (auto simp: would_win_def)
    then show ?thesis using tried(3) True by (auto simp: valid_def Let_def list_all_iff)
  next
    case False
    then have "winner_of chosen (d_probe d) fst = Some (k', relay)"
      using d(3) winner_entry_iff [OF ok] winner_entry_iff [OF assms(2)] by auto
    then show ?thesis using assms(3) d unfolding claims_live_def by blast
  qed
  then show ?thesis using ok tried(4) unfolding claims_live_def by auto
qed (use assms in simp)

lemma set_most_specific_first [simp]: "set (most_specific_first ks) = set ks"
proof -
  have "set (insert_key k xs) = insert k (set xs)" for k xs by (induction xs) auto
  then have "set (foldr insert_key ks xs) = set ks \<union> set xs" for xs by (induction ks) auto
  then show ?thesis by (simp add: most_specific_first_def)
qed

lemma meets_of_member:
  "m \<in> set (meets_of rows k) \<Longrightarrow> \<exists>kind\<in>set (k_kinds k). kind \<in> set (offer_kinds rows) \<and> meet_of k kind = Some m"
proof -
  let ?step = "\<lambda>kind meets. case (if kind \<in> set (offer_kinds rows) then meet_of k kind else None) of
      None \<Rightarrow> meets | Some m \<Rightarrow> if list_all (\<lambda>x. k_norm x \<noteq> k_norm m) meets then meets @ [m] else meets"
  have "m \<in> set (fold ?step kinds acc) \<Longrightarrow> m \<in> set acc \<or> (\<exists>kind\<in>set kinds. kind \<in> set (offer_kinds rows) \<and> meet_of k kind = Some m)"
    for kinds acc
  proof (induction kinds arbitrary: acc)
    case (Cons kind kinds)
    then show ?case by (auto split: option.splits if_splits dest!: Cons.IH)
  qed simp
  then show "m \<in> set (meets_of rows k) \<Longrightarrow> ?thesis" unfolding meets_of_def by fastforce
qed

text \<open>What every try keeps, the choice of all entries keeps.\<close>

lemma choose_keeps:
  assumes step: "\<And>ch cand. P ch \<Longrightarrow> (\<forall>k. cand = Some k \<longrightarrow> is_key k) \<Longrightarrow> P (snd (try_key every live rows ch cand))"
  shows "is_key m \<Longrightarrow> P ch \<Longrightarrow> P (try_meet every live rows k m ch)"
    "P ch \<Longrightarrow> is_key k \<Longrightarrow> P (try_mine every live rows k ch)"
    "P ch \<Longrightarrow> \<forall>k\<in>set ks. is_key k \<Longrightarrow> P (fold (try_mine every live rows) ks ch)"
proof -
  have metrics: "P (fold (\<lambda>metric ch. snd (try_key every live rows ch (parse_str (''30382:'' @ metric)))) ms ch)" if "P ch" for ms ch
    using that by (induction ms arbitrary: ch) (auto intro!: step is_key_parse)
  show meet: "P (try_meet every live rows k m ch)" if "is_key m" "P ch" for m k ch
  proof -
    have "P (snd (try_key every live rows ch (Some m)))" using step that by simp
    then show ?thesis using metrics that(2)
      by (auto simp: try_meet_def split: prod.split bool.split)
  qed
  have meets: "P (fold (try_meet every live rows k) ms ch)" if "P ch" "\<forall>m\<in>set ms. is_key m" for k ms ch
    using that by (induction ms arbitrary: ch) (auto intro: meet)
  show mine: "P (try_mine every live rows k ch)" if "P ch" "is_key k" for k ch
  proof -
    have "P (snd (try_key every live rows ch (Some k)))" using step that by simp
    moreover have "\<forall>m\<in>set (most_specific_first (meets_of rows k)). is_key m"
      using meets_of_member is_key_parse unfolding meet_of_def by fastforce
    ultimately show ?thesis using meets that(1)
      by (auto simp: try_mine_def split: prod.split bool.split)
  qed
  show "P (fold (try_mine every live rows) ks ch)" if "P ch" "\<forall>k\<in>set ks. is_key k"
    using that by (induction ks arbitrary: ch) (auto intro: mine)
qed

lemma choose_sound:
  assumes "\<forall>g\<in>set groups. is_key (g_key g)"
  shows "entries_ok (choose_entries groups assistant every live rows) \<and> claims_live every live (choose_entries groups assistant every live rows)"
  unfolding choose_entries_def
proof (rule choose_keeps(3) [where P = "\<lambda>ch. entries_ok ch \<and> claims_live every live ch"])
  show "entries_ok [] \<and> claims_live every live []" by (simp add: entries_ok_def claims_live_def winner_of_def)
  show "\<forall>k\<in>set (most_specific_first (mine_of groups assistant)). is_key k" using assms by (auto simp: mine_of_def)
qed (use try_key_sound in blast)

lemma should_say_sound:
  assumes "\<forall>g\<in>set groups. is_key (g_key g)"
  shows "entries_ok (build_should_say groups assistant every live rows)
    \<and> claims_live every live (build_should_say groups assistant every live rows)"
proof -
  let ?c = "choose_entries groups assistant every live rows" and ?s = "build_should_say groups assistant every live rows"
  have same: "set ?s = set ?c" "distinct ?s = distinct ?c" by (simp_all add: build_should_say_def)
  have ok: "entries_ok ?c" "claims_live every live ?c" using choose_sound [OF assms] by auto
  have "entries_ok ?s" using ok(1) same by (simp add: entries_ok_def distinct_map)
  moreover from this have "winner_of ?s p fst = winner_of ?c p fst" for p
    using winner_entry_iff [OF ok(1), of p] winner_entry_iff [OF \<open>entries_ok ?s\<close>, of p] same(1) by (metis option.exhaust)
  ultimately show ?thesis using ok(2) by (simp add: claims_live_def)
qed

definition parsed_entries :: "(string \<times> string) list \<Rightarrow> entry list" where
  "parsed_entries says = List.map_filter (\<lambda>(k, relay). map_option (\<lambda>p. (p, relay)) (parse_str k)) says"

lemma parsed_norms: "\<forall>(k, _)\<in>set es. is_key k \<Longrightarrow> parsed_entries (map (\<lambda>(k, relay). (k_norm k, relay)) es) = es"
  by (induction es) (auto simp: parsed_entries_def map_filter_simps is_key_def)

lemma evaluate_self_map_eq:
  "evaluate_self_map groups offered assistant scores = Inr check \<longleftrightarrow> (\<exists>rows. new_offer offered = Inr rows \<and>
     (let probes = build_probes (map g_key groups); live = map_of (map (\<lambda>p. (p, evaluate_live p rows scores)) probes);
          should = build_should_say groups assistant (duties_of groups assistant probes) live rows in
      check = \<lparr>smc_duties = duty_lines groups assistant (duties_of groups assistant probes) live rows should,
               smc_should_say = map (\<lambda>(k, relay). (k_norm k, relay)) should\<rparr>))"
  by (auto simp: evaluate_self_map_def result_bind_eq_Inr Let_def)

lemma live_of: "p \<in> set probes \<Longrightarrow> map_of (map (\<lambda>p. (p, f p)) probes) p = Some (f p)"
  by (induction probes) auto

text \<open>
  C26. A self-Map claims nothing that is not live. Whatever Map the reader wrote and whatever
  is offered: take the self-entries the check says the Assistant should list, as they are
  written, and any part that is the Assistant's duty. The self-entry that wins the part names
  a relay at which the part is live now.
\<close>
theorem self_map_claims_only_live:
  assumes "evaluate_self_map (map_groups event) offered assistant scores = Inr check"
    "p \<in> set (build_probes (map g_key (map_groups event)))" "d_duty (duty_at (map_groups event) assistant p)"
    "winner_of (parsed_entries (smc_should_say check)) p fst = Some (k, relay)"
  shows "\<exists>rows. new_offer offered = Inr rows \<and> l_live (evaluate_live p rows scores)
    \<and> l_relay (evaluate_live p rows scores) = Some relay"
proof -
  let ?gs = "map_groups event" and ?probes = "build_probes (map g_key (map_groups event))"
  obtain rows where rows: "new_offer offered = Inr rows" and check: "smc_should_say check = map (\<lambda>(k, relay). (k_norm k, relay))
      (build_should_say ?gs assistant (duties_of ?gs assistant ?probes) (map_of (map (\<lambda>p. (p, evaluate_live p rows scores)) ?probes)) rows)"
    using assms(1) by (auto simp: evaluate_self_map_eq Let_def)
  let ?live = "map_of (map (\<lambda>p. (p, evaluate_live p rows scores)) ?probes)"
  let ?should = "build_should_say ?gs assistant (duties_of ?gs assistant ?probes) ?live rows"
  have sound: "entries_ok ?should" "claims_live (duties_of ?gs assistant ?probes) ?live ?should"
    using should_say_sound map_groups_well [of event] by (auto simp: well_grouped_def)
  have won: "winner_of ?should p fst = Some (k, relay)"
    using assms(4) check parsed_norms [of ?should] sound(1) by (simp add: entries_ok_def)
  have duty: "duty_at ?gs assistant p \<in> set (duties_of ?gs assistant ?probes)" and at: "d_probe (duty_at ?gs assistant p) = p"
    using assms(2) by (simp_all add: duties_of_def duty_at_def Let_def)
  from sound(2) [unfolded claims_live_def, rule_format, OF duty assms(3), unfolded at, OF won]
  show ?thesis using rows live_of [OF assms(2), of "\<lambda>p. evaluate_live p rows scores"] by (simp add: live_at_def)
qed

section \<open>Today's offer\<close>

definition metric_key :: "string \<Rightarrow> duty_key" where
  "metric_key m = \<lparr>k_norm = ''30382:'' @ m, k_slot = ''30382'', k_kinds = [30382], k_segs = [m], k_rank = 3, k_scope = Metric m\<rparr>"

lemma parse_metric_key: "m \<in> set PUBLISHED_SCORE_METRICS \<Longrightarrow> parse_str (''30382:'' @ m) = Some (metric_key m)"
proof -
  have "\<forall>m\<in>set PUBLISHED_SCORE_METRICS. parse_str (''30382:'' @ m) = Some (metric_key m)" by code_simp
  then show "m \<in> set PUBLISHED_SCORE_METRICS \<Longrightarrow> parse_str (''30382:'' @ m) = Some (metric_key m)" by blast
qed

definition bare_key :: "string \<Rightarrow> int list \<Rightarrow> int \<Rightarrow> duty_key" where
  "bare_key slot kinds r = \<lparr>k_norm = slot, k_slot = slot, k_kinds = kinds, k_segs = [], k_rank = r, k_scope = All\<rparr>"

lemma parse_bare_keys:
  "parse_str ''30382'' = Some (bare_key ''30382'' [30382] 3)" "parse_str ''30392'' = Some (bare_key ''30392'' [30392] 3)"
  "parse_str ''39998'' = Some (bare_key ''39998'' [39998, 39999] 2)" "parse_str ''39999'' = Some (bare_key ''39999'' [39999] 3)"
  by code_simp+

definition todays_rows :: "relay_settings \<Rightarrow> offer_row list" where
  "todays_rows cfg =
     (let relay = ta_relay_public_url cfg; list_relay = (if trusted_list_relay cfg \<noteq> [] then trusted_list_relay cfg else relay) in
      map (\<lambda>m. \<lparr>or_key = metric_key m, or_relay = relay\<rparr>) PUBLISHED_SCORE_METRICS
      @ [\<lparr>or_key = bare_key ''30392'' [30392] 3, or_relay = list_relay\<rparr>]
      @ (if dictionary_relay cfg \<noteq> []
         then [\<lparr>or_key = bare_key ''39998'' [39998, 39999] 2, or_relay = dictionary_relay cfg\<rparr>,
               \<lparr>or_key = bare_key ''39999'' [39999] 3, or_relay = dictionary_relay cfg\<rparr>] else []))"

lemma new_offer_today:
  assumes "ta_relay_public_url cfg \<noteq> []"
  shows "new_offer (offer_rows cfg assistant) = Inr (todays_rows cfg)"
  using assms parse_metric_key
  by (simp add: offer_rows_def designation_rows_def todays_rows_def Let_def TA_METRIC_TAGS_def PUBLISHED_SCORE_METRICS_def
      TRUSTED_LIST_KIND_ROW_def DICTIONARY_KIND_ROWS_def parse_bare_keys)

abbreviation score_probe :: "string \<Rightarrow> probe" where
  "score_probe m \<equiv> probe_at SCORE_KIND (Metric m)"

lemma todays_score_row:
  assumes "row \<in> set (todays_rows cfg)" "SCORE_KIND \<in> set (k_kinds (or_key row))"
  shows "\<exists>m\<in>set PUBLISHED_SCORE_METRICS. row = \<lparr>or_key = metric_key m, or_relay = ta_relay_public_url cfg\<rparr>"
  using assms by (auto simp: todays_rows_def Let_def bare_key_def SCORE_KIND_def split: if_splits)

lemma score_row_today:
  "m \<in> set PUBLISHED_SCORE_METRICS \<Longrightarrow> \<lparr>or_key = metric_key m, or_relay = ta_relay_public_url cfg\<rparr> \<in> set (todays_rows cfg)"
  by (auto simp: todays_rows_def Let_def)

lemma matches_metric_key: "matches (metric_key m) p \<longleftrightarrow> p = score_probe m"
  by (cases p) (auto simp: matches_def metric_key_def probe_at_def SCORE_KIND_def)

lemma answer_score:
  assumes "m \<in> set PUBLISHED_SCORE_METRICS"
  shows "answer (todays_rows cfg) (score_probe m) = Some \<lparr>or_key = metric_key m, or_relay = ta_relay_public_url cfg\<rparr>"
proof -
  obtain row where row: "answer (todays_rows cfg) (score_probe m) = Some row"
    using winner_of_None [of "todays_rows cfg" "score_probe m" or_key] score_row_today [OF assms] matches_metric_key
    unfolding answer_def by (metis not_None_eq offer_row.select_convs(1))
  note won = winner_of_Some [OF row [unfolded answer_def]]
  then obtain m' where "row = \<lparr>or_key = metric_key m', or_relay = ta_relay_public_url cfg\<rparr>"
    using todays_score_row [of row cfg] by (auto simp: matches_def probe_at_def)
  then show ?thesis using row won(2) matches_metric_key by (auto simp: probe_at_def)
qed

lemma live_today:
  "l_live (evaluate_live p (todays_rows cfg) scores) \<longleftrightarrow>
     su_status scores = ''live'' \<and> (\<exists>m\<in>set PUBLISHED_SCORE_METRICS. p = score_probe m)"
  "m \<in> set PUBLISHED_SCORE_METRICS \<Longrightarrow> l_relay (evaluate_live (score_probe m) (todays_rows cfg) scores) = Some (ta_relay_public_url cfg)"
proof -
  have at: "\<exists>m\<in>set PUBLISHED_SCORE_METRICS. p = score_probe m" if "p_kind p = SCORE_KIND" "published_metric (p_scope p)"
    using that by (cases p; cases "p_scope p") (auto simp: probe_at_def)
  have score: "evaluate_live (score_probe m) (todays_rows cfg) scores = (if su_status scores = ''live''
      then \<lparr>l_live = True, l_relay = Some (ta_relay_public_url cfg), l_reason = None, l_last_landed_at = None\<rparr>
      else not_live (ta_relay_public_url cfg) (su_status scores) (su_last_landed_at scores))" if "m \<in> set PUBLISHED_SCORE_METRICS" for m
    using that answer_score [OF that, of cfg] by (auto simp: evaluate_live_def probe_at_def SCORE_KIND_def is_score_kind_def)
  show "m \<in> set PUBLISHED_SCORE_METRICS \<Longrightarrow> l_relay (evaluate_live (score_probe m) (todays_rows cfg) scores) = Some (ta_relay_public_url cfg)"
    by (simp add: score not_live_def)
  show "l_live (evaluate_live p (todays_rows cfg) scores) \<longleftrightarrow>
     su_status scores = ''live'' \<and> (\<exists>m\<in>set PUBLISHED_SCORE_METRICS. p = score_probe m)"
  proof
    assume "l_live (evaluate_live p (todays_rows cfg) scores)"
    then show "su_status scores = ''live'' \<and> (\<exists>m\<in>set PUBLISHED_SCORE_METRICS. p = score_probe m)"
      using at by (auto simp: evaluate_live_def not_live_def split: option.splits if_splits)
  qed (auto simp: score)
qed

text \<open>A five-digit slot is read as the number it spells.\<close>

lemma digit_char_val: "is_digit c \<Longrightarrow> c = digit_char (digit_val c) \<and> digit_val c < 10"
  by (auto simp: is_digit_def digit_val_def digit_char_def Let_def)

lemma digit_chars: "digit_char 3 = CHR ''3''" "digit_char 0 = CHR ''0''" "digit_char 8 = CHR ''8''" "digit_char 2 = CHR ''2''"
  by code_simp+

lemma show_score_kind: "show_int SCORE_KIND = ''30382''"
  by (simp add: show_int_def SCORE_KIND_def show_nat.simps digit_chars)

lemma slot_30382:
  assumes "length slot = 5" "list_all is_digit slot" "slot_kind slot = 30382"
  shows "slot = ''30382''"
proof -
  obtain a b c d e where slot: "slot = [a, b, c, d, e]"
    using assms(1) by (auto simp: length_Suc_conv numeral_eq_Suc)
  note dig = digit_char_val [of a] digit_char_val [of b] digit_char_val [of c] digit_char_val [of d] digit_char_val [of e]
  have small: "digit_val a < 10" "digit_val b < 10" "digit_val c < 10" "digit_val d < 10" "digit_val e < 10"
    using assms(2) dig unfolding slot by simp_all
  have last_digit: "x = q \<and> n = r" if "x * 10 + int n = q * 10 + int r" "n < 10" "r < 10" for x q :: int and n r :: nat
    using that by presburger
  let ?a = "int (digit_val a)"
  have "(((?a * 10 + int (digit_val b)) * 10 + int (digit_val c)) * 10 + int (digit_val d)) * 10 + int (digit_val e) = 3038 * 10 + int 2"
    using assms(3) by (simp add: slot_kind_def slot)
  from last_digit [OF this small(5)] have e: "digit_val e = 2"
    and "((?a * 10 + int (digit_val b)) * 10 + int (digit_val c)) * 10 + int (digit_val d) = 303 * 10 + int 8" by simp_all
  from last_digit [OF this(2) small(4)] have d: "digit_val d = 8"
    and "(?a * 10 + int (digit_val b)) * 10 + int (digit_val c) = 30 * 10 + int 3" by simp_all
  from last_digit [OF this(2) small(3)] have c: "digit_val c = 3" and "?a * 10 + int (digit_val b) = 3 * 10 + int 0" by simp_all
  from last_digit [OF this(2) small(2)] have "digit_val b = 0" "digit_val a = 3" by simp_all
  with c d e have "digit_val a = 3 \<and> digit_val b = 0 \<and> digit_val c = 3 \<and> digit_val d = 8 \<and> digit_val e = 2" by simp
  then show ?thesis using assms(2) dig digit_chars unfolding slot by auto
qed

lemma parsed_fields:
  assumes "parse_str k = Some p"
  shows "kind_slot (k_slot p) \<and> (if concept_slot (k_slot p) then (k_scope p = All \<and> k_segs p = []) \<or> (\<exists>d. k_scope p = D d)
    else k_kinds p = fst (slot_reading (k_slot p) (k_segs p)) \<and> k_scope p = scope_of (k_norm p) (k_slot p) (k_kinds p) (k_segs p))"
  using assms by (auto simp: parse_str_def Let_def split: if_splits)

lemma parsed_segs:
  assumes "parse_str k = Some p"
  shows "k_scope p = All \<Longrightarrow> k_segs p = []"
    "k_scope p = Metric m \<Longrightarrow> k_segs p = [m] \<and> (k_kinds p = SCORE_KINDS
       \<or> (k_kinds p = [slot_kind (k_slot p)] \<and> length (k_slot p) = 5 \<and> list_all is_digit (k_slot p)))"
proof -
  note fields = parsed_fields [OF assms]
  show "k_scope p = All \<Longrightarrow> k_segs p = []" using fields by (auto simp: scope_of_def split: if_splits)
  assume "k_scope p = Metric m"
  then have metric: "k_scope p = scope_of (k_norm p) (k_slot p) (k_kinds p) (k_segs p)" "k_kinds p = fst (slot_reading (k_slot p) (k_segs p))"
    "kind_slot (k_slot p)" "scope_of (k_norm p) (k_slot p) (k_kinds p) (k_segs p) = Metric m"
    using fields by (auto split: if_splits)
  have "30390 \<in> set LIST_KINDS" by (simp add: set_kinds is_list_kind_def)
  then have "\<not> list_all is_score_kind LIST_KINDS" by (auto simp: list_all_iff is_score_kind_def intro!: bexI [of _ 30390])
  moreover from metric(4) have "k_segs p = [m]" "k_slot p \<noteq> ''*''" "list_all is_score_kind (k_kinds p)"
    by (auto simp: scope_of_def length_Suc_conv split: if_splits)
  ultimately show "k_segs p = [m] \<and> (k_kinds p = SCORE_KINDS
       \<or> (k_kinds p = [slot_kind (k_slot p)] \<and> length (k_slot p) = 5 \<and> list_all is_digit (k_slot p)))"
    using metric(2,3) by (auto simp: slot_reading_def kind_slot_def split: if_splits)
qed

lemma metric_key_of:
  assumes "is_key k" "set (k_kinds k) \<subseteq> {SCORE_KIND}" "k_scope k = Metric m" "m \<in> set PUBLISHED_SCORE_METRICS"
  shows "k = metric_key m"
proof -
  note parsed = assms(1) [unfolded is_key_def]
  have "30380 \<in> set SCORE_KINDS" by (simp add: set_kinds is_score_kind_def)
  then have "k_kinds k \<noteq> SCORE_KINDS" using assms(2) by (auto simp: SCORE_KIND_def)
  with parsed_segs(2) [OF parsed assms(3)] assms(2) have "k_segs k = [m]" "k_slot k = ''30382''"
    using slot_30382 by (auto simp: SCORE_KIND_def)
  then have "k_norm k = k_norm (metric_key m)" using parsed_parts [OF parsed] by (simp add: metric_key_def)
  moreover have "is_key (metric_key m)" using parse_metric_key [OF assms(4)] by (simp add: is_key_def metric_key_def)
  ultimately show ?thesis using is_key_inj assms(1) by blast
qed

text \<open>The check over today's offer: its duties and what it finds live.\<close>

definition todays_duties :: "group list \<Rightarrow> string \<Rightarrow> duty list" where
  "todays_duties groups assistant = duties_of groups assistant (build_probes (map g_key groups))"

definition todays_live :: "relay_settings \<Rightarrow> group list \<Rightarrow> upkeep \<Rightarrow> probe \<Rightarrow> liveness option" where
  "todays_live cfg groups scores =
     map_of (map (\<lambda>p. (p, evaluate_live p (todays_rows cfg) scores)) (build_probes (map g_key groups)))"

definition score_duty :: "group list \<Rightarrow> string \<Rightarrow> string \<Rightarrow> bool" where
  "score_duty groups assistant m \<longleftrightarrow>
     (case winner_of groups (score_probe m) g_key of None \<Rightarrow> False | Some g \<Rightarrow> py_lower assistant \<in> set (g_providers g))"

lemma score_probe_built: "m \<in> set PUBLISHED_SCORE_METRICS \<Longrightarrow> score_probe m \<in> set (build_probes ks)"
proof -
  assume "m \<in> set PUBLISHED_SCORE_METRICS"
  then have "m \<in> set (metrics_of ks SCORE_KIND)" by (simp add: metrics_of_def)
  moreover have "SCORE_KIND \<in> set SCORE_KINDS" by (simp add: set_kinds is_score_kind_def SCORE_KIND_def)
  ultimately show ?thesis by (auto simp: build_probes_def)
qed

lemma score_duty_at:
  assumes "m \<in> set PUBLISHED_SCORE_METRICS"
  shows "d_duty (duty_at groups assistant (score_probe m)) \<longleftrightarrow> score_duty groups assistant m"
    "find (\<lambda>d. d_probe d = score_probe m) (todays_duties groups assistant) = Some (duty_at groups assistant (score_probe m))"
proof -
  have "in_supported_sets (score_probe m)" using assms by (simp add: in_supported_sets_def probe_at_def)
  then show "d_duty (duty_at groups assistant (score_probe m)) \<longleftrightarrow> score_duty groups assistant m"
    by (auto simp: duty_at_def score_duty_def Let_def split: option.split)
  have "find (\<lambda>d. d_probe d = p) (map (duty_at groups assistant) ps) = Some (duty_at groups assistant p)" if "p \<in> set ps" for p ps
    using that by (induction ps) (auto simp: duty_at_def Let_def)
  then show "find (\<lambda>d. d_probe d = score_probe m) (todays_duties groups assistant) = Some (duty_at groups assistant (score_probe m))"
    using score_probe_built [OF assms] by (simp add: todays_duties_def duties_of_def)
qed

lemma live_at_today:
  "live_at (todays_live cfg groups scores) relay p \<Longrightarrow> su_status scores = ''live'' \<and> (\<exists>m\<in>set PUBLISHED_SCORE_METRICS. p = score_probe m)"
  "m \<in> set PUBLISHED_SCORE_METRICS \<Longrightarrow> su_status scores = ''live''
     \<Longrightarrow> live_at (todays_live cfg groups scores) (ta_relay_public_url cfg) (score_probe m)"
proof -
  have map: "map_of (map (\<lambda>p. (p, f p)) ps) p = Some v \<Longrightarrow> v = f p" for f :: "probe \<Rightarrow> liveness" and ps v
    by (induction ps) (auto split: if_splits)
  show "live_at (todays_live cfg groups scores) relay p \<Longrightarrow> su_status scores = ''live'' \<and> (\<exists>m\<in>set PUBLISHED_SCORE_METRICS. p = score_probe m)"
    unfolding live_at_def todays_live_def by (auto split: option.splits dest!: map simp: live_today)
  show "live_at (todays_live cfg groups scores) (ta_relay_public_url cfg) (score_probe m)"
    if m: "m \<in> set PUBLISHED_SCORE_METRICS" "su_status scores = ''live''"
    using live_of [OF score_probe_built [OF m(1)], of "\<lambda>p. evaluate_live p (todays_rows cfg) scores"] live_today m
    by (auto simp: live_at_def todays_live_def)
qed

text \<open>Only the published metrics on duty are ever chosen.\<close>

definition only_scores :: "relay_settings \<Rightarrow> group list \<Rightarrow> string \<Rightarrow> upkeep \<Rightarrow> entry list \<Rightarrow> bool" where
  "only_scores cfg groups assistant scores chosen \<longleftrightarrow> (\<forall>e\<in>set chosen. \<exists>m\<in>set PUBLISHED_SCORE_METRICS.
     e = (metric_key m, ta_relay_public_url cfg) \<and> score_duty groups assistant m \<and> su_status scores = ''live'')"

lemma covering_Some: "covering rows k = Some row \<Longrightarrow> row \<in> set rows \<and> covers (or_key row) k"
  unfolding covering_def using keyed_by.best_of_Some by metis

lemma valid_score:
  assumes "is_key k" "covering (todays_rows cfg) k = Some row"
    "valid (todays_duties groups assistant) (todays_live cfg groups scores) chosen k relay"
  shows "\<exists>m\<in>set PUBLISHED_SCORE_METRICS. k = metric_key m \<and> or_relay row = ta_relay_public_url cfg
    \<and> score_duty groups assistant m \<and> su_status scores = ''live''"
proof -
  obtain d where d: "d \<in> set (todays_duties groups assistant)" "d_duty d" "matches k (d_probe d)"
    "live_at (todays_live cfg groups scores) relay (d_probe d)"
    using assms(3) by (fastforce simp: valid_def would_win_def Let_def list_all_iff filter_empty_conv)
  then obtain m where m: "m \<in> set PUBLISHED_SCORE_METRICS" "d_probe d = score_probe m" "su_status scores = ''live''"
    using live_at_today(1) by blast
  have row: "row \<in> set (todays_rows cfg)" "covers (or_key row) k" using covering_Some [OF assms(2)] by auto
  have "SCORE_KIND \<in> set (k_kinds k)" using d(3) m(2) by (simp add: matches_def probe_at_def)
  then obtain m' where m': "m' \<in> set PUBLISHED_SCORE_METRICS" "row = \<lparr>or_key = metric_key m', or_relay = ta_relay_public_url cfg\<rparr>"
    using todays_score_row [OF row(1)] row(2) by (auto simp: covers_def)
  then have k: "set (k_kinds k) \<subseteq> {SCORE_KIND}" "k_scope k = Metric m'"
    using row(2) by (auto simp: covers_def metric_key_def SCORE_KIND_def)
  then have "k = metric_key m'" using metric_key_of assms(1) m'(1) by blast
  moreover from this have "m' = m" using d(3) m(2) matches_metric_key by (auto simp: probe_at_def)
  moreover have "score_duty groups assistant m"
    using d(1,2) m(1,2) score_duty_at(1) by (auto simp: todays_duties_def duties_of_def duty_at_def Let_def)
  ultimately show ?thesis using m(1,3) m'(2) by auto
qed

lemma choose_only_scores:
  assumes "only_scores cfg groups assistant scores chosen" "\<forall>k. candidate = Some k \<longrightarrow> is_key k"
  shows "only_scores cfg groups assistant scores
    (snd (try_key (todays_duties groups assistant) (todays_live cfg groups scores) (todays_rows cfg) chosen candidate))"
  using try_key_cases [of candidate chosen "todays_rows cfg" "todays_duties groups assistant" "todays_live cfg groups scores"]
proof (elim disjE exE conjE)
  fix k row
  assume tried: "candidate = Some k" "covering (todays_rows cfg) k = Some row"
    "valid (todays_duties groups assistant) (todays_live cfg groups scores) chosen k (or_relay row)"
    "try_key (todays_duties groups assistant) (todays_live cfg groups scores) (todays_rows cfg) chosen candidate
      = (True, chosen @ [(k, or_relay row)])"
  from valid_score [OF _ tried(2,3)] tried(1) assms(2) show ?thesis
    using assms(1) tried(4) by (auto simp: only_scores_def)
qed (use assms(1) in simp)

text \<open>A live metric on duty is chosen once the reader's key that wins it is met.\<close>

lemma fold_keeps: "P s \<Longrightarrow> (\<And>x s. x \<in> set xs \<Longrightarrow> P s \<Longrightarrow> P (f x s)) \<Longrightarrow> P (fold f xs s)"
  by (induction xs arbitrary: s) auto

lemma fold_reaches:
  assumes "m \<in> set xs" "I s" "\<And>x s. x \<in> set xs \<Longrightarrow> I s \<Longrightarrow> I (f x s)" "\<And>x s. x \<in> set xs \<Longrightarrow> R s \<Longrightarrow> R (f x s)"
    "\<And>s. I s \<Longrightarrow> R (f m s)"
  shows "R (fold f xs s)"
proof -
  obtain ys zs where xs: "xs = ys @ m # zs" using assms(1) by (meson split_list)
  have "I (fold f ys s)" by (rule fold_keeps) (use assms(2,3) xs in auto)
  then have "R (f m (fold f ys s))" using assms(5) by blast
  then have "R (fold f zs (f m (fold f ys s)))" by (rule fold_keeps) (use assms(4) xs in auto)
  then show ?thesis by (simp add: xs)
qed

lemma is_key_score: "m \<in> set PUBLISHED_SCORE_METRICS \<Longrightarrow> is_key (metric_key m)"
  using parse_metric_key is_key_parse by blast

lemma has_snoc: "has (chosen @ [(k, r)]) norm \<longleftrightarrow> has chosen norm \<or> k_norm k = norm"
  by (auto simp: has_def)

lemma try_key_mono: "has chosen norm \<Longrightarrow> has (snd (try_key every live rows chosen candidate)) norm"
  using try_key_cases [of candidate chosen rows every live] by (auto simp: has_snoc)

lemma covering_score:
  assumes "m \<in> set PUBLISHED_SCORE_METRICS"
  shows "covering (todays_rows cfg) (metric_key m) = Some \<lparr>or_key = metric_key m, or_relay = ta_relay_public_url cfg\<rparr>"
proof -
  have "covers (metric_key m) (metric_key m)" by (simp add: covers_def metric_key_def)
  then obtain row where row: "covering (todays_rows cfg) (metric_key m) = Some row"
    using keyed_by.best_of_None [of or_key "\<lambda>r. covers (or_key r) (metric_key m)" None "todays_rows cfg"] score_row_today [OF assms]
    unfolding covering_def by (metis not_None_eq offer_row.select_convs(1))
  then have "row \<in> set (todays_rows cfg)" "covers (or_key row) (metric_key m)" using covering_Some by auto
  moreover from this obtain m' where "row = \<lparr>or_key = metric_key m', or_relay = ta_relay_public_url cfg\<rparr>"
    using todays_score_row [of row cfg] by (auto simp: covers_def metric_key_def SCORE_KIND_def)
  ultimately show ?thesis using row by (auto simp: covers_def metric_key_def)
qed

lemma try_score:
  assumes "m \<in> set PUBLISHED_SCORE_METRICS" "su_status scores = ''live''" "score_duty groups assistant m"
    "only_scores cfg groups assistant scores chosen"
  shows "has (snd (try_key (todays_duties groups assistant) (todays_live cfg groups scores) (todays_rows cfg) chosen (Some (metric_key m))))
    (''30382:'' @ m)"
proof (cases "has chosen (''30382:'' @ m)")
  case True
  then show ?thesis by (rule try_key_mono)
next
  case False
  let ?every = "todays_duties groups assistant" and ?live = "todays_live cfg groups scores"
  let ?d = "duty_at groups assistant (score_probe m)"
  have d: "?d \<in> set ?every" "d_duty ?d" "d_probe ?d = score_probe m"
    using score_duty_at [OF assms(1)] assms(3) score_probe_built [OF assms(1)]
    by (auto simp: todays_duties_def duties_of_def duty_at_def Let_def)
  have "w = metric_key m" if "winner_of (map fst chosen @ [metric_key m]) (score_probe m) (\<lambda>k. k) = Some w" for w
  proof -
    have "w \<in> set (map fst chosen @ [metric_key m])" "matches w (score_probe m)" using winner_of_Some(1,2) [OF that] by auto
    then show ?thesis using assms(4) matches_metric_key by (auto simp: only_scores_def probe_at_def)
  qed
  moreover have "winner_of (map fst chosen @ [metric_key m]) (score_probe m) (\<lambda>k. k) \<noteq> None"
    using winner_of_None [of "map fst chosen @ [metric_key m]" "score_probe m" "\<lambda>k. k"] matches_metric_key [of m "score_probe m"] by simp
  ultimately have "?d \<in> set (would_win ?every chosen (metric_key m))"
    using d matches_metric_key [of m "score_probe m"] by (auto simp: would_win_def)
  moreover have "\<forall>d\<in>set (would_win ?every chosen (metric_key m)). live_at ?live (ta_relay_public_url cfg) (d_probe d)"
    using matches_metric_key live_at_today(2) [OF assms(1,2)] by (auto simp: would_win_def)
  ultimately have "valid ?every ?live chosen (metric_key m) (ta_relay_public_url cfg)"
    by (auto simp: valid_def Let_def list_all_iff)
  then show ?thesis using False covering_score [OF assms(1), of cfg]
    by (simp add: try_key_def has_snoc metric_key_def)
qed

lemma meets_of_contains:
  assumes "kind \<in> set (k_kinds k)" "kind \<in> set (offer_kinds rows)" "meet_of k kind = Some m"
  shows "m \<in> set (meets_of rows k)"
proof -
  let ?f = "\<lambda>kind meets. case (if kind \<in> set (offer_kinds rows) then meet_of k kind else None) of
      None \<Rightarrow> meets | Some m \<Rightarrow> if list_all (\<lambda>x. k_norm x \<noteq> k_norm m) meets then meets @ [m] else meets"
  have "\<exists>x\<in>set (fold ?f (k_kinds k) []). k_norm x = k_norm m"
    by (rule fold_reaches [where m = kind and I = "\<lambda>_. True"])
      (use assms in \<open>auto split: option.split simp: list_all_iff\<close>)
  then obtain x where x: "x \<in> set (meets_of rows k)" "k_norm x = k_norm m" unfolding meets_of_def by blast
  moreover have "is_key x" "is_key m"
    using meets_of_member [OF x(1)] assms(3) is_key_parse by (auto simp: meet_of_def)
  ultimately show ?thesis using is_key_inj by blast
qed

lemma try_meet_adds:
  assumes m: "m \<in> set PUBLISHED_SCORE_METRICS" "su_status scores = ''live''" "winner_of groups (score_probe m) g_key = Some g"
      "py_lower assistant \<in> set (g_providers g)"
    and ch: "only_scores cfg groups assistant scores chosen"
    and meet: "meet = metric_key m \<and> k_norm (g_key g) \<noteq> k_norm meet \<or> meet = bare_key ''30382'' [30382] 3"
  shows "has (try_meet (todays_duties groups assistant) (todays_live cfg groups scores) (todays_rows cfg) (g_key g) meet chosen) (''30382:'' @ m)"
proof -
  let ?every = "todays_duties groups assistant" and ?live = "todays_live cfg groups scores" and ?rows = "todays_rows cfg"
  have duty: "score_duty groups assistant m" using m by (auto simp: score_duty_def)
  show ?thesis
    using meet
  proof
    assume eq: "meet = metric_key m \<and> k_norm (g_key g) \<noteq> k_norm meet"
    have "has (snd (try_key ?every ?live ?rows chosen (Some meet))) (''30382:'' @ m)"
      using try_score [OF m(1,2) duty ch] eq by simp
    then show ?thesis using eq by (auto simp: try_meet_def metric_key_def split: prod.split bool.split)
  next
    assume bare: "meet = bare_key ''30382'' [30382] 3"
    have "is_key meet" using parse_bare_keys(1) is_key_parse bare by blast
    moreover have "meet \<noteq> metric_key m'" for m' by (simp add: bare bare_key_def metric_key_def)
    ultimately have failed: "try_key ?every ?live ?rows chosen (Some meet) = (False, chosen)"
      using try_key_cases [of "Some meet" chosen ?rows ?every ?live] valid_score [of meet cfg _ groups assistant scores chosen] by blast
    have "m \<in> set (metric_duties ?every (g_key g))"
      using m score_duty_at [OF m(1), of groups assistant] duty by (auto simp: metric_duties_def duty_at_def Let_def)
    then have "has (fold (\<lambda>metric ch. snd (try_key ?every ?live ?rows ch (parse_str (''30382:'' @ metric)))) (metric_duties ?every (g_key g)) chosen)
        (''30382:'' @ m)"
    proof (rule fold_reaches [where I = "only_scores cfg groups assistant scores"])
      show "only_scores cfg groups assistant scores (snd (try_key ?every ?live ?rows s (parse_str (''30382:'' @ x))))"
        if "only_scores cfg groups assistant scores s" for s x
        by (rule choose_only_scores [OF that]) (use is_key_parse in blast)
      show "has (snd (try_key ?every ?live ?rows s (parse_str (''30382:'' @ m)))) (''30382:'' @ m)"
        if "only_scores cfg groups assistant scores s" for s
        using try_score [OF m(1,2) duty that] parse_metric_key [OF m(1)] by simp
    qed (use ch try_key_mono in auto)
    then show ?thesis using failed bare by (auto simp: try_meet_def bare_key_def SCORE_KIND_def)
  qed
qed

lemma meets_add:
  assumes m: "m \<in> set PUBLISHED_SCORE_METRICS" "su_status scores = ''live''" "winner_of groups (score_probe m) g_key = Some g"
      "py_lower assistant \<in> set (g_providers g)"
    and ch: "only_scores cfg groups assistant scores chosen" and key: "is_key (g_key g)"
    and apart: "k_norm (g_key g) \<noteq> k_norm (metric_key m)"
  shows "has (fold (try_meet (todays_duties groups assistant) (todays_live cfg groups scores) (todays_rows cfg) (g_key g))
    (most_specific_first (meets_of (todays_rows cfg) (g_key g))) chosen) (''30382:'' @ m)"
proof -
  let ?every = "todays_duties groups assistant" and ?live = "todays_live cfg groups scores" and ?rows = "todays_rows cfg"
  let ?k = "g_key g"
  have wins: "matches ?k (score_probe m)" using winner_of_Some(2) [OF m(3)] .
  have kinds: "SCORE_KIND \<in> set (k_kinds ?k)" and scope: "k_scope ?k = All \<or> k_scope ?k = Metric m"
    using wins is_key_scope(2) [OF key] by (auto simp: matches_def probe_at_def split: scope.splits)
  have offered: "SCORE_KIND \<in> set (offer_kinds ?rows)"
    using score_row_today [OF m(1), of cfg] by (force simp: offer_kinds_def metric_key_def SCORE_KIND_def)
  define meet where "meet = (if k_scope ?k = All then bare_key ''30382'' [30382] 3 else metric_key m)"
  have "meet_of ?k SCORE_KIND = Some meet"
    using show_score_kind parsed_segs [OF key [unfolded is_key_def]] scope parse_bare_keys(1) parse_metric_key [OF m(1)]
    by (auto simp: meet_of_def meet_def)
  then have "meet \<in> set (most_specific_first (meets_of ?rows ?k))" using meets_of_contains kinds offered by simp
  then show "has (fold (try_meet ?every ?live ?rows ?k) (most_specific_first (meets_of ?rows ?k)) chosen) (''30382:'' @ m)"
  proof (rule fold_reaches [where I = "only_scores cfg groups assistant scores"])
    have meets: "is_key x" if "x \<in> set (most_specific_first (meets_of ?rows ?k))" for x
      using meets_of_member is_key_parse that unfolding meet_of_def by fastforce
    show "only_scores cfg groups assistant scores (try_meet ?every ?live ?rows ?k x s)"
      if "x \<in> set (most_specific_first (meets_of ?rows ?k))" "only_scores cfg groups assistant scores s" for x s
      by (rule choose_keeps(1) [OF choose_only_scores meets [OF that(1)] that(2)])
    show "has (try_meet ?every ?live ?rows ?k x s) (''30382:'' @ m)"
      if "x \<in> set (most_specific_first (meets_of ?rows ?k))" "has s (''30382:'' @ m)" for x s
      by (rule choose_keeps(1) [where P = "\<lambda>ch. has ch (''30382:'' @ m)", OF try_key_mono meets [OF that(1)] that(2)])
    show "has (try_meet ?every ?live ?rows ?k meet s) (''30382:'' @ m)" if "only_scores cfg groups assistant scores s" for s
      by (rule try_meet_adds [OF m that]) (use apart in \<open>auto simp: meet_def\<close>)
  qed (rule ch)
qed

lemma try_mine_adds:
  assumes m: "m \<in> set PUBLISHED_SCORE_METRICS" "su_status scores = ''live''" "winner_of groups (score_probe m) g_key = Some g"
      "py_lower assistant \<in> set (g_providers g)"
    and ch: "only_scores cfg groups assistant scores chosen" and key: "is_key (g_key g)"
  shows "has (try_mine (todays_duties groups assistant) (todays_live cfg groups scores) (todays_rows cfg) (g_key g) chosen) (''30382:'' @ m)"
proof -
  let ?every = "todays_duties groups assistant" and ?live = "todays_live cfg groups scores" and ?rows = "todays_rows cfg"
  let ?k = "g_key g"
  have wins: "matches ?k (score_probe m)" using winner_of_Some(2) [OF m(3)] .
  have duty: "score_duty groups assistant m" using m by (auto simp: score_duty_def)
  have own: "m' = m" if "?k = metric_key m'" for m' using wins that matches_metric_key by (auto simp: probe_at_def)
  consider (has) "has chosen (k_norm ?k)" | (tried) "\<not> has chosen (k_norm ?k)" "fst (try_key ?every ?live ?rows chosen (Some ?k))"
    | (failed) "\<not> has chosen (k_norm ?k)" "try_key ?every ?live ?rows chosen (Some ?k) = (False, chosen)"
    using try_key_cases [of "Some ?k" chosen ?rows ?every ?live] by fastforce
  then show ?thesis
  proof cases
    case has
    then obtain m' where m': "m' \<in> set PUBLISHED_SCORE_METRICS" "k_norm ?k = k_norm (metric_key m')"
      using ch by (auto simp: has_def only_scores_def list_ex_iff)
    then have "m' = m" using own is_key_inj [OF key is_key_score [OF m'(1)]] by blast
    then show ?thesis using has m'(2) by (simp add: try_mine_def metric_key_def)
  next
    case tried
    then obtain row where "covering ?rows ?k = Some row" "valid ?every ?live chosen ?k (or_relay row)"
      "try_key ?every ?live ?rows chosen (Some ?k) = (True, chosen @ [(?k, or_relay row)])"
      using try_key_cases [of "Some ?k" chosen ?rows ?every ?live] by auto
    moreover from valid_score [OF key this(1,2)] own have "?k = metric_key m" by blast
    ultimately show ?thesis using tried(1) by (simp add: try_mine_def has_snoc metric_key_def)
  next
    case failed
    have "?k \<noteq> metric_key m"
    proof
      assume k: "?k = metric_key m"
      from try_score [OF m(1,2) duty ch] failed(2) k have "has chosen (''30382:'' @ m)" by simp
      then show False using failed(1) k by (simp add: metric_key_def)
    qed
    then have apart: "k_norm ?k \<noteq> k_norm (metric_key m)" using is_key_inj [OF key is_key_score [OF m(1)]] by blast
    then have "has (fold (try_meet ?every ?live ?rows ?k) (most_specific_first (meets_of ?rows ?k)) chosen) (''30382:'' @ m)"
      by (rule meets_add [OF m ch key])
    then show ?thesis using failed by (simp add: try_mine_def)
  qed
qed

lemma chosen_today:
  assumes "well_grouped groups"
  shows "set (choose_entries groups assistant (todays_duties groups assistant) (todays_live cfg groups scores) (todays_rows cfg))
    = (if su_status scores = ''live''
       then (\<lambda>m. (metric_key m, ta_relay_public_url cfg)) ` {m \<in> set PUBLISHED_SCORE_METRICS. score_duty groups assistant m} else {})"
    (is "set ?chosen = ?target")
proof -
  let ?mine = "most_specific_first (mine_of groups assistant)"
  have keys: "\<forall>k\<in>set ?mine. is_key k" using assms by (auto simp: mine_of_def well_grouped_def)
  have only: "only_scores cfg groups assistant scores ?chosen" unfolding choose_entries_def
    by (rule choose_keeps(3) [where P = "only_scores cfg groups assistant scores", OF choose_only_scores])
      (use keys in \<open>auto simp: only_scores_def\<close>)
  have "(metric_key m, ta_relay_public_url cfg) \<in> set ?chosen"
    if m: "m \<in> set PUBLISHED_SCORE_METRICS" "score_duty groups assistant m" "su_status scores = ''live''" for m
  proof -
    obtain g where g: "winner_of groups (score_probe m) g_key = Some g" "py_lower assistant \<in> set (g_providers g)"
      using m(2) by (auto simp: score_duty_def split: option.splits)
    then have mine: "g_key g \<in> set ?mine" using winner_of_Some(1) [OF g(1)] by (auto simp: mine_of_def)
    have "has ?chosen (''30382:'' @ m)" unfolding choose_entries_def
    proof (rule fold_reaches [where I = "only_scores cfg groups assistant scores", OF mine])
      let ?mine_of = "try_mine (todays_duties groups assistant) (todays_live cfg groups scores) (todays_rows cfg)"
      show "only_scores cfg groups assistant scores []" by (simp add: only_scores_def)
      show "only_scores cfg groups assistant scores (?mine_of x s)" if "x \<in> set ?mine" "only_scores cfg groups assistant scores s" for x s
        by (rule choose_keeps(2) [where P = "only_scores cfg groups assistant scores", OF choose_only_scores]) (use keys that in auto)
      show "has (?mine_of x s) (''30382:'' @ m)" if "x \<in> set ?mine" "has s (''30382:'' @ m)" for x s
        by (rule choose_keeps(2) [where P = "\<lambda>ch. has ch (''30382:'' @ m)", OF try_key_mono]) (use keys that in auto)
      show "has (?mine_of (g_key g) s) (''30382:'' @ m)" if "only_scores cfg groups assistant scores s" for s
        using try_mine_adds [OF m(1,3) g that] keys mine by blast
    qed
    then obtain m' where "m' \<in> set PUBLISHED_SCORE_METRICS" "(metric_key m', ta_relay_public_url cfg) \<in> set ?chosen" "k_norm (metric_key m') = ''30382:'' @ m"
      using only by (fastforce simp: has_def only_scores_def list_ex_iff)
    then show ?thesis by (simp add: metric_key_def)
  qed
  then have "?target \<subseteq> set ?chosen" by auto
  moreover have "set ?chosen \<subseteq> ?target" using only unfolding only_scores_def by (intro subsetI) fastforce
  ultimately show ?thesis by blast
qed

definition metric_index :: "string \<Rightarrow> nat" where
  "metric_index m = length (takeWhile (\<lambda>x. x \<noteq> m) PUBLISHED_SCORE_METRICS)"

lemma metric_index_sorted: "sorted (map metric_index (filter P PUBLISHED_SCORE_METRICS))" "inj_on metric_index (set PUBLISHED_SCORE_METRICS)"
  "distinct PUBLISHED_SCORE_METRICS"
proof -
  have "map metric_index PUBLISHED_SCORE_METRICS = [0..<5]" by code_simp
  then have "sorted (map metric_index PUBLISHED_SCORE_METRICS)" "distinct (map metric_index PUBLISHED_SCORE_METRICS)" by simp_all
  then show "sorted (map metric_index (filter P PUBLISHED_SCORE_METRICS))" "inj_on metric_index (set PUBLISHED_SCORE_METRICS)"
    "distinct PUBLISHED_SCORE_METRICS"
    by (simp_all add: sorted_filter distinct_map)
qed

lemma order_of_score:
  assumes "m \<in> set PUBLISHED_SCORE_METRICS"
  shows "order_of (todays_rows cfg) (metric_key m) = metric_index m"
proof -
  let ?row = "\<lambda>m. \<lparr>or_key = metric_key m, or_relay = ta_relay_public_url cfg\<rparr>"
  obtain rest where rows: "todays_rows cfg = map ?row PUBLISHED_SCORE_METRICS @ rest" by (auto simp: todays_rows_def Let_def)
  have inj: "metric_key x = metric_key m \<longleftrightarrow> x = m" for x by (auto simp: metric_key_def)
  have "takeWhile (\<lambda>r. r \<noteq> ?row m) (map ?row PUBLISHED_SCORE_METRICS @ rest) = takeWhile (\<lambda>r. r \<noteq> ?row m) (map ?row PUBLISHED_SCORE_METRICS)"
    using assms by (intro takeWhile_append1 [where x = "?row m"]) auto
  then show ?thesis using covering_score [OF assms, of cfg]
    by (simp add: order_of_def rows takeWhile_map metric_index_def o_def inj)
qed

lemma should_say_today:
  assumes "well_grouped groups"
  shows "build_should_say groups assistant (todays_duties groups assistant) (todays_live cfg groups scores) (todays_rows cfg)
    = map (\<lambda>m. (metric_key m, ta_relay_public_url cfg))
        (if su_status scores = ''live'' then filter (score_duty groups assistant) PUBLISHED_SCORE_METRICS else [])"
proof -
  let ?relay = "ta_relay_public_url cfg" and ?f = "\<lambda>(k, _). order_of (todays_rows cfg) k"
  let ?ms = "if su_status scores = ''live'' then filter (score_duty groups assistant) PUBLISHED_SCORE_METRICS else []"
  let ?chosen = "choose_entries groups assistant (todays_duties groups assistant) (todays_live cfg groups scores) (todays_rows cfg)"
  let ?target = "map (\<lambda>m. (metric_key m, ?relay)) ?ms"
  have set: "set (sort_key ?f ?chosen) = set ?target" using chosen_today [OF assms] by (auto split: if_splits)
  have order: "map ?f ?target = map metric_index ?ms" using order_of_score by auto
  have "inj_on metric_index (set ?ms)" using metric_index_sorted(2) by (auto intro: inj_on_subset)
  then have inj: "inj_on ?f (set ?target)" using order_of_score by (auto simp: inj_on_def split: if_splits)
  have "sort_key ?f ?chosen = ?target"
  proof (rule map_sorted_distinct_set_unique [where f = ?f])
    have "entries_ok ?chosen" using choose_sound assms by (auto simp: well_grouped_def)
    then have "distinct (sort_key ?f ?chosen)" by (simp add: entries_ok_def distinct_map)
    then show "distinct (map ?f (sort_key ?f ?chosen))" using inj set by (simp add: distinct_map)
    show "sorted (map ?f ?target)" "distinct (map ?f ?target)"
      unfolding order using metric_index_sorted by (auto simp: distinct_map inj_on_def)
  qed (use set inj in auto)
  then show ?thesis by (simp add: build_should_say_def)
qed

text \<open>
  What the Assistant's Treasure Map should list, exactly. With the offer of today, for any Map
  a reader publishes, the check succeeds and says: while the Assistant's scores are live, the key
  of each published metric whose most specific entry in the reader's Map names the
  Assistant, at the relay the scores are published to, in the order they are offered; and nothing
  else, nothing at all when the scores are not live.
\<close>
lemma should_say_exact:
  assumes "ta_relay_public_url cfg \<noteq> []"
  shows "\<exists>check. evaluate_self_map (map_groups event) (offer_rows cfg assistant) assistant scores = Inr check
    \<and> smc_should_say check = (if su_status scores = ''live''
        then map (\<lambda>m. (''30382:'' @ m, ta_relay_public_url cfg)) (filter (score_duty (map_groups event) assistant) PUBLISHED_SCORE_METRICS)
        else [])"
  using new_offer_today [OF assms] should_say_today [OF map_groups_well]
  by (auto simp: evaluate_self_map_eq Let_def todays_duties_def todays_live_def metric_key_def)

section \<open>When the upkeep of scores matters\<close>

text \<open>Two readings of what is live that agree on every part won by an entry naming the Assistant.\<close>

definition agree_on_mine :: "string \<Rightarrow> duty list \<Rightarrow> (probe \<Rightarrow> liveness option) \<Rightarrow> (probe \<Rightarrow> liveness option) \<Rightarrow> bool" where
  "agree_on_mine assistant every l1 l2 \<longleftrightarrow>
     (\<forall>d\<in>set every. \<forall>g. d_winner d = Some g \<and> py_lower assistant \<in> set (g_providers g) \<longrightarrow> l1 (d_probe d) = l2 (d_probe d))"

lemma build_should_say_cong:
  assumes "agree_on_mine assistant every l1 l2"
    "\<forall>d\<in>set every. d_duty d \<longrightarrow> (\<exists>g. d_winner d = Some g \<and> py_lower assistant \<in> set (g_providers g))"
  shows "build_should_say groups assistant every l1 rows = build_should_say groups assistant every l2 rows"
proof -
  have "l1 (d_probe d) = l2 (d_probe d)" if "d \<in> set (would_win every chosen k)" for d chosen k
    using assms that by (fastforce simp: would_win_def agree_on_mine_def)
  then have "valid every l1 chosen k relay = valid every l2 chosen k relay" for chosen k relay
    by (auto simp: valid_def Let_def list_all_iff live_at_def)
  then have keys: "try_key every l1 rows = try_key every l2 rows" by (auto simp: try_key_def fun_eq_iff split: option.split)
  have meets: "try_meet every l1 rows = try_meet every l2 rows" by (intro ext) (simp only: try_meet_def keys)
  have "try_mine every l1 rows = try_mine every l2 rows" by (intro ext) (simp only: try_mine_def keys meets)
  then show ?thesis by (simp add: build_should_say_def choose_entries_def)
qed

lemma part_entries_cong: "\<forall>p\<in>set ps. l1 p = l2 p \<Longrightarrow> part_entries should l1 acc ps = part_entries should l2 acc ps"
  by (induction ps arbitrary: acc) (auto split: option.split prod.split)

lemma part_line_cong:
  assumes "\<forall>d\<in>set part. l1 (d_probe d) = l2 (d_probe d)" "part \<noteq> []"
  shows "part_line k row part l1 should = part_line k row part l2 should"
proof -
  have "hd part \<in> set part" using assms(2) by simp
  then have first: "l1 (d_probe (hd part)) = l2 (d_probe (hd part))" using assms(1) by blast
  have "map (\<lambda>p. the (l1 p)) (map d_probe (filter d_duty part)) = map (\<lambda>p. the (l2 p)) (map d_probe (filter d_duty part))"
    using assms(1) by auto
  moreover have "part_entries should l1 [] (map d_probe (filter d_duty part)) = part_entries should l2 [] (map d_probe (filter d_duty part))"
    by (rule part_entries_cong) (use assms(1) in auto)
  ultimately show ?thesis unfolding part_line_def Let_def by (simp only: first)
qed

lemma duty_lines_cong:
  assumes "agree_on_mine assistant every l1 l2"
  shows "duty_lines groups assistant every l1 rows should = duty_lines groups assistant every l2 rows should"
proof -
  have "group_lines assistant every l1 rows should g ls = group_lines assistant every l2 rows should g ls" for g ls
  proof (cases "py_lower assistant \<in> set (g_providers g)")
    case True
    let ?part = "\<lambda>row. filter (\<lambda>d. answer rows (d_probe d) = Some row) (filter (\<lambda>d. d_winner d = Some g) every)"
    have "(case ?part row of [] \<Rightarrow> None | d # ds \<Rightarrow> Some (part_line (g_key g) row (d # ds) l1 should))
        = (case ?part row of [] \<Rightarrow> None | d # ds \<Rightarrow> Some (part_line (g_key g) row (d # ds) l2 should))" for row
    proof (cases "?part row")
      case (Cons d ds)
      have "\<forall>d\<in>set (?part row). l1 (d_probe d) = l2 (d_probe d)" using assms True by (auto simp: agree_on_mine_def)
      then show ?thesis using part_line_cong [of "d # ds" l1 l2] Cons by (simp only: list.simps) simp
    qed simp
    then show ?thesis unfolding group_lines_def Let_def by (simp only:)
  qed (simp add: group_lines_def)
  then have "group_lines assistant every l1 rows should = group_lines assistant every l2 rows should" by (intro ext)
  then show ?thesis by (simp add: duty_lines_def)
qed

lemma evaluate_live_elsewhere: "p_kind p \<noteq> SCORE_KIND \<Longrightarrow> evaluate_live p rows s1 = evaluate_live p rows s2"
  by (simp add: evaluate_live_def split: option.split)

text \<open>
  The upkeep of scores is read only when it matters. Where no entry of the reader's Map that
  names the Assistant covers kind 30382, what the check answers, its lines and the
  self-entries alike, does not depend on whether the scores are kept up to date; so the service
  may skip reading it.
\<close>
lemma upkeep_matters_only_when_asked:
  assumes "\<not> asks_for_scores groups assistant"
  shows "evaluate_self_map groups offered assistant s1 = evaluate_self_map groups offered assistant s2"
proof -
  let ?probes = "build_probes (map g_key groups)"
  let ?every = "duties_of groups assistant ?probes" and ?live = "\<lambda>s rows. map_of (map (\<lambda>p. (p, evaluate_live p rows s)) ?probes)"
  have other: "p_kind p \<noteq> SCORE_KIND" if "winner_of groups p g_key = Some g" "py_lower assistant \<in> set (g_providers g)" for p g
    using winner_of_Some(1,2) [OF that(1)] that(2) assms by (auto simp: asks_for_scores_def list_ex_iff matches_def)
  have same: "?live s1 rows p = ?live s2 rows p" if "p_kind p \<noteq> SCORE_KIND" for p rows
    using evaluate_live_elsewhere [OF that, of rows s1 s2] by (simp add: map_of_map_restrict restrict_map_def)
  have agree: "agree_on_mine assistant ?every (?live s1 rows) (?live s2 rows)" for rows
    using other same by (auto simp: agree_on_mine_def duties_of_def duty_at_def Let_def)
  have "\<forall>d\<in>set ?every. d_duty d \<longrightarrow> (\<exists>g. d_winner d = Some g \<and> py_lower assistant \<in> set (g_providers g))"
    by (auto simp: duties_of_def duty_at_def Let_def split: option.splits)
  from build_should_say_cong [OF agree this] duty_lines_cong [OF agree] show ?thesis
    by (simp add: evaluate_self_map_def Let_def)
qed

section \<open>A small Map\<close>

definition example_assistant :: string where "example_assistant = replicate 64 CHR ''a''"

definition example_map :: json where
  "example_map =
     (let tag = (\<lambda>k who. JList [JStr k, JStr who, JStr ''wss://hint''])
      in JObj [(''tags'', JList [tag ''30382'' example_assistant, tag ''30382:rank'' (replicate 64 CHR ''b''), tag ''3039x:'' example_assistant])])"

definition example_relays :: relay_settings where
  "example_relays = \<lparr>ta_relay_public_url = ''wss://scores'', trusted_list_relay = [], dictionary_relay = []\<rparr>"

definition example_upkeep :: upkeep where
  "example_upkeep = \<lparr>su_status = ''live'', su_last_landed_at = None\<rparr>"

lemma example_duties:
  "filter (score_duty (map_groups example_map) example_assistant) PUBLISHED_SCORE_METRICS = [''followers'', ''reporters'', ''muters'', ''hops'']"
  by code_simp

definition example_check :: self_map_check where
  "example_check = (case evaluate_self_map (map_groups example_map) (offer_rows example_relays example_assistant) example_assistant example_upkeep of
     Inr check \<Rightarrow> check | Inl _ \<Rightarrow> \<lparr>smc_duties = [], smc_should_say = []\<rparr>)"

lemma example_check:
  "evaluate_self_map (map_groups example_map) (offer_rows example_relays example_assistant) example_assistant example_upkeep = Inr example_check"
  "parsed_entries (smc_should_say example_check)
    = map (\<lambda>m. (metric_key m, ''wss://scores'')) [''followers'', ''reporters'', ''muters'', ''hops'']"
proof -
  have relay: "ta_relay_public_url example_relays \<noteq> []" by (simp add: example_relays_def)
  show check: "evaluate_self_map (map_groups example_map) (offer_rows example_relays example_assistant) example_assistant example_upkeep = Inr example_check"
    by (simp add: example_check_def evaluate_self_map_def new_offer_today [OF relay] Let_def)
  have "smc_should_say example_check = map (\<lambda>(k, relay). (k_norm k, relay))
      (build_should_say (map_groups example_map) example_assistant (todays_duties (map_groups example_map) example_assistant)
        (todays_live example_relays (map_groups example_map) example_upkeep) (todays_rows example_relays))"
    by (simp add: example_check_def evaluate_self_map_def new_offer_today [OF relay] Let_def todays_duties_def todays_live_def)
  then have "smc_should_say example_check = map (\<lambda>(k, relay). (k_norm k, relay))
      (map (\<lambda>m. (metric_key m, ''wss://scores'')) [''followers'', ''reporters'', ''muters'', ''hops''])"
    unfolding should_say_today [OF map_groups_well] example_duties by (simp add: example_upkeep_def example_relays_def)
  moreover have "\<forall>m\<in>set [''followers'', ''reporters'', ''muters'', ''hops'']. is_key (metric_key m)"
    using is_key_score by (simp add: PUBLISHED_SCORE_METRICS_def TA_METRIC_TAGS_def)
  ultimately show "parsed_entries (smc_should_say example_check)
    = map (\<lambda>m. (metric_key m, ''wss://scores'')) [''followers'', ''reporters'', ''muters'', ''hops'']"
    by (simp add: parsed_entries_def map_filter_simps is_key_def)
qed

theorem self_map_claims_only_live_witness:
  "\<exists>rows. new_offer (offer_rows example_relays example_assistant) = Inr rows
     \<and> l_live (evaluate_live (score_probe ''hops'') rows example_upkeep)
     \<and> l_relay (evaluate_live (score_probe ''hops'') rows example_upkeep) = Some ''wss://scores''"
proof (rule self_map_claims_only_live [OF example_check(1)])
  show "score_probe ''hops'' \<in> set (build_probes (map g_key (map_groups example_map)))"
    by (rule score_probe_built) (simp add: PUBLISHED_SCORE_METRICS_def TA_METRIC_TAGS_def)
  show "d_duty (duty_at (map_groups example_map) example_assistant (score_probe ''hops''))" by code_simp
  have "winner_of (map (\<lambda>m. (metric_key m, ''wss://scores'')) [''followers'', ''reporters'', ''muters'', ''hops'']) (score_probe ''hops'') fst
      = Some (metric_key ''hops'', ''wss://scores'')" by code_simp
  then show "winner_of (parsed_entries (smc_should_say example_check)) (score_probe ''hops'') fst = Some (metric_key ''hops'', ''wss://scores'')"
    unfolding example_check(2) .
qed

end
