(* ===== verification/Nostr_Event.thy ===== *)
theory Nostr_Event
  imports Run_Requests
begin

text \<open>
  What the code asks of an event it received as JSON (\<^verbatim>\<open>app/utils/nostr.py\<close> and the idioms around
  it): numbers read from values, tags iterated as Python iterates them, the pubkeys its \<^verbatim>\<open>p\<close> tags name.
  An event of the wrong shape raises where the code would.
\<close>

section \<open>The interpreter's part\<close>

text \<open>A Python float.\<close>

datatype py_float = Fin rat | Pos_Inf | Neg_Inf | Not_A_Number

text \<open>What the interpreter decides and the code only relies on: the check \<^verbatim>\<open>urlsplit\<close> makes of a
  network location with brackets, which patch releases have changed; \<^verbatim>\<open>int\<close> of a float, by the text
  of the float; \<^verbatim>\<open>float\<close> of a text and \<^verbatim>\<open>json.loads\<close> of one, nothing where they raise.\<close>

record py_lib =
  brackets_ok :: "string \<Rightarrow> bool"
  float_int :: "string \<Rightarrow> (exn, int) result"
  float_of :: "string \<Rightarrow> py_float option"
  json_loads :: "string \<Rightarrow> json option"

text \<open>\<^verbatim>\<open>v == n\<close> of a JSON value and an integer that is neither 0 nor 1.\<close>

definition kind_is :: "json \<Rightarrow> int \<Rightarrow> bool" where
  "kind_is v n \<longleftrightarrow> v = JInt n \<or> v = JFloat (show_int n @ ''.0'')"

text \<open>\<^verbatim>\<open>int(v or 0)\<close>.\<close>

definition int_or_zero :: "py_lib \<Rightarrow> json \<Rightarrow> (exn, int) result" where
  "int_or_zero py v =
     (if \<not> truthy v then Inr 0
      else case v of
             JBool b \<Rightarrow> Inr 1
           | JInt i \<Rightarrow> Inr i
           | JFloat r \<Rightarrow> float_int py r
           | JStr s \<Rightarrow> (case py_int s of
                          None \<Rightarrow> Inl (ValueError (''invalid literal for int() with base 10: '' @ repr_str s))
                        | Some i \<Rightarrow> Inr i)
           | _ \<Rightarrow> Inl TypeError)"

fun result_map :: "('a \<Rightarrow> (exn, 'b) result) \<Rightarrow> 'a list \<Rightarrow> (exn, 'b list) result" where
  "result_map f [] = Inr []"
| "result_map f (x # xs) = result_bind (f x) (\<lambda>y. result_bind (result_map f xs) (\<lambda>ys. Inr (y # ys)))"

lemma result_map_Inr: "result_map f xs = Inr ys \<longleftrightarrow> list_all2 (\<lambda>x y. f x = Inr y) xs ys"
  by (induction xs arbitrary: ys) (auto simp: result_bind_eq_Inr list_all2_Cons1)

section \<open>Tags\<close>

text \<open>\<^verbatim>\<open>for tag in tags\<close>: a text gives its characters, a dictionary its keys; nothing else that is
  not a list can be iterated.\<close>

fun iter_json :: "json \<Rightarrow> (exn, json list) result" where
  "iter_json (JList xs) = Inr xs"
| "iter_json (JStr s) = Inr (map (\<lambda>c. JStr [c]) s)"
| "iter_json (JObj d) = Inr (map (\<lambda>(k, _). JStr k) d)"
| "iter_json _ = Inl TypeError"

text \<open>\<^verbatim>\<open>event.get("tags", [])\<close>.\<close>

definition raw_tags :: "(string \<times> json) list \<Rightarrow> json" where
  "raw_tags event = (case map_of event ''tags'' of None \<Rightarrow> JList [] | Some v \<Rightarrow> v)"

text \<open>\<^verbatim>\<open>tag and tag[0]\<close>: nothing where the tag is falsy.\<close>

definition tag_head :: "json \<Rightarrow> (exn, json option) result" where
  "tag_head tag =
     (if \<not> truthy tag then Inr None
      else case tag of
             JList xs \<Rightarrow> Inr (Some (hd xs))
           | JStr s \<Rightarrow> Inr (Some (JStr [hd s]))
           | JObj _ \<Rightarrow> Inl KeyError
           | _ \<Rightarrow> Inl TypeError)"

text \<open>\<^verbatim>\<open>tag[1]\<close> where it is a text; of a text it is one character.\<close>

fun tag_text :: "json \<Rightarrow> string option" where
  "tag_text (JList (_ # JStr s # _)) = Some s"
| "tag_text (JStr (_ # c # _)) = Some [c]"
| "tag_text _ = None"

definition p_tag_pubkey :: "json \<Rightarrow> (exn, string option) result" where
  "p_tag_pubkey tag =
     result_bind (tag_head tag) (\<lambda>h. Inr
       (if h \<noteq> Some (JStr ''p'') then None
        else case tag_text tag of
               None \<Rightarrow> None
             | Some s \<Rightarrow> let pubkey = map lower_char s in if hex_pubkey pubkey then Some pubkey else None))"

fun add_once :: "'a option list \<Rightarrow> 'a list \<Rightarrow> 'a list" where
  "add_once [] out = out"
| "add_once (None # xs) out = add_once xs out"
| "add_once (Some x # xs) out = add_once xs (if x \<in> set out then out else out @ [x])"

definition p_tag_pubkeys :: "json \<Rightarrow> (exn, string list) result" where
  "p_tag_pubkeys tags =
     result_bind (iter_json tags) (\<lambda>ts. result_bind (result_map p_tag_pubkey ts) (\<lambda>ps. Inr (add_once ps [])))"

text \<open>\<^verbatim>\<open>tag_values(event.get("tags") or [], name)\<close>.\<close>

definition tag_values :: "(string \<times> json) list \<Rightarrow> string \<Rightarrow> (exn, json list) result" where
  "tag_values event name =
     result_bind (event_tags event) (\<lambda>tags.
       Inr (map (\<lambda>t. t ! 1) (filter (\<lambda>t. length t \<ge> 2 \<and> hd t = JStr name) tags)))"

lemma add_once_set: "set (add_once xs out) = set out \<union> {x. Some x \<in> set xs}"
  by (induction xs out rule: add_once.induct) auto

lemma add_once_distinct: "distinct out \<Longrightarrow> distinct (add_once xs out)"
  by (induction xs out rule: add_once.induct) auto

lemma p_tag_pubkeys_distinct: "p_tag_pubkeys tags = Inr ps \<Longrightarrow> distinct ps"
  by (auto simp: p_tag_pubkeys_def result_bind_eq_Inr intro: add_once_distinct)

lemma p_tag_pubkeys_hex: "p_tag_pubkeys tags = Inr ps \<Longrightarrow> p \<in> set ps \<Longrightarrow> hex_pubkey p"
proof -
  assume run: "p_tag_pubkeys tags = Inr ps" and p: "p \<in> set ps"
  from run obtain ts qs where qs: "list_all2 (\<lambda>x y. p_tag_pubkey x = Inr y) ts qs" and ps: "ps = add_once qs []"
    by (auto simp: p_tag_pubkeys_def result_bind_eq_Inr result_map_Inr)
  from p ps obtain t where "p_tag_pubkey t = Inr (Some p)"
    using qs by (auto simp: add_once_set list_all2_conv_all_nth in_set_conv_nth)
  then show ?thesis by (auto simp: p_tag_pubkey_def result_bind_eq_Inr Let_def split: if_splits option.splits)
qed

end
