(* ===== verification/Assistant_Relays.thy ===== *)
theory Assistant_Relays
  imports Self_Map Publish Nostr_Event "HOL-Library.AList" "HOL-Library.Product_Lexorder"
begin

text \<open>
  Relays by address, and the two events an Assistant signs about itself
  (\<^verbatim>\<open>services/duty_menu_build.py\<close>, and the end of \<^verbatim>\<open>services/self_map_build.py\<close>): one spelling per relay,
  where a version is read and sent, the tags of a Duty Menu and of a self-Map, and reading
  them back. The properties: what is written reads back as what was meant, and a list of
  targets names each relay once.
\<close>

section \<open>Splitting an address\<close>

record split_url =
  u_scheme :: string
  u_netloc :: string
  u_path :: string
  u_query :: string

definition ascii_alpha :: "char \<Rightarrow> bool" where
  "ascii_alpha c = (let n = (of_char c :: nat) in (65 \<le> n \<and> n \<le> 90) \<or> (97 \<le> n \<and> n \<le> 122))"

definition scheme_char :: "char \<Rightarrow> bool" where
  "scheme_char c \<longleftrightarrow> ascii_alpha c \<or> is_digit c \<or> c \<in> set ''+-.''"

definition unsafe_removed :: "string \<Rightarrow> string" where
  "unsafe_removed url =
     filter (\<lambda>c. c \<notin> {CHR 0x09, CHR 0x0A, CHR 0x0D}) (dropWhile (\<lambda>c. (of_char c :: nat) \<le> 32) url)"

text \<open>The scheme, lower-cased, and what follows it; no scheme where what stands before the
  first colon is not one.\<close>

definition split_scheme :: "string \<Rightarrow> string \<times> string" where
  "split_scheme url =
     (case partition_on CHR '':'' url of (head, found, rest) \<Rightarrow>
        if found \<and> head \<noteq> [] \<and> ascii_alpha (hd head) \<and> list_all scheme_char head
        then (py_lower head, rest) else ([], url))"

definition split_netloc :: "string \<Rightarrow> string \<times> string" where
  "split_netloc url =
     (if take 2 url = ''//''
      then (takeWhile (\<lambda>c. c \<notin> set ''/?#'') (drop 2 url), dropWhile (\<lambda>c. c \<notin> set ''/?#'') (drop 2 url))
      else ([], url))"

text \<open>\<^verbatim>\<open>None\<close> where it raises \<^verbatim>\<open>ValueError\<close>.\<close>

definition urlsplit :: "py_lib \<Rightarrow> string \<Rightarrow> split_url option" where
  "urlsplit py url =
     (case split_scheme (unsafe_removed url) of (scheme, after_scheme) \<Rightarrow>
      case split_netloc after_scheme of (netloc, after_netloc) \<Rightarrow>
        let opened = CHR ''['' \<in> set netloc; closed = CHR '']'' \<in> set netloc in
        if opened \<noteq> closed \<or> (opened \<and> \<not> brackets_ok py netloc) then None
        else let before_fragment = fst (partition_on CHR ''#'' after_netloc)
             in case partition_on CHR ''?'' before_fragment of (path, _, query) \<Rightarrow>
                  Some \<lparr>u_scheme = scheme, u_netloc = netloc, u_path = path, u_query = query\<rparr>)"

text \<open>What follows the last \<^verbatim>\<open>@\<close>: host and port.\<close>

definition host_info :: "string \<Rightarrow> string \<times> string" where
  "host_info netloc =
     (let hostinfo = last (split_on CHR ''@'' netloc) in
      case partition_on CHR ''['' hostinfo of (_, have_open, bracketed) \<Rightarrow>
        if have_open
        then (case partition_on CHR '']'' bracketed of (host, _, rest) \<Rightarrow> (host, snd (snd (partition_on CHR '':'' rest))))
        else (case partition_on CHR '':'' hostinfo of (host, _, port) \<Rightarrow> (host, port)))"

definition hostname :: "split_url \<Rightarrow> string" where
  "hostname u =
     (case partition_on CHR ''%'' (fst (host_info (u_netloc u))) of (host, found, zone) \<Rightarrow>
        py_lower host @ (if found then CHR ''%'' # zone else []))"

text \<open>\<^verbatim>\<open>None\<close> where it raises \<^verbatim>\<open>ValueError\<close>; \<^verbatim>\<open>Some None\<close> where there is no port.\<close>

definition port :: "split_url \<Rightarrow> nat option option" where
  "port u =
     (let p = snd (host_info (u_netloc u)) in
      if p = [] then Some None
      else if list_all is_digit p \<and> digits_val p \<le> 65535 then Some (Some (digits_val p)) else None)"

section \<open>One spelling of a relay\<close>

definition DEFAULT_PORTS :: "(string \<times> nat) list" where
  "DEFAULT_PORTS = [(''ws'', 80), (''wss'', 443)]"

definition relay_key :: "py_lib \<Rightarrow> string \<Rightarrow> string" where
  "relay_key py url =
     (let raw = strip url; plain = rstrip_slash (py_lower raw) in
      case urlsplit py raw of
        None \<Rightarrow> plain
      | Some parts \<Rightarrow>
          (case port parts of
             None \<Rightarrow> plain
           | Some p \<Rightarrow>
               if u_scheme parts = [] \<or> hostname parts = [] then plain
               else let scheme = py_lower (u_scheme parts);
                        bare = (if CHR '':'' \<in> set (hostname parts) then ''['' @ hostname parts @ '']'' else hostname parts);
                        host = (case p of
                                  None \<Rightarrow> bare
                                | Some n \<Rightarrow> if p \<noteq> map_of DEFAULT_PORTS scheme then bare @ '':'' @ show_nat n else bare);
                        query = (if u_query parts \<noteq> [] then ''?'' @ u_query parts else [])
                    in scheme @ ''://'' @ host @ rstrip_slash (u_path parts) @ query))"

record relay_target =
  rt_url :: string
  rt_write_url :: string

text \<open>The relay settings of a publish: those of the offer, and where scores are written.\<close>

record press_settings = relay_settings +
  ta_relay :: string

definition write_url :: "py_lib \<Rightarrow> press_settings \<Rightarrow> string \<Rightarrow> string" where
  "write_url py cfg url = (if relay_key py url = relay_key py (ta_relay_public_url cfg) then ta_relay cfg else url)"

definition target_keys :: "py_lib \<Rightarrow> relay_target \<Rightarrow> string set" where
  "target_keys py t = {relay_key py (rt_url t), relay_key py (rt_write_url t)}"

definition add_target :: "py_lib \<Rightarrow> press_settings \<Rightarrow> string \<Rightarrow> relay_target list \<Rightarrow> relay_target list" where
  "add_target py cfg url targets =
     (if url = [] then targets
      else let target = \<lparr>rt_url = url, rt_write_url = write_url py cfg url\<rparr> in
           if \<exists>t\<in>set targets. target_keys py target \<inter> target_keys py t \<noteq> {} then targets
           else targets @ [target])"

text \<open>The arguments \<^verbatim>\<open>*groups\<close> are given as their concatenation.\<close>

definition publish_targets :: "py_lib \<Rightarrow> press_settings \<Rightarrow> string list \<Rightarrow> relay_target list" where
  "publish_targets py cfg urls = fold (add_target py cfg) urls []"

definition KIND_0_PUBLISH_RELAYS :: "string list" where
  "KIND_0_PUBLISH_RELAYS =
     [''wss://relay.damus.io'', ''wss://relay.primal.net'', ''wss://nos.lol'', ''wss://relay.nostr.band'']"

definition assistant_relay_list :: "press_settings \<Rightarrow> string list" where
  "assistant_relay_list cfg =
     fold (\<lambda>relay relays. if relay \<noteq> [] \<and> relay \<notin> set relays then relays @ [relay] else relays)
       (ta_relay_public_url cfg # trusted_list_relay cfg # KIND_0_PUBLISH_RELAYS) []"

section \<open>The Duty Menu\<close>

definition DUTY_MENU_KIND :: int where "DUTY_MENU_KIND = 39999"
definition DUTY_MENU_D :: string where "DUTY_MENU_D = ''duty-menu''"
definition NOUS_PUBKEY :: string where
  "NOUS_PUBKEY = ''15f7dafc4624b1e6b00ab7f863de1a53b71967528070ec7d1837c7a40c1c7270''"
definition DUTY_MENU_HEADER :: string where
  "DUTY_MENU_HEADER = ''39998:'' @ NOUS_PUBKEY @ '':'' @ DUTY_MENU_D"
definition NOUS_MENU_RELAYS :: "string list" where "NOUS_MENU_RELAYS = [''wss://dcosl.brainstorm.world'']"

text \<open>\<^verbatim>\<open>^39998:[0-9a-f]{64}:concept-header$\<close>, ignoring case; \<^verbatim>\<open>$\<close> allows one final newline.\<close>

definition concept_header_z :: "string \<Rightarrow> bool" where
  "concept_header_z s =
     (let l = py_lower (chomp s) in
      length l = 85 \<and> take 6 l = ''39998:'' \<and> hex64 (take 64 (drop 6 l)) \<and> drop 70 l = '':concept-header'')"

definition build_menu_tags :: "string \<Rightarrow> (string \<times> string) list \<Rightarrow> string list list" where
  "build_menu_tags assistant_pubkey rows =
     [[''d'', DUTY_MENU_D], [''z'', DUTY_MENU_HEADER], [''p'', assistant_pubkey]]
     @ map (\<lambda>(k, relay). [''duty'', k, relay]) rows"

definition tags_named :: "string \<Rightarrow> json list list \<Rightarrow> json list list" where
  "tags_named name = filter (\<lambda>t. hd t = JStr name)"

definition is_duty_menu :: "json \<Rightarrow> string \<Rightarrow> (exn, bool) result" where
  "is_duty_menu event author =
     (case as_dict event of
        None \<Rightarrow> Inr False
      | Some ev \<Rightarrow>
          if \<not> kind_is (get ev ''kind'') DUTY_MENU_KIND then Inr False
          else result_bind (event_tags ev) (\<lambda>all.
            let tags = filter (\<lambda>t. t \<noteq> []) all;
                who = py_lower author;
                ps = tags_named ''p'' tags;
                zs = map (\<lambda>t. t ! 1) (filter (\<lambda>t. length t > 1) (tags_named ''z'' tags))
            in Inr (who \<noteq> [] \<and> py_lower (str_or_empty (get ev ''pubkey'')) = who
                 \<and> (case tags_named ''d'' tags of [] \<Rightarrow> False | d # _ \<Rightarrow> length d \<ge> 2 \<and> d ! 1 = JStr DUTY_MENU_D)
                 \<and> length ps = 1 \<and> length (hd ps) \<ge> 2 \<and> py_lower (py_str (hd ps ! 1)) = who
                 \<and> \<not> list_ex (\<lambda>z. z = JStr ''list'' \<or> concept_header_z (py_str z)) zs
                 \<and> JStr DUTY_MENU_HEADER \<in> set zs)))"

definition menu_created_at :: "py_lib \<Rightarrow> int \<Rightarrow> json list \<Rightarrow> (exn, int) result" where
  "menu_created_at py now earlier =
     result_bind (result_map (\<lambda>e. int_or_zero py (get_in e ''created_at'')) earlier) (\<lambda>ats.
       let newest = (case ats of [] \<Rightarrow> 0 | _ \<Rightarrow> Max (set ats)) in Inr (max now (newest + 1)))"

definition ws_prefix :: "string \<Rightarrow> bool" where
  "ws_prefix s \<longleftrightarrow> (let l = py_lower s in take 5 l = ''ws://'' \<or> take 6 l = ''wss://'')"

fun duty_relay :: "json list \<Rightarrow> string option" where
  "duty_relay (JStr name # _ # JStr relay # _) =
     (if name = ''duty'' \<and> ws_prefix (strip relay) then Some (strip relay) else None)"
| "duty_relay _ = None"

definition earlier_relays :: "json list \<Rightarrow> (exn, string list) result" where
  "earlier_relays earlier =
     result_bind (result_map (\<lambda>e. case as_dict e of None \<Rightarrow> Inl AttributeError | Some ev \<Rightarrow> event_tags ev) earlier)
       (\<lambda>tagss. Inr (List.map_filter duty_relay (concat tagss)))"

section \<open>Reading and writing the Assistant's Treasure Map\<close>

text \<open>\<^verbatim>\<open>wss?://\S+\<close>, the whole text, ignoring case.\<close>

definition is_relay_url :: "string \<Rightarrow> bool" where
  "is_relay_url s \<longleftrightarrow>
     (let l = py_lower s; n = (if take 6 l = ''wss://'' then 6 else 5) in
      (take 5 l = ''ws://'' \<or> take 6 l = ''wss://'') \<and> length s > n \<and> list_all (\<lambda>c. \<not> py_space c) (drop n s))"

definition add_relay :: "py_lib \<Rightarrow> string \<Rightarrow> string list \<Rightarrow> string list" where
  "add_relay py url out =
     (if \<not> is_relay_url (strip url) \<or> relay_key py url \<in> relay_key py ` set out then out
      else out @ [strip url])"

definition self_map_relays :: "py_lib \<Rightarrow> string list \<Rightarrow> (string \<times> string) list \<Rightarrow> string list \<Rightarrow> string list" where
  "self_map_relays py outbox should_say hints = fold (add_relay py) (outbox @ map snd should_say @ hints) []"

text \<open>\<^verbatim>\<open>min\<close> by the key, the first of several.\<close>

fun first_min :: "('k::linorder \<times> 'a) list \<Rightarrow> ('k \<times> 'a) option" where
  "first_min [] = None"
| "first_min (x # xs) = (case first_min xs of None \<Rightarrow> Some x | Some y \<Rightarrow> if fst y < fst x then Some y else Some x)"

definition newest :: "py_lib \<Rightarrow> json list \<Rightarrow> (exn, json option) result" where
  "newest py events =
     result_bind (result_map (\<lambda>e. int_or_zero py (get_in e ''created_at'')) events) (\<lambda>ats.
       Inr (map_option snd (first_min (map (\<lambda>(t, e). ((- t, str_or_empty (get_in e ''id'')), e)) (zip ats events)))))"

definition self_entry :: "string \<Rightarrow> json \<Rightarrow> (string \<times> string) option" where
  "self_entry who tag =
     (case tag of
        JList (k # JStr name # rest) \<Rightarrow>
          if py_lower name \<noteq> who then None
          else (case parse_key k of
                  None \<Rightarrow> None
                | Some p \<Rightarrow> Some (k_norm p, case rest of JStr relay # _ \<Rightarrow> strip relay | _ \<Rightarrow> []))
      | _ \<Rightarrow> None)"

definition entry_key :: "py_lib \<Rightarrow> string \<times> string \<Rightarrow> string \<times> string" where
  "entry_key py e = (fst e, relay_key py (snd e))"

definition add_entry :: "py_lib \<Rightarrow> string \<times> string \<Rightarrow> (string \<times> string) list \<Rightarrow> (string \<times> string) list" where
  "add_entry py e out = (if entry_key py e \<in> entry_key py ` set out then out else out @ [e])"

definition read_self_entries :: "py_lib \<Rightarrow> json \<Rightarrow> string \<Rightarrow> (string \<times> string) list" where
  "read_self_entries py event author =
     fold (add_entry py) (List.map_filter (self_entry (py_lower author)) (tags_of event)) []"

definition same_self_entries :: "py_lib \<Rightarrow> (string \<times> string) list \<Rightarrow> (string \<times> string) list \<Rightarrow> bool" where
  "same_self_entries py a b \<longleftrightarrow> entry_key py ` set a = entry_key py ` set b"

definition self_entry_relays :: "py_lib \<Rightarrow> json list \<Rightarrow> string \<Rightarrow> string list" where
  "self_entry_relays py events author =
     filter is_relay_url (map snd (concat (map (\<lambda>event. read_self_entries py event author) events)))"

text \<open>No version found is \<^verbatim>\<open>None\<close>, which has no tags.\<close>

definition nothing_to_change :: "py_lib \<Rightarrow> json option \<Rightarrow> string \<Rightarrow> (string \<times> string) list \<Rightarrow> bool" where
  "nothing_to_change py latest author target =
     same_self_entries py (case latest of None \<Rightarrow> [] | Some e \<Rightarrow> read_self_entries py e author) target"

definition self_map_tags :: "string \<Rightarrow> (string \<times> string) list \<Rightarrow> string list list" where
  "self_map_tags author entries = map (\<lambda>(k, relay). [k, py_lower author, relay]) entries"

text \<open>Tags as the JSON of a signed event has them.\<close>

definition json_tags :: "string list list \<Rightarrow> json" where
  "json_tags tags = JList (map (\<lambda>t. JList (map JStr t)) tags)"

section \<open>One relay, one target\<close>

lemma strip_strip [simp]: "strip (strip s) = strip s"
proof -
  have ends: "dropWhile P (rev (dropWhile P (rev (dropWhile P xs)))) = rev (dropWhile P (rev (dropWhile P xs)))" for P and xs :: "char list"
  proof (cases "dropWhile P xs")
    case Nil
    show ?thesis unfolding Nil by simp
  next
    case (Cons y ys)
    then have "\<not> P y" by (metis hd_dropWhile list.distinct(1) list.sel(1))
    then have "dropWhile P (rev (y # ys)) = dropWhile P (rev ys) @ [y]"
      by (simp add: dropWhile_append dropWhile_eq_Nil_conv)
    with Cons \<open>\<not> P y\<close> show ?thesis by simp
  qed
  show ?thesis by (simp add: strip_def ends)
qed

lemma relay_key_strip [simp]: "relay_key py (strip url) = relay_key py url"
  by (simp add: relay_key_def)

definition apart :: "py_lib \<Rightarrow> relay_target list \<Rightarrow> bool" where
  "apart py = sorted_wrt (\<lambda>s t. target_keys py s \<inter> target_keys py t = {})"

lemma add_target_apart: "apart py targets \<Longrightarrow> apart py (add_target py cfg url targets)"
  by (auto simp: apart_def add_target_def Let_def sorted_wrt_append)

lemma publish_targets_snoc:
  "publish_targets py cfg (urls @ [url]) = add_target py cfg url (publish_targets py cfg urls)"
  by (simp add: publish_targets_def)

lemma publish_targets_apart: "apart py (publish_targets py cfg urls)"
  by (induction urls rule: rev_induct)
    (simp_all add: publish_targets_snoc add_target_apart, simp add: publish_targets_def apart_def)

lemma publish_targets_from:
  "t \<in> set (publish_targets py cfg urls) \<Longrightarrow> rt_url t \<in> set urls \<and> rt_url t \<noteq> [] \<and> rt_write_url t = write_url py cfg (rt_url t)"
  by (induction urls rule: rev_induct)
    (auto simp: publish_targets_snoc add_target_def Let_def split: if_splits, auto simp: publish_targets_def)

lemma add_target_keeps: "t \<in> set targets \<Longrightarrow> t \<in> set (add_target py cfg url targets)"
  by (simp add: add_target_def Let_def)

lemma publish_targets_reach:
  "url \<in> set urls \<Longrightarrow> url \<noteq> [] \<Longrightarrow>
     \<exists>t\<in>set (publish_targets py cfg urls).
       target_keys py t \<inter> {relay_key py url, relay_key py (write_url py cfg url)} \<noteq> {}"
proof (induction urls rule: rev_induct)
  case (snoc u urls)
  show ?case
  proof (cases "url = u")
    case True
    let ?new = "\<lparr>rt_url = u, rt_write_url = write_url py cfg u\<rparr>"
    have new: "target_keys py ?new = {relay_key py url, relay_key py (write_url py cfg url)}"
      by (simp add: target_keys_def True)
    show ?thesis
    proof (cases "\<exists>t\<in>set (publish_targets py cfg urls). target_keys py ?new \<inter> target_keys py t \<noteq> {}")
      case there: True
      then show ?thesis unfolding new publish_targets_snoc by (blast intro: add_target_keeps)
    next
      case False
      with snoc.prems True have "?new \<in> set (publish_targets py cfg (urls @ [u]))"
        by (simp add: publish_targets_snoc add_target_def Let_def)
      with new show ?thesis by blast
    qed
  next
    case False
    with snoc show ?thesis by (auto simp: publish_targets_snoc intro: add_target_keeps)
  qed
qed simp

section \<open>What is written reads back\<close>

lemma py_lower_idem [simp]: "py_lower (py_lower s) = py_lower s"
proof -
  have "lower_latin (lower_latin c) = lower_latin c" for c
    by (auto simp: lower_latin_def Let_def)
  then show ?thesis by (simp add: py_lower_def)
qed

lemma entry_keys_fold: "entry_key py ` set (fold (add_entry py) es out) = entry_key py ` set out \<union> entry_key py ` set es"
  by (induction es arbitrary: out) (auto simp: add_entry_def)

lemma read_self_entries_keys:
  "entry_key py ` set (read_self_entries py event author)
   = entry_key py ` set (List.map_filter (self_entry (py_lower author)) (tags_of event))"
  by (simp add: read_self_entries_def entry_keys_fold)

definition written :: "(string \<times> string) list \<Rightarrow> bool" where
  "written entries \<longleftrightarrow> (\<forall>(k, _)\<in>set entries. \<exists>p. parse_str k = Some p \<and> k_norm p = k)"

lemma self_entry_written:
  "parse_str k = Some p \<Longrightarrow> self_entry who (JList (map JStr [k, who', relay]))
     = (if py_lower who' = who then Some (k_norm p, strip relay) else None)"
  by (simp add: self_entry_def parse_key_def)

lemma self_entries_written:
  "written entries \<Longrightarrow> List.map_filter (self_entry (py_lower who)) (map (\<lambda>t. JList (map JStr t)) (self_map_tags who entries))
     = map (\<lambda>(k, relay). (k, strip relay)) entries"
proof (induction entries)
  case (Cons e entries)
  obtain k relay where e: "e = (k, relay)" by (cases e)
  with Cons.prems obtain p where "parse_str k = Some p" "k_norm p = k" by (auto simp: written_def)
  with Cons e show ?case
    by (simp add: self_map_tags_def map_filter_simps self_entry_def parse_key_def written_def)
qed (simp add: self_map_tags_def map_filter_simps)

lemma evaluate_self_map_written:
  assumes "evaluate_self_map (map_groups event) offered assistant scores = Inr check"
  shows "written (smc_should_say check)"
proof -
  have keys: "\<forall>g\<in>set (map_groups event). is_key (g_key g)"
    using map_groups_well [of event] by (auto simp: well_grouped_def)
  from assms obtain every live rows where
    "smc_should_say check = map (\<lambda>(k, relay). (k_norm k, relay)) (build_should_say (map_groups event) assistant every live rows)"
    by (auto simp: evaluate_self_map_eq Let_def)
  with should_say_sound [OF keys, of assistant every live rows] show ?thesis
    by (auto simp: written_def entries_ok_def is_key_def)
qed

lemma read_written:
  assumes "written entries" "get_in event ''tags'' = json_tags (self_map_tags who entries @ [CLIENT_TAG])"
  shows "same_self_entries py (read_self_entries py event who) entries"
proof -
  have client: "self_entry (py_lower who) (JList (map JStr CLIENT_TAG)) = None"
  proof -
    have "parse_key (JStr ''client'') = None" by code_simp
    then show ?thesis by (simp add: self_entry_def CLIENT_TAG_def)
  qed
  have "tags_of event = map (\<lambda>t. JList (map JStr t)) (self_map_tags who entries) @ [JList (map JStr CLIENT_TAG)]"
    by (simp add: tags_of_def assms(2) json_tags_def)
  then have "List.map_filter (self_entry (py_lower who)) (tags_of event) = map (\<lambda>(k, relay). (k, strip relay)) entries"
    using self_entries_written [OF assms(1)] client by (simp add: map_filter_append map_filter_simps)
  moreover have "entry_key py ` set (map (\<lambda>(k, relay). (k, strip relay)) entries) = entry_key py ` set entries"
    by (force simp: entry_key_def)
  ultimately show ?thesis by (simp add: same_self_entries_def read_self_entries_keys)
qed

lemma event_tags_json: "get ev ''tags'' = json_tags tags \<Longrightarrow> event_tags ev = Inr (map (map JStr) tags)"
proof -
  assume "get ev ''tags'' = json_tags tags"
  moreover have "List.map_filter (\<lambda>t. case t of JList xs \<Rightarrow> Some xs | _ \<Rightarrow> None) (map (\<lambda>t. JList (map JStr t)) tags) = map (map JStr) tags"
    by (induction tags) (simp_all add: map_filter_simps)
  ultimately show ?thesis by (simp add: event_tags_def json_tags_def)
qed

lemma tags_named_rows:
  "name \<noteq> ''duty'' \<Longrightarrow> tags_named name (map (map JStr) (map (\<lambda>(k, relay). [''duty'', k, relay]) rows)) = []"
  by (auto simp: tags_named_def filter_empty_conv)

lemma menu_written:
  assumes "get ev ''kind'' = JInt DUTY_MENU_KIND" "get ev ''pubkey'' = JStr who" "who \<noteq> []"
    "get ev ''tags'' = json_tags (build_menu_tags who rows @ [CLIENT_TAG])"
  shows "is_duty_menu (JObj ev) who = Inr True"
proof -
  let ?rows = "map (map JStr) (map (\<lambda>(k, relay). [''duty'', k, relay]) rows)"
  let ?d = "[JStr ''d'', JStr DUTY_MENU_D]" and ?z = "[JStr ''z'', JStr DUTY_MENU_HEADER]" and ?p = "[JStr ''p'', JStr who]"
  define T where "T = [?d, ?z, ?p] @ ?rows @ [map JStr CLIENT_TAG]"
  have tags: "event_tags ev = Inr T"
    by (simp add: event_tags_json [OF assms(4)] build_menu_tags_def T_def)
  have some: "filter (\<lambda>t. t \<noteq> []) T = T"
    by (auto simp: filter_id_conv CLIENT_TAG_def T_def)
  have named: "tags_named name T = tags_named name [?d, ?z, ?p]" if "name \<noteq> ''duty''" "name \<noteq> ''client''" for name
    using tags_named_rows [OF that(1), of rows] that(2) by (simp add: tags_named_def CLIENT_TAG_def T_def)
  have only: "tags_named ''d'' T = [?d]" "tags_named ''z'' T = [?z]" "tags_named ''p'' T = [?p]"
    by (simp_all add: named) (simp_all add: tags_named_def)
  have header: "\<not> concept_header_z DUTY_MENU_HEADER" "DUTY_MENU_HEADER \<noteq> ''list''" by code_simp+
  have "py_lower who \<noteq> []" using assms(3) by (simp add: py_lower_def)
  with assms(1-3) header show ?thesis
    by (simp add: is_duty_menu_def kind_is_def tags some only str_or_empty_def py_str_def) force
qed

text \<open>
  Writing and reading a self-Map agree. Whatever Map the reader wrote: the version whose
  tags are written for the self-entries the check asks for, with the client tag every event
  carries, reads back as those self-entries, so a second press finds nothing to change.
\<close>
lemma self_map_round_trip:
  assumes "evaluate_self_map (map_groups reader_map) offered who scores = Inr check"
    "get_in event ''tags'' = json_tags (self_map_tags who (smc_should_say check) @ [CLIENT_TAG])"
  shows "nothing_to_change py (Some event) who (smc_should_say check)"
  using read_written [OF evaluate_self_map_written [OF assms(1)] assms(2)] by (simp add: nothing_to_change_def)

end
