(* ===== verification/Assistant_Press.thy ===== *)
theory Assistant_Press
  imports Assistant_Relays Scheduler
begin

text \<open>
  Publishing the Assistant's own events (\<^verbatim>\<open>services/assistant_publish.py\<close>, \<^verbatim>\<open>duty_menu_service.py\<close>,
  \<^verbatim>\<open>self_map_service.py\<close>): read the newest version at each relay, sign the next one and check it,
  send it, report, and remember the choice. The state has the database session, the
  Assistants with a press under way, every address dialled and every event sent. What relays
  answer, the key library and the clock are the environment's. The properties: what an
  error leaves unchanged, what a success means, that a healthy press succeeds, and that the
  reader's hints never steer one.
\<close>

section \<open>A press's environment and state\<close>

datatype send_outcome =
    Sent "string list" "(string \<times> string) list"   \<comment> \<open>who took it, and each other's reason\<close>
  | Send_Timeout
  | Send_Failed exn

text \<open>
  \<open>pe_fetch\<close> is \<^verbatim>\<open>fetch_latest\<close>: a relay's newest event for a filter, or its failure. \<open>pe_pubkey_of\<close>,
  \<open>pe_sign\<close> and \<open>pe_verify\<close> are nostr-sdk's: the public key of a secret one, the JSON of a signed
  event, and whether a JSON event parses and verifies. \<open>pe_follows\<close> is \<^verbatim>\<open>has_grapevine\<close> within its
  five seconds.
\<close>

record press_env =
  pe_py :: py_lib
  pe_settings :: press_settings
  pe_transfer_to_relay :: string
  pe_scheduler_enabled :: bool
  pe_house :: string
  pe_keygen :: keygen
  pe_pubkey_of :: "string \<Rightarrow> (exn, string) result"
  pe_sign :: "string \<Rightarrow> int \<Rightarrow> string \<Rightarrow> string list list \<Rightarrow> int \<Rightarrow> bool \<Rightarrow> (exn, json) result"
  pe_verify :: "json \<Rightarrow> bool"
  pe_utc_now :: datetime
  pe_time :: int
  pe_fetch :: "string \<Rightarrow> json \<Rightarrow> (exn, json option) result"
  pe_follows :: "string \<Rightarrow> (exn, bool) result"
  pe_try_connect :: "string list \<Rightarrow> (exn, string list) result"
  pe_send :: "string list \<Rightarrow> json \<Rightarrow> send_outcome"
  pe_commit_fault :: "nat \<Rightarrow> exn option"

record press_state =
  ps_tx :: db
  ps_durable :: db
  ps_commits :: nat
  ps_pressing :: "string list"
  ps_dialed :: "string list"
  ps_sent :: "(string list \<times> json) list"

type_synonym 'a press_op = "(press_env, press_state, 'a) act"

definition press_read :: "(db \<Rightarrow> 'a) \<Rightarrow> 'a press_op" where
  "press_read f env w = (Inr (f (ps_tx w)), w)"

definition press_exec :: "(db \<Rightarrow> 'a \<times> db) \<Rightarrow> 'a press_op" where
  "press_exec f env w = (case f (ps_tx w) of (x, d) \<Rightarrow> (Inr x, w\<lparr>ps_tx := d\<rparr>))"

definition press_commit :: "unit press_op" where
  "press_commit env w =
     (let w' = w\<lparr>ps_commits := ps_commits w + 1\<rparr> in
      case pe_commit_fault env (ps_commits w) of
        Some e \<Rightarrow> (Inl e, w')
      | None \<Rightarrow> (Inr (), w'\<lparr>ps_durable := ps_tx w\<rparr>))"

definition press_result :: "(press_env \<Rightarrow> (exn, 'a) result) \<Rightarrow> 'a press_op" where
  "press_result r env w = (r env, w)"

text \<open>\<^verbatim>\<open>get_db\<close>: roll back where the handler raises; otherwise commit, after the answer is sent, so a
  commit that fails there no longer changes the answer.\<close>

definition in_request :: "'a press_op \<Rightarrow> 'a press_op" where
  "in_request m env w =
     (case m env w of
        (Inl e, w') \<Rightarrow> (Inl e, w'\<lparr>ps_tx := ps_durable w'\<rparr>)
      | (Inr x, w') \<Rightarrow> (case press_commit env w' of
                         (Inl _, w'') \<Rightarrow> (Inr x, w''\<lparr>ps_tx := ps_durable w''\<rparr>)
                       | (Inr _, w'') \<Rightarrow> (Inr x, w'')))"

section \<open>Signing and publishing\<close>

definition NOT_REACHED :: string where "NOT_REACHED = ''couldn't connect''"

text \<open>The caller's row, and the public key of the Assistant's own.\<close>

definition assistant :: "string \<Rightarrow> (brainstorm_nsec \<times> string) press_op" where
  "assistant user_pubkey =
     op_bind (\<lambda>env. press_exec (get_or_create_brainstorm_observer_nsec_by_pubkey_on_db (pe_keygen env) user_pubkey) env) (\<lambda>(row, _).
     op_bind (press_result (\<lambda>env. pe_pubkey_of env (bn_nsec row))) (\<lambda>who. ret (row, who)))"

definition is_own :: "press_env \<Rightarrow> json \<Rightarrow> string \<Rightarrow> int \<Rightarrow> bool" where
  "is_own env event author kind \<longleftrightarrow>
     as_dict event \<noteq> None \<and> kind_is (get_in event ''kind'') kind
     \<and> py_lower (str_or_empty (get_in event ''pubkey'')) = py_lower author \<and> pe_verify env event"

type_synonym held = "(string \<times> json option) list"

fun hold :: "press_env \<Rightarrow> json \<Rightarrow> (json \<Rightarrow> (exn, bool) result) \<Rightarrow> relay_target list \<Rightarrow> held \<Rightarrow> (exn, held) result" where
  "hold env flt own [] acc = Inr acc"
| "hold env flt own (t # ts) acc =
     (let put = (\<lambda>v. hold env flt own ts (AList.update (relay_key (pe_py env) (rt_write_url t)) v acc)) in
      case pe_fetch env (rt_write_url t) flt of
        Inl _ \<Rightarrow> hold env flt own ts acc
      | Inr None \<Rightarrow> put None
      | Inr (Some e) \<Rightarrow> result_bind (own e) (\<lambda>mine. put (if mine then Some e else None)))"

definition dial :: "string list \<Rightarrow> unit press_op" where
  "dial urls env w = (Inr (), w\<lparr>ps_dialed := ps_dialed w @ urls\<rparr>)"

definition read_newest ::
  "relay_target list \<Rightarrow> json \<Rightarrow> (press_env \<Rightarrow> json \<Rightarrow> (exn, bool) result) \<Rightarrow> string \<Rightarrow> held press_op" where
  "read_newest targets flt own name =
     op_bind (dial (map rt_write_url targets)) (\<lambda>_.
     op_bind (press_result (\<lambda>env. hold env flt (own env) targets [])) (\<lambda>held.
       if held = []
       then raise (HTTPException 502 (''Couldn't read your Assistant's '' @ name @ '', so nothing was published.''))
       else ret held))"

definition versions_of :: "held \<Rightarrow> json list" where
  "versions_of held = List.map_filter snd held"

definition sign_checked ::
  "press_env \<Rightarrow> string \<Rightarrow> int \<Rightarrow> string \<Rightarrow> string list list \<Rightarrow> int \<Rightarrow> (json \<Rightarrow> (exn, bool) result) \<Rightarrow> string \<Rightarrow> bool
    \<Rightarrow> (exn, json) result" where
  "sign_checked env nsec kind content tags created_at check name self_tagging =
     (let failed = Inl (HTTPException 500 (''Your Assistant's '' @ name @ '' didn't pass its own check, so it wasn't published.'')) in
      case pe_sign env nsec kind content (tags @ [CLIENT_TAG]) created_at self_tagging of
        Inl _ \<Rightarrow> failed
      | Inr signed \<Rightarrow>
          if pe_verify env signed \<and> get_in signed ''tags'' = json_tags (tags @ [CLIENT_TAG]) \<and> check signed = Inr True
          then Inr signed else failed)"

definition connect_targets :: "relay_target list \<Rightarrow> string list press_op" where
  "connect_targets targets =
     op_bind (dial (map rt_write_url targets)) (\<lambda>_.
     op_bind (press_result (\<lambda>env. pe_try_connect env (map rt_write_url targets))) (\<lambda>success.
     op_bind (asks pe_py) (\<lambda>py. ret (map (relay_key py) success))))"

text \<open>Who took the event, and why each other one did not.\<close>

definition send_event :: "json \<Rightarrow> string list \<Rightarrow> (string list \<times> (string \<times> string) list) press_op" where
  "send_event event urls env w =
     (if urls = [] then (Inr ([], []), w)
      else let py = pe_py env; w' = w\<lparr>ps_sent := ps_sent w @ [(urls, event)]\<rparr> in
           case pe_send env urls event of
             Sent success failed \<Rightarrow> (Inr (map (relay_key py) success, map (\<lambda>(url, reason). (relay_key py url, reason)) failed), w')
           | Send_Timeout \<Rightarrow> (Inr ([], map (\<lambda>url. (relay_key py url, ''timeout'')) urls), w')
           | Send_Failed e \<Rightarrow> (Inr ([], map (\<lambda>url. (relay_key py url, ''not sent'')) urls), w'))"

record relay_result =
  rr_url :: string
  rr_ok :: bool
  rr_message :: "string option"

definition relay_line :: "py_lib \<Rightarrow> string list \<Rightarrow> string list \<Rightarrow> (string \<times> string) list \<Rightarrow> relay_target \<Rightarrow> relay_result" where
  "relay_line py linked accepted refused target =
     (let key = relay_key py (rt_write_url target) in
      if key \<in> set accepted then \<lparr>rr_url = rt_url target, rr_ok = True, rr_message = None\<rparr>
      else \<lparr>rr_url = rt_url target, rr_ok = False,
            rr_message = Some (if key \<notin> set linked then NOT_REACHED
                               else case map_of (rev refused) key of
                                      None \<Rightarrow> ''not sent'' | Some reason \<Rightarrow> if reason = [] then ''not sent'' else reason)\<rparr>)"

definition relay_report ::
  "py_lib \<Rightarrow> relay_target list \<Rightarrow> string list \<Rightarrow> string list \<Rightarrow> (string \<times> string) list \<Rightarrow> relay_result list" where
  "relay_report py targets linked accepted refused = map (relay_line py linked accepted refused) targets"

definition send_to :: "json \<Rightarrow> relay_target list \<Rightarrow> relay_result list press_op" where
  "send_to event targets =
     op_bind (connect_targets targets) (\<lambda>linked.
     op_bind (asks pe_py) (\<lambda>py.
     op_bind (send_event event (filter (\<lambda>url. relay_key py url \<in> set linked) (map rt_write_url targets))) (\<lambda>(accepted, refused).
       ret (relay_report py targets linked accepted refused))))"

definition reached_some :: "relay_result list \<Rightarrow> string \<Rightarrow> (exn, relay_result list) result" where
  "reached_some report name =
     (if list_ex rr_ok report then Inr report
      else Inl (HTTPException 502 (''Your Assistant's '' @ name @ '' didn't reach any relay. Try again in a moment.'')))"

definition req_filter :: "int \<Rightarrow> string \<Rightarrow> (string \<times> json) list \<Rightarrow> json" where
  "req_filter kind who extra =
     JObj ([(''kinds'', JList [JInt kind]), (''authors'', JList [JStr who])] @ extra @ [(''limit'', JInt 1)])"

section \<open>The Duty Menu\<close>

definition MENU :: string where "MENU = ''Duty Menu''"

definition is_own_menu :: "string \<Rightarrow> press_env \<Rightarrow> json \<Rightarrow> (exn, bool) result" where
  "is_own_menu who env event =
     (case as_dict event of
        None \<Rightarrow> Inr False
      | Some ev \<Rightarrow>
          if \<not> is_own env event who DUTY_MENU_KIND then Inr False
          else result_bind (event_tags ev) (\<lambda>tags.
                 Inr (list_ex (\<lambda>t. take 2 t = [JStr ''d'', JStr DUTY_MENU_D]) tags)))"

record duty_menu_offer =
  dm_assistant :: string
  dm_rows :: "(string \<times> string) list"

definition read_assistant_duty_menu_offer :: "string \<Rightarrow> duty_menu_offer press_op" where
  "read_assistant_duty_menu_offer user_pubkey =
     op_bind (assistant user_pubkey) (\<lambda>(_, who).
     op_bind (asks pe_settings) (\<lambda>cfg.
       ret \<lparr>dm_assistant = who, dm_rows = offer_rows (relay_settings.truncate cfg) who\<rparr>))"

record published_menu =
  pd_event :: json
  pd_relays :: "relay_result list"

definition publish_assistant_duty_menu :: "string \<Rightarrow> published_menu press_op" where
  "publish_assistant_duty_menu user_pubkey =
     op_bind (assistant user_pubkey) (\<lambda>(row, who).
     op_bind (asks pe_settings) (\<lambda>cfg.
     op_bind (asks pe_py) (\<lambda>py.
     let rows = offer_rows (relay_settings.truncate cfg) who;
         row_relays = map snd rows;
         outbox = assistant_relay_list cfg;
         known = publish_targets py cfg (row_relays @ outbox @ NOUS_MENU_RELAYS) in
     op_bind (read_newest known (req_filter DUTY_MENU_KIND who [(''#d'', JList [JStr DUTY_MENU_D])]) (is_own_menu who) MENU) (\<lambda>held.
     let earlier = versions_of held in
     op_bind (press_result (\<lambda>_. earlier_relays earlier)) (\<lambda>named.
     let targets = publish_targets py cfg (row_relays @ outbox @ named @ NOUS_MENU_RELAYS) in
     op_bind (press_result (\<lambda>env. menu_created_at py (pe_time env) earlier)) (\<lambda>created_at.
     op_bind (press_result (\<lambda>env. sign_checked env (bn_nsec row) DUTY_MENU_KIND [] (build_menu_tags who rows) created_at
                (\<lambda>s. is_duty_menu s who) MENU True)) (\<lambda>signed.
     op_bind (send_to signed targets) (\<lambda>report.
     op_bind (press_result (\<lambda>_. reached_some report MENU)) (\<lambda>report.
       ret \<lparr>pd_event = signed, pd_relays = report\<rparr>)))))))))"

section \<open>The Treasure Map\<close>

definition MAP :: string where "MAP = ''Treasure Map''"
definition SELF_MAP_KIND :: int where "SELF_MAP_KIND = 10040"

definition one_press_at_a_time :: "string \<Rightarrow> 'a press_op \<Rightarrow> 'a press_op" where
  "one_press_at_a_time who m env w =
     (if who \<in> set (ps_pressing w)
      then (Inl (HTTPException 409 ''Your Assistant's Treasure Map is already being published. Try again in a moment.''), w)
      else case m env (w\<lparr>ps_pressing := who # ps_pressing w\<rparr>) of
             (r, w') \<Rightarrow> (r, w'\<lparr>ps_pressing := removeAll who (ps_pressing w')\<rparr>))"

definition upkeep_interval :: "press_env \<Rightarrow> db \<Rightarrow> brainstorm_nsec \<Rightarrow> (exn, bool) result \<Rightarrow> (exn, int option) result" where
  "upkeep_interval env d row follows =
     (let house = strip (pe_house env) in
      if house \<noteq> [] \<and> bn_pubkey row = house then Inr (Some (PERIOD_HOURS * 3600))
      else if \<not> pe_scheduler_enabled env then Inr None
      else case get_default_scheduling_on_db d of
             None \<Rightarrow> Inr None
           | Some dflt \<Rightarrow>
               let own = (case bn_scheduling_id row of None \<Rightarrow> None | Some sid \<Rightarrow> get_scheduling_on_db sid d);
                   policy = (case own of None \<Rightarrow> dflt | Some p \<Rightarrow> p) in
               if \<not> sc_enabled policy then Inr None
               else case follows of
                      Inl _ \<Rightarrow> Inl (HTTPException 502 ''Couldn't check whether your Scores are kept up to date. Try again in a moment.'')
                    | Inr grapevine \<Rightarrow> Inr (if grapevine then Some (sc_schedule_interval_seconds policy) else None))"

definition scores_upkeep_of :: "press_env \<Rightarrow> db \<Rightarrow> brainstorm_nsec \<Rightarrow> (exn, bool) result option \<Rightarrow> (exn, upkeep) result" where
  "scores_upkeep_of env d row follows =
     (case follows of
        None \<Rightarrow> Inr \<lparr>su_status = ''not-scheduled'', su_last_landed_at = None\<rparr>
      | Some f \<Rightarrow> result_bind (upkeep_interval env d row f) (\<lambda>n.
                    Inr (scores_upkeep (bn_last_time_published_graperank row) n (pe_utc_now env))))"

definition read_reader_map :: "string \<Rightarrow> json option press_op" where
  "read_reader_map user_pubkey =
     op_bind (asks pe_transfer_to_relay) (\<lambda>relay.
     op_bind (dial [relay]) (\<lambda>_.
     op_bind (press_result (\<lambda>env. pe_fetch env relay (req_filter SELF_MAP_KIND user_pubkey []))) (\<lambda>event.
       ret (case event of
              None \<Rightarrow> None
            | Some e \<Rightarrow> if as_dict e = None \<or> \<not> kind_is (get_in e ''kind'') SELF_MAP_KIND
                           \<or> py_lower (str_or_empty (get_in e ''pubkey'')) \<noteq> py_lower user_pubkey
                        then None else Some e))))"

definition too_big :: "string \<Rightarrow> exn" where
  "too_big what_follows =
     HTTPException 422 (''Your Treasure Map names more than '' @ show_nat MAX_MAP_KEYS @ '' keys, too many to check, so '' @ what_follows @ ''.'')"

text \<open>What both routes do before they differ: the caller's Map where it is \<open>wanted\<close>, its groups,
  the upkeep of Scores where the Map asks for them, and the check.\<close>

definition check_now :: "string \<Rightarrow> brainstorm_nsec \<Rightarrow> string \<Rightarrow> bool \<Rightarrow> string \<Rightarrow> string \<Rightarrow> (json option \<times> self_map_check) press_op" where
  "check_now user_pubkey row who wanted unread what_follows =
     op_bind (if wanted then catch (read_reader_map user_pubkey) (\<lambda>_. raise (HTTPException 502 unread)) else ret None) (\<lambda>map_event.
     let groups = map_groups (case map_event of None \<Rightarrow> JNull | Some e \<Rightarrow> e) in
     if too_big_to_check groups then raise (too_big what_follows)
     else op_bind (press_read id) (\<lambda>d.
          op_bind (press_result (\<lambda>env. scores_upkeep_of env d row
                     (if asks_for_scores groups who then Some (pe_follows env (bn_pubkey row)) else None))) (\<lambda>upkeep.
          op_bind (press_result (\<lambda>env. evaluate_self_map groups (offer_rows (relay_settings.truncate (pe_settings env)) who) who upkeep)) (\<lambda>check.
            ret (map_event, check)))))"

definition listed :: "self_map_check \<Rightarrow> bool \<Rightarrow> (string \<times> string) list" where
  "listed check on = (if on then smc_should_say check else [])"

definition writer_relays :: "py_lib \<Rightarrow> press_settings \<Rightarrow> (string \<times> string) list \<Rightarrow> string list" where
  "writer_relays py cfg entries = self_map_relays py (assistant_relay_list cfg) entries []"

definition missing :: "py_lib \<Rightarrow> relay_target list \<Rightarrow> held \<Rightarrow> json \<Rightarrow> relay_target list" where
  "missing py targets held latest =
     filter (\<lambda>t. case map_of held (relay_key py (rt_write_url t)) of
                    None \<Rightarrow> False
                  | Some v \<Rightarrow> (case v of None \<Rightarrow> JNull | Some e \<Rightarrow> get_in e ''id'') \<noteq> get_in latest ''id'') targets"

definition save_choice :: "string \<Rightarrow> bool \<Rightarrow> unit press_op" where
  "save_choice user_pubkey on =
     op_bind (press_exec (\<lambda>d. ((), set_treasure_map_on_by_pubkey_on_db user_pubkey on d))) (\<lambda>_. press_commit)"

record treasure_map_answer =
  ta_assistant :: string
  ta_on :: bool
  ta_duties :: "duty_line list"
  ta_should_say :: "(string \<times> string) list"
  ta_relays :: "string list"
  ta_writer_relays :: "string list"

definition read_assistant_treasure_map :: "string \<Rightarrow> treasure_map_answer press_op" where
  "read_assistant_treasure_map user_pubkey =
     op_bind (assistant user_pubkey) (\<lambda>(row, who).
     op_bind (check_now user_pubkey row who True
                ''Couldn't read your Treasure Map, so your Assistant's Treasure Map couldn't be checked. Try again in a moment.''
                ''your Assistant's Treasure Map couldn't be checked'') (\<lambda>(map_event, check).
     op_bind (asks pe_settings) (\<lambda>cfg.
     op_bind (asks pe_py) (\<lambda>py.
     let on = bn_treasure_map_on row;
         press_reads = publish_targets py cfg (writer_relays py cfg (listed check on)) in
     ret \<lparr>ta_assistant = who, ta_on = on, ta_duties = smc_duties check, ta_should_say = smc_should_say check,
          ta_relays = self_map_relays py (assistant_relay_list cfg) (smc_should_say check)
                        (self_entry_relays py [case map_event of None \<Rightarrow> JNull | Some e \<Rightarrow> e] who),
          ta_writer_relays = map rt_url press_reads\<rparr>))))"

record published_map =
  pm_on :: bool
  pm_published :: bool
  pm_event :: "json option"
  pm_relays :: "relay_result list"

text \<open>The newest version already says the target: it goes, unchanged, to the relays that answered
  without it, if there are any.\<close>

definition press_unchanged :: "string \<Rightarrow> bool \<Rightarrow> relay_target list \<Rightarrow> held \<Rightarrow> json option \<Rightarrow> published_map press_op" where
  "press_unchanged user_pubkey on reads held latest =
     op_bind (asks pe_py) (\<lambda>py.
     let settled = op_bind (save_choice user_pubkey on) (\<lambda>_.
                     ret \<lparr>pm_on = on, pm_published = False, pm_event = None, pm_relays = []\<rparr>) in
     case latest of
       None \<Rightarrow> settled
     | Some v \<Rightarrow>
         if missing py reads held v = [] then settled
         else op_bind (send_to v (missing py reads held v)) (\<lambda>report.
              op_bind (save_choice user_pubkey on) (\<lambda>_.
                ret \<lparr>pm_on = on, pm_published = True, pm_event = Some v, pm_relays = report\<rparr>)))"

definition press_new_version ::
  "string \<Rightarrow> string \<Rightarrow> string \<Rightarrow> bool \<Rightarrow> (string \<times> string) list \<Rightarrow> string list \<Rightarrow> json list \<Rightarrow> published_map press_op" where
  "press_new_version user_pubkey nsec who on target relays versions =
     op_bind (asks pe_settings) (\<lambda>cfg.
     op_bind (asks pe_py) (\<lambda>py.
     op_bind (press_result (\<lambda>env. menu_created_at py (pe_time env) versions)) (\<lambda>created_at.
     op_bind (press_result (\<lambda>env. sign_checked env nsec SELF_MAP_KIND [] (self_map_tags who target) created_at
                (\<lambda>s. Inr (same_self_entries py (read_self_entries py s who) target)) MAP False)) (\<lambda>signed.
     op_bind (send_to signed (publish_targets py cfg (relays @ self_entry_relays py versions who))) (\<lambda>report.
     op_bind (press_result (\<lambda>_. reached_some report MAP)) (\<lambda>report.
     op_bind (save_choice user_pubkey on) (\<lambda>_.
       ret \<lparr>pm_on = on, pm_published = True, pm_event = Some signed, pm_relays = report\<rparr>)))))))"

definition own_map :: "string \<Rightarrow> press_env \<Rightarrow> json \<Rightarrow> (exn, bool) result" where
  "own_map who env e = Inr (is_own env e who SELF_MAP_KIND)"

text \<open>The press once its target is known.\<close>

definition press_target :: "string \<Rightarrow> string \<Rightarrow> string \<Rightarrow> bool \<Rightarrow> (string \<times> string) list \<Rightarrow> published_map press_op" where
  "press_target user_pubkey nsec who on target =
     op_bind (asks pe_settings) (\<lambda>cfg.
     op_bind (asks pe_py) (\<lambda>py.
     let relays = writer_relays py cfg target;
         reads = publish_targets py cfg relays in
     op_bind (read_newest reads (req_filter SELF_MAP_KIND who []) (own_map who) MAP) (\<lambda>held.
     op_bind (press_result (\<lambda>_. newest py (versions_of held))) (\<lambda>latest.
     if nothing_to_change py latest who target then press_unchanged user_pubkey on reads held latest
     else press_new_version user_pubkey nsec who on target relays (versions_of held)))))"

definition publish_assistant_treasure_map :: "string \<Rightarrow> bool \<Rightarrow> published_map press_op" where
  "publish_assistant_treasure_map user_pubkey on =
     op_bind (assistant user_pubkey) (\<lambda>(row, who).
     one_press_at_a_time who
       (op_bind (check_now user_pubkey row who on
                   ''Couldn't read your Treasure Map, so nothing was published.'' ''nothing was published'') (\<lambda>(_, check).
        press_target user_pubkey (bn_nsec row) who on (listed check on))))"

section \<open>The choice is saved last\<close>

text \<open>Most of a press reads, dials and sends, and leaves the session and the presses under way as
  they are; where it raises, nothing has been committed.\<close>

definition same_rows :: "press_state \<Rightarrow> press_state \<Rightarrow> bool" where
  "same_rows w w' \<longleftrightarrow> ps_tx w' = ps_tx w \<and> ps_durable w' = ps_durable w \<and> ps_pressing w' = ps_pressing w"

definition uncommitted :: "'a press_op \<Rightarrow> bool" where
  "uncommitted m \<longleftrightarrow> (\<forall>env w. same_rows w (snd (m env w)))"

text \<open>On success the transaction is committed with \<open>f\<close> applied to it; on an error nothing is.\<close>

definition saves :: "(db \<Rightarrow> db) \<Rightarrow> 'a press_op \<Rightarrow> bool" where
  "saves f m \<longleftrightarrow> (\<forall>env w r w'. m env w = (r, w') \<longrightarrow> ps_pressing w' = ps_pressing w \<and>
     (case r of Inl _ \<Rightarrow> ps_durable w' = ps_durable w
              | Inr _ \<Rightarrow> ps_tx w' = f (ps_tx w) \<and> ps_durable w' = f (ps_tx w)))"

named_theorems press_frame \<open>operations that leave the session alone\<close>

lemma uncommitted_bind [press_frame]:
  "uncommitted m \<Longrightarrow> (\<And>x. uncommitted (f x)) \<Longrightarrow> uncommitted (op_bind m f)"
  by (simp add: uncommitted_def same_rows_def op_bind_def split: prod.split sum.split) (metis snd_conv)

lemma uncommitted_basic [press_frame]:
  "uncommitted (ret x)" "uncommitted (raise e)" "uncommitted (asks g)" "uncommitted (press_read h)"
  "uncommitted (press_result r)" "uncommitted (dial urls)" "uncommitted (send_event event urls)"
  by (simp_all add: uncommitted_def same_rows_def ret_def raise_def asks_def press_read_def press_result_def dial_def
      send_event_def Let_def split: send_outcome.split)

lemma uncommitted_catch [press_frame]:
  "uncommitted m \<Longrightarrow> (\<And>e. uncommitted (h e)) \<Longrightarrow> uncommitted (catch m h)"
  by (simp add: uncommitted_def same_rows_def catch_def split: prod.split sum.split) (metis snd_conv)

lemma uncommitted_reads [press_frame]:
  "uncommitted (read_newest targets flt own name)" "uncommitted (send_to event targets)"
  "uncommitted (check_now u row who wanted unread what_follows)"
  by (auto simp: read_newest_def send_to_def connect_targets_def check_now_def read_reader_map_def Let_def intro!: press_frame split: prod.split)

lemma saves_bind:
  "uncommitted m \<Longrightarrow> (\<And>x. saves f (k x)) \<Longrightarrow> saves f (op_bind m k)"
  unfolding saves_def op_bind_def
proof (intro allI impI)
  fix env w r w'
  assume m: "uncommitted m" and k: "\<And>x. \<forall>env w r w'. k x env w = (r, w') \<longrightarrow> ps_pressing w' = ps_pressing w \<and>
      (case r of Inl _ \<Rightarrow> ps_durable w' = ps_durable w | Inr _ \<Rightarrow> ps_tx w' = f (ps_tx w) \<and> ps_durable w' = f (ps_tx w))"
    and run: "(case m env w of (Inl e, w') \<Rightarrow> (Inl e, w') | (Inr x, w') \<Rightarrow> k x env w') = (r, w')"
  obtain r1 w1 where r1: "m env w = (r1, w1)" by fastforce
  with m have same: "same_rows w w1" unfolding uncommitted_def by (metis snd_conv)
  show "ps_pressing w' = ps_pressing w \<and>
      (case r of Inl _ \<Rightarrow> ps_durable w' = ps_durable w | Inr _ \<Rightarrow> ps_tx w' = f (ps_tx w) \<and> ps_durable w' = f (ps_tx w))"
  proof (cases r1)
    case (Inl e)
    with run r1 same show ?thesis by (auto simp: same_rows_def)
  next
    case (Inr x)
    with run r1 have "k x env w1 = (r, w')" by simp
    with k same show ?thesis by (fastforce simp: same_rows_def split: sum.splits)
  qed
qed

lemma savesD:
  "saves f m \<Longrightarrow> m env w = (r, w') \<Longrightarrow> ps_pressing w' = ps_pressing w \<and>
     (case r of Inl _ \<Rightarrow> ps_durable w' = ps_durable w | Inr _ \<Rightarrow> ps_tx w' = f (ps_tx w) \<and> ps_durable w' = f (ps_tx w))"
  by (simp add: saves_def)

lemma saves_raise: "saves f (raise e)"
  by (simp add: saves_def raise_def)

lemma saves_choice: "saves (set_treasure_map_on_by_pubkey_on_db u on) (op_bind (save_choice u on) (\<lambda>_. ret x))"
  by (auto simp: saves_def save_choice_def op_bind_def press_exec_def press_commit_def ret_def Let_def split: option.splits)

lemma press_target_saves:
  "saves (set_treasure_map_on_by_pubkey_on_db u on) (press_target u nsec who on target)"
  unfolding press_target_def press_unchanged_def press_new_version_def
  by (auto simp: Let_def intro!: saves_bind saves_choice press_frame split: option.split)

definition with_row :: "press_env \<Rightarrow> string \<Rightarrow> db \<Rightarrow> db" where
  "with_row env u d = snd (get_or_create_brainstorm_observer_nsec_by_pubkey_on_db (pe_keygen env) u d)"

definition row_of :: "press_env \<Rightarrow> string \<Rightarrow> db \<Rightarrow> brainstorm_nsec" where
  "row_of env u d = fst (fst (get_or_create_brainstorm_observer_nsec_by_pubkey_on_db (pe_keygen env) u d))"

lemma assistant_eq:
  "assistant u env w = (case pe_pubkey_of env (bn_nsec (row_of env u (ps_tx w))) of
      Inl e \<Rightarrow> (Inl e, w\<lparr>ps_tx := with_row env u (ps_tx w)\<rparr>)
    | Inr who \<Rightarrow> (Inr (row_of env u (ps_tx w), who), w\<lparr>ps_tx := with_row env u (ps_tx w)\<rparr>))"
  by (simp add: assistant_def op_bind_def press_exec_def press_result_def ret_def with_row_def row_of_def split: prod.split sum.split)

lemma one_press_saves:
  assumes "saves f m" "one_press_at_a_time who m env w = (r, w')"
  shows "ps_pressing w' = ps_pressing w \<and>
     (case r of Inl _ \<Rightarrow> ps_durable w' = ps_durable w | Inr _ \<Rightarrow> ps_tx w' = f (ps_tx w) \<and> ps_durable w' = f (ps_tx w))"
proof (cases "who \<in> set (ps_pressing w)")
  case True
  with assms(2) show ?thesis by (auto simp: one_press_at_a_time_def)
next
  case False
  let ?w = "w\<lparr>ps_pressing := who # ps_pressing w\<rparr>"
  obtain r1 w1 where m: "m env ?w = (r1, w1)" by fastforce
  have "ps_pressing w1 = who # ps_pressing w \<and>
     (case r1 of Inl _ \<Rightarrow> ps_durable w1 = ps_durable w | Inr _ \<Rightarrow> ps_tx w1 = f (ps_tx w) \<and> ps_durable w1 = f (ps_tx w))"
    using savesD [OF assms(1) m] by (simp split: sum.splits)
  with assms(2) False m show ?thesis by (auto simp: one_press_at_a_time_def split: sum.split)
qed

text \<open>
  C27. A press remembers its choice exactly when it answers. Whatever the relays, the key library and
  the database do: a press that raises commits nothing, and one that answers has committed, before
  it answers, the caller's row with the choice it was asked for, and nothing else. Either way the presses
  under way are those there were.
\<close>
theorem press_saves_choice_iff_it_answers:
  assumes "in_request (publish_assistant_treasure_map u on) env w = (r, w')" "ps_tx w = ps_durable w"
  shows "ps_pressing w' = ps_pressing w \<and> ps_tx w' = ps_durable w'
    \<and> ps_durable w' = (case r of Inl _ \<Rightarrow> ps_durable w
           | Inr _ \<Rightarrow> set_treasure_map_on_by_pubkey_on_db u on (with_row env u (ps_durable w)))"
proof -
  obtain r1 w1 where run: "publish_assistant_treasure_map u on env w = (r1, w1)" by fastforce
  have "ps_pressing w1 = ps_pressing w \<and> (case r1 of Inl _ \<Rightarrow> ps_durable w1 = ps_durable w
      | Inr _ \<Rightarrow> (let d = set_treasure_map_on_by_pubkey_on_db u on (with_row env u (ps_durable w)) in ps_tx w1 = d \<and> ps_durable w1 = d))"
  proof (cases "pe_pubkey_of env (bn_nsec (row_of env u (ps_tx w)))")
    case (Inl e)
    with run show ?thesis by (auto simp: publish_assistant_treasure_map_def op_bind_def assistant_eq)
  next
    case (Inr who)
    let ?w = "w\<lparr>ps_tx := with_row env u (ps_tx w)\<rparr>"
    let ?press = "op_bind (check_now u (row_of env u (ps_tx w)) who on ''Couldn't read your Treasure Map, so nothing was published.'' ''nothing was published'')
        (\<lambda>(_, check). press_target u (bn_nsec (row_of env u (ps_tx w))) who on (listed check on))"
    have "saves (set_treasure_map_on_by_pubkey_on_db u on) ?press"
      by (auto intro!: saves_bind press_frame press_target_saves split: prod.split)
    moreover from run Inr have "one_press_at_a_time who ?press env ?w = (r1, w1)"
      by (simp add: publish_assistant_treasure_map_def op_bind_def assistant_eq)
    ultimately show ?thesis using one_press_saves [of _ ?press who env ?w r1 w1] assms(2) by (fastforce simp: Let_def split: sum.splits)
  qed
  with assms run show ?thesis
    by (auto simp: in_request_def press_commit_def Let_def split: sum.splits option.splits)
qed

section \<open>What a press sends\<close>

lemma op_bind_Inr:
  "op_bind m f env w = (Inr y, w') \<longleftrightarrow> (\<exists>x w1. m env w = (Inr x, w1) \<and> f x env w1 = (Inr y, w'))"
  by (auto simp: op_bind_def split: prod.splits sum.splits)

lemma press_result_Inr [simp]: "press_result r env w = (Inr x, w') \<longleftrightarrow> r env = Inr x \<and> w' = w"
  by (auto simp: press_result_def)

lemma asks_Inr [simp]: "asks g env w = (Inr x, w') \<longleftrightarrow> x = g env \<and> w' = w"
  by (auto simp: asks_def)

lemma ret_Inr [simp]: "ret y env w = (Inr x, w') \<longleftrightarrow> x = y \<and> w' = w"
  by (auto simp: ret_def)

lemma raise_Inr [simp]: "raise e env w \<noteq> (Inr x, w')"
  by (simp add: raise_def)

lemma read_newest_Inr:
  "read_newest targets flt own name env w = (Inr held, w') \<Longrightarrow>
     hold env flt (own env) targets [] = Inr held \<and> ps_sent w' = ps_sent w \<and> held \<noteq> []"
  by (auto simp: read_newest_def op_bind_Inr dial_def split: if_splits)

lemma save_choice_Inr: "save_choice u on env w = (Inr x, w') \<Longrightarrow> ps_sent w' = ps_sent w"
  by (auto simp: save_choice_def op_bind_Inr press_exec_def press_commit_def Let_def split: option.splits)

lemma send_to_Inr:
  assumes "send_to event targets env w = (Inr report, w')"
  shows "\<exists>urls. set urls \<subseteq> rt_write_url ` set targets \<and> (ps_sent w' = ps_sent w \<or> ps_sent w' = ps_sent w @ [(urls, event)])"
proof -
  from assms obtain success out where sent:
    "send_event event (filter (\<lambda>url. relay_key (pe_py env) url \<in> relay_key (pe_py env) ` set success) (map rt_write_url targets))
       env (w\<lparr>ps_dialed := ps_dialed w @ map rt_write_url targets\<rparr>) = (Inr out, w')"
    by (auto simp: send_to_def connect_targets_def op_bind_Inr dial_def split: prod.splits)
  let ?urls = "filter (\<lambda>url. relay_key (pe_py env) url \<in> relay_key (pe_py env) ` set success) (map rt_write_url targets)"
  have "ps_sent w' = ps_sent w \<or> ps_sent w' = ps_sent w @ [(?urls, event)]"
    using sent by (auto simp: send_event_def Let_def split: if_splits send_outcome.splits)
  moreover have "set ?urls \<subseteq> rt_write_url ` set targets" by auto
  ultimately show ?thesis by blast
qed

lemma update_mem: "(k, v) \<in> set (AList.update q x acc) \<Longrightarrow> (k, v) \<in> set acc \<or> k = q \<and> v = x"
  by (induction acc) (auto split: if_splits)

lemma hold_own:
  "hold env flt own ts acc = Inr held \<Longrightarrow> (k, Some e) \<in> set held \<Longrightarrow> (k, Some e) \<in> set acc \<or> own e = Inr True"
proof (induction ts arbitrary: acc)
  case (Cons t ts)
  from Cons.prems Cons.IH show ?case
    by (auto simp: Let_def result_bind_eq_Inr split: sum.splits option.splits if_splits dest!: update_mem)
qed simp

lemma first_min_mem: "first_min xs = Some x \<Longrightarrow> x \<in> set xs"
  by (induction xs) (auto split: option.splits if_splits)

lemma newest_mem: "newest py events = Inr (Some e) \<Longrightarrow> e \<in> set events"
  by (auto simp: newest_def result_bind_eq_Inr dest!: first_min_mem set_zip_rightD)

lemma menu_created_at_later:
  assumes "menu_created_at py now events = Inr t"
  shows "now \<le> t \<and> (\<forall>e\<in>set events. \<exists>c. int_or_zero py (get_in e ''created_at'') = Inr c \<and> c < t)"
proof -
  from assms obtain ats where ats: "list_all2 (\<lambda>e c. int_or_zero py (get_in e ''created_at'') = Inr c) events ats"
    and t: "t = max now ((case ats of [] \<Rightarrow> 0 | _ \<Rightarrow> Max (set ats)) + 1)"
    by (auto simp: menu_created_at_def result_bind_eq_Inr result_map_Inr Let_def)
  have "\<forall>c\<in>set ats. c < t" unfolding t by (cases ats) (auto simp: less_max_iff_disj intro!: zle_add1_eq_le [THEN iffD2])
  with ats t show ?thesis by (auto simp: list_all2_conv_all_nth in_set_conv_nth) (metis nth_mem)+
qed

text \<open>The versions a press for a target finds, where it looks for them.\<close>

definition found :: "press_env \<Rightarrow> string \<Rightarrow> (string \<times> string) list \<Rightarrow> (exn, json list) result" where
  "found env who target =
     (let py = pe_py env; cfg = pe_settings env in
      result_bind (hold env (req_filter SELF_MAP_KIND who []) (own_map who env)
        (publish_targets py cfg (writer_relays py cfg target)) []) (\<lambda>held. Inr (versions_of held)))"

text \<open>What a press may have sent when it answers, and what it then knows of the versions found.\<close>

definition press_sound :: "press_env \<Rightarrow> string \<Rightarrow> (string \<times> string) list \<Rightarrow> json list \<Rightarrow> published_map \<Rightarrow> bool" where
  "press_sound env who target versions ans \<longleftrightarrow>
     (case pm_event ans of
        None \<Rightarrow> (\<exists>latest. newest (pe_py env) versions = Inr latest \<and> nothing_to_change (pe_py env) latest who target)
      | Some ev \<Rightarrow>
          pe_verify env ev \<and> nothing_to_change (pe_py env) (Some ev) who target
          \<and> (newest (pe_py env) versions = Inr (Some ev)
             \<or> (\<exists>t. get_in ev ''created_at'' = JInt t \<and> pe_time env \<le> t
                  \<and> (\<forall>e\<in>set versions. \<exists>c. int_or_zero (pe_py env) (get_in e ''created_at'') = Inr c \<and> c < t)
                  \<and> list_ex rr_ok (pm_relays ans))))"

lemma versions_verified:
  "hold env flt (own_map who env) ts [] = Inr held \<Longrightarrow> e \<in> set (versions_of held) \<Longrightarrow> pe_verify env e"
proof -
  assume held: "hold env flt (own_map who env) ts [] = Inr held" and "e \<in> set (versions_of held)"
  then obtain k where "(k, Some e) \<in> set held" by (auto simp: versions_of_def List.map_filter_def)
  from hold_own [OF held this] show ?thesis by (simp add: own_map_def is_own_def)
qed

lemma sign_checked_Inr:
  "sign_checked env nsec kind content tags t check name self_tagging = Inr signed \<Longrightarrow>
     pe_sign env nsec kind content (tags @ [CLIENT_TAG]) t self_tagging = Inr signed \<and> pe_verify env signed \<and> check signed = Inr True"
  by (auto simp: sign_checked_def Let_def split: sum.splits if_splits)

text \<open>The key library dates an event as it is told to.\<close>

definition dates_as_asked :: "press_env \<Rightarrow> bool" where
  "dates_as_asked env \<longleftrightarrow> (\<forall>nsec kind content tags t st ev.
     pe_sign env nsec kind content tags t st = Inr ev \<longrightarrow> get_in ev ''created_at'' = JInt t)"

definition sent_only :: "press_state \<Rightarrow> press_state \<Rightarrow> json option \<Rightarrow> bool" where
  "sent_only w w' event \<longleftrightarrow> ps_sent w' = ps_sent w \<or> (\<exists>urls ev. event = Some ev \<and> ps_sent w' = ps_sent w @ [(urls, ev)])"

lemma press_unchanged_sound:
  assumes "press_unchanged u on reads held latest env w = (Inr ans, w')"
    and "newest (pe_py env) (versions_of held) = Inr latest" "nothing_to_change (pe_py env) latest who target"
    and "\<forall>e\<in>set (versions_of held). pe_verify env e"
  shows "press_sound env who target (versions_of held) ans \<and> pm_on ans = on \<and> sent_only w w' (pm_event ans)"
proof (cases "pm_event ans")
  case None
  with assms show ?thesis
    by (auto simp: press_unchanged_def op_bind_Inr Let_def press_sound_def sent_only_def split: option.splits if_splits dest!: save_choice_Inr)
next
  case (Some ev)
  with assms(1) have "latest = Some ev" "pm_on ans = on" "sent_only w w' (Some ev)"
    by (auto simp: press_unchanged_def op_bind_Inr Let_def sent_only_def split: option.splits if_splits dest!: save_choice_Inr send_to_Inr)
  with Some assms(2-4) newest_mem show ?thesis by (auto simp: press_sound_def)
qed

lemma press_new_version_sound:
  assumes "press_new_version u nsec who on target relays versions env w = (Inr ans, w')"
    and signer: "dates_as_asked env"
  shows "press_sound env who target versions ans \<and> pm_on ans = on \<and> sent_only w w' (pm_event ans)"
proof -
  from assms(1) obtain t signed report w1 where t: "menu_created_at (pe_py env) (pe_time env) versions = Inr t"
    and signed: "sign_checked env nsec SELF_MAP_KIND [] (self_map_tags who target) t
      (\<lambda>s. Inr (same_self_entries (pe_py env) (read_self_entries (pe_py env) s who) target)) MAP False = Inr signed"
    and sent: "send_to signed (publish_targets (pe_py env) (pe_settings env) (relays @ self_entry_relays (pe_py env) versions who)) env w = (Inr report, w1)"
    and reached: "reached_some report MAP = Inr report" and same: "ps_sent w' = ps_sent w1"
    and ans: "ans = \<lparr>pm_on = on, pm_published = True, pm_event = Some signed, pm_relays = report\<rparr>"
    by (auto simp: press_new_version_def op_bind_Inr reached_some_def split: if_splits dest!: save_choice_Inr)
  note sign = sign_checked_Inr [OF signed]
  have "get_in signed ''created_at'' = JInt t" using sign signer by (auto simp: dates_as_asked_def)
  moreover have "list_ex rr_ok report" using reached by (simp add: reached_some_def split: if_splits)
  moreover have "sent_only w w' (Some signed)" using send_to_Inr [OF sent] same by (auto simp: sent_only_def)
  ultimately show ?thesis using sign menu_created_at_later [OF t]
    by (simp add: ans press_sound_def nothing_to_change_def)
qed

lemma press_target_sound:
  assumes run: "press_target u nsec who on target env w = (Inr ans, w')"
    and signer: "dates_as_asked env"
  shows "\<exists>versions. found env who target = Inr versions \<and> press_sound env who target versions ans \<and> pm_on ans = on
     \<and> sent_only w w' (pm_event ans)"
proof -
  let ?py = "pe_py env" and ?cfg = "pe_settings env"
  let ?reads = "publish_targets ?py ?cfg (writer_relays ?py ?cfg target)"
  from run obtain held w1 latest where
    held: "read_newest ?reads (req_filter SELF_MAP_KIND who []) (own_map who) MAP env w = (Inr held, w1)"
    and latest: "newest ?py (versions_of held) = Inr latest"
    and rest: "(if nothing_to_change ?py latest who target then press_unchanged u on ?reads held latest
      else press_new_version u nsec who on target (writer_relays ?py ?cfg target) (versions_of held)) env w1 = (Inr ans, w')"
    unfolding press_target_def Let_def op_bind_Inr asks_Inr press_result_Inr by blast
  have hold: "hold env (req_filter SELF_MAP_KIND who []) (own_map who env) ?reads [] = Inr held" and w1: "ps_sent w1 = ps_sent w"
    using read_newest_Inr [OF held] by auto
  have "press_sound env who target (versions_of held) ans \<and> pm_on ans = on \<and> sent_only w1 w' (pm_event ans)"
  proof (cases "nothing_to_change ?py latest who target")
    case True
    with rest have "press_unchanged u on ?reads held latest env w1 = (Inr ans, w')" by simp
    from press_unchanged_sound [OF this latest True] versions_verified [OF hold] show ?thesis by blast
  next
    case False
    with rest have "press_new_version u nsec who on target (writer_relays ?py ?cfg target) (versions_of held) env w1 = (Inr ans, w')" by simp
    from press_new_version_sound [OF this signer] show ?thesis by blast
  qed
  with hold w1 show ?thesis by (auto simp: found_def Let_def sent_only_def)
qed

text \<open>The check a press is made of: on the reader's Map as it was read, and the upkeep of Scores as it is
  recorded; off, on no Map.\<close>

definition checked :: "press_env \<Rightarrow> string \<Rightarrow> db \<Rightarrow> brainstorm_nsec \<Rightarrow> string \<Rightarrow> bool \<Rightarrow> self_map_check \<Rightarrow> bool" where
  "checked env u d row who wanted check \<longleftrightarrow>
     (\<exists>event scores. (if wanted then \<forall>w. fst (read_reader_map u env w) = Inr event else event = None)
       \<and> (let groups = map_groups (case event of None \<Rightarrow> JNull | Some e \<Rightarrow> e) in
          \<not> too_big_to_check groups
          \<and> scores_upkeep_of env d row (if asks_for_scores groups who then Some (pe_follows env (bn_pubkey row)) else None) = Inr scores
          \<and> evaluate_self_map groups (offer_rows (relay_settings.truncate (pe_settings env)) who) who scores = Inr check))"

lemma read_reader_map_same: "fst (read_reader_map u env w) = fst (read_reader_map u env w')"
  by (simp add: read_reader_map_def op_bind_def asks_def dial_def press_result_def ret_def split: sum.split)

lemma read_reader_map_state: "read_reader_map u env w = (r, w') \<Longrightarrow> same_rows w w' \<and> ps_sent w' = ps_sent w"
  by (auto simp: read_reader_map_def op_bind_def asks_def dial_def press_result_def ret_def same_rows_def split: sum.splits)

lemma check_now_Inr:
  assumes "check_now u row who wanted unread what_follows env w = (Inr (event, check), w')"
  shows "ps_sent w' = ps_sent w \<and> checked env u (ps_tx w) row who wanted check"
proof -
  let ?groups = "map_groups (case event of None \<Rightarrow> JNull | Some e \<Rightarrow> e)"
  from assms obtain scores w1 where
    event: "(if wanted then catch (read_reader_map u) (\<lambda>_. raise (HTTPException 502 unread)) else ret None) env w = (Inr event, w1)"
    and "\<not> too_big_to_check ?groups" and "w' = w1"
    and "scores_upkeep_of env (ps_tx w1) row (if asks_for_scores ?groups who then Some (pe_follows env (bn_pubkey row)) else None) = Inr scores"
    and "evaluate_self_map ?groups (offer_rows (relay_settings.truncate (pe_settings env)) who) who scores = Inr check"
    by (auto simp: check_now_def op_bind_Inr Let_def press_read_def split: if_splits)
  moreover have "ps_sent w1 = ps_sent w \<and> ps_tx w1 = ps_tx w \<and> (if wanted then \<forall>v. fst (read_reader_map u env v) = Inr event else event = None)"
  proof (cases wanted)
    case True
    with event have "read_reader_map u env w = (Inr event, w1)"
      by (auto simp: catch_def raise_def split: prod.splits sum.splits)
    with read_reader_map_state [OF this] read_reader_map_same [of u env _ w] True show ?thesis by (simp add: same_rows_def)
  qed (use event in simp)
  ultimately show ?thesis unfolding checked_def Let_def by (metis (no_types, lifting))
qed

lemma one_press_Inr:
  "one_press_at_a_time who m env w = (Inr x, w') \<Longrightarrow>
     \<exists>w1. m env (w\<lparr>ps_pressing := who # ps_pressing w\<rparr>) = (Inr x, w1) \<and> ps_sent w1 = ps_sent w'"
  by (auto simp: one_press_at_a_time_def split: if_splits prod.splits)

text \<open>
  C28. A press that answers has said exactly what the check asks for. It sends at most one event,
  once, and that event verifies and its self-entries are the target: what the check says while
  on, nothing while off. The event is the newest version found, sent again unchanged, or a
  new one, dated after every version found and taken by some relay. When nothing is sent, the newest
  version found already says the target.
\<close>
theorem successful_press_exact:
  assumes "publish_assistant_treasure_map u on env w = (Inr ans, w')" "dates_as_asked env"
  shows "\<exists>who check versions. pe_pubkey_of env (bn_nsec (row_of env u (ps_tx w))) = Inr who
    \<and> checked env u (with_row env u (ps_tx w)) (row_of env u (ps_tx w)) who on check
    \<and> found env who (listed check on) = Inr versions
    \<and> press_sound env who (listed check on) versions ans \<and> pm_on ans = on \<and> sent_only w w' (pm_event ans)"
proof -
  let ?row = "row_of env u (ps_tx w)" and ?w = "w\<lparr>ps_tx := with_row env u (ps_tx w)\<rparr>"
  obtain who where who: "pe_pubkey_of env (bn_nsec ?row) = Inr who"
    using assms(1) by (auto simp: publish_assistant_treasure_map_def op_bind_def assistant_eq split: sum.splits)
  let ?press = "op_bind (check_now u ?row who on ''Couldn't read your Treasure Map, so nothing was published.'' ''nothing was published'')
        (\<lambda>(_, check). press_target u (bn_nsec ?row) who on (listed check on))"
  from assms(1) who have "one_press_at_a_time who ?press env ?w = (Inr ans, w')"
    by (simp add: publish_assistant_treasure_map_def op_bind_def assistant_eq)
  from one_press_Inr [OF this] obtain w1 event check w2 where
    check: "check_now u ?row who on ''Couldn't read your Treasure Map, so nothing was published.'' ''nothing was published''
      env (?w\<lparr>ps_pressing := who # ps_pressing ?w\<rparr>) = (Inr (event, check), w2)"
    and target: "press_target u (bn_nsec ?row) who on (listed check on) env w2 = (Inr ans, w1)" and w1: "ps_sent w1 = ps_sent w'"
    by (auto simp: op_bind_Inr)
  from check_now_Inr [OF check] have "ps_sent w2 = ps_sent w"
    and made: "checked env u (with_row env u (ps_tx w)) ?row who on check" by simp_all
  with w1 have "sent_only w2 w1 = sent_only w w'" by (simp add: sent_only_def fun_eq_iff)
  with press_target_sound [OF target assms(2)] made who show ?thesis by metis
qed

text \<open>The Duty Menu: an answer means a signed event that is a menu and that some relay took; nothing is
  committed on the way.\<close>

lemma published_menu_is_a_menu:
  assumes "publish_assistant_duty_menu u env w = (Inr ans, w')"
  shows "\<exists>who. pe_pubkey_of env (bn_nsec (row_of env u (ps_tx w))) = Inr who \<and> is_duty_menu (pd_event ans) who = Inr True
    \<and> pe_verify env (pd_event ans) \<and> list_ex rr_ok (pd_relays ans) \<and> ps_durable w' = ps_durable w"
proof -
  obtain who where who: "pe_pubkey_of env (bn_nsec (row_of env u (ps_tx w))) = Inr who"
    using assms by (auto simp: publish_assistant_duty_menu_def op_bind_def assistant_eq split: sum.splits)
  from assms obtain row who' w1 targets flt held w2 t signed ts report where
    a: "assistant u env w = (Inr (row, who'), w1)"
    and held: "read_newest targets flt (is_own_menu who') MENU env w1 = (Inr held, w2)"
    and signed: "sign_checked env (bn_nsec row) DUTY_MENU_KIND [] (build_menu_tags who' (offer_rows (relay_settings.truncate (pe_settings env)) who')) t
      (\<lambda>s. is_duty_menu s who') MENU True = Inr signed"
    and sent: "send_to signed ts env w2 = (Inr report, w')" and ok: "list_ex rr_ok report"
    and ans: "ans = \<lparr>pd_event = signed, pd_relays = report\<rparr>"
    unfolding publish_assistant_duty_menu_def op_bind_Inr Let_def
    by (auto simp: op_bind_Inr reached_some_def split: if_splits)
  from a who have "who' = who" "ps_durable w1 = ps_durable w" by (auto simp: assistant_eq)
  moreover have "ps_durable w2 = ps_durable w1" "ps_durable w' = ps_durable w2"
    using uncommitted_reads held sent unfolding uncommitted_def same_rows_def by (metis snd_conv)+
  ultimately show ?thesis using who sign_checked_Inr [OF signed] ok by (simp add: ans)
qed

section \<open>A healthy press succeeds\<close>

text \<open>Everything a press depends on answers: relays, the graph, the database; the key library signs
  what it is given, and an event that verifies has an integer for its date.\<close>

definition healthy :: "press_env \<Rightarrow> bool" where
  "healthy env \<longleftrightarrow>
     (\<forall>url flt. \<exists>a. pe_fetch env url flt = Inr a) \<and> (\<forall>p. \<exists>b. pe_follows env p = Inr b)
     \<and> (\<forall>nsec kind content tags t st. \<exists>ev. pe_sign env nsec kind content tags t st = Inr ev
          \<and> get_in ev ''tags'' = json_tags tags \<and> pe_verify env ev)
     \<and> (\<forall>e. pe_verify env e \<longrightarrow> (\<exists>t. get_in e ''created_at'' = JInt t))
     \<and> (\<forall>urls. pe_try_connect env urls = Inr urls) \<and> (\<forall>urls ev. pe_send env urls ev = Sent urls [])
     \<and> (\<forall>n. pe_commit_fault env n = None) \<and> ta_relay_public_url (pe_settings env) \<noteq> []"

definition works :: "press_env \<Rightarrow> 'a press_op \<Rightarrow> bool" where
  "works env m \<longleftrightarrow> (\<forall>w. \<exists>x w'. m env w = (Inr x, w'))"

lemma works_bind: "works env m \<Longrightarrow> (\<And>x w w'. m env w = (Inr x, w') \<Longrightarrow> works env (f x)) \<Longrightarrow> works env (op_bind m f)"
  unfolding works_def op_bind_Inr by meson

lemma works_basic [simp]:
  "works env (ret x)" "works env (asks g)" "works env (dial urls)" "works env (press_read h)"
  "works env (press_result r) \<longleftrightarrow> (\<exists>x. r env = Inr x)"
  by (auto simp: works_def ret_def asks_def dial_def press_read_def press_result_def)

lemma works_save: "healthy env \<Longrightarrow> works env (save_choice u on)"
  by (auto simp: healthy_def works_def save_choice_def op_bind_def press_exec_def press_commit_def Let_def)

lemma send_to_healthy:
  "healthy env \<Longrightarrow> fst (send_to ev targets env w) = Inr (map (\<lambda>t. \<lparr>rr_url = rt_url t, rr_ok = True, rr_message = None\<rparr>) targets)"
proof -
  assume "healthy env"
  then have up: "pe_try_connect env urls = Inr urls" "pe_send env urls ev = Sent urls []" for urls ev by (auto simp: healthy_def)
  have all: "filter (\<lambda>url. relay_key py url \<in> relay_key py ` rt_write_url ` set targets) (map rt_write_url targets) = map rt_write_url targets" for py
    by (auto simp: filter_id_conv)
  have "\<exists>w'. send_to ev targets env w = (Inr (relay_report (pe_py env) targets (map (relay_key (pe_py env)) (map rt_write_url targets))
      (map (relay_key (pe_py env)) (map rt_write_url targets)) []), w')"
    by (cases targets) (simp_all add: send_to_def connect_targets_def op_bind_def dial_def press_result_def asks_def ret_def up send_event_def Let_def all del: filter.simps list.map, simp_all)
  then show ?thesis by (auto simp: relay_report_def relay_line_def Let_def)
qed

lemma works_send: "healthy env \<Longrightarrow> works env (send_to ev targets)"
  unfolding works_def by (metis prod.collapse send_to_healthy)

lemma hold_works:
  assumes "\<forall>url flt. \<exists>a. pe_fetch env url flt = Inr a"
  shows "\<exists>held. hold env flt (own_map who env) ts acc = Inr held \<and> (ts \<noteq> [] \<or> acc \<noteq> [] \<longrightarrow> held \<noteq> [])"
proof (induction ts arbitrary: acc)
  case (Cons t ts)
  obtain a where "pe_fetch env (rt_write_url t) flt = Inr a" using assms by blast
  then obtain v where "hold env flt (own_map who env) (t # ts) acc
      = hold env flt (own_map who env) ts (AList.update (relay_key (pe_py env) (rt_write_url t)) v acc)"
    by (cases a) (simp_all add: own_map_def)
  then show ?case using Cons.IH [of "AList.update (relay_key (pe_py env) (rt_write_url t)) v acc"] by auto
qed simp

lemma dates_work:
  "\<forall>e\<in>set es. \<exists>t. get_in e ''created_at'' = JInt t \<Longrightarrow> \<exists>ats. result_map (\<lambda>e. int_or_zero py (get_in e ''created_at'')) es = Inr ats"
proof (induction es)
  case (Cons e es)
  then obtain t ats where "get_in e ''created_at'' = JInt t" "result_map (\<lambda>e. int_or_zero py (get_in e ''created_at'')) es = Inr ats" by auto
  then show ?case by (auto simp: int_or_zero_def)
qed simp

lemma add_relay_keeps: "r \<in> set out \<Longrightarrow> r \<in> set (fold (add_relay py) urls out)"
  by (induction urls arbitrary: out) (auto simp: add_relay_def)

lemma relays_nonempty: "url \<in> set urls \<Longrightarrow> is_relay_url (strip url) \<Longrightarrow> fold (add_relay py) urls out \<noteq> []"
proof (induction urls arbitrary: out)
  case (Cons u urls)
  have "fold (add_relay py) urls (add_relay py u out) \<noteq> []" if "add_relay py u out \<noteq> []"
    using add_relay_keeps [of "hd (add_relay py u out)" "add_relay py u out" py urls] that by (metis empty_iff hd_in_set list.set(1))
  moreover have "add_relay py u out \<noteq> []" if "u = url" using Cons.prems(2) that by (auto simp: add_relay_def)
  ultimately show ?case using Cons by (cases "u = url") auto
qed simp

lemma relays_are_urls: "r \<in> set (fold (add_relay py) urls out) \<Longrightarrow> r \<in> set out \<or> is_relay_url r"
  by (induction urls arbitrary: out) (fastforce simp: add_relay_def split: if_splits)+

lemma writer_targets: "publish_targets py cfg (writer_relays py cfg target @ named) \<noteq> []"
proof -
  let ?relays = "writer_relays py cfg target"
  have "''wss://nos.lol'' \<in> set (assistant_relay_list cfg)"
    by (simp add: assistant_relay_list_def KIND_0_PUBLISH_RELAYS_def)
  moreover have "is_relay_url (strip ''wss://nos.lol'')" by code_simp
  ultimately have "?relays \<noteq> []" unfolding writer_relays_def self_map_relays_def by (intro relays_nonempty) auto
  then obtain r where r: "r \<in> set ?relays" by (cases ?relays) auto
  with relays_are_urls [of r py "assistant_relay_list cfg @ map snd target @ []" "[]"] have "is_relay_url r"
    by (simp add: writer_relays_def self_map_relays_def)
  then have "r \<noteq> []" by (auto simp: is_relay_url_def)
  with r publish_targets_reach [of r "?relays @ named" py cfg] show ?thesis by auto
qed

lemma healthy_unchanged: "healthy env \<Longrightarrow> works env (press_unchanged u on reads held latest)"
  unfolding press_unchanged_def by (auto simp: Let_def intro!: works_bind works_send works_save split: option.split)

lemma healthy_new_version:
  assumes "healthy env" "written target" "\<forall>e\<in>set versions. pe_verify env e"
  shows "works env (press_new_version u nsec who on target (writer_relays (pe_py env) (pe_settings env) target) versions)"
proof -
  let ?py = "pe_py env" and ?tags = "self_map_tags who target"
  let ?targets = "publish_targets ?py (pe_settings env) (writer_relays ?py (pe_settings env) target @ self_entry_relays ?py versions who)"
  have h: "\<forall>e. pe_verify env e \<longrightarrow> (\<exists>t. get_in e ''created_at'' = JInt t)"
    "\<And>kind content tags t st. \<exists>ev. pe_sign env nsec kind content tags t st = Inr ev \<and> get_in ev ''tags'' = json_tags tags \<and> pe_verify env ev"
    using assms(1) by (auto simp: healthy_def)
  from h(1) assms(3) have dated: "\<exists>t. menu_created_at ?py (pe_time env) versions = Inr t"
    using dates_work [of versions ?py] by (auto simp: menu_created_at_def Let_def)
  have signed: "\<exists>ev. sign_checked env nsec SELF_MAP_KIND [] ?tags t
      (\<lambda>s. Inr (same_self_entries ?py (read_self_entries ?py s who) target)) MAP False = Inr ev" for t
  proof -
    obtain ev where "pe_sign env nsec SELF_MAP_KIND [] (?tags @ [CLIENT_TAG]) t False = Inr ev" "pe_verify env ev"
      and tags: "get_in ev ''tags'' = json_tags (?tags @ [CLIENT_TAG])" using h(2) by blast
    with read_written [OF assms(2) tags] show ?thesis by (simp add: sign_checked_def Let_def)
  qed
  have reached: "\<exists>r. reached_some report MAP = Inr r" if "send_to ev ?targets env w = (Inr report, w')" for ev w report w'
    using that send_to_healthy [OF assms(1), of ev ?targets w] writer_targets [of ?py "pe_settings env" target "self_entry_relays ?py versions who"]
    by (cases ?targets) (auto simp: reached_some_def)
  show ?thesis unfolding press_new_version_def
    by (auto intro!: works_bind works_send works_save simp: dated signed assms(1) dest: reached)
qed

lemma healthy_press_target:
  assumes "healthy env" "written target"
  shows "works env (press_target u nsec who on target)"
proof -
  let ?py = "pe_py env" and ?cfg = "pe_settings env" and ?flt = "req_filter SELF_MAP_KIND who []"
  let ?reads = "publish_targets ?py ?cfg (writer_relays ?py ?cfg target)"
  have h: "\<forall>url flt. \<exists>a. pe_fetch env url flt = Inr a" "\<forall>e. pe_verify env e \<longrightarrow> (\<exists>t. get_in e ''created_at'' = JInt t)"
    using assms(1) by (auto simp: healthy_def)
  have reads: "works env (read_newest ?reads ?flt (own_map who) MAP)"
    using hold_works [OF h(1), of ?flt who ?reads "[]"] writer_targets [of ?py ?cfg target "[]"]
    by (fastforce simp: read_newest_def intro!: works_bind)
  have versions: "\<forall>e\<in>set (versions_of held). pe_verify env e" and newest: "\<exists>latest. newest ?py (versions_of held) = Inr latest"
    if "read_newest ?reads ?flt (own_map who) MAP env w = (Inr held, w')" for held w w'
  proof -
    from read_newest_Inr [OF that] versions_verified show "\<forall>e\<in>set (versions_of held). pe_verify env e" by blast
    with h(2) dates_work [of "versions_of held" ?py] show "\<exists>latest. newest ?py (versions_of held) = Inr latest"
      by (auto simp: newest_def)
  qed
  show ?thesis unfolding press_target_def Let_def
    by (auto intro!: works_bind reads healthy_unchanged healthy_new_version assms dest: newest bspec [OF versions])
qed

lemma healthy_upkeep: "healthy env \<Longrightarrow> \<exists>up. scores_upkeep_of env d row (if asked then Some (pe_follows env p) else None) = Inr up"
proof -
  assume "healthy env"
  then obtain b where b: "pe_follows env p = Inr b" unfolding healthy_def by blast
  have "\<exists>n. upkeep_interval env d row (Inr b) = Inr n" by (simp add: upkeep_interval_def Let_def split: option.split)
  with b show ?thesis by (auto simp: scores_upkeep_of_def)
qed

lemma healthy_check:
  assumes "healthy env"
    "\<forall>e. pe_fetch env (pe_transfer_to_relay env) (req_filter SELF_MAP_KIND u []) = Inr (Some e) \<longrightarrow> \<not> too_big_to_check (map_groups e)"
  shows "works env (check_now u row who wanted unread what_follows)"
proof -
  have reads: "\<exists>a. pe_fetch env url flt = Inr a" for url flt using assms(1) by (simp add: healthy_def)
  have offer: "\<exists>check. evaluate_self_map groups (offer_rows (relay_settings.truncate (pe_settings env)) who) who up = Inr check" for groups up
    using assms(1) new_offer_today [of "relay_settings.truncate (pe_settings env)" who]
    by (simp add: healthy_def relay_settings.defs evaluate_self_map_def Let_def)
  have "map_groups JNull = []" by (simp add: map_groups_def tags_of_def get_in_def map_filter_simps)
  then have small: "\<not> too_big_to_check (map_groups JNull)" by (simp add: too_big_to_check_def)
  let ?read = "if wanted then catch (read_reader_map u) (\<lambda>_. raise (HTTPException 502 unread)) else ret None"
  have read: "works env ?read" and fits: "?read env w = (Inr event, w') \<Longrightarrow> \<not> too_big_to_check (map_groups (case event of None \<Rightarrow> JNull | Some e \<Rightarrow> e))" for w event w'
  proof -
    obtain a where a: "pe_fetch env (pe_transfer_to_relay env) (req_filter SELF_MAP_KIND u []) = Inr a" using reads by blast
    then show "works env ?read"
      by (auto simp: works_def catch_def read_reader_map_def op_bind_def asks_def dial_def press_result_def ret_def)
    show "?read env w = (Inr event, w') \<Longrightarrow> \<not> too_big_to_check (map_groups (case event of None \<Rightarrow> JNull | Some e \<Rightarrow> e))"
      using a assms(2) small
      by (auto simp: catch_def read_reader_map_def op_bind_def asks_def dial_def press_result_def ret_def split: if_splits option.splits)
  qed
  show ?thesis unfolding check_now_def Let_def
    by (rule works_bind [OF read]) (auto intro!: works_bind simp: healthy_upkeep [OF assms(1)] offer fits)
qed

lemma healthy_press:
  assumes "healthy env" "pe_pubkey_of env (bn_nsec (row_of env u (ps_tx w))) = Inr who" "who \<notin> set (ps_pressing w)"
    "\<forall>e. pe_fetch env (pe_transfer_to_relay env) (req_filter SELF_MAP_KIND u []) = Inr (Some e) \<longrightarrow> \<not> too_big_to_check (map_groups e)"
  shows "\<exists>ans w'. publish_assistant_treasure_map u on env w = (Inr ans, w')"
proof -
  let ?row = "row_of env u (ps_tx w)"
  let ?check = "check_now u ?row who on ''Couldn't read your Treasure Map, so nothing was published.'' ''nothing was published''"
  let ?press = "op_bind ?check (\<lambda>(_, check). press_target u (bn_nsec ?row) who on (listed check on))"
  have "written (listed check on)" if "?check env v = (Inr (event, check), v')" for v event check v'
    using check_now_Inr [OF that] evaluate_self_map_written
    by (auto simp: checked_def Let_def listed_def written_def) (fastforce simp: written_def)+
  then have "works env ?press"
    by (auto intro!: works_bind healthy_check healthy_press_target assms split: prod.split)
  then obtain ans w1 where "?press env (w\<lparr>ps_tx := with_row env u (ps_tx w), ps_pressing := who # ps_pressing w\<rparr>) = (Inr ans, w1)"
    unfolding works_def by blast
  with assms(2,3) show ?thesis
    by (simp add: publish_assistant_treasure_map_def op_bind_def [of "assistant u"] assistant_eq one_press_at_a_time_def)
qed


section \<open>The reader's hints never steer a press\<close>

fun cut_tag :: "json \<Rightarrow> json" where
  "cut_tag (JList (k # who # _)) = JList [k, who]"
| "cut_tag t = t"

fun without_hints :: "json \<Rightarrow> json" where
  "without_hints (JObj d) = JObj (map (\<lambda>(k, v). (k, case v of JList ts \<Rightarrow> if k = ''tags'' then JList (map cut_tag ts) else v | _ \<Rightarrow> v)) d)"
| "without_hints v = v"

definition hints_removed :: "string \<Rightarrow> press_env \<Rightarrow> press_env" where
  "hints_removed u env = env\<lparr>pe_fetch := \<lambda>relay flt.
     if flt = req_filter SELF_MAP_KIND u [] then map_sum id (map_option without_hints) (pe_fetch env relay flt) else pe_fetch env relay flt\<rparr>"

lemma map_of_without_hints:
  "map_of (map (\<lambda>(k, v). (k, f k v)) d) q = map_option (f q) (map_of d q)"
  by (induction d) auto

lemma get_without_hints:
  "as_dict (without_hints e) = None \<longleftrightarrow> as_dict e = None"
  "q \<noteq> ''tags'' \<Longrightarrow> get_in (without_hints e) q = get_in e q"
  "tags_of (without_hints e) = map cut_tag (tags_of e)"
  by (cases e; auto simp: get_in_def get_def tags_of_def map_of_without_hints split: option.split json.split)+

lemma map_tag_cut [simp]: "map_tag (cut_tag t) = map_tag t"
proof (cases t rule: cut_tag.cases)
  case (1 k who rest)
  then show ?thesis by (cases who) simp_all
qed simp_all

lemma map_groups_without_hints [simp]: "map_groups (without_hints e) = map_groups e"
proof -
  have "List.map_filter map_tag (map cut_tag ts) = List.map_filter map_tag ts" for ts
    by (induction ts) (auto simp: map_filter_simps split: option.split)
  then show ?thesis by (simp add: map_groups_def get_without_hints)
qed

lemma op_bind_env: "m env' = m env \<Longrightarrow> (\<And>x. f x env' = f x env) \<Longrightarrow> op_bind m f env' = op_bind m f env"
proof -
  assume "m env' = m env" "\<And>x. f x env' = f x env"
  then show ?thesis by (simp add: op_bind_def fun_eq_iff split: prod.split sum.split)
qed

lemma hints_removed_fields [simp]:
  "pe_py (hints_removed u env) = pe_py env" "pe_settings (hints_removed u env) = pe_settings env"
  "pe_transfer_to_relay (hints_removed u env) = pe_transfer_to_relay env" "pe_scheduler_enabled (hints_removed u env) = pe_scheduler_enabled env"
  "pe_house (hints_removed u env) = pe_house env" "pe_keygen (hints_removed u env) = pe_keygen env"
  "pe_pubkey_of (hints_removed u env) = pe_pubkey_of env" "pe_sign (hints_removed u env) = pe_sign env"
  "pe_verify (hints_removed u env) = pe_verify env" "pe_utc_now (hints_removed u env) = pe_utc_now env"
  "pe_time (hints_removed u env) = pe_time env" "pe_follows (hints_removed u env) = pe_follows env"
  "pe_try_connect (hints_removed u env) = pe_try_connect env" "pe_send (hints_removed u env) = pe_send env"
  "pe_commit_fault (hints_removed u env) = pe_commit_fault env"
  by (simp_all add: hints_removed_def)

lemma hold_hints:
  assumes "flt \<noteq> req_filter SELF_MAP_KIND u []"
  shows "hold (hints_removed u env) flt own ts acc = hold env flt own ts acc"
proof (induction ts arbitrary: acc)
  case (Cons t ts)
  have "pe_fetch (hints_removed u env) url flt = pe_fetch env url flt" for url using assms by (simp add: hints_removed_def)
  with Cons.IH show ?case by (simp add: Let_def split: sum.split option.split)
qed simp

lemma press_target_hints:
  assumes "who \<noteq> u"
  shows "press_target v nsec who on target (hints_removed u env) = press_target v nsec who on target env"
proof -
  have flt: "req_filter SELF_MAP_KIND who [] \<noteq> req_filter SELF_MAP_KIND u []" using assms by (simp add: req_filter_def)
  have own: "own_map who (hints_removed u env) = own_map who env" by (simp add: own_map_def is_own_def fun_eq_iff)
  have sign: "sign_checked (hints_removed u env) = sign_checked env" unfolding sign_checked_def hints_removed_fields fun_eq_iff by blast
  have ops: "asks pe_py (hints_removed u env) = asks pe_py env" "asks pe_settings (hints_removed u env) = asks pe_settings env"
    "dial urls (hints_removed u env) = dial urls env" "ret x (hints_removed u env) = ret x env" "raise e (hints_removed u env) = raise e env"
    "press_exec g (hints_removed u env) = press_exec g env" "press_commit (hints_removed u env) = press_commit env"
    "send_event ev urls (hints_removed u env) = send_event ev urls env"
    "r (hints_removed u env) = r env \<Longrightarrow> press_result r (hints_removed u env) = press_result r env"
    for urls x e g ev r
    by (simp_all add: asks_def dial_def ret_def raise_def press_exec_def press_commit_def send_event_def press_result_def fun_eq_iff)
  show ?thesis
    unfolding press_target_def press_unchanged_def press_new_version_def read_newest_def send_to_def connect_targets_def save_choice_def Let_def
    by (auto intro!: op_bind_env ops simp: ops hold_hints [OF flt] own sign split: option.split prod.split)
qed

lemma read_reader_map_hints:
  "read_reader_map u (hints_removed u env) w
   = (case read_reader_map u env w of (r, w') \<Rightarrow> (map_sum id (map_option without_hints) r, w'))"
proof (cases "pe_fetch env (pe_transfer_to_relay env) (req_filter SELF_MAP_KIND u [])")
  case (Inr a)
  then show ?thesis
    by (cases a) (simp_all add: read_reader_map_def op_bind_def asks_def dial_def press_result_def ret_def hints_removed_def get_without_hints)
qed (simp add: read_reader_map_def op_bind_def asks_def dial_def press_result_def ret_def hints_removed_def)

lemma check_now_hints:
  "check_now u row who wanted unread what_follows (hints_removed u env) w
   = (case check_now u row who wanted unread what_follows env w of
        (r, w') \<Rightarrow> (map_sum id (\<lambda>(event, check). (map_option without_hints event, check)) r, w'))"
proof -
  have groups: "map_groups (case map_option without_hints event of None \<Rightarrow> JNull | Some e \<Rightarrow> e)
      = map_groups (case event of None \<Rightarrow> JNull | Some e \<Rightarrow> e)" for event by (cases event) simp_all
  have upkeep: "scores_upkeep_of (hints_removed u env) = scores_upkeep_of env"
    unfolding scores_upkeep_of_def upkeep_interval_def hints_removed_fields fun_eq_iff by blast
  let ?read = "if wanted then catch (read_reader_map u) (\<lambda>_. raise (HTTPException 502 unread)) else ret None"
  have read: "?read (hints_removed u env) w = (case ?read env w of (r, w') \<Rightarrow> (map_sum id (map_option without_hints) r, w'))"
    by (auto simp: catch_def read_reader_map_hints raise_def ret_def split: prod.split sum.split)
  define k where "k event = (let groups = map_groups (case event of None \<Rightarrow> JNull | Some e \<Rightarrow> e) in
     if too_big_to_check groups then raise (too_big what_follows)
     else op_bind (press_read id) (\<lambda>d.
          op_bind (press_result (\<lambda>env. scores_upkeep_of env d row
                     (if asks_for_scores groups who then Some (pe_follows env (bn_pubkey row)) else None))) (\<lambda>upkeep.
          op_bind (press_result (\<lambda>env. evaluate_self_map groups (offer_rows (relay_settings.truncate (pe_settings env)) who) who upkeep)) (\<lambda>check.
            ret (event, check)))))" for event
  have k: "k (map_option without_hints event) (hints_removed u env) v
      = (case k event env v of (r, w') \<Rightarrow> (map_sum id (\<lambda>(event, check). (map_option without_hints event, check)) r, w'))" for event v
    unfolding k_def Let_def groups
    by (simp add: op_bind_def press_read_def press_result_def ret_def raise_def upkeep split: sum.split)
  have check: "check_now u row who wanted unread what_follows = op_bind ?read k"
    unfolding check_now_def k_def [abs_def] ..
  obtain r1 w1 where "?read env w = (r1, w1)" by fastforce
  with read k show ?thesis unfolding check by (cases r1) (simp_all add: op_bind_def)
qed

text \<open>
  The hints in a reader's Map never steer a press. Take any environment and any state, and take the relay
  hints, and whatever else follows the provider, out of every tag of the reader's Map as it is
  read: the press answers the same, dials the same addresses, sends the same event to the same relays and
  leaves the same state.
\<close>
lemma hints_never_steer_a_press:
  assumes "pe_pubkey_of env (bn_nsec (row_of env u (ps_tx w))) \<noteq> Inr u"
  shows "publish_assistant_treasure_map u on (hints_removed u env) w = publish_assistant_treasure_map u on env w"
proof (cases "pe_pubkey_of env (bn_nsec (row_of env u (ps_tx w)))")
  case (Inr who)
  have row: "row_of (hints_removed u env) = row_of env" "with_row (hints_removed u env) = with_row env"
    by (simp_all add: row_of_def with_row_def fun_eq_iff)
  let ?press = "op_bind (check_now u (row_of env u (ps_tx w)) who on ''Couldn't read your Treasure Map, so nothing was published.'' ''nothing was published'')
      (\<lambda>(_, check). press_target u (bn_nsec (row_of env u (ps_tx w))) who on (listed check on))"
  have "?press (hints_removed u env) v = ?press env v" for v
    using press_target_hints [of who u] Inr assms
    by (auto simp: op_bind_def check_now_hints split: prod.split sum.split)
  with Inr show ?thesis
    by (simp add: publish_assistant_treasure_map_def op_bind_def [of "assistant u"] assistant_eq row one_press_at_a_time_def)
next
  case (Inl e)
  then show ?thesis
    by (simp add: publish_assistant_treasure_map_def op_bind_def [of "assistant u"] assistant_eq row_of_def with_row_def)
qed

section \<open>A press, at work\<close>

definition example_press_user :: string where "example_press_user = replicate 64 CHR ''c''"

definition example_reader_map :: json where
  "example_reader_map = JObj [(''kind'', JInt SELF_MAP_KIND), (''pubkey'', JStr example_press_user), (''created_at'', JInt 5),
     (''tags'', JList [JList [JStr ''30382'', JStr example_assistant, JStr ''wss://hint'']])]"

definition example_py :: py_lib where
  "example_py = \<lparr>brackets_ok = \<lambda>_. False, float_int = \<lambda>_. Inl TypeError, float_of = \<lambda>_. None, json_loads = \<lambda>_. None\<rparr>"

definition example_press_env :: press_env where
  "example_press_env = \<lparr>pe_py = example_py,
     pe_settings = \<lparr>ta_relay_public_url = ''wss://scores'', trusted_list_relay = [], dictionary_relay = [], ta_relay = ''ws://inner''\<rparr>,
     pe_transfer_to_relay = ''ws://neofry'', pe_scheduler_enabled = True, pe_house = [], pe_keygen = \<lambda>p. (''nsec1'', ''cipher''),
     pe_pubkey_of = \<lambda>_. Inr example_assistant,
     pe_sign = \<lambda>nsec kind content tags t st. Inr (JObj [(''kind'', JInt kind), (''pubkey'', JStr example_assistant),
       (''created_at'', JInt t), (''tags'', json_tags tags)]),
     pe_verify = \<lambda>e. case get_in e ''created_at'' of JInt _ \<Rightarrow> True | _ \<Rightarrow> False,
     pe_utc_now = 0, pe_time = 7,
     pe_fetch = \<lambda>url flt. Inr (if flt = req_filter SELF_MAP_KIND example_press_user [] then Some example_reader_map else None),
     pe_follows = \<lambda>_. Inr True, pe_try_connect = Inr, pe_send = \<lambda>urls _. Sent urls [], pe_commit_fault = \<lambda>_. None\<rparr>"

definition example_press_state :: press_state where
  "example_press_state = (let d = \<lparr>nsecs = [], schedulings = [], billing_plans = [], user_subscriptions = [], webhook_events = [],
       next_event_id = 1, next_plan_id = 1\<rparr> in
     \<lparr>ps_tx = d, ps_durable = d, ps_commits = 0, ps_pressing = [example_press_user], ps_dialed = [], ps_sent = []\<rparr>)"

lemma example_press_healthy: "healthy example_press_env" "dates_as_asked example_press_env"
proof -
  have relay: "ta_relay_public_url (pe_settings example_press_env) \<noteq> []"
    by (simp add: example_press_env_def)
  show "healthy example_press_env" unfolding healthy_def
    using relay by (auto simp: example_press_env_def get_in_def get_def json_tags_def split: json.splits)
  show "dates_as_asked example_press_env"
    by (simp add: dates_as_asked_def example_press_env_def get_in_def get_def)
qed

lemma example_press_who:
  "pe_pubkey_of example_press_env (bn_nsec (row_of example_press_env u d)) = Inr example_assistant"
  "example_assistant \<notin> set (ps_pressing example_press_state)" "example_assistant \<noteq> example_press_user"
proof -
  show other: "example_assistant \<noteq> example_press_user" by (simp add: example_assistant_def example_press_user_def)
  then show "example_assistant \<notin> set (ps_pressing example_press_state)" by (simp add: example_press_state_def Let_def)
qed (simp add: example_press_env_def)

lemma example_press_fits:
  "\<forall>e. pe_fetch example_press_env (pe_transfer_to_relay example_press_env) (req_filter SELF_MAP_KIND example_press_user []) = Inr (Some e)
     \<longrightarrow> \<not> too_big_to_check (map_groups e)"
proof -
  have "\<not> too_big_to_check (map_groups example_reader_map)" by code_simp
  then show ?thesis by (simp add: example_press_env_def)
qed


theorem successful_press_exact_witness:
  "\<exists>ans w' (check :: self_map_check) versions.
     publish_assistant_treasure_map example_press_user True example_press_env example_press_state = (Inr ans, w')
     \<and> found example_press_env example_assistant (smc_should_say check) = Inr versions
     \<and> press_sound example_press_env example_assistant (smc_should_say check) versions ans"
proof -
  obtain ans w' where run: "publish_assistant_treasure_map example_press_user True example_press_env example_press_state = (Inr ans, w')"
    using healthy_press [OF example_press_healthy(1) example_press_who(1,2) example_press_fits] by blast
  from successful_press_exact [OF run example_press_healthy(2)] obtain check :: self_map_check and versions where
    "found example_press_env example_assistant (smc_should_say check) = Inr versions"
    "press_sound example_press_env example_assistant (smc_should_say check) versions ans"
    by (auto simp: example_press_who(1) listed_def)
  with run show ?thesis by blast
qed

theorem press_saves_choice_iff_it_answers_witness:
  "\<exists>ans w'. in_request (publish_assistant_treasure_map example_press_user True) example_press_env example_press_state = (Inr ans, w')
     \<and> ps_durable w' = set_treasure_map_on_by_pubkey_on_db example_press_user True
         (with_row example_press_env example_press_user (ps_durable example_press_state))"
proof -
  obtain ans w1 where "publish_assistant_treasure_map example_press_user True example_press_env example_press_state = (Inr ans, w1)"
    using healthy_press [OF example_press_healthy(1) example_press_who(1,2) example_press_fits] by blast
  then obtain w' where run: "in_request (publish_assistant_treasure_map example_press_user True) example_press_env example_press_state = (Inr ans, w')"
    by (fastforce simp: in_request_def press_commit_def Let_def split: option.split)
  have "ps_tx example_press_state = ps_durable example_press_state" by (simp add: example_press_state_def Let_def)
  from press_saves_choice_iff_it_answers [OF run this] run show ?thesis by auto
qed

end
