(* ===== verification/Tag_Store.thy ===== *)
theory Tag_Store
  imports Nostr_Event "HOL-Library.List_Lexorder" "HOL-Library.Char_ord" "HOL-Library.Product_Lexorder"
begin

text \<open>
  Tag elements and taggings (\<^verbatim>\<open>app/services/tagging_parse.py\<close>, \<^verbatim>\<open>app/repos/tagging_repo.py\<close>): two shapes of
  one event kind, parsed, kept one row per coordinate with the newest event winning, and read back
  as a dictionary and as the assertions of one tag. The properties: which event's stance a
  coordinate holds whatever the order of delivery, and what an edit of a tag does to the
  assertions made against it.
\<close>

section \<open>Parsing\<close>

definition LEGACY_Z_TAG_PUBKEY :: string where
  "LEGACY_Z_TAG_PUBKEY = ''82b75e474dda005e912bcbb910391c60c2b89cc7faf5d3c30b7c59a324973833''"
definition TAG_Z_TAG :: string where "TAG_Z_TAG = ''39998:'' @ LEGACY_Z_TAG_PUBKEY @ '':tag''"
definition NOSTR_USER_TAG_Z_TAG :: string where
  "NOSTR_USER_TAG_Z_TAG = ''39998:'' @ LEGACY_Z_TAG_PUBKEY @ '':nostr-user-tag''"
definition TAGGING_KIND :: int where "TAGGING_KIND = 39999"
definition APPLY_THRESHOLD :: rat where "APPLY_THRESHOLD = 1/2"
definition DISPUTE_THRESHOLD :: rat where "DISPUTE_THRESHOLD = - 1/2"

record tag_element =
  te_event_id :: string
  te_author_pubkey :: string
  te_slug :: string
  te_name :: string
  te_description :: string
  te_created_at_unix :: int

record user_tagging =
  ut_event_id :: string
  ut_asserter_pubkey :: string
  ut_d_tag :: string
  ut_target_pubkey :: string
  ut_tag_event_id :: string
  ut_polarity :: py_float
  ut_created_at_unix :: int

fun is_hex64 :: "json \<Rightarrow> bool" where
  "is_hex64 (JStr s) = (length s = 64 \<and> list_all (\<lambda>c. is_hex (lower_char c)) s)"
| "is_hex64 _ = False"

fun nonempty_text :: "json \<Rightarrow> string option" where
  "nonempty_text (JStr s) = (if s = [] then None else Some s)"
| "nonempty_text _ = None"

definition first_tag_value :: "(string \<times> json) list \<Rightarrow> string \<Rightarrow> (exn, string option) result" where
  "first_tag_value event key =
     result_bind (tag_values event key) (\<lambda>vs.
       Inr (case List.map_filter nonempty_text vs of [] \<Rightarrow> None | s # _ \<Rightarrow> Some s))"

definition z_tag_of :: "(string \<times> json) list \<Rightarrow> (exn, string option) result" where
  "z_tag_of event = first_tag_value event ''z''"

definition read_polarity :: "py_lib \<Rightarrow> (string \<times> json) list \<Rightarrow> (exn, py_float) result" where
  "read_polarity py event =
     result_bind (first_tag_value event ''polarity'') (\<lambda>raw.
       Inr (case raw of None \<Rightarrow> Fin 1
            | Some s \<Rightarrow> (case float_of py s of None \<Rightarrow> Fin 1 | Some x \<Rightarrow> x)))"

text \<open>Python's comparisons: none holds of a NaN.\<close>

fun is_applied :: "py_float \<Rightarrow> bool" where
  "is_applied (Fin x) = (x \<ge> APPLY_THRESHOLD)"
| "is_applied Pos_Inf = True"
| "is_applied _ = False"

fun is_disputed :: "py_float \<Rightarrow> bool" where
  "is_disputed (Fin x) = (x \<le> DISPUTE_THRESHOLD)"
| "is_disputed Neg_Inf = True"
| "is_disputed _ = False"

definition is_neutral :: "py_float \<Rightarrow> bool" where
  "is_neutral p \<longleftrightarrow> \<not> is_applied p \<and> \<not> is_disputed p"

text \<open>\<^verbatim>\<open>json.loads(_first_tag_value(event, "json") or event.get("content") or "")\<close>, where it does not raise.\<close>

definition element_payload :: "py_lib \<Rightarrow> (string \<times> json) list \<Rightarrow> string option \<Rightarrow> json option" where
  "element_payload py event json_tag =
     (let content = get event ''content'';
          raw = (case json_tag of Some s \<Rightarrow> JStr s | None \<Rightarrow> if truthy content then content else JStr [])
      in case raw of JStr s \<Rightarrow> json_loads py s | _ \<Rightarrow> None)"

fun text_or :: "json \<Rightarrow> string \<Rightarrow> (string \<Rightarrow> bool) \<Rightarrow> string" where
  "text_or (JStr s) dflt ok = (if ok s then s else dflt)"
| "text_or _ dflt ok = dflt"

definition element_of :: "string \<Rightarrow> string \<Rightarrow> json \<Rightarrow> (int \<Rightarrow> tag_element) option" where
  "element_of event_id author payload =
     (case payload of
        JObj d \<Rightarrow>
          (case get d ''tag'' of
             JObj tag \<Rightarrow>
               (case get tag ''slug'' of
                  JStr slug \<Rightarrow>
                    if strip slug = [] then None
                    else Some (\<lambda>t. \<lparr>te_event_id = event_id, te_author_pubkey = author, te_slug = slug,
                                 te_name = text_or (get tag ''name'') slug (\<lambda>s. strip s \<noteq> []),
                                 te_description = text_or (get tag ''description'') [] (\<lambda>_. True),
                                 te_created_at_unix = t\<rparr>)
                | _ \<Rightarrow> None)
           | _ \<Rightarrow> None)
      | _ \<Rightarrow> None)"

fun the_text :: "json \<Rightarrow> string" where
  "the_text (JStr s) = s"
| "the_text _ = []"

definition parse_tag_element :: "py_lib \<Rightarrow> (string \<times> json) list \<Rightarrow> (exn, tag_element option) result" where
  "parse_tag_element py event =
     result_bind (z_tag_of event) (\<lambda>z.
       if z \<noteq> Some TAG_Z_TAG \<or> \<not> is_hex64 (get event ''id'') \<or> \<not> is_hex64 (get event ''pubkey'') then Inr None
       else result_bind (first_tag_value event ''json'') (\<lambda>json_tag.
         case element_payload py event json_tag of
           None \<Rightarrow> Inr None
         | Some payload \<Rightarrow>
             (case element_of (the_text (get event ''id'')) (the_text (get event ''pubkey'')) payload of
                None \<Rightarrow> Inr None
              | Some build \<Rightarrow> result_bind (int_or_zero py (get event ''created_at'')) (\<lambda>t. Inr (Some (build t))))))"

definition parse_user_tagging :: "py_lib \<Rightarrow> (string \<times> json) list \<Rightarrow> (exn, user_tagging option) result" where
  "parse_user_tagging py event =
     result_bind (z_tag_of event) (\<lambda>z.
       if z \<noteq> Some NOSTR_USER_TAG_Z_TAG \<or> \<not> is_hex64 (get event ''id'') \<or> \<not> is_hex64 (get event ''pubkey'') then Inr None
       else result_bind (first_tag_value event ''p'') (\<lambda>p. result_bind (first_tag_value event ''e'') (\<lambda>e.
         case (p, e) of
           (Some target, Some tag_event_id) \<Rightarrow>
             if \<not> is_hex64 (JStr target) \<or> \<not> is_hex64 (JStr tag_event_id) then Inr None
             else result_bind (first_tag_value event ''d'') (\<lambda>d.
                  result_bind (read_polarity py event) (\<lambda>polarity.
                  result_bind (int_or_zero py (get event ''created_at'')) (\<lambda>t.
                    Inr (Some \<lparr>ut_event_id = the_text (get event ''id''), ut_asserter_pubkey = the_text (get event ''pubkey''),
                               ut_d_tag = (case d of None \<Rightarrow> target @ '':'' @ tag_event_id | Some s \<Rightarrow> s),
                               ut_target_pubkey = target, ut_tag_event_id = tag_event_id, ut_polarity = polarity,
                               ut_created_at_unix = t\<rparr>))))
         | _ \<Rightarrow> Inr None)))"

section \<open>The tables\<close>

text \<open>The rows of the two tables have the columns of what was parsed.\<close>

record tag_db =
  tg_elements :: "tag_element list"
  tg_taggings :: "user_tagging list"

definition coordinate :: "tag_element \<Rightarrow> string \<times> string" where
  "coordinate e = (te_author_pubkey e, te_slug e)"

definition stance_key :: "user_tagging \<Rightarrow> string \<times> string" where
  "stance_key t = (ut_asserter_pubkey t, ut_d_tag t)"

text \<open>What the driver takes: texts without NUL, and an integer of 32 bits.\<close>

definition storable_element :: "tag_element \<Rightarrow> bool" where
  "storable_element e \<longleftrightarrow> no_nul (te_slug e) \<and> no_nul (te_name e) \<and> no_nul (te_description e) \<and> int4 (te_created_at_unix e)"

definition storable_tagging :: "user_tagging \<Rightarrow> bool" where
  "storable_tagging t \<longleftrightarrow> no_nul (ut_d_tag t) \<and> int4 (ut_created_at_unix t)"

definition replace_element :: "tag_element \<Rightarrow> tag_element \<Rightarrow> tag_element" where
  "replace_element new old =
     (if te_created_at_unix old < te_created_at_unix new
      then old\<lparr>te_event_id := te_event_id new, te_name := te_name new, te_description := te_description new,
               te_created_at_unix := te_created_at_unix new\<rparr>
      else old)"

definition repoint :: "string \<Rightarrow> string \<Rightarrow> user_tagging list \<Rightarrow> user_tagging list" where
  "repoint old new = sql_update (\<lambda>t. ut_tag_event_id t = old) (\<lambda>t. t\<lparr>ut_tag_event_id := new\<rparr>)"

definition upsert_tag_element_on_db :: "tag_element \<Rightarrow> tag_db \<Rightarrow> (exn, tag_db) result" where
  "upsert_tag_element_on_db element d =
     (let prior = lookup_by coordinate (coordinate element) (tg_elements d);
          elements = sql_upsert coordinate (replace_element element) element (tg_elements d)
      in if \<not> storable_element element then Inl DataError
         else if \<not> unique_on te_event_id elements then Inl IntegrityError
         else Inr (d\<lparr>tg_elements := elements,
                     tg_taggings := (case prior of
                        None \<Rightarrow> tg_taggings d
                      | Some p \<Rightarrow>
                          if te_event_id p \<noteq> te_event_id element \<and> te_created_at_unix p < te_created_at_unix element
                          then repoint (te_event_id p) (te_event_id element) (tg_taggings d) else tg_taggings d)\<rparr>))"

definition replace_tagging :: "user_tagging \<Rightarrow> user_tagging \<Rightarrow> user_tagging" where
  "replace_tagging new old =
     (if ut_created_at_unix old < ut_created_at_unix new
      then old\<lparr>ut_event_id := ut_event_id new, ut_target_pubkey := ut_target_pubkey new, ut_tag_event_id := ut_tag_event_id new,
               ut_polarity := ut_polarity new, ut_created_at_unix := ut_created_at_unix new\<rparr>
      else old)"

definition upsert_user_tagging_on_db :: "user_tagging \<Rightarrow> tag_db \<Rightarrow> (exn, tag_db) result" where
  "upsert_user_tagging_on_db tagging d =
     (if \<not> storable_tagging tagging then Inl DataError
      else Inr (d\<lparr>tg_taggings := sql_upsert stance_key (replace_tagging tagging) tagging (tg_taggings d)\<rparr>))"

text \<open>One transaction: an error leaves the tables as they were.\<close>

definition process_event_kind_39999 :: "py_lib \<Rightarrow> (string \<times> json) list \<Rightarrow> tag_db \<Rightarrow> (exn, tag_db) result" where
  "process_event_kind_39999 py event d =
     result_bind (parse_tag_element py event) (\<lambda>element.
     result_bind (parse_user_tagging py event) (\<lambda>tagging.
       case element of
         Some e \<Rightarrow> upsert_tag_element_on_db e d
       | None \<Rightarrow> (case tagging of Some t \<Rightarrow> upsert_user_tagging_on_db t d | None \<Rightarrow> Inr d)))"

section \<open>Reading\<close>

definition count_taggings_on_db :: "tag_db \<Rightarrow> nat" where
  "count_taggings_on_db d = length (tg_taggings d)"

definition get_asserter_pubkeys_on_db :: "tag_db \<Rightarrow> string list" where
  "get_asserter_pubkeys_on_db d = remdups (map ut_asserter_pubkey (tg_taggings d))"

text \<open>PostgreSQL's comparisons: a NaN is greater than every number.\<close>

fun sql_applied :: "py_float \<Rightarrow> bool" where
  "sql_applied Not_A_Number = True"
| "sql_applied p = is_applied p"

record dictionary_entry =
  de_tag_event_id :: string
  de_tag_author_pubkey :: string
  de_slug :: string
  de_name :: string
  de_description :: string
  de_uses :: int

definition users_of_tag :: "string list \<Rightarrow> tag_db \<Rightarrow> string \<Rightarrow> string list" where
  "users_of_tag qualifying d event_id =
     remdups (map ut_asserter_pubkey (filter (\<lambda>t. ut_tag_event_id t = event_id \<and> ut_asserter_pubkey t \<in> set qualifying
       \<and> (sql_applied (ut_polarity t) \<or> is_disputed (ut_polarity t))) (tg_taggings d)))"

definition get_dictionary_on_db :: "tag_db \<Rightarrow> string list \<Rightarrow> int \<Rightarrow> dictionary_entry list" where
  "get_dictionary_on_db d qualifying min_uses =
     (if qualifying = [] then []
      else sort_key (\<lambda>e. (- de_uses e, de_tag_event_id e))
        (map (\<lambda>e. \<lparr>de_tag_event_id = te_event_id e, de_tag_author_pubkey = te_author_pubkey e, de_slug = te_slug e,
                   de_name = te_name e, de_description = te_description e,
                   de_uses = int (length (users_of_tag qualifying d (te_event_id e)))\<rparr>)
          (filter (\<lambda>e. let users = users_of_tag qualifying d (te_event_id e) in users \<noteq> [] \<and> int (length users) \<ge> min_uses)
            (tg_elements d))))"

definition get_taggings_for_tag_on_db :: "tag_db \<Rightarrow> string \<Rightarrow> string list \<Rightarrow> (string \<times> py_float \<times> string) list" where
  "get_taggings_for_tag_on_db d tag_event_id qualifying =
     (if qualifying = [] then []
      else map (\<lambda>t. (ut_target_pubkey t, ut_polarity t, ut_asserter_pubkey t))
        (filter (\<lambda>t. ut_tag_event_id t = tag_event_id \<and> ut_asserter_pubkey t \<in> set qualifying) (tg_taggings d)))"

section \<open>The newest event holds a coordinate\<close>

text \<open>The events of the kind as the queue delivers them; one that fails is dropped.\<close>

definition ingest_tag :: "py_lib \<Rightarrow> (string \<times> json) list \<Rightarrow> tag_db \<Rightarrow> tag_db" where
  "ingest_tag py event d = (case process_event_kind_39999 py event d of Inl _ \<Rightarrow> d | Inr d' \<Rightarrow> d')"

definition ingest_tags :: "py_lib \<Rightarrow> (string \<times> json) list list \<Rightarrow> tag_db \<Rightarrow> tag_db" where
  "ingest_tags py events d = fold (ingest_tag py) events d"

definition no_tags :: tag_db where "no_tags = \<lparr>tg_elements = [], tg_taggings = []\<rparr>"

text \<open>The tagging an event asserts, where it is one the table takes.\<close>

definition asserted :: "py_lib \<Rightarrow> (string \<times> json) list \<Rightarrow> user_tagging option" where
  "asserted py event =
     (case parse_user_tagging py event of
        Inr (Some t) \<Rightarrow> if storable_tagging t then Some t else None
      | _ \<Rightarrow> None)"

definition stance :: "user_tagging \<Rightarrow> string \<times> string \<times> py_float \<times> int" where
  "stance t = (ut_event_id t, ut_target_pubkey t, ut_polarity t, ut_created_at_unix t)"

lemma max_by_snoc:
  "max_by f (xs @ [x]) = (case max_by f xs of None \<Rightarrow> Some x | Some m \<Rightarrow> Some (if f m < f x then x else m))"
  by (induction xs) (auto split: option.split)

text \<open>The two shapes exclude each other: an event has one first \<^verbatim>\<open>z\<close> tag.\<close>

lemma z_tags_differ: "TAG_Z_TAG \<noteq> NOSTR_USER_TAG_Z_TAG"
  by (simp add: TAG_Z_TAG_def NOSTR_USER_TAG_Z_TAG_def)

lemma parsed_z_tag:
  "parse_tag_element py event = Inr (Some e) \<Longrightarrow> z_tag_of event = Inr (Some TAG_Z_TAG)"
  "parse_user_tagging py event = Inr (Some t) \<Longrightarrow> z_tag_of event = Inr (Some NOSTR_USER_TAG_Z_TAG)"
  by (cases "z_tag_of event"; simp add: parse_tag_element_def parse_user_tagging_def split: if_splits)+

lemma tagging_or_element:
  assumes "parse_user_tagging py event = Inr (Some t)"
  shows "parse_tag_element py event = Inr None"
proof -
  have "z_tag_of event = Inr (Some NOSTR_USER_TAG_Z_TAG)" using assms by (rule parsed_z_tag(2))
  moreover have "Some NOSTR_USER_TAG_Z_TAG \<noteq> Some TAG_Z_TAG" using z_tags_differ by simp
  ultimately show ?thesis unfolding parse_tag_element_def by (simp only: result_bind_simps simp_thms if_True)
qed

interpretation tagging_rows: row_upsert stance_key "replace_tagging t" t for t
  by unfold_locales (simp add: stance_key_def replace_tagging_def)

interpretation element_rows: row_upsert coordinate "replace_element e" e for e
  by unfold_locales (simp add: coordinate_def replace_element_def)

interpretation repointed: row_write stance_key "\<lambda>t. t\<lparr>ut_tag_event_id := new\<rparr>" for new
  by unfold_locales (simp add: stance_key_def)

abbreviation held_stance :: "tag_db \<Rightarrow> string \<times> string \<Rightarrow> (string \<times> string \<times> py_float \<times> int) option" where
  "held_stance d k \<equiv> map_option stance (lookup_by stance_key k (tg_taggings d))"

lemma stance_repoint: "map_option stance (lookup_by stance_key k (repoint old new ts)) = map_option stance (lookup_by stance_key k ts)"
  by (cases "lookup_by stance_key k ts") (simp_all add: repoint_def repointed.lookup stance_def)

lemma stance_element: "upsert_tag_element_on_db e d = Inr d' \<Longrightarrow> held_stance d' k = held_stance d k"
  by (auto simp: upsert_tag_element_on_db_def Let_def stance_repoint split: if_splits option.splits)

lemma stance_tagging:
  assumes "upsert_user_tagging_on_db t d = Inr d'"
  shows "held_stance d' k = (if stance_key t \<noteq> k then held_stance d k
     else Some (case lookup_by stance_key k (tg_taggings d) of None \<Rightarrow> stance t
                | Some old \<Rightarrow> if ut_created_at_unix old < ut_created_at_unix t then stance t else stance old))"
proof -
  have d': "tg_taggings d' = sql_upsert stance_key (replace_tagging t) t (tg_taggings d)"
    using assms by (auto simp: upsert_user_tagging_on_db_def split: if_splits)
  have "stance (replace_tagging t old) = (if ut_created_at_unix old < ut_created_at_unix t then stance t else stance old)" for old
    by (simp add: replace_tagging_def stance_def)
  then show ?thesis
    using tagging_rows.upsert_lookup_same [of t "tg_taggings d"] tagging_rows.upsert_lookup_other [of k t "tg_taggings d"]
    by (auto simp: d' split: option.split)
qed

lemma stance_step:
  "held_stance (ingest_tag py event d) k =
     (case asserted py event of
        None \<Rightarrow> held_stance d k
      | Some t \<Rightarrow> if stance_key t \<noteq> k then held_stance d k
                  else Some (case lookup_by stance_key k (tg_taggings d) of None \<Rightarrow> stance t
                             | Some old \<Rightarrow> if ut_created_at_unix old < ut_created_at_unix t then stance t else stance old))"
proof (cases "asserted py event")
  case (Some t)
  then have t: "parse_user_tagging py event = Inr (Some t)" "storable_tagging t"
    by (auto simp: asserted_def split: sum.splits option.splits if_splits)
  then obtain d' where "upsert_user_tagging_on_db t d = Inr d'" by (simp add: upsert_user_tagging_on_db_def)
  moreover from this have "ingest_tag py event d = d'"
    by (simp add: ingest_tag_def process_event_kind_39999_def t tagging_or_element [OF t(1)])
  ultimately show ?thesis using stance_tagging Some by simp
next
  case None
  have "process_event_kind_39999 py event d = Inr d' \<Longrightarrow> held_stance d' k = held_stance d k" for d'
    using None stance_element [of _ d d' k]
    by (auto simp: process_event_kind_39999_def result_bind_eq_Inr asserted_def upsert_user_tagging_on_db_def split: option.splits if_splits)
  then show ?thesis using None by (simp add: ingest_tag_def split: sum.split)
qed

text \<open>
  C30. Whatever the order of delivery, a coordinate holds the newest stance. Take any events of the kind, tag
  elements and taggings, well-formed and not, in any order: what the table has for an asserter and
  a \<^verbatim>\<open>d\<close> tag is the target, the polarity and the date of the newest acceptable tagging delivered for
  them, the first delivered of several with one date, and nothing where there was none.
\<close>
theorem newest_stance_holds:
  "held_stance (ingest_tags py events no_tags) k
   = map_option stance (max_by ut_created_at_unix (filter (\<lambda>t. stance_key t = k) (List.map_filter (asserted py) events)))"
proof (induction events rule: rev_induct)
  case Nil
  show ?case by (simp add: ingest_tags_def no_tags_def map_filter_simps)
next
  case (snoc event events)
  let ?d = "ingest_tags py events no_tags" and ?ts = "filter (\<lambda>t. stance_key t = k) (List.map_filter (asserted py) events)"
  have step: "ingest_tags py (events @ [event]) no_tags = ingest_tag py event ?d" by (simp add: ingest_tags_def)
  show ?case
  proof (cases "asserted py event")
    case None
    with snoc.IH show ?thesis by (simp add: step stance_step map_filter_append map_filter_simps)
  next
    case (Some t)
    have created: "ut_created_at_unix old = ut_created_at_unix m" if "stance old = stance m" for old m
      using that by (simp add: stance_def)
    show ?thesis
      using Some snoc.IH
      by (cases "lookup_by stance_key k (tg_taggings ?d)"; cases "max_by ut_created_at_unix ?ts")
        (auto simp: step stance_step map_filter_append map_filter_simps max_by_snoc dest: created simp del: max_by_None)
  qed
qed

section \<open>The tables stay well-typed\<close>

definition tag_db_ok :: "tag_db \<Rightarrow> bool" where
  "tag_db_ok d \<longleftrightarrow> unique_on te_event_id (tg_elements d) \<and> unique_on coordinate (tg_elements d) \<and> unique_on stance_key (tg_taggings d)
     \<and> (\<forall>e\<in>set (tg_elements d). storable_element e) \<and> (\<forall>t\<in>set (tg_taggings d). storable_tagging t)"

lemma sql_update_all_in: "r \<in> set (sql_update p f rows) \<Longrightarrow> r \<in> set rows \<or> (\<exists>s\<in>set rows. r = f s)"
  by (auto simp: sql_update_def)

lemma upsert_in: "r \<in> set (sql_upsert key upd new rows) \<Longrightarrow> r \<in> set rows \<or> r = new \<or> (\<exists>s\<in>set rows. key s = key new \<and> r = upd s)"
  by (auto simp: sql_upsert_def sql_update_def split: if_splits)

lemma replace_storable:
  "storable_element new \<Longrightarrow> storable_element old \<Longrightarrow> storable_element (replace_element new old)"
  "storable_tagging t \<Longrightarrow> storable_tagging s \<Longrightarrow> storable_tagging (replace_tagging t s)"
  by (simp_all add: storable_element_def storable_tagging_def replace_element_def replace_tagging_def)

lemma element_ok:
  assumes "tag_db_ok d" "upsert_tag_element_on_db e d = Inr d'"
  shows "tag_db_ok d'"
proof -
  have parts: "storable_element e" "unique_on te_event_id (tg_elements d')"
    "tg_elements d' = sql_upsert coordinate (replace_element e) e (tg_elements d)"
    "tg_taggings d' = tg_taggings d \<or> (\<exists>old. tg_taggings d' = repoint old (te_event_id e) (tg_taggings d))"
    using assms(2) by (auto simp: upsert_tag_element_on_db_def Let_def split: if_splits option.splits)
  have "unique_on coordinate (tg_elements d')"
    using assms(1) by (simp add: parts(3) element_rows.upsert_unique tag_db_ok_def)
  moreover have "\<forall>x\<in>set (tg_elements d'). storable_element x"
    using assms(1) parts(1) by (auto simp: parts(3) tag_db_ok_def dest!: upsert_in intro: replace_storable)
  moreover have "unique_on stance_key (tg_taggings d')" "\<forall>t\<in>set (tg_taggings d'). storable_tagging t"
    using assms(1) parts(4)
    by (auto simp: tag_db_ok_def repoint_def repointed.unique storable_tagging_def dest!: sql_update_all_in)
  ultimately show ?thesis using parts(2) by (simp add: tag_db_ok_def)
qed

lemma tagging_ok:
  assumes "tag_db_ok d" "upsert_user_tagging_on_db t d = Inr d'"
  shows "tag_db_ok d'"
  using assms
  by (auto simp: upsert_user_tagging_on_db_def tag_db_ok_def tagging_rows.upsert_unique replace_storable split: if_splits dest!: upsert_in)


section \<open>Edits of a tag\<close>

text \<open>An edit takes along every assertion made against the version it replaces.\<close>

lemma users_of_tag_iff:
  "a \<in> set (users_of_tag q d event_id) \<longleftrightarrow> (\<exists>t\<in>set (tg_taggings d). ut_tag_event_id t = event_id \<and> ut_asserter_pubkey t = a
     \<and> a \<in> set q \<and> (sql_applied (ut_polarity t) \<or> is_disputed (ut_polarity t)))"
  by (auto simp: users_of_tag_def)

lemma edit_keeps_assertions:
  assumes "upsert_tag_element_on_db e d = Inr d'" "lookup_by coordinate (coordinate e) (tg_elements d) = Some p"
    "te_created_at_unix p < te_created_at_unix e"
  shows "set (users_of_tag q d (te_event_id p)) \<subseteq> set (users_of_tag q d' (te_event_id e))"
proof (cases "te_event_id p = te_event_id e")
  case True
  with assms show ?thesis by (auto simp: upsert_tag_element_on_db_def Let_def users_of_tag_def split: if_splits)
next
  case False
  with assms have "tg_taggings d' = repoint (te_event_id p) (te_event_id e) (tg_taggings d)"
    by (auto simp: upsert_tag_element_on_db_def Let_def split: if_splits)
  moreover have "ut_asserter_pubkey t \<in> set (users_of_tag q d' (te_event_id e))"
    if "tg_taggings d' = repoint (te_event_id p) (te_event_id e) (tg_taggings d)" "t \<in> set (tg_taggings d)" "ut_tag_event_id t = te_event_id p"
      "ut_asserter_pubkey t \<in> set q" "sql_applied (ut_polarity t) \<or> is_disputed (ut_polarity t)" for t
  proof -
    have "t\<lparr>ut_tag_event_id := te_event_id e\<rparr> \<in> set (tg_taggings d')" using that by (force simp: repoint_def sql_update_def)
    from bexI [OF _ this] that(4,5) show ?thesis unfolding users_of_tag_iff by simp
  qed
  ultimately show ?thesis by (auto simp: users_of_tag_iff [of _ q d])
qed

text \<open>It does not reach the assertions still to come: one made against the replaced version and delivered
  after the edit counts for no tag.\<close>

lemma late_assertion_counts_for_nothing:
  assumes "tag_db_ok d" "\<forall>e\<in>set (tg_elements d). te_event_id e \<noteq> ut_tag_event_id t"
    "lookup_by stance_key (stance_key t) (tg_taggings d) = None" "upsert_user_tagging_on_db t d = Inr d'"
  shows "get_dictionary_on_db d' q n = get_dictionary_on_db d q n"
proof -
  have new: "tg_taggings d' = tg_taggings d @ [t]" and same: "tg_elements d' = tg_elements d"
    using assms(3,4) by (auto simp: upsert_user_tagging_on_db_def sql_upsert_def lookup_by_None split: if_splits)
  have users: "users_of_tag q d' (te_event_id e) = users_of_tag q d (te_event_id e)" if "e \<in> set (tg_elements d)" for e
    using assms(2) that by (auto simp: users_of_tag_def new)
  then have "filter (\<lambda>e. let users = users_of_tag q d' (te_event_id e) in users \<noteq> [] \<and> int (length users) \<ge> n) (tg_elements d)
      = filter (\<lambda>e. let users = users_of_tag q d (te_event_id e) in users \<noteq> [] \<and> int (length users) \<ge> n) (tg_elements d)"
    by (intro filter_cong) auto
  with users show ?thesis unfolding get_dictionary_on_db_def same by (auto intro!: arg_cong [where f = "sort_key _"] map_cong)
qed

text \<open>A tagging whose polarity is not a number is a use of its tag in the dictionary, where the database compares it,
  and neither an application nor a dispute in the list, where the program does.\<close>

lemma not_a_number_is_a_use: "sql_applied Not_A_Number \<and> is_neutral Not_A_Number"
  by (simp add: is_neutral_def)

end
