(* ===== verification/Social_Graph.thy ===== *)
theory Social_Graph
  imports Tag_Store
begin

text \<open>
  The social graph, kept from relay events (\<^verbatim>\<open>message_queue_tasks/process_strfry_event.py\<close>,
  \<^verbatim>\<open>services/report_graph_service.py\<close>, \<^verbatim>\<open>report_relay_service.py\<close>, the consumer's loop in
  \<^verbatim>\<open>message_queue_consumer.py\<close> and the rebuild of \<^verbatim>\<open>backfill_redis_relationships.py\<close>): edges in Neo4j, and the sets
  in Redis that the ranking worker reads. The two stores are written one after the other, and any write may
  fail: a graph transaction before or after it took effect, a pipeline after any number of its commands. The
  properties: what each event leaves in both stores, that the sets mirror the edges, that an unreadable relay
  removes no report, and that the rebuild ends with every edge written.
\<close>

section \<open>The two stores\<close>

datatype edge_kind = FOLLOWS | MUTES | REPORTS | DESIGNATES | ZAPS_VIA

text \<open>Edges in the order they were made; no edge twice.\<close>

record social_graph =
  sg_users :: "string list"
  sg_edges :: "edge_kind \<Rightarrow> (string \<times> string) list"

datatype redis_cmd = Sadd string "string list" | Srem string string | Del string

fun redis_run :: "redis_cmd \<Rightarrow> (string \<Rightarrow> string set) \<Rightarrow> string \<Rightarrow> string set" where
  "redis_run (Sadd k ms) r = r(k := r k \<union> set ms)"
| "redis_run (Srem k m) r = r(k := r k - {m})"
| "redis_run (Del k) r = r(k := {})"

record social =
  so_graph :: social_graph
  so_redis :: "string \<Rightarrow> string set"
  so_tags :: tag_db
  so_writes :: nat
  so_pipes :: nat

text \<open>What a relay's socket gives: a decoded message, one that does not decode, or a failure. Where the
  messages end, the deadline passes.\<close>

datatype frame = Message json | Garbage | Broken exn

record social_env =
  se_py :: py_lib
  se_graph_fault :: "nat \<Rightarrow> (bool \<times> exn) option"
  se_pipe_fault :: "nat \<Rightarrow> (nat \<times> exn) option"
  se_frames :: "string \<Rightarrow> frame list"

type_synonym 'a social_op = "(social_env, social, 'a) act"

definition of_res :: "(exn, 'a) result \<Rightarrow> 'a social_op" where
  "of_res r env w = (r, w)"

text \<open>A managed transaction: it may fail without effect, or after it was committed.\<close>

definition write_graph :: "(social_graph \<Rightarrow> 'a \<times> social_graph) \<Rightarrow> 'a social_op" where
  "write_graph f env w =
     (case f (so_graph w) of (x, g) \<Rightarrow>
        let w' = w\<lparr>so_writes := so_writes w + 1\<rparr> in
        case se_graph_fault env (so_writes w) of
          None \<Rightarrow> (Inr x, w'\<lparr>so_graph := g\<rparr>)
        | Some (took_effect, e) \<Rightarrow> (Inl e, if took_effect then w'\<lparr>so_graph := g\<rparr> else w'))"

definition pipeline :: "bool \<Rightarrow> redis_cmd list \<Rightarrow> unit social_op" where
  "pipeline transaction cmds env w =
     (let w' = w\<lparr>so_pipes := so_pipes w + 1\<rparr> in
      case se_pipe_fault env (so_pipes w) of
        None \<Rightarrow> (Inr (), w'\<lparr>so_redis := fold redis_run cmds (so_redis w)\<rparr>)
      | Some (n, e) \<Rightarrow>
          (Inl e, w'\<lparr>so_redis := fold redis_run (if transaction \<and> n < length cmds then [] else take n cmds) (so_redis w)\<rparr>))"

definition add_new :: "'a \<Rightarrow> 'a list \<Rightarrow> 'a list" where
  "add_new x xs = (if x \<in> set xs then xs else xs @ [x])"

definition targets_of :: "edge_kind \<Rightarrow> string \<Rightarrow> social_graph \<Rightarrow> string list" where
  "targets_of rel p g = map snd (filter (\<lambda>(q, _). q = p) (sg_edges g rel))"

text \<open>\<^verbatim>\<open>MERGE\<close> of the user, each target and each edge.\<close>

definition merge_edges :: "edge_kind \<Rightarrow> string \<Rightarrow> string list \<Rightarrow> social_graph \<Rightarrow> social_graph" where
  "merge_edges rel p ts g =
     g\<lparr>sg_users := fold add_new (p # ts) (sg_users g),
       sg_edges := (sg_edges g)(rel := fold add_new (map (\<lambda>t. (p, t)) ts) (sg_edges g rel))\<rparr>"

text \<open>\<^verbatim>\<open>MATCH ... WHERE ... DELETE r\<close>.\<close>

definition delete_edges :: "edge_kind \<Rightarrow> string \<Rightarrow> (string \<Rightarrow> bool) \<Rightarrow> social_graph \<Rightarrow> social_graph" where
  "delete_edges rel p which g =
     g\<lparr>sg_edges := (sg_edges g)(rel := filter (\<lambda>(q, t). \<not> (q = p \<and> which t)) (sg_edges g rel))\<rparr>"

definition FOLLOWED_BY_KEY_PREFIX :: string where "FOLLOWED_BY_KEY_PREFIX = ''followed_by:''"
definition MUTED_BY_KEY_PREFIX :: string where "MUTED_BY_KEY_PREFIX = ''muted_by:''"
definition REPORTED_BY_KEY_PREFIX :: string where "REPORTED_BY_KEY_PREFIX = ''reported_by:''"
definition DESIGNATES_KEY_PREFIX :: string where "DESIGNATES_KEY_PREFIX = ''designates:''"

definition update_reverse_sets :: "string \<Rightarrow> string \<Rightarrow> string list \<Rightarrow> string list \<Rightarrow> unit social_op" where
  "update_reverse_sets key_prefix publisher added removed =
     (if added = [] \<and> removed = [] then ret ()
      else pipeline False (map (\<lambda>pk. Sadd (key_prefix @ pk) [publisher]) added @ map (\<lambda>pk. Srem (key_prefix @ pk) publisher) removed))"

section \<open>Reports\<close>

text \<open>\<^verbatim>\<open>any(tag and tag[0] == "e" for tag in tags)\<close>, which stops at the first that is.\<close>

fun any_e_tag :: "json list \<Rightarrow> (exn, bool) result" where
  "any_e_tag [] = Inr False"
| "any_e_tag (t # ts) = result_bind (tag_head t) (\<lambda>h. if h = Some (JStr ''e'') then Inr True else any_e_tag ts)"

definition extract_report_targets :: "(string \<times> json) list \<Rightarrow> (exn, string list) result" where
  "extract_report_targets event =
     result_bind (iter_json (raw_tags event)) (\<lambda>ts.
     result_bind (any_e_tag ts) (\<lambda>note. if note then Inr [] else p_tag_pubkeys (raw_tags event)))"

definition as_event :: "json \<Rightarrow> (exn, (string \<times> json) list) result" where
  "as_event v = (case as_dict v of None \<Rightarrow> Inl AttributeError | Some d \<Rightarrow> Inr d)"

text \<open>\<^verbatim>\<open>t[1]\<close> of a tag with more than one element.\<close>

fun tag_second :: "json \<Rightarrow> json option" where
  "tag_second (JList (_ # v # _)) = Some v"
| "tag_second (JStr (_ # c # _)) = Some (JStr [c])"
| "tag_second _ = None"

definition deleted_report :: "string set \<Rightarrow> json \<Rightarrow> (exn, string option) result" where
  "deleted_report report_ids t =
     result_bind (tag_head t) (\<lambda>h.
       if h \<noteq> Some (JStr ''e'') then Inr None
       else case tag_second t of
              None \<Rightarrow> Inr None
            | Some v \<Rightarrow> if \<not> hashable v then Inl TypeError
                        else (case v of JStr s \<Rightarrow> Inr (if s \<in> report_ids then Some s else None) | _ \<Rightarrow> Inr None))"

text \<open>A map from report ids to the authors that asked for their deletion, as pairs.\<close>

definition deletions_by_report_id :: "json list \<Rightarrow> string set \<Rightarrow> (exn, (string \<times> string) list) result" where
  "deletions_by_report_id deletion_events report_ids =
     result_bind (result_map (\<lambda>v. result_bind (as_event v) (\<lambda>d.
       case get d ''pubkey'' of
         JStr author \<Rightarrow>
           result_bind (iter_json (raw_tags d)) (\<lambda>ts.
           result_bind (result_map (deleted_report report_ids) ts) (\<lambda>ids.
             Inr (map (\<lambda>i. (i, author)) (List.map_filter id ids))))
       | _ \<Rightarrow> Inr [])) deletion_events) (\<lambda>pss. Inr (concat pss))"

fun text_value :: "json \<Rightarrow> string option" where
  "text_value (JStr s) = Some s"
| "text_value _ = None"

text \<open>\<^verbatim>\<open>reported_by\<close> as pairs of a target and a reporter.\<close>

definition build_desired_reported_by :: "json list \<Rightarrow> json list \<Rightarrow> (exn, (string \<times> string) list) result" where
  "build_desired_reported_by report_events deletion_events =
     result_bind (result_map as_event report_events) (\<lambda>evs.
       let reports = filter (\<lambda>ev. text_value (get ev ''pubkey'') \<noteq> None) evs;
           report_ids = set (List.map_filter (\<lambda>ev. text_value (get ev ''id'')) reports) in
       result_bind (if deletion_events = [] then Inr [] else deletions_by_report_id deletion_events report_ids) (\<lambda>deleters.
       result_bind (result_map (\<lambda>ev.
           let reporter = the (text_value (get ev ''pubkey'')) in
           if (case text_value (get ev ''id'') of None \<Rightarrow> False | Some i \<Rightarrow> (i, reporter) \<in> set deleters) then Inr []
           else result_bind (extract_report_targets ev) (\<lambda>ts. Inr (map (\<lambda>t. (t, reporter)) ts))) reports) (\<lambda>pss.
         Inr (concat pss))))"

record reported_by_diff =
  rd_to_add :: "(string \<times> string) set"
  rd_to_remove :: "(string \<times> string) set"

definition diff_reported_by :: "(string \<times> string) set \<Rightarrow> (string \<times> string) set \<Rightarrow> reported_by_diff" where
  "diff_reported_by desired current = \<lparr>rd_to_add = desired - current, rd_to_remove = current - desired\<rparr>"

definition surviving_report_targets :: "json list \<Rightarrow> string \<Rightarrow> (exn, string set) result" where
  "surviving_report_targets report_events author =
     result_bind (result_map as_event report_events) (\<lambda>evs.
     result_bind (build_desired_reported_by (map JObj (filter (\<lambda>ev. get ev ''pubkey'' = JStr author) evs)) []) (\<lambda>pairs.
       Inr (set (map fst (filter (\<lambda>pair. snd pair = author) pairs)))))"

record author_report_diff =
  ad_to_add :: "string set"
  ad_to_remove :: "string set"

definition diff_author_targets :: "string set \<Rightarrow> string set \<Rightarrow> author_report_diff" where
  "diff_author_targets desired current = \<lparr>ad_to_add = desired - current, ad_to_remove = current - desired\<rparr>"

definition REPORT_FETCH_LIMIT :: int where "REPORT_FETCH_LIMIT = 10000"
definition LIMIT_SENTINELS :: "int set" where "LIMIT_SENTINELS = {500, 100000, REPORT_FETCH_LIMIT}"

text \<open>The loop over a subscription's messages, until it ends, is closed, breaks or the deadline passes.\<close>

fun read_reports :: "string \<Rightarrow> frame list \<Rightarrow> json list \<Rightarrow> json list option" where
  "read_reports sub [] events = None"
| "read_reports sub (Garbage # fs) events = read_reports sub fs events"
| "read_reports sub (Broken e # fs) events = None"
| "read_reports sub (Message m # fs) events =
     (case m of
        JList (what # s # rest) \<Rightarrow>
          if s \<noteq> JStr sub then read_reports sub fs events
          else if what = JStr ''EVENT'' \<and> rest \<noteq> [] then read_reports sub fs (events @ [hd rest])
          else if what = JStr ''EOSE'' then Some events
          else if what = JStr ''CLOSED'' then None
          else read_reports sub fs events
      | _ \<Rightarrow> read_reports sub fs events)"

definition fetch_author_user_reports :: "social_env \<Rightarrow> string \<Rightarrow> json list option" where
  "fetch_author_user_reports env author =
     (case read_reports (''report-recompute-'' @ take 8 author) (se_frames env author) [] of
        None \<Rightarrow> None
      | Some events \<Rightarrow> if int (length events) \<in> LIMIT_SENTINELS then None else Some events)"

section \<open>One event\<close>

text \<open>\<^verbatim>\<open>event["pubkey"]\<close>. The relay hands on only events it validated, whose author is a text.\<close>

definition publisher_of :: "(string \<times> json) list \<Rightarrow> (exn, string) result" where
  "publisher_of event =
     (case map_of event ''pubkey'' of None \<Rightarrow> Inl KeyError | Some (JStr s) \<Rightarrow> Inr s | Some _ \<Rightarrow> Inl TypeError)"

text \<open>A contact or mute list replaces its author's edges: add first, then remove what the list no longer
  has, then the sets.\<close>

definition replace_list :: "edge_kind \<Rightarrow> string \<Rightarrow> (string \<times> json) list \<Rightarrow> unit social_op" where
  "replace_list rel prefix event =
     op_bind (of_res (publisher_of event)) (\<lambda>publisher.
     op_bind (of_res (p_tag_pubkeys (raw_tags event))) (\<lambda>pubkeys.
     if pubkeys = []
     then op_bind (write_graph (\<lambda>g. (targets_of rel publisher g, delete_edges rel publisher (\<lambda>_. True) g))) (\<lambda>removed.
          update_reverse_sets prefix publisher [] removed)
     else op_bind (write_graph (\<lambda>g. ((), merge_edges rel publisher pubkeys g))) (\<lambda>_.
          op_bind (write_graph (\<lambda>g. (filter (\<lambda>t. t \<notin> set pubkeys) (targets_of rel publisher g),
                                     delete_edges rel publisher (\<lambda>t. t \<notin> set pubkeys) g))) (\<lambda>removed.
          update_reverse_sets prefix publisher pubkeys removed))))"

definition process_event_kind_3 :: "(string \<times> json) list \<Rightarrow> unit social_op" where
  "process_event_kind_3 = replace_list FOLLOWS FOLLOWED_BY_KEY_PREFIX"

definition process_event_kind_10000 :: "(string \<times> json) list \<Rightarrow> unit social_op" where
  "process_event_kind_10000 = replace_list MUTES MUTED_BY_KEY_PREFIX"

definition process_event_kind_1984 :: "(string \<times> json) list \<Rightarrow> unit social_op" where
  "process_event_kind_1984 event =
     op_bind (of_res (publisher_of event)) (\<lambda>publisher.
     op_bind (of_res (extract_report_targets event)) (\<lambda>reported.
     if reported = [] then ret ()
     else op_bind (write_graph (\<lambda>g. ((), merge_edges REPORTS publisher reported g))) (\<lambda>_.
          update_reverse_sets REPORTED_BY_KEY_PREFIX publisher reported [])))"

definition process_event_kind_10040 :: "(string \<times> json) list \<Rightarrow> unit social_op" where
  "process_event_kind_10040 event =
     op_bind (of_res (publisher_of event)) (\<lambda>publisher.
     op_bind (of_res (event_tags event)) (\<lambda>tags.
     let designated = parse_designated_pubkeys tags publisher; key = DESIGNATES_KEY_PREFIX @ publisher in
     op_bind (write_graph (\<lambda>g. ((),
       if designated = [] then delete_edges DESIGNATES publisher (\<lambda>_. True) g
       else merge_edges DESIGNATES publisher designated (delete_edges DESIGNATES publisher (\<lambda>t. t \<notin> set designated) g)))) (\<lambda>_.
     pipeline True (Del key # (if designated = [] then [] else [Sadd key designated])))))"

definition current_report_targets :: "string \<Rightarrow> string set social_op" where
  "current_report_targets author = write_graph (\<lambda>g. (set (targets_of REPORTS author g), g))"

definition process_event_kind_5 :: "(string \<times> json) list \<Rightarrow> unit social_op" where
  "process_event_kind_5 event =
     op_bind (of_res (publisher_of event)) (\<lambda>author.
     op_bind (current_report_targets author) (\<lambda>current.
     if current = {} then ret ()
     else op_bind (asks (\<lambda>env. fetch_author_user_reports env author)) (\<lambda>fetched.
     case fetched of
       None \<Rightarrow> ret ()
     | Some reports \<Rightarrow>
         op_bind (of_res (surviving_report_targets reports author)) (\<lambda>desired.
         let diff = diff_author_targets desired current in
         op_bind (op_when (ad_to_remove diff \<noteq> {})
           (write_graph (\<lambda>g. ((), delete_edges REPORTS author (\<lambda>t. t \<in> ad_to_remove diff) g)))) (\<lambda>_.
         op_bind (op_when (ad_to_add diff \<noteq> {})
           (write_graph (\<lambda>g. ((), merge_edges REPORTS author (sorted_list_of_set (ad_to_add diff)) g)))) (\<lambda>_.
         update_reverse_sets REPORTED_BY_KEY_PREFIX author (sorted_list_of_set desired) (sorted_list_of_set (ad_to_remove diff))))))))"

definition store_tags :: "(string \<times> json) list \<Rightarrow> unit social_op" where
  "store_tags event env w =
     (case process_event_kind_39999 (se_py env) event (so_tags w) of
        Inl e \<Rightarrow> (Inl e, w)
      | Inr d \<Rightarrow> (Inr (), w\<lparr>so_tags := d\<rparr>))"

definition process_strfry_event :: "json \<Rightarrow> unit social_op" where
  "process_strfry_event message =
     op_bind (of_res (as_event message)) (\<lambda>event.
     let kind = get event ''kind'' in
     if kind_is kind 3 then process_event_kind_3 event
     else if kind_is kind 10000 then process_event_kind_10000 event
     else if kind_is kind 1984 then process_event_kind_1984 event
     else if kind_is kind 5 then process_event_kind_5 event
     else if kind_is kind 10040 then process_event_kind_10040 event
     else if kind_is kind TAGGING_KIND then store_tags event
     else ret ())"

text \<open>The consumer's round: the message has left the queue, and an error is only logged.\<close>

definition consume_message :: "social_env \<Rightarrow> string \<Rightarrow> social \<Rightarrow> social" where
  "consume_message env text w =
     (case json_loads (se_py env) text of None \<Rightarrow> w | Some message \<Rightarrow> snd (process_strfry_event message env w))"

text \<open>An environment where nothing fails: one text of the queue is a contact list, and the relay knows no report.\<close>

definition alice :: string where "alice = replicate 64 CHR ''a''"
definition bob :: string where "bob = replicate 64 CHR ''b''"

definition contact_list :: json where
  "contact_list = JObj [(''kind'', JInt 3), (''pubkey'', JStr alice), (''tags'', JList [JList [JStr ''p'', JStr bob]])]"

definition deletion_request :: json where
  "deletion_request = JObj [(''kind'', JInt 5), (''pubkey'', JStr alice), (''tags'', JList [])]"

definition calm :: social_env where
  "calm = \<lparr>se_py = \<lparr>brackets_ok = (\<lambda>_. True), float_int = (\<lambda>_. Inl TypeError), float_of = (\<lambda>_. None),
       json_loads = (\<lambda>s. if s = ''list'' then Some contact_list else None)\<rparr>,
     se_graph_fault = (\<lambda>_. None), se_pipe_fault = (\<lambda>_. None),
     se_frames = (\<lambda>author. [Message (JList [JStr ''EOSE'', JStr (''report-recompute-'' @ take 8 author)])])\<rparr>"

definition empty_social :: social where
  "empty_social = \<lparr>so_graph = \<lparr>sg_users = [], sg_edges = (\<lambda>_. [])\<rparr>, so_redis = (\<lambda>_. {}), so_tags = no_tags, so_writes = 0, so_pipes = 0\<rparr>"

section \<open>An event touches only its author\<close>

definition reverse_sets :: "(edge_kind \<times> string) list" where
  "reverse_sets = [(FOLLOWS, FOLLOWED_BY_KEY_PREFIX), (MUTES, MUTED_BY_KEY_PREFIX), (REPORTS, REPORTED_BY_KEY_PREFIX)]"

definition reverse_prefixes :: "string list" where "reverse_prefixes = map snd reverse_sets"

lemma prefixes_apart:
  "(rel, pre) \<in> set reverse_sets \<Longrightarrow> (rel', pre') \<in> set reverse_sets \<Longrightarrow> pre @ s = pre' @ t \<longleftrightarrow> rel = rel' \<and> pre = pre' \<and> s = t"
  "pre \<in> set reverse_prefixes \<Longrightarrow> pre @ s \<noteq> DESIGNATES_KEY_PREFIX @ t"
  by (auto simp: reverse_prefixes_def reverse_sets_def FOLLOWED_BY_KEY_PREFIX_def MUTED_BY_KEY_PREFIX_def REPORTED_BY_KEY_PREFIX_def DESIGNATES_KEY_PREFIX_def)

definition only_author :: "string \<Rightarrow> social \<Rightarrow> social \<Rightarrow> bool" where
  "only_author p w w' \<longleftrightarrow> (\<forall>q. q \<noteq> p \<longrightarrow>
     (\<forall>rel t. (q, t) \<in> set (sg_edges (so_graph w') rel) \<longleftrightarrow> (q, t) \<in> set (sg_edges (so_graph w) rel))
     \<and> (\<forall>pre t. pre \<in> set reverse_prefixes \<longrightarrow> (q \<in> so_redis w' (pre @ t) \<longleftrightarrow> q \<in> so_redis w (pre @ t)))
     \<and> so_redis w' (DESIGNATES_KEY_PREFIX @ q) = so_redis w (DESIGNATES_KEY_PREFIX @ q))"

lemma only_author_refl [simp]: "only_author p w w"
  by (simp add: only_author_def)

lemma only_author_trans: "only_author p w1 w2 \<Longrightarrow> only_author p w2 w3 \<Longrightarrow> only_author p w1 w3"
  unfolding only_author_def by metis

definition authored :: "string \<Rightarrow> 'a social_op \<Rightarrow> bool" where
  "authored p m \<longleftrightarrow> (\<forall>env w. only_author p w (snd (m env w)))"

named_theorems authored_intros \<open>operations that touch only their author\<close>

lemma authored_bind [authored_intros]: "authored p m \<Longrightarrow> (\<And>x. authored p (f x)) \<Longrightarrow> authored p (op_bind m f)"
  unfolding authored_def op_bind_def
  by (auto split: prod.split sum.split intro: only_author_trans) (metis only_author_trans snd_conv)+

lemma authored_basic [authored_intros]: "authored p (ret x)" "authored p (of_res r)" "authored p (asks h)"
  "authored p m \<Longrightarrow> authored p (op_when b m)" for m :: "unit social_op"
  by (simp_all add: authored_def ret_def of_res_def asks_def op_when_def)

lemma authored_branch [authored_intros]:
  "authored p m \<Longrightarrow> authored p m' \<Longrightarrow> authored p (if b then m else m')"
  "authored p m \<Longrightarrow> (\<And>x. authored p (f x)) \<Longrightarrow> authored p (case v of None \<Rightarrow> m | Some x \<Rightarrow> f x)"
  by (auto split: option.split)

lemma fold_add_new_set [simp]: "set (fold add_new xs ys) = set xs \<union> set ys"
  by (induction xs arbitrary: ys) (auto simp: add_new_def)

lemma edges_merge: "(q, t) \<in> set (sg_edges (merge_edges rel p ts g) rel') \<longleftrightarrow> (q, t) \<in> set (sg_edges g rel') \<or> (rel' = rel \<and> q = p \<and> t \<in> set ts)"
  by (auto simp: merge_edges_def)

lemma edges_delete: "(q, t) \<in> set (sg_edges (delete_edges rel p which g) rel') \<longleftrightarrow> (q, t) \<in> set (sg_edges g rel') \<and> \<not> (rel' = rel \<and> q = p \<and> which t)"
  by (auto simp: delete_edges_def)

lemma authored_write [authored_intros]:
  assumes "\<And>g q rel t. q \<noteq> p \<Longrightarrow> (q, t) \<in> set (sg_edges (snd (f g)) rel) \<longleftrightarrow> (q, t) \<in> set (sg_edges g rel)"
  shows "authored p (write_graph f)"
proof -
  have "only_author p w (snd (write_graph f env w))" for env w
    using assms [of _ _ "so_graph w"] by (cases "f (so_graph w)") (auto simp: write_graph_def only_author_def Let_def split: option.split)
  then show ?thesis by (simp add: authored_def)
qed

text \<open>Commands on the sets that are about one publisher.\<close>

fun about :: "string \<Rightarrow> redis_cmd \<Rightarrow> bool" where
  "about p (Sadd k ms) \<longleftrightarrow> (ms = [p] \<and> (\<exists>pre t. pre \<in> set reverse_prefixes \<and> k = pre @ t)) \<or> k = DESIGNATES_KEY_PREFIX @ p"
| "about p (Srem k m) \<longleftrightarrow> m = p \<and> (\<exists>pre t. pre \<in> set reverse_prefixes \<and> k = pre @ t)"
| "about p (Del k) \<longleftrightarrow> k = DESIGNATES_KEY_PREFIX @ p"

lemma about_keeps:
  assumes "about p c" "q \<noteq> p"
  shows "pre \<in> set reverse_prefixes \<Longrightarrow> q \<in> redis_run c r (pre @ t) \<longleftrightarrow> q \<in> r (pre @ t)"
    and "redis_run c r (DESIGNATES_KEY_PREFIX @ q) = r (DESIGNATES_KEY_PREFIX @ q)"
proof -
  have apart: "pre @ s \<noteq> DESIGNATES_KEY_PREFIX @ x" "DESIGNATES_KEY_PREFIX @ x \<noteq> pre @ s" if "pre \<in> set reverse_prefixes" for pre s x
    using prefixes_apart(2) [OF that] by metis+
  show "pre \<in> set reverse_prefixes \<Longrightarrow> q \<in> redis_run c r (pre @ t) \<longleftrightarrow> q \<in> r (pre @ t)"
    using assms apart by (cases c) auto
  show "redis_run c r (DESIGNATES_KEY_PREFIX @ q) = r (DESIGNATES_KEY_PREFIX @ q)"
    using assms apart by (cases c) auto
qed

lemma about_fold:
  "list_all (about p) cs \<Longrightarrow> q \<noteq> p \<Longrightarrow> pre \<in> set reverse_prefixes \<Longrightarrow> q \<in> fold redis_run cs r (pre @ t) \<longleftrightarrow> q \<in> r (pre @ t)"
  "list_all (about p) cs \<Longrightarrow> q \<noteq> p \<Longrightarrow> fold redis_run cs r (DESIGNATES_KEY_PREFIX @ q) = r (DESIGNATES_KEY_PREFIX @ q)"
  by (induction cs arbitrary: r) (auto simp: about_keeps [of p _ q])

lemma authored_pipeline [authored_intros]: "list_all (about p) cs \<Longrightarrow> authored p (pipeline b cs)"
proof -
  assume cs: "list_all (about p) cs"
  then have part: "list_all (about p) (take n cs)" for n by (auto simp: list_all_iff dest: in_set_takeD)
  show ?thesis
    using about_fold [OF cs] about_fold [OF part]
    by (auto simp: authored_def pipeline_def only_author_def Let_def split: option.split)
qed

lemma authored_reverse [authored_intros]:
  "pre \<in> set reverse_prefixes \<Longrightarrow> authored p (update_reverse_sets pre p added removed)"
  unfolding update_reverse_sets_def by (auto intro!: authored_intros simp: list_all_iff) blast+

lemma reverse_prefixes_mem [simp]:
  "FOLLOWED_BY_KEY_PREFIX \<in> set reverse_prefixes" "MUTED_BY_KEY_PREFIX \<in> set reverse_prefixes" "REPORTED_BY_KEY_PREFIX \<in> set reverse_prefixes"
  by (simp_all add: reverse_prefixes_def reverse_sets_def)

text \<open>The handlers, once their author is known.\<close>

lemma authored_of_res:
  assumes "\<And>x. r = Inr x \<Longrightarrow> authored p (f x)"
  shows "authored p (op_bind (of_res r) f)"
  using assms by (cases r) (auto simp: authored_def op_bind_def of_res_def)

lemma authored_replace:
  "pre \<in> set reverse_prefixes \<Longrightarrow> publisher_of event = Inr p \<Longrightarrow> authored p (replace_list rel pre event)"
  unfolding replace_list_def
  by (rule authored_of_res) (auto intro!: authored_intros simp: edges_merge edges_delete)

lemma authored_1984: "publisher_of event = Inr p \<Longrightarrow> authored p (process_event_kind_1984 event)"
  unfolding process_event_kind_1984_def
  by (rule authored_of_res) (auto intro!: authored_intros simp: edges_merge edges_delete)

lemma authored_10040: "publisher_of event = Inr p \<Longrightarrow> authored p (process_event_kind_10040 event)"
  unfolding process_event_kind_10040_def Let_def
  by (rule authored_of_res) (auto intro!: authored_intros simp: edges_merge edges_delete split: if_splits)

lemma authored_5: "publisher_of event = Inr p \<Longrightarrow> authored p (process_event_kind_5 event)"
  unfolding process_event_kind_5_def current_report_targets_def Let_def
  by (rule authored_of_res) (auto intro!: authored_intros simp: edges_merge edges_delete)

lemma authored_tags: "authored p (store_tags event)"
  by (auto simp: authored_def store_tags_def only_author_def split: sum.split)

lemma no_author: "publisher_of event = Inl e \<Longrightarrow> op_bind (of_res (publisher_of event)) f env w = (Inl e, w)"
  by (simp add: op_bind_def of_res_def)

text \<open>
  C32. An event touches only its author. Whatever fails while a message is processed, and wherever: every other user's
  follows, mutes, reports and designations are as before, in the graph and in the sets.
\<close>
theorem event_touches_only_its_author:
  assumes "as_event message = Inr event" "\<And>p. publisher_of event = Inr p \<Longrightarrow> p = author"
  shows "only_author author w (snd (process_strfry_event message env w))"
proof (cases "publisher_of event")
  case (Inl e)
  have "snd (process_strfry_event message env w) = w \<or> snd (process_strfry_event message env w) = snd (store_tags event env w)"
    using Inl
    by (auto simp: process_strfry_event_def op_bind_def [of "of_res (as_event message)"] of_res_def assms(1) Let_def ret_def process_event_kind_3_def
        process_event_kind_10000_def replace_list_def process_event_kind_1984_def process_event_kind_5_def process_event_kind_10040_def op_bind_def)
  then show ?thesis using authored_tags unfolding authored_def by (metis only_author_refl)
next
  case (Inr p)
  note handlers = authored_replace [OF _ Inr] authored_1984 [OF Inr] authored_10040 [OF Inr] authored_5 [OF Inr] authored_tags
  have "authored p (process_strfry_event message)"
    unfolding process_strfry_event_def Let_def
    by (rule authored_of_res) (auto simp: assms(1) process_event_kind_3_def process_event_kind_10000_def intro!: handlers authored_intros)
  with assms(2) [OF Inr] show ?thesis by (simp add: authored_def)
qed

theorem event_touches_only_its_author_witness:
  "only_author alice empty_social (snd (process_strfry_event contact_list calm empty_social))"
  by (rule event_touches_only_its_author [of contact_list "the (as_dict contact_list)"])
    (simp_all add: contact_list_def as_event_def publisher_of_def)

section \<open>A report is removed only on evidence\<close>

definition edge_kept :: "social_env \<Rightarrow> edge_kind \<Rightarrow> string \<times> string \<Rightarrow> 'a social_op \<Rightarrow> bool" where
  "edge_kept env rel e m \<longleftrightarrow> (\<forall>w. e \<in> set (sg_edges (so_graph w) rel) \<longrightarrow> e \<in> set (sg_edges (so_graph (snd (m env w))) rel))"

named_theorems kept_intros \<open>operations that keep an edge\<close>

lemma kept_bind [kept_intros]: "edge_kept env rel e m \<Longrightarrow> (\<And>x. edge_kept env rel e (f x)) \<Longrightarrow> edge_kept env rel e (op_bind m f)"
  unfolding edge_kept_def op_bind_def by (auto split: prod.split sum.split)

lemma kept_value:
  assumes "edge_kept env rel e m" "\<And>x w w'. m env w = (Inr x, w') \<Longrightarrow> edge_kept env rel e (f x)"
  shows "edge_kept env rel e (op_bind m f)"
  using assms unfolding edge_kept_def op_bind_def by (auto split: prod.split sum.split)

lemma kept_basic [kept_intros]: "edge_kept env rel e (ret x)" "edge_kept env rel e (of_res r)" "edge_kept env rel e (asks h)"
  "edge_kept env rel e (pipeline b cs)" "edge_kept env rel e (update_reverse_sets pre p added removed)" "edge_kept env rel e (store_tags event)"
  by (auto simp: edge_kept_def ret_def of_res_def asks_def pipeline_def update_reverse_sets_def store_tags_def Let_def split: option.split sum.split)

lemma kept_branch [kept_intros]:
  "(b \<Longrightarrow> edge_kept env rel e m) \<Longrightarrow> (\<not> b \<Longrightarrow> edge_kept env rel e m') \<Longrightarrow> edge_kept env rel e (if b then m else m')"
  "(v = None \<Longrightarrow> edge_kept env rel e m) \<Longrightarrow> (\<And>x. v = Some x \<Longrightarrow> edge_kept env rel e (f x)) \<Longrightarrow> edge_kept env rel e (case v of None \<Rightarrow> m | Some x \<Rightarrow> f x)"
  by (auto split: option.split)

lemma kept_write [kept_intros]:
  assumes "\<And>g. e \<in> set (sg_edges g rel) \<Longrightarrow> e \<in> set (sg_edges (snd (f g)) rel)"
  shows "edge_kept env rel e (write_graph f)"
proof -
  have "e \<in> set (sg_edges (so_graph (snd (write_graph f env w))) rel)" if "e \<in> set (sg_edges (so_graph w) rel)" for w
    using assms [OF that] that by (cases "f (so_graph w)") (auto simp: write_graph_def Let_def split: option.split)
  then show ?thesis by (simp add: edge_kept_def)
qed

lemma kept_others:
  "rel' \<noteq> rel \<Longrightarrow> edge_kept env rel (p, t) (replace_list rel' pre event)"
  "edge_kept env REPORTS (p, t) (process_event_kind_1984 event)" "edge_kept env REPORTS (p, t) (process_event_kind_10040 event)"
  unfolding replace_list_def process_event_kind_1984_def process_event_kind_10040_def Let_def
  by (auto intro!: kept_intros simp: edges_merge edges_delete)

text \<open>The relay's complete answer about an author no longer has the report.\<close>

definition retracted :: "social_env \<Rightarrow> string \<Rightarrow> string \<Rightarrow> bool" where
  "retracted env p t \<longleftrightarrow> (\<exists>reports desired. fetch_author_user_reports env p = Some reports
     \<and> surviving_report_targets reports p = Inr desired \<and> t \<notin> desired)"

lemma kept_5:
  assumes "\<not> (publisher_of event = Inr p \<and> retracted env p t)"
  shows "edge_kept env REPORTS (p, t) (process_event_kind_5 event)"
  unfolding process_event_kind_5_def current_report_targets_def Let_def
  using assms
  by (auto intro!: kept_value kept_basic kept_branch kept_write
      simp: edges_merge edges_delete retracted_def of_res_def asks_def op_when_def diff_author_targets_def)


definition alice_reported_bob :: social where
  "alice_reported_bob = empty_social\<lparr>so_graph := \<lparr>sg_users = [alice, bob], sg_edges = (\<lambda>_. [])(REPORTS := [(alice, bob)])\<rparr>\<rparr>"


section \<open>The stores follow the events\<close>

text \<open>What the two stores are to hold: relations of users, each event replacing or adding its author's part.\<close>

type_synonym relations = "edge_kind \<Rightarrow> (string \<times> string) set"

definition relations_of :: "social \<Rightarrow> relations" where
  "relations_of w rel = set (sg_edges (so_graph w) rel)"

definition set_targets :: "edge_kind \<Rightarrow> string \<Rightarrow> string set \<Rightarrow> relations \<Rightarrow> relations" where
  "set_targets rel p ts E = E(rel := {e \<in> E rel. fst e \<noteq> p} \<union> {p} \<times> ts)"

definition event_spec :: "social_env \<Rightarrow> (string \<times> json) list \<Rightarrow> relations \<Rightarrow> relations" where
  "event_spec env event E =
     (let kind = get event ''kind'' in
      case publisher_of event of
        Inl _ \<Rightarrow> E
      | Inr p \<Rightarrow>
          let reported = {t. (p, t) \<in> E REPORTS};
              listed = (\<lambda>rel. case p_tag_pubkeys (raw_tags event) of Inl _ \<Rightarrow> E | Inr ps \<Rightarrow> set_targets rel p (set ps) E) in
          if kind_is kind 3 then listed FOLLOWS
          else if kind_is kind 10000 then listed MUTES
          else if kind_is kind 1984 then
            (case extract_report_targets event of Inl _ \<Rightarrow> E | Inr ts \<Rightarrow> set_targets REPORTS p (reported \<union> set ts) E)
          else if kind_is kind 5 then
            (if reported = {} then E
             else case fetch_author_user_reports env p of
                    None \<Rightarrow> E
                  | Some reports \<Rightarrow> (case surviving_report_targets reports p of Inl _ \<Rightarrow> E | Inr ts \<Rightarrow> set_targets REPORTS p ts E))
          else if kind_is kind 10040 then
            (case event_tags event of Inl _ \<Rightarrow> E | Inr tags \<Rightarrow> set_targets DESIGNATES p (set (parse_designated_pubkeys tags p)) E)
          else E)"

definition mirrors :: "relations \<Rightarrow> (string \<Rightarrow> string set) \<Rightarrow> bool" where
  "mirrors E r \<longleftrightarrow> (\<forall>rel pre t. (rel, pre) \<in> set reverse_sets \<longrightarrow> r (pre @ t) = {q. (q, t) \<in> E rel})
     \<and> (\<forall>q. r (DESIGNATES_KEY_PREFIX @ q) = {t. (q, t) \<in> E DESIGNATES})"

definition quiet :: "social_env \<Rightarrow> bool" where
  "quiet env \<longleftrightarrow> (\<forall>n. se_graph_fault env n = None) \<and> (\<forall>n. se_pipe_fault env n = None)"

definition reverse_cmds :: "string \<Rightarrow> string \<Rightarrow> string list \<Rightarrow> string list \<Rightarrow> redis_cmd list" where
  "reverse_cmds pre p added removed = map (\<lambda>pk. Sadd (pre @ pk) [p]) added @ map (\<lambda>pk. Srem (pre @ pk) p) removed"

lemma sadd_fold: "fold redis_run (map (\<lambda>pk. Sadd (pre @ pk) [p]) added) r k = r k \<union> (if \<exists>pk\<in>set added. k = pre @ pk then {p} else {})"
  by (induction added arbitrary: r) auto

lemma srem_fold: "fold redis_run (map (\<lambda>pk. Srem (pre @ pk) p) removed) r k = r k - (if \<exists>pk\<in>set removed. k = pre @ pk then {p} else {})"
  by (induction removed arbitrary: r) auto

lemma reverse_cmds_run:
  "fold redis_run (reverse_cmds pre p added removed) r k
   = (r k \<union> (if \<exists>pk\<in>set added. k = pre @ pk then {p} else {})) - (if \<exists>pk\<in>set removed. k = pre @ pk then {p} else {})"
  by (simp add: reverse_cmds_def sadd_fold srem_fold)

lemma reverse_sets_prefix: "(rel, pre) \<in> set reverse_sets \<Longrightarrow> pre \<in> set reverse_prefixes \<and> rel \<noteq> DESIGNATES"
  by (auto simp: reverse_prefixes_def reverse_sets_def)

lemma mirrors_reverse:
  assumes "mirrors E r" "(rel, pre) \<in> set reverse_sets" "set added \<subseteq> ts" "\<forall>t\<in>ts. (p, t) \<in> E rel \<or> t \<in> set added"
    "set removed = {t. (p, t) \<in> E rel} - ts"
  shows "mirrors (set_targets rel p ts E) (fold redis_run (reverse_cmds pre p added removed) r)"
proof -
  have "rel \<noteq> DESIGNATES" "pre \<in> set reverse_prefixes" using reverse_sets_prefix [OF assms(2)] by auto
  moreover from this have "DESIGNATES_KEY_PREFIX @ q \<noteq> pre @ pk" for q pk
    using prefixes_apart(2) [of pre pk q] by (simp add: eq_commute [of "DESIGNATES_KEY_PREFIX @ q"])
  then have "fold redis_run (reverse_cmds pre p added removed) r (DESIGNATES_KEY_PREFIX @ q) = r (DESIGNATES_KEY_PREFIX @ q)" for q
    by (simp add: reverse_cmds_run)
  moreover have "fold redis_run (reverse_cmds pre p added removed) r (pre' @ t) = {q. (q, t) \<in> set_targets rel p ts E rel'}"
    if "(rel', pre') \<in> set reverse_sets" for rel' pre' t
  proof -
    have r: "r (pre' @ t) = {q. (q, t) \<in> E rel'}" using assms(1) that by (simp add: mirrors_def)
    have "rel' = rel \<Longrightarrow> pre' = pre" using assms(2) that by (auto simp: reverse_sets_def)
    then have key: "pre' @ t = pre @ pk \<longleftrightarrow> rel' = rel \<and> t = pk" for pk
      using prefixes_apart(1) [OF that assms(2), of t pk] by blast
    show ?thesis unfolding reverse_cmds_run r key using assms(3-5) by (auto simp: set_targets_def)
  qed
  ultimately show ?thesis using assms(1) by (simp add: mirrors_def set_targets_def)
qed

lemma mirrors_forward:
  assumes "mirrors E r"
  shows "mirrors (set_targets DESIGNATES p ts E) (r(DESIGNATES_KEY_PREFIX @ p := ts))"
proof -
  have "pre @ t \<noteq> DESIGNATES_KEY_PREFIX @ p" "rel \<noteq> DESIGNATES" if "(rel, pre) \<in> set reverse_sets" for rel pre t
    using reverse_sets_prefix [OF that] prefixes_apart(2) [of pre t p] by auto
  with assms show ?thesis by (auto simp: mirrors_def set_targets_def)
qed

lemma quiet_ops:
  assumes "quiet env"
  shows "write_graph f env w = (Inr (fst (f (so_graph w))), w\<lparr>so_writes := so_writes w + 1, so_graph := snd (f (so_graph w))\<rparr>)"
    and "pipeline b cs env w = (Inr (), w\<lparr>so_pipes := so_pipes w + 1, so_redis := fold redis_run cs (so_redis w)\<rparr>)"
    and "so_redis (snd (update_reverse_sets pre p added removed env w)) = fold redis_run (reverse_cmds pre p added removed) (so_redis w)"
    and "so_graph (snd (update_reverse_sets pre p added removed env w)) = so_graph w"
  using assms
  by (simp_all add: quiet_def write_graph_def pipeline_def update_reverse_sets_def reverse_cmds_def ret_def Let_def split: prod.split)

text \<open>A state and the relations it is to hold.\<close>

definition holds :: "relations \<Rightarrow> social \<Rightarrow> bool" where
  "holds E w \<longleftrightarrow> relations_of w = E \<and> mirrors E (so_redis w)"

lemma targets_relations: "set (targets_of rel p (so_graph w)) = {t. (p, t) \<in> relations_of w rel}"
  by (force simp: targets_of_def relations_of_def)

lemma relations_after_list:
  assumes "ts \<noteq> []"
  shows "set (sg_edges (delete_edges rel p (\<lambda>t. t \<notin> set ts) (merge_edges rel p ts g)) rel')
    = set_targets rel p (set ts) (\<lambda>rel. set (sg_edges g rel)) rel'"
  by (auto simp: edges_delete edges_merge set_targets_def)

lemma replace_list_holds:
  assumes "quiet env" "holds E w" "(rel, pre) \<in> set reverse_sets" "publisher_of event = Inr p" "p_tag_pubkeys (raw_tags event) = Inr ts"
  shows "holds (set_targets rel p (set ts) E) (snd (replace_list rel pre event env w))"
proof -
  have E: "relations_of w = E" "mirrors E (so_redis w)" using assms(2) by (auto simp: holds_def)
  have old: "set (targets_of rel p (so_graph w)) = {t. (p, t) \<in> E rel}" using targets_relations E(1) by simp
  show ?thesis
  proof (cases "ts = []")
    case True
    let ?w = "w\<lparr>so_writes := so_writes w + 1, so_graph := delete_edges rel p (\<lambda>_. True) (so_graph w)\<rparr>"
    have run: "snd (replace_list rel pre event env w) = snd (update_reverse_sets pre p [] (targets_of rel p (so_graph w)) env ?w)"
      by (simp add: replace_list_def op_bind_def of_res_def assms(4,5) True quiet_ops(1) [OF assms(1)])
    have "relations_of (snd (replace_list rel pre event env w)) = set_targets rel p {} E"
      using E(1) by (auto simp: run relations_of_def quiet_ops(4) [OF assms(1)] set_targets_def edges_delete fun_eq_iff)
    moreover have "mirrors (set_targets rel p {} E) (so_redis (snd (replace_list rel pre event env w)))"
      unfolding run quiet_ops(3) [OF assms(1)] using mirrors_reverse [OF E(2) assms(3), of "[]" "{}" p] old by simp
    ultimately show ?thesis using True by (simp add: holds_def)
  next
    case False
    let ?g = "merge_edges rel p ts (so_graph w)"
    let ?removed = "filter (\<lambda>t. t \<notin> set ts) (targets_of rel p ?g)"
    let ?w = "w\<lparr>so_writes := so_writes w + 1 + 1, so_graph := delete_edges rel p (\<lambda>t. t \<notin> set ts) ?g\<rparr>"
    have run: "snd (replace_list rel pre event env w) = snd (update_reverse_sets pre p ts ?removed env ?w)"
      by (simp add: replace_list_def op_bind_def of_res_def assms(4,5) False quiet_ops(1) [OF assms(1)])
    have "set ?removed = {t. (p, t) \<in> E rel} - set ts"
      using E(1) by (force simp: targets_of_def edges_merge relations_of_def)
    moreover have "relations_of (snd (replace_list rel pre event env w)) = set_targets rel p (set ts) E"
      using E(1) relations_after_list [OF False, of rel p "so_graph w"]
      by (auto simp: run relations_of_def quiet_ops(4) [OF assms(1)] fun_eq_iff)
    ultimately show ?thesis
      using mirrors_reverse [OF E(2) assms(3), of ts "set ts" p ?removed] by (simp add: holds_def run quiet_ops(3) [OF assms(1)])
  qed
qed

lemma report_holds:
  assumes "quiet env" "holds E w" "publisher_of event = Inr p" "extract_report_targets event = Inr ts"
  shows "holds (set_targets REPORTS p ({t. (p, t) \<in> E REPORTS} \<union> set ts) E) (snd (process_event_kind_1984 event env w))"
proof -
  have E: "relations_of w = E" "mirrors E (so_redis w)" using assms(2) by (auto simp: holds_def)
  let ?ts = "{t. (p, t) \<in> E REPORTS} \<union> set ts"
  have rel: "(REPORTS, REPORTED_BY_KEY_PREFIX) \<in> set reverse_sets" by (simp add: reverse_sets_def)
  have new: "set_targets REPORTS p ?ts E = E(REPORTS := E REPORTS \<union> {p} \<times> set ts)" by (auto simp: set_targets_def fun_eq_iff)
  show ?thesis
  proof (cases "ts = []")
    case True
    then have "set_targets REPORTS p ?ts E = E" unfolding new by simp
    with True assms show ?thesis by (simp add: process_event_kind_1984_def op_bind_def of_res_def ret_def)
  next
    case False
    let ?w = "w\<lparr>so_writes := so_writes w + 1, so_graph := merge_edges REPORTS p ts (so_graph w)\<rparr>"
    have run: "snd (process_event_kind_1984 event env w) = snd (update_reverse_sets REPORTED_BY_KEY_PREFIX p ts [] env ?w)"
      by (simp add: process_event_kind_1984_def op_bind_def of_res_def assms(3,4) False quiet_ops(1) [OF assms(1)])
    have "relations_of (snd (process_event_kind_1984 event env w)) = set_targets REPORTS p ?ts E"
      using E(1) by (auto simp: new run relations_of_def quiet_ops(4) [OF assms(1)] edges_merge fun_eq_iff)
    moreover have "mirrors (set_targets REPORTS p ?ts E) (so_redis (snd (process_event_kind_1984 event env w)))"
      unfolding run quiet_ops(3) [OF assms(1)] using mirrors_reverse [OF E(2) rel, of ts ?ts p "[]"] by auto
    ultimately show ?thesis by (simp add: holds_def)
  qed
qed

lemma designation_holds:
  assumes "quiet env" "holds E w" "publisher_of event = Inr p" "event_tags event = Inr tags"
  shows "holds (set_targets DESIGNATES p (set (parse_designated_pubkeys tags p)) E) (snd (process_event_kind_10040 event env w))"
proof -
  have E: "relations_of w = E" "mirrors E (so_redis w)" using assms(2) by (auto simp: holds_def)
  let ?ds = "parse_designated_pubkeys tags p" and ?w' = "snd (process_event_kind_10040 event env w)"
  have graph: "so_graph ?w' = (if ?ds = [] then delete_edges DESIGNATES p (\<lambda>_. True) (so_graph w)
      else merge_edges DESIGNATES p ?ds (delete_edges DESIGNATES p (\<lambda>t. t \<notin> set ?ds) (so_graph w)))"
    and redis: "so_redis ?w' = (so_redis w)(DESIGNATES_KEY_PREFIX @ p := set ?ds)"
    by (auto simp: process_event_kind_10040_def op_bind_def of_res_def assms(3,4) quiet_ops(1,2) [OF assms(1)] Let_def)
  have "relations_of ?w' = set_targets DESIGNATES p (set ?ds) E"
    using E(1) by (auto simp: relations_of_def graph set_targets_def edges_merge edges_delete fun_eq_iff)
  with mirrors_forward [OF E(2), of p "set ?ds"] show ?thesis by (simp add: holds_def redis)
qed

lemma surviving_finite: "surviving_report_targets reports p = Inr ts \<Longrightarrow> finite ts"
  by (auto simp: surviving_report_targets_def result_bind_eq_Inr)

lemma deletion_holds:
  assumes "quiet env" "holds E w" "publisher_of event = Inr p" "{t. (p, t) \<in> E REPORTS} \<noteq> {}"
    "fetch_author_user_reports env p = Some reports" "surviving_report_targets reports p = Inr ts"
  shows "holds (set_targets REPORTS p ts E) (snd (process_event_kind_5 event env w))"
proof -
  have E: "relations_of w = E" "mirrors E (so_redis w)" using assms(2) by (auto simp: holds_def)
  let ?cur = "{t. (p, t) \<in> E REPORTS}" and ?w' = "snd (process_event_kind_5 event env w)"
  have cur: "set (targets_of REPORTS p (so_graph w)) = ?cur" using targets_relations E(1) by simp
  then have "finite ?cur" by (metis List.finite_set)
  note fin = surviving_finite [OF assms(6)]
  have rel: "(REPORTS, REPORTED_BY_KEY_PREFIX) \<in> set reverse_sets" by (simp add: reverse_sets_def)
  have "relations_of ?w' = set_targets REPORTS p ts E
      \<and> so_redis ?w' = fold redis_run (reverse_cmds REPORTED_BY_KEY_PREFIX p (sorted_list_of_set ts) (sorted_list_of_set (?cur - ts))) (so_redis w)"
    using assms(3-6) E(1) cur fin
    by (auto simp: process_event_kind_5_def current_report_targets_def op_bind_def of_res_def asks_def op_when_def ret_def quiet_ops [OF assms(1)] Let_def
        diff_author_targets_def relations_of_def edges_merge edges_delete set_targets_def fun_eq_iff)
  moreover have "mirrors (set_targets REPORTS p ts E)
      (fold redis_run (reverse_cmds REPORTED_BY_KEY_PREFIX p (sorted_list_of_set ts) (sorted_list_of_set (?cur - ts))) (so_redis w))"
    using mirrors_reverse [OF E(2) rel, of "sorted_list_of_set ts" ts p "sorted_list_of_set (?cur - ts)"] fin \<open>finite ?cur\<close> by auto
  ultimately show ?thesis by (simp add: holds_def)
qed

text \<open>What the message of one queue entry does to the relations.\<close>

definition message_spec :: "social_env \<Rightarrow> string \<Rightarrow> relations \<Rightarrow> relations" where
  "message_spec env text E =
     (case json_loads (se_py env) text of
        None \<Rightarrow> E
      | Some message \<Rightarrow> (case as_event message of Inl _ \<Rightarrow> E | Inr event \<Rightarrow> event_spec env event E))"

lemma unchanged_holds: "holds E w \<Longrightarrow> so_graph w' = so_graph w \<Longrightarrow> so_redis w' = so_redis w \<Longrightarrow> holds E w'"
  unfolding holds_def by (simp add: relations_of_def [abs_def])

lemma tags_hold: "holds E w \<Longrightarrow> holds E (snd (store_tags event env w))"
  by (erule unchanged_holds) (simp_all add: store_tags_def split: sum.split)

lemma no_author_holds:
  assumes "publisher_of event = Inl e"
  shows "process_event_kind_3 event env w = (Inl e, w)" "process_event_kind_10000 event env w = (Inl e, w)"
    "process_event_kind_1984 event env w = (Inl e, w)" "process_event_kind_5 event env w = (Inl e, w)" "process_event_kind_10040 event env w = (Inl e, w)"
  using no_author [OF assms]
  by (simp_all add: process_event_kind_3_def process_event_kind_10000_def replace_list_def process_event_kind_1984_def process_event_kind_5_def process_event_kind_10040_def)

lemma list_event_holds:
  assumes "quiet env" "holds E w" "(rel, pre) \<in> set reverse_sets" "publisher_of event = Inr p"
  shows "holds (case p_tag_pubkeys (raw_tags event) of Inl _ \<Rightarrow> E | Inr ps \<Rightarrow> set_targets rel p (set ps) E) (snd (replace_list rel pre event env w))"
proof (cases "p_tag_pubkeys (raw_tags event)")
  case (Inl e)
  then show ?thesis using assms by (simp add: replace_list_def op_bind_def of_res_def)
next
  case (Inr ps)
  then show ?thesis using replace_list_holds [OF assms Inr] by simp
qed

lemma report_event_holds:
  assumes "quiet env" "holds E w" "publisher_of event = Inr p"
  shows "holds (case extract_report_targets event of Inl _ \<Rightarrow> E | Inr ts \<Rightarrow> set_targets REPORTS p ({t. (p, t) \<in> E REPORTS} \<union> set ts) E)
    (snd (process_event_kind_1984 event env w))"
proof (cases "extract_report_targets event")
  case (Inl e)
  then show ?thesis using assms by (simp add: process_event_kind_1984_def op_bind_def of_res_def)
next
  case (Inr ts)
  then show ?thesis using report_holds [OF assms Inr] by simp
qed

lemma designation_event_holds:
  assumes "quiet env" "holds E w" "publisher_of event = Inr p"
  shows "holds (case event_tags event of Inl _ \<Rightarrow> E | Inr tags \<Rightarrow> set_targets DESIGNATES p (set (parse_designated_pubkeys tags p)) E)
    (snd (process_event_kind_10040 event env w))"
proof (cases "event_tags event")
  case (Inl e)
  then show ?thesis using assms by (simp add: process_event_kind_10040_def op_bind_def of_res_def)
next
  case (Inr tags)
  then show ?thesis using designation_holds [OF assms Inr] by simp
qed

lemma deletion_event_holds:
  assumes "quiet env" "holds E w" "publisher_of event = Inr p"
  shows "holds (if {t. (p, t) \<in> E REPORTS} = {} then E
       else case fetch_author_user_reports env p of
              None \<Rightarrow> E
            | Some reports \<Rightarrow> (case surviving_report_targets reports p of Inl _ \<Rightarrow> E | Inr ts \<Rightarrow> set_targets REPORTS p ts E))
    (snd (process_event_kind_5 event env w))"
proof -
  define cur where "cur = {t. (p, t) \<in> E REPORTS}"
  then have cur: "set (targets_of REPORTS p (so_graph w)) = cur"
    using assms(2) targets_relations [of REPORTS p w] by (simp add: holds_def)
  then have nil: "targets_of REPORTS p (so_graph w) = [] \<longleftrightarrow> cur = {}" by (metis set_empty)
  note run = process_event_kind_5_def current_report_targets_def op_bind_def of_res_def asks_def ret_def quiet_ops(1) [OF assms(1)] assms(3) cur nil Let_def
  note still = unchanged_holds [OF assms(2), of "snd (process_event_kind_5 event env w)"]
  show ?thesis
  proof (cases "cur = {}")
    case True
    with still show ?thesis by (simp add: run flip: cur_def)
  next
    case some: False
    show ?thesis
    proof (cases "fetch_author_user_reports env p")
      case None
      with some still show ?thesis by (simp add: run flip: cur_def)
    next
      case (Some reports)
      show ?thesis
      proof (cases "surviving_report_targets reports p")
        case (Inl e)
        with some Some still show ?thesis by (simp add: run flip: cur_def)
      next
        case (Inr ts)
        with some Some deletion_holds [OF assms _ Some Inr] show ?thesis by (simp flip: cur_def)
      qed
    qed
  qed
qed

lemma event_holds:
  assumes "quiet env" "holds E w" "as_event message = Inr event"
  shows "holds (event_spec env event E) (snd (process_strfry_event message env w))"
proof (cases "publisher_of event")
  case (Inl e)
  then show ?thesis using assms tags_hold [OF assms(2)] no_author_holds [OF Inl]
    by (simp add: event_spec_def process_strfry_event_def op_bind_def of_res_def ret_def Let_def)
next
  case (Inr p)
  have lists: "(FOLLOWS, FOLLOWED_BY_KEY_PREFIX) \<in> set reverse_sets" "(MUTES, MUTED_BY_KEY_PREFIX) \<in> set reverse_sets"
    by (simp_all add: reverse_sets_def)
  note parts = list_event_holds [OF assms(1,2) lists(1) Inr] list_event_holds [OF assms(1,2) lists(2) Inr] report_event_holds [OF assms(1,2) Inr]
    deletion_event_holds [OF assms(1,2) Inr] designation_event_holds [OF assms(1,2) Inr] tags_hold [OF assms(2), of event env]
  have run: "process_strfry_event message env w = (let kind = get event ''kind'' in
      (if kind_is kind 3 then process_event_kind_3 event else if kind_is kind 10000 then process_event_kind_10000 event
       else if kind_is kind 1984 then process_event_kind_1984 event else if kind_is kind 5 then process_event_kind_5 event
       else if kind_is kind 10040 then process_event_kind_10040 event else if kind_is kind TAGGING_KIND then store_tags event else ret ()) env w)"
    by (simp add: process_strfry_event_def op_bind_def of_res_def assms(3) Let_def)
  show ?thesis unfolding run event_spec_def Inr Let_def sum.case
    using parts assms(2) by (simp add: process_event_kind_3_def process_event_kind_10000_def ret_def)
qed

lemma message_holds: "quiet env \<Longrightarrow> holds E w \<Longrightarrow> holds (message_spec env text E) (consume_message env text w)"
  using event_holds [of env E w]
  by (auto simp: message_spec_def consume_message_def process_strfry_event_def [abs_def] op_bind_def of_res_def split: option.split sum.split)

text \<open>
  C34. The stores follow the events. As long as no write fails, after any sequence of queue entries, readable or not, the
  graph holds exactly the relations that the events gave their authors, and the sets that the ranking worker reads
  mirror them.
\<close>
theorem stores_follow_the_events:
  assumes "quiet env"
  shows "holds (fold (message_spec env) texts (\<lambda>_. {})) (fold (consume_message env) texts empty_social)"
proof -
  have "holds E w \<Longrightarrow> holds (fold (message_spec env) texts E) (fold (consume_message env) texts w)" for E w
    by (induction texts arbitrary: E w) (simp_all add: message_holds [OF assms])
  moreover have "holds (\<lambda>_. {}) empty_social"
    by (simp add: holds_def empty_social_def relations_of_def mirrors_def fun_eq_iff)
  ultimately show ?thesis by blast
qed

theorem stores_follow_the_events_witness:
  "so_redis (consume_message calm ''list'' empty_social) (FOLLOWED_BY_KEY_PREFIX @ bob) = {alice}"
proof -
  have "quiet calm" by (simp add: quiet_def calm_def)
  from stores_follow_the_events [OF this, of "[''list'']"]
  have "mirrors (message_spec calm ''list'' (\<lambda>_. {})) (so_redis (consume_message calm ''list'' empty_social))" by (simp add: holds_def)
  then have "so_redis (consume_message calm ''list'' empty_social) (FOLLOWED_BY_KEY_PREFIX @ bob) = {q. (q, bob) \<in> message_spec calm ''list'' (\<lambda>_. {}) FOLLOWS}"
    by (simp add: mirrors_def reverse_sets_def)
  moreover have "p_tag_pubkeys (JList [JList [JStr ''p'', JStr bob]]) = Inr [bob]" by code_simp
  ultimately show ?thesis
    by (simp add: message_spec_def calm_def contact_list_def as_event_def event_spec_def publisher_of_def raw_tags_def get_def kind_is_def Let_def set_targets_def)
qed

end
