(* ===== verification/Redis_Backfill.thy ===== *)
theory Redis_Backfill
  imports Social_Graph
begin

text \<open>
  The rebuild of the Redis sets from the graph (\<^verbatim>\<open>message_queue_tasks/backfill_redis_relationships.py\<close>), which the
  server runs before it serves: user by user in pages of the key order, one \<^verbatim>\<open>SADD\<close> per edge in pipelines of bounded
  length. The loop ends on the first empty page; the graph has no other writer while it runs. The property is that it
  ends, after how many pages, and with every edge written.
\<close>

definition PAGE_SIZE :: nat where "PAGE_SIZE = 2000"
definition PIPELINE_FLUSH_EVERY :: nat where "PIPELINE_FLUSH_EVERY = 5000"
definition ZAPS_VIA_KEY_PREFIX :: string where "ZAPS_VIA_KEY_PREFIX = ''zaps_via:''"

definition forward_sets :: "(edge_kind \<times> string) list" where
  "forward_sets = [(DESIGNATES, DESIGNATES_KEY_PREFIX), (ZAPS_VIA, ZAPS_VIA_KEY_PREFIX)]"

text \<open>The kinds the graph is built from, and the rows of their transfers: the kind and whether it completed.\<close>

definition ev_kinds :: "int list" where "ev_kinds = [3, 10000, 1984, 5]"

definition is_graph_db_populated :: "(int \<rightharpoonup> bool) \<Rightarrow> bool" where
  "is_graph_db_populated transfers = list_all (\<lambda>kind. transfers kind = Some True) ev_kinds"

text \<open>A set that has no member has no key.\<close>

definition redis_has_relationship_data :: "social \<Rightarrow> bool" where
  "redis_has_relationship_data w \<longleftrightarrow> (\<exists>pre\<in>set reverse_prefixes. \<exists>t. so_redis w (pre @ t) \<noteq> {})"

definition count_nostr_users :: "nat social_op" where
  "count_nostr_users = write_graph (\<lambda>g. (length (sg_users g), g))"

definition page_of :: "edge_kind \<Rightarrow> string \<Rightarrow> social_graph \<Rightarrow> (string \<times> string list) list" where
  "page_of rel cursor g =
     map (\<lambda>s. (s, targets_of rel s g)) (take PAGE_SIZE (filter (\<lambda>s. cursor < s) (sort (sg_users g))))"

definition read_page :: "edge_kind \<Rightarrow> string \<Rightarrow> (string \<times> string list) list social_op" where
  "read_page rel cursor = write_graph (\<lambda>g. (page_of rel cursor g, g))"

definition row_cmds :: "bool \<Rightarrow> string \<Rightarrow> string \<times> string list \<Rightarrow> redis_cmd list" where
  "row_cmds forward prefix row =
     map (\<lambda>t. if forward then Sadd (prefix @ fst row) [t] else Sadd (prefix @ t) [fst row]) (snd row)"

text \<open>The commands of a page, executed whenever \<^term>\<open>PIPELINE_FLUSH_EVERY\<close> of them wait, and at the page's end.\<close>

fun queue_edges :: "redis_cmd list \<Rightarrow> redis_cmd list \<Rightarrow> nat \<Rightarrow> nat social_op" where
  "queue_edges [] pipe edges_written =
     (if pipe = [] then ret edges_written
      else op_bind (pipeline False pipe) (\<lambda>_. ret (edges_written + length pipe)))"
| "queue_edges (c # cs) pipe edges_written =
     (let pipe' = pipe @ [c] in
      if PIPELINE_FLUSH_EVERY \<le> length pipe'
      then op_bind (pipeline False pipe') (\<lambda>_. queue_edges cs [] (edges_written + length pipe'))
      else queue_edges cs pipe' edges_written)"

text \<open>\<^verbatim>\<open>page_max_cursor\<close>: the greatest source of a page that is not empty.\<close>

definition page_max :: "string \<Rightarrow> string list \<Rightarrow> string" where
  "page_max s ss = fold (\<lambda>source m. if m < source then source else m) ss s"

lemma queue_edges_graph: "so_graph (snd (queue_edges cs pipe n env w)) = so_graph w"
  by (induction cs pipe n arbitrary: w rule: queue_edges.induct)
    (auto simp: op_bind_def ret_def pipeline_def Let_def split: prod.split sum.split option.split)

lemma read_page_graph: "so_graph (snd (read_page rel cursor env w)) = so_graph w"
  by (simp add: read_page_def write_graph_def Let_def split: option.split)

lemma read_page_rows: "read_page rel cursor env w = (Inr rows, w') \<Longrightarrow> rows = page_of rel cursor (so_graph w)"
  by (auto simp: read_page_def write_graph_def Let_def split: option.splits)

lemma page_max_in: "page_max s ss \<in> set (s # ss)"
  unfolding page_max_def by (induction ss arbitrary: s) auto

definition users_after :: "string \<Rightarrow> social_graph \<Rightarrow> string set" where
  "users_after cursor g = {s \<in> set (sg_users g). cursor < s}"

lemma users_after_less:
  assumes "s \<in> users_after cursor g"
  shows "card (users_after s g) < card (users_after cursor g)"
proof (rule psubset_card_mono)
  show "finite (users_after cursor g)" by (simp add: users_after_def)
  show "users_after s g \<subset> users_after cursor g" using assms by (auto simp: users_after_def)
qed

lemma page_max_after:
  assumes "page_of rel cursor g = row # rows"
  shows "page_max (fst row) (map fst rows) \<in> users_after cursor g"
proof -
  have "map fst (page_of rel cursor g) = take PAGE_SIZE (filter (\<lambda>s. cursor < s) (sort (sg_users g)))"
    by (simp add: page_of_def comp_def)
  then have "set (fst row # map fst rows) \<subseteq> users_after cursor g"
    using assms set_take_subset [of PAGE_SIZE "filter (\<lambda>s. cursor < s) (sort (sg_users g))"] by (auto simp: users_after_def)
  with page_max_in show ?thesis by blast
qed

text \<open>The loop over the pages of one relationship. Its value is the number of edges written.\<close>

function backfill_loop :: "edge_kind \<Rightarrow> string \<Rightarrow> bool \<Rightarrow> string \<Rightarrow> nat \<Rightarrow> social_env \<Rightarrow> social \<Rightarrow> (exn, nat) result \<times> social" where
  "backfill_loop rel prefix forward cursor edges_written env w =
     (case read_page rel cursor env w of
        (Inl e, w1) \<Rightarrow> (Inl e, w1)
      | (Inr rows, w1) \<Rightarrow>
          (case queue_edges (concat (map (row_cmds forward prefix) rows)) [] edges_written env w1 of
             (Inl e, w2) \<Rightarrow> (Inl e, w2)
           | (Inr n, w2) \<Rightarrow>
               (case rows of
                  [] \<Rightarrow> (Inr n, w2)
                | row # rows' \<Rightarrow> backfill_loop rel prefix forward (page_max (fst row) (map fst rows')) n env w2)))"
  by pat_completeness auto
termination
proof (relation "measure (\<lambda>(rel, prefix, forward, cursor, n, env, w). card (users_after cursor (so_graph w)))", simp, goal_cases)
  case (1 rel prefix forward cursor n env w p w1 rows q w2 m row rows')
  then have read: "read_page rel cursor env w = (Inr (row # rows'), w1)"
    and sent: "queue_edges (concat (map (row_cmds forward prefix) rows)) [] n env w1 = (Inr m, w2)" by simp_all
  have "so_graph w2 = so_graph w"
    using queue_edges_graph [of "concat (map (row_cmds forward prefix) rows)" "[]" n env w1]
      read_page_graph [of rel cursor env w] unfolding read sent by simp
  moreover have "page_max (fst row) (map fst rows') \<in> users_after cursor (so_graph w)"
    using page_max_after read_page_rows [OF read] by metis
  ultimately show ?case using users_after_less by simp
qed

declare backfill_loop.simps [simp del]

definition backfill_relationship :: "bool \<Rightarrow> edge_kind \<times> string \<Rightarrow> nat social_op" where
  "backfill_relationship forward rp = backfill_loop (fst rp) (snd rp) forward [] 0"

fun backfill_all :: "bool \<Rightarrow> (edge_kind \<times> string) list \<Rightarrow> unit social_op" where
  "backfill_all forward [] = ret ()"
| "backfill_all forward (rp # rps) = op_bind (backfill_relationship forward rp) (\<lambda>_. backfill_all forward rps)"

text \<open>The value is whether the done marker is set. A failure of the setting of the marker is that of \<open>mark\<close>.\<close>

definition backfill_redis_relationships_if_needed :: "(int \<rightharpoonup> bool) \<Rightarrow> exn option \<Rightarrow> bool \<Rightarrow> bool social_op" where
  "backfill_redis_relationships_if_needed transfers mark marked env w =
     (if marked then (Inr True, w)
      else if \<not> is_graph_db_populated transfers then (Inr False, w)
      else if redis_has_relationship_data w then (Inr False, w)
      else op_bind count_nostr_users (\<lambda>_.
           op_bind (backfill_all False reverse_sets) (\<lambda>_.
           op_bind (backfill_all True forward_sets) (\<lambda>_.
           of_res (case mark of None \<Rightarrow> Inr True | Some e \<Rightarrow> Inl e)))) env w)"

section \<open>The rebuild ends, complete\<close>

lemma page_max_last: "sorted (s # ss) \<Longrightarrow> page_max s ss = last (s # ss)"
  unfolding page_max_def by (induction ss arbitrary: s) auto

lemma sorted_le_last: "sorted (xs :: string list) \<Longrightarrow> x \<in> set xs \<Longrightarrow> x \<le> last xs"
  by (induction xs) auto

lemma next_page:
  assumes "sorted_wrt (<) users" "take PAGE_SIZE (filter (\<lambda>s. cursor < s) users) = s # ss"
  shows "filter (\<lambda>u. page_max s ss < u) users = drop PAGE_SIZE (filter (\<lambda>s. cursor < s) users)"
proof -
  let ?ys = "filter (\<lambda>s. cursor < s) users" and ?m = "last (s # ss)"
  define rest where "rest = drop PAGE_SIZE ?ys"
  then have ys: "?ys = (s # ss) @ rest" using append_take_drop_id [of PAGE_SIZE ?ys] assms(2) by simp
  have "sorted_wrt (<) ((s # ss) @ rest)" unfolding ys [symmetric] using assms(1) by (rule sorted_wrt_filter)
  then have "sorted_wrt (<) (s # ss)" and above: "\<forall>x\<in>set (s # ss). \<forall>y\<in>set rest. x < y"
    unfolding sorted_wrt_append by auto
  then have srt: "sorted (s # ss)" by (auto simp: strict_sorted_iff less_imp_le)
  have "x \<le> ?m" if "x \<in> set (s # ss)" for x by (rule sorted_le_last [OF srt that])
  then have below: "\<forall>x\<in>set (s # ss). \<not> ?m < x" by (meson linorder_not_le)
  have mem: "?m \<in> set (s # ss)" by (rule last_in_set) simp
  then have "?m \<in> set ?ys" by (subst ys) simp
  then have "cursor < ?m" by simp
  then have "filter (\<lambda>u. ?m < u) users = filter (\<lambda>u. ?m < u) ?ys" by (auto intro: filter_cong)
  also have "\<dots> = filter (\<lambda>u. ?m < u) (s # ss) @ filter (\<lambda>u. ?m < u) rest" unfolding ys by (rule filter_append)
  also have "\<dots> = rest"
    using below bspec [OF above mem] by (simp add: filter_empty_conv filter_id_conv del: filter.simps last.simps)
  finally show ?thesis by (simp only: page_max_last [OF srt] rest_def)
qed

lemma queue_edges_quiet:
  assumes "quiet env"
  shows "\<exists>w'. queue_edges cs pipe n env w = (Inr (n + length pipe + length cs), w')
    \<and> so_redis w' = fold redis_run (pipe @ cs) (so_redis w) \<and> so_writes w' = so_writes w"
proof (induction cs arbitrary: pipe n w)
  case Nil
  show ?case by (simp add: op_bind_def ret_def quiet_ops(2) [OF assms])
next
  case (Cons c cs)
  let ?w = "w\<lparr>so_pipes := so_pipes w + 1, so_redis := fold redis_run (pipe @ [c]) (so_redis w)\<rparr>"
  show ?case using Cons.IH [of "[]" "n + length (pipe @ [c])" ?w] Cons.IH [of "pipe @ [c]" n w]
    by (simp add: op_bind_def quiet_ops(2) [OF assms] Let_def)
qed

text \<open>The commands for the users after a cursor, and the pages that read them: the last is the empty one.\<close>

definition cmds_for :: "bool \<Rightarrow> string \<Rightarrow> edge_kind \<Rightarrow> social_graph \<Rightarrow> string list \<Rightarrow> redis_cmd list" where
  "cmds_for forward prefix rel g users = concat (map (\<lambda>s. row_cmds forward prefix (s, targets_of rel s g)) users)"

definition pages :: "nat \<Rightarrow> nat" where
  "pages n = (n + PAGE_SIZE - 1) div PAGE_SIZE + 1"

lemma pages_step: "0 < n \<Longrightarrow> pages n = 1 + pages (n - PAGE_SIZE)"
proof (cases "n \<le> PAGE_SIZE")
  case True
  moreover assume "0 < n"
  ultimately have "(n + PAGE_SIZE - 1) div PAGE_SIZE = 1" by (intro div_nat_eqI) (auto simp: PAGE_SIZE_def)
  with True show ?thesis by (simp add: pages_def PAGE_SIZE_def)
next
  case False
  then obtain m where "n = m + PAGE_SIZE" by (metis add.commute le_Suc_ex nat_le_linear)
  then show ?thesis by (simp add: pages_def PAGE_SIZE_def)
qed

lemma pages_none: "pages 0 = 1"
  by (simp add: pages_def PAGE_SIZE_def)

lemma backfill_loop_quiet:
  assumes "quiet env" "distinct (sg_users (so_graph w))" "users = filter (\<lambda>s. cursor < s) (sort (sg_users (so_graph w)))"
  shows "\<exists>w'. backfill_loop rel pre fwd cursor n env w = (Inr (n + length (cmds_for fwd pre rel (so_graph w) users)), w')
    \<and> so_graph w' = so_graph w \<and> so_redis w' = fold redis_run (cmds_for fwd pre rel (so_graph w) users) (so_redis w)
    \<and> so_writes w' = so_writes w + pages (length users)"
  using assms(2,3)
proof (induction "length users" arbitrary: users cursor n w rule: less_induct)
  case less
  let ?g = "so_graph w" and ?page = "take PAGE_SIZE users"
  let ?w1 = "w\<lparr>so_writes := so_writes w + 1\<rparr>"
  have read: "read_page rel cursor env w = (Inr (map (\<lambda>s. (s, targets_of rel s ?g)) ?page), ?w1)"
    by (simp add: read_page_def quiet_ops(1) [OF assms(1)] page_of_def less.prems(2))
  let ?cs = "concat (map (row_cmds fwd pre) (map (\<lambda>s. (s, targets_of rel s ?g)) ?page))"
  have cs: "?cs = cmds_for fwd pre rel ?g ?page" by (simp add: cmds_for_def comp_def)
  obtain w2 where w2: "queue_edges ?cs [] n env ?w1 = (Inr (n + length ?cs), w2)"
      "so_redis w2 = fold redis_run ?cs (so_redis w)" "so_writes w2 = so_writes w + 1"
    using queue_edges_quiet [OF assms(1), of ?cs "[]" n ?w1] by auto
  have g2: "so_graph w2 = ?g" using queue_edges_graph [of ?cs "[]" n env ?w1] w2(1) by simp
  show ?case
  proof (cases ?page)
    case Nil
    then have "users = []" by (simp add: PAGE_SIZE_def)
    with w2 g2 read show ?thesis by (auto simp: backfill_loop.simps [of rel pre fwd cursor] cmds_for_def pages_none)
  next
    case (Cons s ss)
    let ?rest = "drop PAGE_SIZE users"
    have "sorted_wrt (<) (sort (sg_users ?g))" using less.prems(1) by (simp add: strict_sorted_iff)
    then have rest: "?rest = filter (\<lambda>u. page_max s ss < u) (sort (sg_users (so_graph w2)))"
      using next_page Cons less.prems(2) g2 by metis
    have len: "0 < length users" using Cons by (cases users) auto
    then have "length ?rest < length users" by (simp add: PAGE_SIZE_def)
    from less.hyps [OF this _ rest, of "n + length ?cs"] less.prems(1) g2
    obtain w3 where w3: "backfill_loop rel pre fwd (page_max s ss) (n + length ?cs) env w2 = (Inr (n + length ?cs + length (cmds_for fwd pre rel ?g ?rest)), w3)"
        "so_graph w3 = ?g" "so_redis w3 = fold redis_run (cmds_for fwd pre rel ?g ?rest) (so_redis w2)" "so_writes w3 = so_writes w2 + pages (length ?rest)"
      by auto
    have "cmds_for fwd pre rel ?g users = ?cs @ cmds_for fwd pre rel ?g ?rest"
      unfolding cs cmds_for_def by (metis append_take_drop_id concat_append map_append)
    moreover have "backfill_loop rel pre fwd cursor n env w = backfill_loop rel pre fwd (page_max s ss) (n + length ?cs) env w2"
      unfolding backfill_loop.simps [of rel pre fwd cursor n env w] read using w2(1) by (simp add: Cons comp_def)
    moreover have "pages (length users) = 1 + pages (length ?rest)" using pages_step [OF len] by simp
    ultimately show ?thesis using w3 w2 by (simp add: fold_append)
  qed
qed

text \<open>The members that the edges of one relationship give to a key.\<close>

definition members :: "bool \<Rightarrow> edge_kind \<times> string \<Rightarrow> relations \<Rightarrow> string \<Rightarrow> string set" where
  "members fwd rp E k =
     (if fwd then {t. \<exists>s. (s, t) \<in> E (fst rp) \<and> k = snd rp @ s} else {s. \<exists>t. (s, t) \<in> E (fst rp) \<and> k = snd rp @ t})"

lemma row_run:
  "fold redis_run (map (\<lambda>t. if fwd then Sadd (pre @ s) [t] else Sadd (pre @ t) [s]) ts) r k
   = r k \<union> (if fwd then (if k = pre @ s then set ts else {}) else (if \<exists>t\<in>set ts. k = pre @ t then {s} else {}))"
  by (induction ts arbitrary: r) auto

lemma cmds_for_run:
  "fold redis_run (cmds_for fwd pre rel g users) r k
   = r k \<union> members fwd (rel, pre) (\<lambda>rel. {e \<in> set (sg_edges g rel). fst e \<in> set users}) k"
proof (induction users arbitrary: r)
  case Nil
  show ?case by (simp add: cmds_for_def members_def)
next
  case (Cons s users)
  have targets: "t \<in> set (targets_of rel s g) \<longleftrightarrow> (s, t) \<in> set (sg_edges g rel)" for t by (force simp: targets_of_def)
  have "fold redis_run (cmds_for fwd pre rel g (s # users)) r k
      = fold redis_run (row_cmds fwd pre (s, targets_of rel s g)) r k \<union> members fwd (rel, pre) (\<lambda>rel. {e \<in> set (sg_edges g rel). fst e \<in> set users}) k"
    using Cons.IH by (simp add: cmds_for_def)
  moreover have "fold redis_run (row_cmds fwd pre (s, targets_of rel s g)) r k = r k \<union> members fwd (rel, pre) (\<lambda>rel. {e \<in> set (sg_edges g rel). fst e = s}) k"
    by (cases fwd) (auto simp: row_cmds_def row_run [where fwd = True, simplified] row_run [where fwd = False, simplified] targets members_def)
  moreover have "members fwd (rel, pre) (\<lambda>rel. {e \<in> set (sg_edges g rel). fst e \<in> set (s # users)}) k
      = members fwd (rel, pre) (\<lambda>rel. {e \<in> set (sg_edges g rel). fst e = s}) k \<union> members fwd (rel, pre) (\<lambda>rel. {e \<in> set (sg_edges g rel). fst e \<in> set users}) k"
    by (cases fwd) (auto simp: members_def)
  ultimately show ?case by (simp add: Un_assoc)
qed

text \<open>Users as the unique key has them: each once, none empty; edges start at users.\<close>

definition graph_ok :: "social_graph \<Rightarrow> bool" where
  "graph_ok g \<longleftrightarrow> distinct (sg_users g) \<and> [] \<notin> set (sg_users g) \<and> (\<forall>rel. \<forall>e\<in>set (sg_edges g rel). fst e \<in> set (sg_users g))"

lemma backfill_relationship_quiet:
  assumes "quiet env" "graph_ok (so_graph w)"
  shows "\<exists>n w'. backfill_relationship fwd rp env w = (Inr n, w') \<and> so_graph w' = so_graph w
    \<and> (\<forall>k. so_redis w' k = so_redis w k \<union> members fwd rp (relations_of w) k)
    \<and> so_writes w' = so_writes w + pages (length (sg_users (so_graph w)))"
proof -
  let ?users = "filter (\<lambda>s. [] < s) (sort (sg_users (so_graph w)))"
  have "[] < s" if "s \<in> set (sg_users (so_graph w))" for s :: string
  proof -
    have "s \<noteq> []" using that assms(2) by (auto simp: graph_ok_def)
    then show ?thesis by (cases s) simp_all
  qed
  then have users: "?users = sort (sg_users (so_graph w))" by (simp add: filter_id_conv)
  have "{e \<in> set (sg_edges (so_graph w) rel). fst e \<in> set ?users} = relations_of w rel" for rel
    unfolding users using assms(2) by (auto simp: graph_ok_def relations_of_def)
  with backfill_loop_quiet [OF assms(1), of w ?users "[]" "fst rp" "snd rp" fwd 0] assms(2) show ?thesis
    by (auto simp: backfill_relationship_def graph_ok_def cmds_for_run users)
qed

lemma backfill_all_quiet:
  assumes "quiet env" "graph_ok (so_graph w)"
  shows "\<exists>w'. backfill_all fwd rps env w = (Inr (), w') \<and> so_graph w' = so_graph w
    \<and> (\<forall>k. so_redis w' k = so_redis w k \<union> (\<Union>rp\<in>set rps. members fwd rp (relations_of w) k))
    \<and> so_writes w' = so_writes w + length rps * pages (length (sg_users (so_graph w)))"
  using assms(2)
proof (induction rps arbitrary: w)
  case Nil
  then show ?case by (simp add: ret_def)
next
  case (Cons rp rps)
  obtain n w1 where w1: "backfill_relationship fwd rp env w = (Inr n, w1)" "so_graph w1 = so_graph w"
      "\<forall>k. so_redis w1 k = so_redis w k \<union> members fwd rp (relations_of w) k"
      "so_writes w1 = so_writes w + pages (length (sg_users (so_graph w)))"
    using backfill_relationship_quiet [OF assms(1) Cons.prems, of fwd rp] by auto
  then have "relations_of w1 = relations_of w" by (simp add: relations_of_def [abs_def])
  with Cons.IH [of w1] w1 Cons.prems show ?case by (auto simp: op_bind_def Un_assoc)
qed

text \<open>
  C35. The rebuild ends, complete. On a wiped Redis, with no write failing, the rebuild of a completely transferred graph ends after one
  count and, for each of the five relationships, a page for every 2000 users and the empty page that stops it, never
  more. Then the sets mirror the graph, the zap designations too, the graph is untouched and the marker is set.
\<close>
theorem rebuild_ends_complete:
  assumes "quiet env" "graph_ok (so_graph w)" "is_graph_db_populated transfers" "\<And>k. so_redis w k = {}"
  shows "\<exists>w'. backfill_redis_relationships_if_needed transfers None False env w = (Inr True, w')
    \<and> so_writes w' = so_writes w + 1 + 5 * pages (length (sg_users (so_graph w)))
    \<and> holds (relations_of w) w' \<and> (\<forall>q. so_redis w' (ZAPS_VIA_KEY_PREFIX @ q) = {t. (q, t) \<in> relations_of w ZAPS_VIA})"
proof -
  let ?E = "relations_of w" and ?w1 = "w\<lparr>so_writes := so_writes w + 1\<rparr>"
  have E1: "relations_of ?w1 = ?E" by (simp add: relations_of_def [abs_def])
  obtain w2 where w2: "backfill_all False reverse_sets env ?w1 = (Inr (), w2)" "so_graph w2 = so_graph w"
      "\<And>k. so_redis w2 k = (\<Union>rp\<in>set reverse_sets. members False rp ?E k)"
      "so_writes w2 = so_writes w + 1 + 3 * pages (length (sg_users (so_graph w)))"
    using backfill_all_quiet [OF assms(1), of ?w1 False reverse_sets] assms(2,4) E1 by (auto simp: reverse_sets_def)
  have E2: "relations_of w2 = ?E" using w2(2) by (simp add: relations_of_def [abs_def])
  obtain w3 where w3: "backfill_all True forward_sets env w2 = (Inr (), w3)" "so_graph w3 = so_graph w"
      "\<And>k. so_redis w3 k = (\<Union>rp\<in>set reverse_sets. members False rp ?E k) \<union> (\<Union>rp\<in>set forward_sets. members True rp ?E k)"
      "so_writes w3 = so_writes w2 + 2 * pages (length (sg_users (so_graph w)))"
    using backfill_all_quiet [OF assms(1), of w2 True forward_sets] assms(2) w2 E2 by (auto simp: forward_sets_def)
  note keys = members_def reverse_sets_def forward_sets_def FOLLOWED_BY_KEY_PREFIX_def MUTED_BY_KEY_PREFIX_def REPORTED_BY_KEY_PREFIX_def
    DESIGNATES_KEY_PREFIX_def ZAPS_VIA_KEY_PREFIX_def
  have "mirrors ?E (so_redis w3)" unfolding mirrors_def by (auto simp: w3(3) keys)
  then have "holds ?E w3" using w3(2) by (simp add: holds_def relations_of_def [abs_def])
  moreover have "so_redis w3 (ZAPS_VIA_KEY_PREFIX @ q) = {t. (q, t) \<in> ?E ZAPS_VIA}" for q by (simp add: w3(3) keys)
  moreover have "backfill_redis_relationships_if_needed transfers None False env w = (Inr True, w3)"
    using w2(1) w3(1) assms(3,4)
    by (simp add: backfill_redis_relationships_if_needed_def redis_has_relationship_data_def count_nostr_users_def quiet_ops(1) [OF assms(1)] op_bind_def of_res_def)
  ultimately show ?thesis using w2(4) w3(4) by auto
qed

definition alice_follows_bob :: social where
  "alice_follows_bob = empty_social\<lparr>so_graph := \<lparr>sg_users = [alice, bob], sg_edges = (\<lambda>_. [])(FOLLOWS := [(alice, bob)])\<rparr>\<rparr>"

theorem rebuild_ends_complete_witness:
  "\<exists>w'. backfill_redis_relationships_if_needed (\<lambda>_. Some True) None False calm alice_follows_bob = (Inr True, w')
    \<and> so_writes w' = 11 \<and> so_redis w' (FOLLOWED_BY_KEY_PREFIX @ bob) = {alice}"
proof -
  have ok: "quiet calm" "graph_ok (so_graph alice_follows_bob)" "is_graph_db_populated (\<lambda>_. Some True)" "so_redis alice_follows_bob k = {}" for k
    by (simp_all add: quiet_def calm_def graph_ok_def alice_follows_bob_def alice_def bob_def empty_social_def is_graph_db_populated_def list_all_iff numeral_eq_Suc)
  have "pages (Suc (Suc 0)) = 2" by (simp add: pages_def PAGE_SIZE_def)
  then show ?thesis using rebuild_ends_complete [OF ok]
    by (auto simp: alice_follows_bob_def empty_social_def holds_def mirrors_def reverse_sets_def relations_of_def)
qed

end
