(* ===== verification/Event_Transfer.thy ===== *)
theory Event_Transfer
  imports Nostr_Event
begin

text \<open>
  The first filling of the server's relay (\<^verbatim>\<open>nostr_event_transferer/nostr_event_transferer.py\<close> with
  \<^verbatim>\<open>repos/brainstorm_nostr_transferer.py\<close>): for each kind, pages of events are fetched from another relay, newest first,
  each page asked for while the one before it is passed on, until a page is empty. The server waits for it before it
  serves. The relay is a parameter: what it answers to the n-th request for events up to a time. A loop that does not
  return is \<^term>\<open>None\<close>. The properties: when the loop ends, and which events it has passed on by then.
\<close>

section \<open>Events, rows, the relay\<close>

record nostr_ev =
  ev_id :: string
  ev_at :: int

record transfer_row =
  rw_completed :: bool
  rw_oldest :: "int option"
  rw_events :: int
  rw_started_at :: rat

text \<open>\<open>tv_fetch\<close>: the source relay; \<open>tv_from_secs\<close>: \<^verbatim>\<open>Timestamp.from_secs\<close> of the Nostr library, which takes an unsigned
  number; \<open>tv_refuses\<close>: the events the target relay refuses; \<open>tv_store\<close>: the failure of a row's write, if any.\<close>

record transfer_env =
  tv_fetch :: "nat \<Rightarrow> int option \<Rightarrow> (exn, nostr_ev list) result"
  tv_from_secs :: "int \<Rightarrow> (exn, int) result"
  tv_refuses :: "nostr_ev \<Rightarrow> exn option"
  tv_store :: "nat \<Rightarrow> exn option"

text \<open>The locals of one kind's loop. \<open>tr_task\<close> is the page already asked for: the time it was bounded by, if any.\<close>

record transfer =
  tr_until :: "int option"
  tr_total :: nat
  tr_seen :: "string set"
  tr_task :: "int option option"
  tr_fetches :: nat
  tr_sent :: "nostr_ev list"
  tr_row :: "transfer_row option"

definition LIMIT :: nat where "LIMIT = 300"

definition upsert_nostr_transfer_status_on_db :: "transfer_env \<Rightarrow> nat \<Rightarrow> bool \<Rightarrow> nat \<Rightarrow> int option \<Rightarrow> rat \<Rightarrow> (exn, transfer_row) result" where
  "upsert_nostr_transfer_status_on_db env n completed total_events oldest started_at =
     (case tv_store env n of
        Some e \<Rightarrow> Inl e
      | None \<Rightarrow>
          if \<not> int4 (int total_events) \<or> (case oldest of None \<Rightarrow> False | Some t \<Rightarrow> \<not> int4 t) then Inl DataError
          else Inr \<lparr>rw_completed = completed, rw_oldest = oldest, rw_events = int total_events, rw_started_at = started_at\<rparr>)"

text \<open>\<^verbatim>\<open>publish_event\<close> logs every failure: what the target refused is passed over.\<close>

definition publish_event :: "transfer_env \<Rightarrow> nostr_ev \<Rightarrow> nostr_ev list \<Rightarrow> nostr_ev list" where
  "publish_event env event passed = (case tv_refuses env event of None \<Rightarrow> passed @ [event] | Some _ \<Rightarrow> passed)"

text \<open>The loop over a page, with the identifiers seen so far. The deque of the first filling has no bound, so nothing leaves it.\<close>

fun forward_new :: "transfer_env \<Rightarrow> nostr_ev list \<Rightarrow> string set \<times> nat \<times> nostr_ev list \<Rightarrow> string set \<times> nat \<times> nostr_ev list" where
  "forward_new env [] acc = acc"
| "forward_new env (event # events) (seen, new_events, passed) =
     (if ev_id event \<in> seen then forward_new env events (seen, new_events, passed)
      else forward_new env events (insert (ev_id event) seen, new_events + 1, publish_event env event passed))"

definition oldest_of :: "nostr_ev list \<Rightarrow> int" where
  "oldest_of events = Min (set (map ev_at events))"

definition same_second :: "nostr_ev list \<Rightarrow> int \<Rightarrow> bool" where
  "same_second events ts \<longleftrightarrow> length (filter (\<lambda>e. ev_at e = ts) events) = length events"

definition bound_of :: "transfer_env \<Rightarrow> int option \<Rightarrow> (exn, int option) result" where
  "bound_of env until = (case until of None \<Rightarrow> Inr None | Some u \<Rightarrow> result_bind (tv_from_secs env u) (\<lambda>t. Inr (Some t)))"

definition int_truthy :: "int option \<Rightarrow> bool" where
  "int_truthy v \<longleftrightarrow> v \<noteq> None \<and> v \<noteq> Some 0"

datatype round = Going transfer | Ended transfer | Failed exn transfer

definition or_fail :: "transfer \<Rightarrow> (exn, 'a) result \<Rightarrow> ('a \<Rightarrow> round) \<Rightarrow> round" where
  "or_fail st r f = (case r of Inl e \<Rightarrow> Failed e st | Inr x \<Rightarrow> f x)"

section \<open>The first filling\<close>

text \<open>What is done with the events of a page, once they are cut at the time.\<close>

definition take_page :: "transfer_env \<Rightarrow> rat \<Rightarrow> transfer \<Rightarrow> nostr_ev list \<Rightarrow> round" where
  "take_page env started_at st events =
     (if events = []
      then if \<not> int_truthy (tr_until st) then Failed AssertionError st
           else or_fail st (upsert_nostr_transfer_status_on_db env (tr_fetches st) True (tr_total st) (tr_until st) started_at) (\<lambda>row.
                Ended (st\<lparr>tr_row := Some row\<rparr>))
      else let oldest_ts = oldest_of events in
           or_fail st (if tr_until st = None then Inr None else bound_of env (Some oldest_ts)) (\<lambda>next_flt.
           case forward_new env events (tr_seen st, 0, tr_sent st) of (seen, new_events, passed) \<Rightarrow>
           let until = Some (if same_second events oldest_ts then oldest_ts - 1 else oldest_ts);
               st' = st\<lparr>tr_until := until, tr_total := tr_total st + new_events, tr_seen := seen, tr_task := Some next_flt, tr_sent := passed\<rparr> in
           or_fail st' (upsert_nostr_transfer_status_on_db env (tr_fetches st) False (tr_total st') until started_at) (\<lambda>row.
           Going (st'\<lparr>tr_row := Some row\<rparr>))))"

definition transfer_round :: "transfer_env \<Rightarrow> rat \<Rightarrow> transfer \<Rightarrow> round" where
  "transfer_round env started_at st =
     or_fail st (bound_of env (tr_until st)) (\<lambda>flt.
     let st' = st\<lparr>tr_fetches := tr_fetches st + 1\<rparr> in
     or_fail st' (tv_fetch env (tr_fetches st) (case tr_task st of None \<Rightarrow> flt | Some bound \<Rightarrow> bound)) (\<lambda>page.
     take_page env started_at st' (if int_truthy (tr_until st) then filter (\<lambda>x. ev_at x \<le> the (tr_until st)) page else page)))"

partial_function (option) transfer_loop :: "transfer_env \<Rightarrow> rat \<Rightarrow> transfer \<Rightarrow> round option" where
  "transfer_loop env started_at st =
     (case transfer_round env started_at st of
        Going st' \<Rightarrow> transfer_loop env started_at st'
      | r \<Rightarrow> Some r)"

text \<open>One kind: skipped when its transfer completed, otherwise from where the row says it stopped.\<close>

definition start_of :: "transfer_row option \<Rightarrow> transfer" where
  "start_of row = \<lparr>tr_until = (case row of None \<Rightarrow> None | Some r \<Rightarrow> rw_oldest r), tr_total = (case row of None \<Rightarrow> 0 | Some r \<Rightarrow> nat (rw_events r)),
     tr_seen = {}, tr_task = None, tr_fetches = 0, tr_sent = [], tr_row = row\<rparr>"

definition transfer_kind :: "transfer_env \<Rightarrow> rat \<Rightarrow> transfer_row option \<Rightarrow> round option" where
  "transfer_kind env now row =
     (case row of
        Some r \<Rightarrow> if rw_completed r then Some (Ended (start_of row)) else transfer_loop env (rw_started_at r) (start_of row)
      | None \<Rightarrow> transfer_loop env now (start_of row))"

definition transfer_kinds :: "int list" where
  "transfer_kinds = [3, 10000, 1984, 5] @ [39999]"

text \<open>All kinds, one after the other, each with the relay's answers for it; an error stops the rest. The rows are
  written as each page is done, so they stay.\<close>

fun transfer_each :: "(int \<Rightarrow> transfer_env) \<Rightarrow> (int \<Rightarrow> rat) \<Rightarrow> int list \<Rightarrow> (int \<rightharpoonup> transfer_row) \<Rightarrow> (exn option \<times> (int \<rightharpoonup> transfer_row)) option" where
  "transfer_each env now [] rows = Some (None, rows)"
| "transfer_each env now (kind # kinds) rows =
     Option.bind (transfer_kind (env kind) (now kind) (rows kind)) (\<lambda>r.
       case r of
         Ended st \<Rightarrow> transfer_each env now kinds (rows(kind := tr_row st))
       | Going st \<Rightarrow> Some (None, rows)
       | Failed e st \<Rightarrow> Some (Some e, rows(kind := tr_row st)))"

definition nostr_event_transferer :: "(int \<Rightarrow> transfer_env) \<Rightarrow> (int \<Rightarrow> rat) \<Rightarrow> (int \<rightharpoonup> transfer_row) \<Rightarrow> (exn option \<times> (int \<rightharpoonup> transfer_row)) option" where
  "nostr_event_transferer env now rows = transfer_each env now transfer_kinds rows"

section \<open>The later rounds\<close>

definition SEEN_CACHE_SIZE :: nat where "SEEN_CACHE_SIZE = 5000"

text \<open>A bounded deque and its set: an identifier that fills it pushes the oldest out of both.\<close>

fun remember :: "string \<Rightarrow> string list \<times> string set \<Rightarrow> string list \<times> string set" where
  "remember i (q, seen) =
     (let q' = (if length q = SEEN_CACHE_SIZE then tl q else q) @ [i]; seen' = insert i seen in
      if length q' = SEEN_CACHE_SIZE then (tl q', seen' - {hd q'}) else (q', seen'))"

record recent =
  rc_until :: "int option"
  rc_queue :: "string list \<times> string set"
  rc_task :: "int option option"
  rc_total :: nat
  rc_fetches :: nat
  rc_sent :: "nostr_ev list"

fun forward_recent :: "transfer_env \<Rightarrow> nostr_ev list \<Rightarrow> (string list \<times> string set) \<times> nat \<times> nostr_ev list \<Rightarrow> (string list \<times> string set) \<times> nat \<times> nostr_ev list" where
  "forward_recent env [] acc = acc"
| "forward_recent env (event # events) (queue, new_events, passed) =
     (if ev_id event \<in> snd queue then forward_recent env events (queue, new_events, passed)
      else forward_recent env events (remember (ev_id event) queue, new_events + 1, publish_event env event passed))"

definition recent_start :: recent where
  "recent_start = \<lparr>rc_until = None, rc_queue = ([], {}), rc_task = None, rc_total = 0, rc_fetches = 0, rc_sent = []\<rparr>"

text \<open>One page of the later rounds: \<open>Inr None\<close> where the boundary of the last round is reached.\<close>

definition recent_round :: "transfer_env \<Rightarrow> int \<Rightarrow> recent \<Rightarrow> (exn, recent option) result" where
  "recent_round env stop_time st =
     result_bind (bound_of env (rc_until st)) (\<lambda>flt.
     result_bind (tv_fetch env (rc_fetches st) (case rc_task st of None \<Rightarrow> flt | Some b \<Rightarrow> b)) (\<lambda>page.
     let events = filter (\<lambda>e. stop_time \<le> ev_at e) page in
     if events = [] then Inr None
     else let oldest = oldest_of events;
              oldest_ts = (if int_truthy (rc_until st) \<and> the (rc_until st) < oldest then the (rc_until st) else oldest) in
     result_bind (bound_of env (Some oldest_ts)) (\<lambda>next_flt.
     case forward_recent env events (rc_queue st, 0, rc_sent st) of (queue, new_events, passed) \<Rightarrow>
     let new_until = (if same_second events oldest_ts then oldest_ts - 1 else oldest_ts) in
     Inr (Some (st\<lparr>rc_until := Some (if int_truthy (rc_until st) \<and> rc_until st = Some new_until then new_until - 1 else new_until),
       rc_queue := queue, rc_task := Some next_flt, rc_total := rc_total st + new_events, rc_fetches := rc_fetches st + 1, rc_sent := passed\<rparr>)))))"

partial_function (option) recent_loop :: "transfer_env \<Rightarrow> int \<Rightarrow> recent \<Rightarrow> (exn, recent) result option" where
  "recent_loop env stop_time st =
     (case recent_round env stop_time st of
        Inl e \<Rightarrow> Some (Inl e)
      | Inr None \<Rightarrow> Some (Inr st)
      | Inr (Some st') \<Rightarrow> recent_loop env stop_time st')"

text \<open>One kind of \<^verbatim>\<open>nostr_event_recent_transferer\<close>: nothing without a first filling; three minutes of overlap.\<close>

definition recent_kind :: "transfer_env \<Rightarrow> rat \<Rightarrow> transfer_row option \<Rightarrow> (exn, transfer_row option) result option" where
  "recent_kind env now row =
     (case row of
        None \<Rightarrow> Some (Inr row)
      | Some r \<Rightarrow>
          if rw_started_at r = 0 then Some (Inr row)
          else Option.bind (recent_loop env (\<lfloor>rw_started_at r\<rfloor> - 60 * 3) recent_start) (\<lambda>res.
            case res of
              Inl e \<Rightarrow> Some (Inl e)
            | Inr st \<Rightarrow> Some (result_bind (upsert_nostr_transfer_status_on_db env (rc_fetches st) True (rc_total st) (rw_oldest r) now) (\<lambda>row. Inr (Some row)))))"

section \<open>When the filling ends\<close>

lemma oldest_in: "events \<noteq> [] \<Longrightarrow> \<exists>e\<in>set events. ev_at e = oldest_of events"
proof -
  assume "events \<noteq> []"
  then have "oldest_of events \<in> ev_at ` set events" using Min_in [of "ev_at ` set events"] by (simp add: oldest_of_def)
  then show ?thesis by auto
qed

lemma oldest_le: "e \<in> set events \<Longrightarrow> oldest_of events \<le> ev_at e"
  by (simp add: oldest_of_def)

lemma same_second_iff: "same_second events t \<longleftrightarrow> (\<forall>e\<in>set events. ev_at e = t)"
  unfolding same_second_def by (metis (mono_tags, lifting) filter_id_conv length_filter_less linorder_neq_iff)

lemma or_fail_Going: "or_fail st r f = Going st' \<longleftrightarrow> (\<exists>x. r = Inr x \<and> f x = Going st')"
  by (cases r) (simp_all add: or_fail_def)

lemma take_page_going:
  assumes "take_page env s st events = Going st'"
  shows "events \<noteq> []" and "tr_until st' = Some (if same_second events (oldest_of events) then oldest_of events - 1 else oldest_of events)"
  using assms
  by (cases "forward_new env events (tr_seen st, 0, tr_sent st)"; auto simp: take_page_def or_fail_Going Let_def split: if_splits)+

text \<open>Every event the relay has is dated at least two seconds after the epoch.\<close>

definition dated :: "transfer_env \<Rightarrow> bool" where
  "dated env \<longleftrightarrow> (\<forall>n b page. tv_fetch env n b = Inr page \<longrightarrow> (\<forall>e\<in>set page. 2 \<le> ev_at e))"

lemma round_moves_back:
  assumes "dated env" "transfer_round env s st = Going st'"
  shows "\<exists>u'. tr_until st' = Some u' \<and> 1 \<le> u' \<and> (\<forall>u. tr_until st = Some u \<and> 1 \<le> u \<longrightarrow> u' < u)"
proof -
  from assms(2) obtain flt page where page: "tv_fetch env (tr_fetches st) (case tr_task st of None \<Rightarrow> flt | Some bound \<Rightarrow> bound) = Inr page"
    and going: "take_page env s (st\<lparr>tr_fetches := tr_fetches st + 1\<rparr>)
      (if int_truthy (tr_until st) then filter (\<lambda>x. ev_at x \<le> the (tr_until st)) page else page) = Going st'"
    unfolding transfer_round_def or_fail_Going Let_def by blast
  define events where "events = (if int_truthy (tr_until st) then filter (\<lambda>x. ev_at x \<le> the (tr_until st)) page else page)"
  then have events: "events = (if int_truthy (tr_until st) then filter (\<lambda>x. ev_at x \<le> the (tr_until st)) page else page)" "events \<noteq> []"
    and until: "tr_until st' = Some (if same_second events (oldest_of events) then oldest_of events - 1 else oldest_of events)"
    using take_page_going [OF going [folded events_def]] by simp_all
  obtain e where e: "e \<in> set events" "ev_at e = oldest_of events" using oldest_in [OF events(2)] by auto
  have "e \<in> set page" using e(1) events(1) by (auto split: if_splits)
  then have "2 \<le> oldest_of events" using assms(1) page e(2) by (fastforce simp: dated_def)
  moreover have "ev_at x \<le> u" if "x \<in> set events" "tr_until st = Some u" "1 \<le> u" for u x
    using that events(1) by (auto simp: int_truthy_def split: if_splits)
  moreover have "oldest_of events < u" if "\<not> same_second events (oldest_of events)" "tr_until st = Some u" "1 \<le> u" for u
    using that calculation(2) oldest_le [of _ events] by (fastforce simp: same_second_iff)
  ultimately show ?thesis using until e by (fastforce split: if_splits)
qed

lemma transfer_loop_ends:
  assumes "dated env" "tr_until st = Some u" "1 \<le> u"
  shows "\<exists>r. transfer_loop env s st = Some r"
  using assms(2,3)
proof (induction "nat u" arbitrary: u st rule: less_induct)
  case less
  show ?case
  proof (cases "transfer_round env s st")
    case (Going st')
    then obtain u' where "tr_until st' = Some u'" "1 \<le> u'" "u' < u"
      using round_moves_back [OF assms(1) Going] less.prems by auto
    with less.hyps [of u' st'] less.prems Going show ?thesis by (simp add: transfer_loop.simps [of env s st])
  qed (simp_all add: transfer_loop.simps)
qed

text \<open>
  C36. The filling ends. Whatever the source relay answers, page after page, and whatever fails: if every event it ever gives is
  dated at least two seconds after the epoch, the transfer of a kind ends, from the start or from the time an
  earlier one stopped at.
\<close>
theorem transfer_ends:
  assumes "dated env" "\<And>r. row = Some r \<Longrightarrow> rw_oldest r = None \<or> (\<exists>u. rw_oldest r = Some u \<and> 1 \<le> u)"
  shows "\<exists>r. transfer_kind env now row = Some r"
proof -
  have loop: "\<exists>r. transfer_loop env s st = Some r" if "tr_until st = None \<or> (\<exists>u. tr_until st = Some u \<and> 1 \<le> u)" for s st
  proof (cases "transfer_round env s st")
    case (Going st')
    with round_moves_back [OF assms(1) Going] transfer_loop_ends [OF assms(1)] show ?thesis
      by (auto simp: transfer_loop.simps [of env s st])
  qed (simp_all add: transfer_loop.simps)
  then have "\<exists>r. transfer_loop env s (start_of row) = Some r" for s
    using assms(2) by (cases row) (auto simp: start_of_def)
  then show ?thesis by (auto simp: transfer_kind_def split: option.split)
qed

text \<open>A relay with one event, dated 2024, and one that holds nothing else.\<close>

definition example_ev :: nostr_ev where "example_ev = \<lparr>ev_id = ''e1'', ev_at = 1704067200\<rparr>"

definition example_source :: transfer_env where
  "example_source = \<lparr>tv_fetch = (\<lambda>n b. Inr (if b = None \<or> 1704067200 \<le> the b then [example_ev] else [])), tv_from_secs = (\<lambda>t. Inr t),
     tv_refuses = (\<lambda>_. None), tv_store = (\<lambda>_. None)\<rparr>"

theorem transfer_ends_witness: "\<exists>r. transfer_kind example_source 0 None = Some r"
  by (rule transfer_ends) (auto simp: dated_def example_source_def example_ev_def split: if_splits)

text \<open>An event dated one second after the epoch: the time becomes 0, which is false, so pages are no longer cut at it, and the
  same page is asked for without end. The server, which waits, does not start.\<close>

lemma dated_one_never_ends:
  assumes "ev_at e = 1" "\<And>t. 0 \<le> t \<Longrightarrow> tv_from_secs env t = Inr t" "\<And>n. tv_fetch env n None = Inr [e]" "\<And>n. tv_fetch env n (Some 1) = Inr [e]"
    "tv_refuses env e = None" "\<And>n. tv_store env n = None"
  shows "transfer_kind env now None = None"
proof -
  define stuck where "stuck = (\<lambda>st :: transfer. (tr_until st = None \<and> tr_task st = None \<and> tr_total st = 0)
    \<or> (tr_until st = Some 0 \<and> (tr_task st = Some None \<or> tr_task st = Some (Some 1)) \<and> tr_total st \<le> 1 \<and> ev_id e \<in> tr_seen st))"
  have old: "oldest_of [e] = 1" "same_second [e] 1" using assms(1) by (simp_all add: oldest_of_def same_second_def)
  have step: "\<exists>st'. transfer_round env s st = Going st' \<and> stuck st'" if "stuck st" for s st
    using that assms
    by (auto simp: stuck_def transfer_round_def take_page_def or_fail_def bound_of_def Let_def int_truthy_def upsert_nostr_transfer_status_on_db_def int4_def old)
  have "False" if "transfer_loop env s st = Some r" "stuck st" for s st r
  proof -
    have "env' = env \<longrightarrow> \<not> stuck st" if "transfer_loop env' s st = Some r" for env' s st r
    proof (rule transfer_loop.raw_induct [where P = "\<lambda>env' s st r. env' = env \<longrightarrow> \<not> stuck st", OF _ that])
      fix loop env' s st r
      assume "\<And>env' s st r. loop env' s st = Some r \<Longrightarrow> env' = env \<longrightarrow> \<not> stuck st"
        and "(case transfer_round env' s st of Going st' \<Rightarrow> loop env' s st' | r \<Rightarrow> Some r) = Some r"
      then show "env' = env \<longrightarrow> \<not> stuck st" using step [of st s] by (auto split: round.splits)
    qed
    with that show False by blast
  qed
  moreover have "stuck (start_of None)" by (simp add: stuck_def start_of_def)
  ultimately show ?thesis by (cases "transfer_loop env now (start_of None)") (auto simp: transfer_kind_def)
qed

section \<open>What the filling passes on\<close>

text \<open>The contract of a relay that holds some events: to a request bounded by a time it gives at most \<^term>\<open>LIMIT\<close> of those
  it holds, and leaves out one only for younger ones. Which of two events of one second it leaves out is its own choice.\<close>

definition in_bound :: "int option \<Rightarrow> nostr_ev \<Rightarrow> bool" where
  "in_bound b e \<longleftrightarrow> (case b of None \<Rightarrow> True | Some t \<Rightarrow> ev_at e \<le> t)"

definition newest_page :: "nostr_ev list \<Rightarrow> int option \<Rightarrow> nostr_ev list \<Rightarrow> bool" where
  "newest_page held b page \<longleftrightarrow> distinct page \<and> set page \<subseteq> {e \<in> set held. in_bound b e} \<and> length page \<le> LIMIT
     \<and> (\<forall>e\<in>set held. in_bound b e \<and> e \<notin> set page \<longrightarrow> length page = LIMIT \<and> (\<forall>p\<in>set page. ev_at e \<le> ev_at p))"

definition serves :: "transfer_env \<Rightarrow> nostr_ev list \<Rightarrow> bool" where
  "serves env held \<longleftrightarrow> (\<forall>n b. \<exists>page. tv_fetch env n b = Inr page \<and> newest_page held b page)
     \<and> (\<forall>t\<ge>0. tv_from_secs env t = Inr t) \<and> (\<forall>e. tv_refuses env e = None) \<and> (\<forall>n. tv_store env n = None)"

definition held_ok :: "nostr_ev list \<Rightarrow> bool" where
  "held_ok held \<longleftrightarrow> inj_on ev_id (set held) \<and> (\<forall>e\<in>set held. 2 \<le> ev_at e \<and> ev_at e \<le> 2147483647)"

definition uncrowded :: "nostr_ev list \<Rightarrow> bool" where
  "uncrowded held \<longleftrightarrow> (\<forall>t. card {e \<in> set held. ev_at e = t} < LIMIT)"

lemma uncrowded_page:
  assumes "uncrowded held" "distinct page" "set page \<subseteq> set held" "\<And>e. e \<in> set page \<Longrightarrow> ev_at e = t"
  shows "length page < LIMIT"
proof -
  have "card (set page) \<le> card {e \<in> set held. ev_at e = t}" using assms(3,4) by (intro card_mono) auto
  also have "\<dots> < LIMIT" using assms(1) by (simp add: uncrowded_def)
  finally show ?thesis using assms(2) by (simp add: distinct_card)
qed

text \<open>The accounts of a loop: each event once, seen by its identifier, counted.\<close>

definition accounts :: "nostr_ev list \<Rightarrow> nat \<Rightarrow> transfer \<Rightarrow> bool" where
  "accounts held t0 st \<longleftrightarrow> distinct (tr_sent st) \<and> set (tr_sent st) \<subseteq> set held \<and> tr_seen st = ev_id ` set (tr_sent st)
     \<and> tr_total st = t0 + length (tr_sent st)"

lemma forward_new_run:
  assumes "\<And>e. tv_refuses env e = None" "inj_on ev_id A" "set passed \<union> set events \<subseteq> A" "distinct passed"
  shows "\<exists>new. forward_new env events (ev_id ` set passed, n, passed) = (ev_id ` set (passed @ new), n + length new, passed @ new)
    \<and> distinct (passed @ new) \<and> set (passed @ new) = set passed \<union> set events"
  using assms(3,4)
proof (induction events arbitrary: passed n)
  case Nil
  then show ?case by (intro exI [of _ "[]"]) simp
next
  case (Cons e events)
  show ?case
  proof (cases "e \<in> set passed")
    case True
    then show ?thesis using Cons.IH [of passed n] Cons.prems by auto
  next
    case False
    then have "ev_id e \<notin> ev_id ` set passed" using Cons.prems(1) inj_onD [OF assms(2), of e] by fastforce
    then have "forward_new env (e # events) (ev_id ` set passed, n, passed) = forward_new env events (ev_id ` set (passed @ [e]), n + 1, passed @ [e])"
      using assms(1) by (simp add: publish_event_def)
    with Cons.IH [of "passed @ [e]" "n + 1"] Cons.prems False
    obtain new where new: "forward_new env (e # events) (ev_id ` set passed, n, passed) = (ev_id ` set (passed @ e # new), n + length (e # new), passed @ e # new)"
        "distinct (passed @ e # new)" "set (passed @ e # new) = insert e (set passed \<union> set events)"
      by auto
    have "set (passed @ e # new) = set passed \<union> set (e # events)" unfolding new(3) by simp
    with new(1,2) show ?thesis by blast
  qed
qed

lemma length_held: "distinct xs \<Longrightarrow> set xs \<subseteq> set held \<Longrightarrow> length xs \<le> length held"
  by (metis List.finite_set card_length card_mono distinct_card le_trans)

text \<open>A page's events, passed on.\<close>

lemma take_page_run:
  assumes "serves env held" "held_ok held" "accounts held t0 st" "int (t0 + length held) \<le> 2147483647" "events \<noteq> []" "set events \<subseteq> set held"
  shows "\<exists>st'. take_page env s st events = Going st' \<and> accounts held t0 st' \<and> set (tr_sent st') = set (tr_sent st) \<union> set events
    \<and> tr_until st' = Some (if same_second events (oldest_of events) then oldest_of events - 1 else oldest_of events)
    \<and> tr_task st' = Some (if tr_until st = None then None else Some (oldest_of events))"
proof -
  let ?o = "oldest_of events"
  have "2 \<le> ?o" "?o \<le> 2147483647" using oldest_in [OF assms(5)] assms(2,6) by (auto simp: held_ok_def) fastforce+
  then have small: "int4 ?o" "int4 (?o - 1)" "tv_from_secs env ?o = Inr ?o" using assms(1) by (simp_all add: int4_def serves_def)
  obtain new where new: "forward_new env events (tr_seen st, 0, tr_sent st) = (ev_id ` set (tr_sent st @ new), 0 + length new, tr_sent st @ new)"
      "distinct (tr_sent st @ new)" "set (tr_sent st @ new) = set (tr_sent st) \<union> set events"
    using forward_new_run [of env "set held" "tr_sent st" events 0] assms(1,2,3,6) by (auto simp: serves_def held_ok_def accounts_def)
  have "length (tr_sent st @ new) \<le> length held" using new(2,3) assms(3,6) by (intro length_held) (auto simp: accounts_def)
  then have "int4 (int (tr_total st + length new))" using assms(3,4) by (simp add: int4_def accounts_def)
  with small new assms show ?thesis
    by (auto simp: take_page_def or_fail_def bound_of_def Let_def upsert_nostr_transfer_status_on_db_def serves_def accounts_def)
qed

text \<open>Where a loop stands: everything younger than its time was passed on, and the page it awaits was asked for with that
  time or, after a page of one second, the second after it. In the second case, or when the page was asked for without
  a bound, nothing may share a second, or nothing may be left.\<close>

definition awaited :: "transfer \<Rightarrow> int option" where
  "awaited st = (case tr_task st of None \<Rightarrow> tr_until st | Some bound \<Rightarrow> bound)"

definition underway :: "nostr_ev list \<Rightarrow> int option \<Rightarrow> nat \<Rightarrow> int \<Rightarrow> transfer \<Rightarrow> bool" where
  "underway held start t0 u st \<longleftrightarrow> accounts held t0 st \<and> tr_until st = Some u \<and> 1 \<le> u \<and> int4 u
     \<and> set (tr_sent st) \<subseteq> {e. in_bound start e} \<and> {e \<in> set held. u < ev_at e \<and> in_bound start e} \<subseteq> set (tr_sent st) \<and> {e. ev_at e \<le> u} \<subseteq> {e. in_bound start e}
     \<and> (awaited st = Some u
        \<or> awaited st = Some (u + 1) \<and> (inj_on ev_at (set held) \<or> (\<forall>e\<in>set held. u < ev_at e))
        \<or> awaited st = None \<and> inj_on ev_at (set held) \<and> (\<forall>page. newest_page held None page \<longrightarrow> (\<forall>e\<in>set held. u < ev_at e) \<or> (\<exists>p\<in>set page. ev_at p \<le> u)))"

lemma round_from:
  assumes "serves env held" "tv_fetch env (tr_fetches st) (awaited st) = Inr page" "tr_until st = Some u" "1 \<le> u"
  shows "transfer_round env s st = take_page env s (st\<lparr>tr_fetches := tr_fetches st + 1\<rparr>) (filter (\<lambda>x. ev_at x \<le> u) page)"
  using assms(1,3,4) assms(2) [unfolded awaited_def assms(3)]
  by (simp add: transfer_round_def or_fail_def bound_of_def serves_def Let_def int_truthy_def)

text \<open>A page that had events leaves out nothing between the time before it and the time after it.\<close>

lemma page_covers:
  assumes "newest_page held b page" "uncrowded held" "events = filter (\<lambda>x. ev_at x \<le> u) page" "events \<noteq> []" "\<And>e. ev_at e \<le> u \<Longrightarrow> in_bound b e"
    "b = Some u \<or> inj_on ev_at (set held)" "u' = (if same_second events (oldest_of events) then oldest_of events - 1 else oldest_of events)"
  shows "{e \<in> set held. u' < ev_at e \<and> ev_at e \<le> u} \<subseteq> set events" and "u' < u"
    and "u' = oldest_of events \<or> inj_on ev_at (set held) \<or> (\<forall>e\<in>set held. u' < ev_at e)"
proof -
  let ?o = "oldest_of events"
  obtain p0 where p0: "p0 \<in> set events" "ev_at p0 = ?o" using oldest_in [OF assms(4)] by auto
  have all_page: "length page < LIMIT" "set events = set page" if "b = Some u" "same_second events ?o"
  proof -
    show "set events = set page" using that(1) assms(1,3) by (auto simp: newest_page_def in_bound_def)
    then have "ev_at e = ?o" if "e \<in> set page" for e using that \<open>same_second events ?o\<close> by (simp add: same_second_iff)
    then show "length page < LIMIT" using assms(1,2) by (intro uncrowded_page [of held page ?o]) (auto simp: newest_page_def)
  qed
  have missing: "length page = LIMIT" "ev_at e \<le> ?o" if "e \<in> set held" "ev_at e \<le> u" "e \<notin> set events" for e
  proof -
    have "e \<notin> set page" using that(2,3) assms(3) by simp
    then have "length page = LIMIT \<and> (\<forall>p\<in>set page. ev_at e \<le> ev_at p)" using assms(1,5) that(1,2) by (auto simp: newest_page_def)
    with p0 assms(3) show "length page = LIMIT" "ev_at e \<le> ?o" by auto
  qed
  show "{e \<in> set held. u' < ev_at e \<and> ev_at e \<le> u} \<subseteq> set events"
  proof
    fix e assume e: "e \<in> {e \<in> set held. u' < ev_at e \<and> ev_at e \<le> u}"
    show "e \<in> set events"
    proof (rule ccontr)
      assume out: "e \<notin> set events"
      with missing [of e] e have full: "length page = LIMIT" "ev_at e \<le> ?o" by auto
      then have same: "same_second events ?o" "ev_at e = ?o" using e assms(7) by (auto split: if_splits)
      then have "inj_on ev_at (set held)" using all_page(1) full assms(6) by auto
      moreover have "p0 \<in> set held" using p0(1) assms(1,3) by (auto simp: newest_page_def)
      ultimately have "e = p0" using e same(2) p0(2) inj_onD [of ev_at "set held" e p0] by simp
      with out p0 show False by simp
    qed
  qed
  have "?o \<le> u" using p0 assms(3) by auto
  moreover have "?o < u" if "\<not> same_second events ?o"
    using that oldest_le [of _ events] assms(3) by (fastforce simp: same_second_iff)
  ultimately show "u' < u" using assms(7) by auto
  show "u' = ?o \<or> inj_on ev_at (set held) \<or> (\<forall>e\<in>set held. u' < ev_at e)"
  proof (cases "same_second events ?o \<and> b = Some u")
    case True
    have "u' < ev_at e" if "e \<in> set held" for e
    proof (cases "ev_at e \<le> u")
      case young: True
      then have "e \<in> set events" using missing(1) [OF that young] all_page(1) True by auto
      then show ?thesis using oldest_le [of e events] assms(7) True by auto
    next
      case False
      then show ?thesis using \<open>u' < u\<close> by simp
    qed
    then show ?thesis by blast
  qed (use assms(6,7) in auto)
qed

text \<open>A page without events leaves nothing.\<close>

lemma empty_page_ends:
  assumes "newest_page held b page" "uncrowded held" "filter (\<lambda>x. ev_at x \<le> u) page = []" "\<And>e. ev_at e \<le> u \<Longrightarrow> in_bound b e"
    "b = Some u \<or> b = Some (u + 1) \<or> (\<forall>e\<in>set held. u < ev_at e) \<or> (\<forall>page. newest_page held b page \<longrightarrow> (\<exists>p\<in>set page. ev_at p \<le> u))"
  shows "\<forall>e\<in>set held. u < ev_at e"
proof (rule ccontr)
  assume "\<not> ?thesis"
  then obtain e where e: "e \<in> set held" "ev_at e \<le> u" by force
  have "e \<notin> set page" using e(2) assms(3) by (auto simp: filter_empty_conv)
  then have full: "length page = LIMIT" using assms(1,4) e by (auto simp: newest_page_def)
  have "b = Some u \<or> b = Some (u + 1)" using assms(1,3,5) e by (force simp: filter_empty_conv)
  then have "ev_at p = u + 1" if "p \<in> set page" for p using that assms(1,3) by (force simp: newest_page_def in_bound_def filter_empty_conv)
  then have "length page < LIMIT" using assms(1,2) by (intro uncrowded_page [of held page "u + 1"]) (auto simp: newest_page_def)
  with full show False by simp
qed

lemma underway_round:
  assumes "serves env held" "held_ok held" "uncrowded held" "int (t0 + length held) \<le> 2147483647" "underway held start t0 u st"
  shows "(\<exists>st' row. transfer_round env s st = Ended st' \<and> tr_row st' = Some row \<and> rw_completed row \<and> distinct (tr_sent st') \<and> set (tr_sent st') = {e \<in> set held. in_bound start e})
    \<or> (\<exists>st' u'. transfer_round env s st = Going st' \<and> u' < u \<and> underway held start t0 u' st')"
proof -
  from assms(5) have st: "accounts held t0 st" "tr_until st = Some u" "1 \<le> u" "int4 u"
    and roof: "set (tr_sent st) \<subseteq> {e. in_bound start e}" "{e. ev_at e \<le> u} \<subseteq> {e. in_bound start e}"
    and cov: "{e \<in> set held. u < ev_at e \<and> in_bound start e} \<subseteq> set (tr_sent st)" by (auto simp: underway_def)
  obtain page where page: "tv_fetch env (tr_fetches st) (awaited st) = Inr page" "newest_page held (awaited st) page"
    using assms(1) unfolding serves_def by blast
  have above: "in_bound (awaited st) e" if "ev_at e \<le> u" for e using assms(5) that by (auto simp: underway_def in_bound_def split: option.splits)
  let ?st = "st\<lparr>tr_fetches := tr_fetches st + 1\<rparr>" and ?events = "filter (\<lambda>x. ev_at x \<le> u) page"
  note run = round_from [OF assms(1) page(1) st(2,3), of s]
  have acc: "accounts held t0 ?st" using st(1) by (simp add: accounts_def)
  have held: "set ?events \<subseteq> set held" "set page \<subseteq> set held" using page(2) by (auto simp: newest_page_def)
  show ?thesis
  proof (cases "?events = []")
    case True
    have none: "\<forall>e\<in>set held. u < ev_at e"
      using assms(5) by (intro empty_page_ends [OF page(2) assms(3) True above]) (auto simp: underway_def page(2))
    have "transfer_round env s st = Ended (?st\<lparr>tr_row := Some \<lparr>rw_completed = True, rw_oldest = Some u, rw_events = int (tr_total st), rw_started_at = s\<rparr>\<rparr>)"
      unfolding run True using assms(1,4) st length_held [of "tr_sent st" held]
      by (auto simp: take_page_def or_fail_def upsert_nostr_transfer_status_on_db_def serves_def int_truthy_def int4_def accounts_def)
    moreover have "set (tr_sent st) = {e \<in> set held. in_bound start e}" using none cov roof st(1) by (auto simp: accounts_def)
    ultimately show ?thesis using st(1) by (simp add: accounts_def)
  next
    case False
    define u' where "u' = (if same_second ?events (oldest_of ?events) then oldest_of ?events - 1 else oldest_of ?events)"
    obtain st' where st': "take_page env s ?st ?events = Going st'" "accounts held t0 st'" "set (tr_sent st') = set (tr_sent st) \<union> set ?events"
        "tr_until st' = Some u'" "tr_task st' = Some (Some (oldest_of ?events))"
      using take_page_run [OF assms(1,2) acc assms(4) False held(1)] st(2) by (auto simp: u'_def)
    have "awaited st = Some u \<or> inj_on ev_at (set held)"
      using assms(5) False held(1) by (force simp: underway_def filter_empty_conv)
    note covers = page_covers [OF page(2) assms(3) refl False above this u'_def]
    obtain p where p: "p \<in> set ?events" "ev_at p = oldest_of ?events" using oldest_in [OF False] by auto
    then have "2 \<le> oldest_of ?events" using held(1) assms(2) by (force simp: held_ok_def)
    then have "1 \<le> u'" "int4 u'" using covers(2) st(4) by (auto simp: u'_def int4_def)
    moreover have "awaited st' = Some u' \<or> awaited st' = Some (u' + 1) \<and> (inj_on ev_at (set held) \<or> (\<forall>e\<in>set held. u' < ev_at e))"
      using covers(3) st'(5) by (auto simp: awaited_def u'_def)
    moreover have "{e \<in> set held. u' < ev_at e \<and> in_bound start e} \<subseteq> set (tr_sent st')" using cov covers(1) st'(3) by force
    moreover have "set (tr_sent st') \<subseteq> {e. in_bound start e}" "{e. ev_at e \<le> u'} \<subseteq> {e. in_bound start e}"
      using roof covers(2) st'(3) by force+
    ultimately have "underway held start t0 u' st'" using st'(2,4) unfolding underway_def by blast
    with st'(1) run covers(2) show ?thesis by auto
  qed
qed

lemma lone_uncrowded: "inj_on ev_at (set held) \<Longrightarrow> uncrowded held"
proof -
  assume "inj_on ev_at (set held)"
  then have "card {e \<in> set held. ev_at e = t} \<le> Suc 0" for t
    using card_le_Suc0_iff_eq [of "{e \<in> set held. ev_at e = t}"] by (auto dest: inj_onD)
  then have "card {e \<in> set held. ev_at e = t} < LIMIT" for t by (rule le_less_trans) (simp add: LIMIT_def)
  then show ?thesis by (simp add: uncrowded_def)
qed

lemma underway_loop:
  assumes "serves env held" "held_ok held" "uncrowded held" "int (t0 + length held) \<le> 2147483647" "underway held start t0 u st"
  shows "\<exists>st' row. transfer_loop env s st = Some (Ended st') \<and> tr_row st' = Some row \<and> rw_completed row \<and> distinct (tr_sent st')
    \<and> set (tr_sent st') = {e \<in> set held. in_bound start e}"
  using assms(5)
proof (induction "nat u" arbitrary: u st rule: less_induct)
  case less
  then have "1 \<le> u" by (simp add: underway_def)
  from underway_round [OF assms(1-4) less.prems, of s] show ?case
  proof (elim disjE exE conjE)
    fix st' u' assume going: "transfer_round env s st = Going st'" "u' < u" "underway held start t0 u' st'"
    with less.hyps [of u' st'] \<open>1 \<le> u\<close> show ?thesis by (simp add: transfer_loop.simps [of env s st])
  qed (simp add: transfer_loop.simps [of env s st])
qed



text \<open>A filling from the start is complete when no two events share a second. The page it awaits after the first was asked for
  without a bound: it is the first again, and reaches as far back.\<close>

lemma pages_reach:
  assumes "newest_page held None page" "newest_page held None page'" "p \<in> set page"
  shows "\<exists>q\<in>set page'. ev_at q \<le> ev_at p"
proof (rule ccontr)
  assume none: "\<not> ?thesis"
  then have "p \<notin> set page'" by auto
  then have full: "length page' = LIMIT" using assms by (auto simp: newest_page_def in_bound_def)
  have "set page' \<subseteq> set page - {p}"
  proof
    fix q assume q: "q \<in> set page'"
    then have "\<not> ev_at q \<le> ev_at p" "q \<in> set held" using none assms(2) by (auto simp: newest_page_def)
    then show "q \<in> set page - {p}" using assms(1,3) by (auto simp: newest_page_def in_bound_def)
  qed
  then have "card (set page') < card (set page)" using assms(3) by (intro psubset_card_mono) auto
  then show False using full assms(1,2) by (simp add: newest_page_def distinct_card)
qed

lemma fresh_underway:
  assumes "held_ok held" "inj_on ev_at (set held)" "newest_page held None page" "page \<noteq> []" "accounts held 0 st" "set (tr_sent st) = set page"
    "tr_until st = Some u" "tr_task st = Some None" "u = (if same_second page (oldest_of page) then oldest_of page - 1 else oldest_of page)"
  shows "underway held None 0 u st"
proof -
  have max: "page = filter (\<lambda>x. ev_at x \<le> 2147483647) page"
    using assms(1,3) by (auto simp: newest_page_def held_ok_def filter_id_conv subset_iff)
  note covers = page_covers [OF assms(3) lone_uncrowded [OF assms(2)] max assms(4) _ disjI2 [OF assms(2)] assms(9)]
  obtain p where p: "p \<in> set page" "ev_at p = oldest_of page" using oldest_in [OF assms(4)] by auto
  then have "2 \<le> oldest_of page" "oldest_of page \<le> 2147483647" using assms(1,3) by (force simp: held_ok_def newest_page_def)+
  then have "1 \<le> u" "int4 u" using assms(9) by (auto simp: int4_def)
  moreover have "{e \<in> set held. u < ev_at e} \<subseteq> set page" using covers(1) assms(1) by (auto simp: in_bound_def held_ok_def)
  moreover have "(\<forall>e\<in>set held. u < ev_at e) \<or> (\<exists>q\<in>set page'. ev_at q \<le> u)" if "newest_page held None page'" for page'
  proof (cases "same_second page (oldest_of page)")
    case True
    then have "length page < LIMIT"
      using assms(3) by (intro uncrowded_page [OF lone_uncrowded [OF assms(2)]]) (auto simp: newest_page_def same_second_iff)
    then have "set held \<subseteq> set page" using assms(3) by (auto simp: newest_page_def in_bound_def)
    then show ?thesis using True assms(9) by (auto simp: same_second_iff)
  next
    case False
    then show ?thesis using pages_reach [OF assms(3) that p(1)] p(2) assms(9) by simp
  qed
  ultimately show ?thesis using assms(2,5-8) by (simp add: underway_def awaited_def in_bound_def)
qed

lemma fresh_transfer_complete:
  assumes "serves env held" "held_ok held" "inj_on ev_at (set held)" "held \<noteq> []" "int (length held) \<le> 2147483647"
  shows "\<exists>st row. transfer_kind env now None = Some (Ended st) \<and> tr_row st = Some row \<and> rw_completed row
    \<and> distinct (tr_sent st) \<and> set (tr_sent st) = set held"
proof -
  obtain page where page: "tv_fetch env 0 None = Inr page" "newest_page held None page" using assms(1) unfolding serves_def by blast
  have "page \<noteq> []" using page(2) assms(4) by (cases held) (auto simp: newest_page_def in_bound_def LIMIT_def)
  have sub: "set page \<subseteq> set held" using page(2) by (auto simp: newest_page_def)
  let ?st = "(start_of None)\<lparr>tr_fetches := 1\<rparr>"
  have "accounts held 0 ?st" by (simp add: accounts_def start_of_def)
  from take_page_run [OF assms(1,2) this _ \<open>page \<noteq> []\<close> sub, of now] assms(5)
  obtain st u where st: "take_page env now ?st page = Going st" "accounts held 0 st" "set (tr_sent st) = set page" "tr_until st = Some u" "tr_task st = Some None"
      "u = (if same_second page (oldest_of page) then oldest_of page - 1 else oldest_of page)"
    by (auto simp: start_of_def)
  have "transfer_round env now (start_of None) = Going st"
    using page(1) st(1) by (simp add: transfer_round_def or_fail_def bound_of_def start_of_def int_truthy_def)
  with underway_loop [OF assms(1,2) lone_uncrowded [OF assms(3)] _ fresh_underway [OF assms(2,3) page(2) \<open>page \<noteq> []\<close> st(2-6)], of now] assms(5)
  show ?thesis by (auto simp: transfer_kind_def transfer_loop.simps [of env now "start_of None"] in_bound_def)
qed

section \<open>What a filling from the start may miss\<close>

text \<open>The second page is asked for without a bound, so it brings the first one again; what is left of it after the cut is the oldest
  second, and the loop moves on past that second. An event of that second that the first page had no room for is cut
  from every later page, and the kind is marked complete.\<close>

lemma tie_of_the_first_page_is_lost:
  assumes "serves env (younger @ [a, b])" "held_ok (younger @ [a, b])" "distinct (younger @ [a, b])" "length younger = 299"
    "ev_at a = t" "ev_at b = t" "\<forall>e\<in>set younger. t < ev_at e" "\<And>n. tv_fetch env n None = Inr (younger @ [a])"
  shows "\<exists>st row. transfer_kind env now None = Some (Ended st) \<and> tr_row st = Some row \<and> rw_completed row \<and> b \<notin> set (tr_sent st)"
proof -
  let ?held = "younger @ [a, b]" and ?first = "younger @ [a]" and ?st0 = "(start_of None)\<lparr>tr_fetches := 1\<rparr>"
  have "younger \<noteq> []" using assms(4) by auto
  then obtain y where y: "y \<in> set younger" by (cases younger) auto
  then have "\<not> same_second ?first t" using assms(7) by (force simp: same_second_iff)
  moreover have "oldest_of ?first = t" using assms(5,7) by (auto simp: oldest_of_def intro!: Min_eqI)
  ultimately have old: "oldest_of ?first = t" "oldest_of [a] = t" "same_second [a] t" "\<not> same_second ?first t"
    using assms(5) by (simp_all add: oldest_of_def same_second_iff)
  have t: "2 \<le> t" "t \<le> 2147483647" "int (0 + length ?held) \<le> 2147483647" using assms(2,4,5) by (simp_all add: held_ok_def)
  have acc: "accounts ?held 0 ?st0" by (simp add: accounts_def start_of_def)
  obtain st1 where st1: "take_page env now ?st0 ?first = Going st1" "accounts ?held 0 st1" "set (tr_sent st1) = set ?first" "tr_until st1 = Some t" "tr_task st1 = Some None"
    using take_page_run [OF assms(1,2) acc t(3), of ?first now] old by (auto simp: start_of_def)
  have one: "transfer_round env now (start_of None) = Going st1"
    using assms(8) st1(1) by (simp add: transfer_round_def or_fail_def bound_of_def start_of_def int_truthy_def)
  have cut: "filter (\<lambda>x. ev_at x \<le> t) ?first = [a]" using assms(5,7) by (auto simp: filter_empty_conv)
  let ?st1 = "st1\<lparr>tr_fetches := tr_fetches st1 + 1\<rparr>"
  have "accounts ?held 0 ?st1" using st1(2) by (simp add: accounts_def)
  from take_page_run [OF assms(1,2) this t(3), of "[a]" now] old st1(3,4)
  obtain st2 where st2: "take_page env now ?st1 [a] = Going st2" "accounts ?held 0 st2" "set (tr_sent st2) = set ?first" "tr_until st2 = Some (t - 1)" "tr_task st2 = Some (Some t)"
    by auto
  have two: "transfer_round env now st1 = Going st2"
    using round_from [OF assms(1) _ st1(4), of ?first now] assms(8) st1(5) st2(1) t(1) unfolding cut by (simp add: awaited_def)
  obtain page where page: "tv_fetch env (tr_fetches st2) (Some t) = Inr page" "newest_page ?held (Some t) page" using assms(1) unfolding serves_def by blast
  then have "set page \<subseteq> set ?held" by (auto simp: newest_page_def)
  moreover have "t \<le> ev_at x" if "x \<in> set ?held" for x using that assms(5-7) by auto
  ultimately have "filter (\<lambda>x. ev_at x \<le> t - 1) page = []" by (fastforce simp: filter_empty_conv simp del: set_append)
  then have "transfer_round env now st2 = take_page env now (st2\<lparr>tr_fetches := tr_fetches st2 + 1\<rparr>) []"
    using round_from [OF assms(1) _ st2(4), of page now] page(1) st2(5) t(1) by (simp add: awaited_def)
  moreover have "length (tr_sent st2) \<le> length ?held" using st2(2) by (intro length_held) (auto simp: accounts_def)
  ultimately have "\<exists>st3 row. transfer_round env now st2 = Ended st3 \<and> tr_row st3 = Some row \<and> rw_completed row \<and> tr_sent st3 = tr_sent st2"
    using assms(1,4) st2(2,4) t by (auto simp: take_page_def or_fail_def upsert_nostr_transfer_status_on_db_def serves_def int_truthy_def int4_def accounts_def)
  then show ?thesis using one two st2(3) assms(3)
    by (auto simp: transfer_kind_def transfer_loop.simps [of env now "start_of None"] transfer_loop.simps [of env now st1] transfer_loop.simps [of env now st2])
qed

text \<open>A kind of which the source has no event fails the whole filling.\<close>

lemma kind_without_events_fails:
  assumes "\<And>n. tv_fetch env n None = Inr []"
  shows "\<exists>st. transfer_kind env now None = Some (Failed AssertionError st)"
  using assms
  by (simp add: transfer_kind_def transfer_loop.simps [of env now] transfer_round_def take_page_def or_fail_def bound_of_def start_of_def int_truthy_def)

text \<open>A later round, run while the first filling has not completed, marks it complete: the next start skips the kind.\<close>

lemma later_round_hides_unfinished:
  assumes "recent_kind env now (Some r) = Some (Inr (Some row))" "rw_started_at r \<noteq> 0"
  shows "rw_completed row" "rw_oldest row = rw_oldest r" "transfer_kind env' now' (Some row) = Some (Ended (start_of (Some row)))"
proof -
  obtain res where "recent_loop env (\<lfloor>rw_started_at r\<rfloor> - 60 * 3) recent_start = Some res"
    using assms by (auto simp: recent_kind_def bind_eq_Some_conv)
  with assms obtain st :: recent where "upsert_nostr_transfer_status_on_db env (rc_fetches st) True (rc_total st) (rw_oldest r) now = Inr row"
    by (cases res) (auto simp: recent_kind_def result_bind_eq_Inr)
  then show "rw_completed row" "rw_oldest row = rw_oldest r"
    by (auto simp: upsert_nostr_transfer_status_on_db_def split: option.splits if_splits)
  then show "transfer_kind env' now' (Some row) = Some (Ended (start_of (Some row)))" by (simp add: transfer_kind_def)
qed

end
