(* ===== verification/Trusted_Lists.thy ===== *)
theory Trusted_Lists
  imports Tag_Store Run_Life "HOL-Library.AList"
begin

text \<open>
  Trusted Lists (\<^verbatim>\<open>services/trusted_list_build.py\<close>, \<^verbatim>\<open>trusted_list_service.py\<close> and the query of \<^verbatim>\<open>repos/user_repo.py\<close>
  it sends): for one observer, the tags that users the observer trusts have used, and for each the members, scored and
  published as a replaceable event under a slot of its own; then the slots that are no longer current are retracted.
  Doubles are the rationals they stand for, and each operation on them is the exact one followed by the rounding of the
  machine, which is a parameter. The properties: who is a member and with what score, and that a run retracts only what
  the relay shows live and the tags no longer give.
\<close>

section \<open>Members\<close>

text \<open>\<open>rnd\<close>: rounding to a double; \<open>pow\<close>: \<^verbatim>\<open>**\<close> on doubles.\<close>

record arith =
  rnd :: "rat \<Rightarrow> rat"
  pow :: "rat \<Rightarrow> rat \<Rightarrow> rat"

record member =
  mb_pubkey :: string
  mb_applications :: nat
  mb_disputes :: nat
  mb_score :: int

record tally =
  ty_applications :: nat
  ty_disputes :: nat
  ty_weighted_input :: rat
  ty_weighted_sum :: rat

definition TRUSTED_LIST_KIND :: int where "TRUSTED_LIST_KIND = 30392"
definition TRUSTED_LIST_METRIC :: string where "TRUSTED_LIST_METRIC = ''tag-membership''"
definition D_TAG_PREFIX :: string where "D_TAG_PREFIX = ''tl-tag''"
definition RETRACTED_MARKER :: "string list" where "RETRACTED_MARKER = [''status'', ''retracted'']"
definition DEFAULT_RIGOR :: rat where "DEFAULT_RIGOR = 1 / 2"

text \<open>\<^verbatim>\<open>f"{rigor:.6f}".rstrip("0").rstrip(".")\<close> of a number that is not negative.\<close>

fun rstrip :: "char \<Rightarrow> string \<Rightarrow> string" where
  "rstrip c s = rev (dropWhile (\<lambda>x. x = c) (rev s))"

definition format_rigor :: "rat \<Rightarrow> string" where
  "format_rigor rigor =
     (let n = nat (round_even (rigor * 1000000)); digits = show_nat (n mod 1000000) in
      rstrip (CHR ''.'') (rstrip (CHR ''0'') (show_nat (n div 1000000) @ ''.'' @ replicate (6 - length digits) (CHR ''0'') @ digits)))"

definition round_half_up :: "arith \<Rightarrow> rat \<Rightarrow> int" where
  "round_half_up ar value = \<lfloor>rnd ar (value + 1 / 2)\<rfloor>"

definition compute_d_tag :: "string \<Rightarrow> string \<Rightarrow> string \<Rightarrow> string" where
  "compute_d_tag observer tag_author_pubkey slug = D_TAG_PREFIX @ ''-'' @ take 8 observer @ ''-'' @ take 8 tag_author_pubkey @ ''-'' @ slug"

definition compute_score :: "arith \<Rightarrow> rat \<Rightarrow> rat \<Rightarrow> rat \<Rightarrow> int" where
  "compute_score ar weighted_sum weighted_input rigor =
     (if weighted_input = 0 then 0
      else let average = rnd ar (weighted_sum / weighted_input);
               certainty = rnd ar (1 - pow ar rigor weighted_input) in
           round_half_up ar (rnd ar (max (rnd ar (average * certainty)) 0 * 100)))"

definition no_tally :: tally where
  "no_tally = \<lparr>ty_applications = 0, ty_disputes = 0, ty_weighted_input = 0, ty_weighted_sum = 0\<rparr>"

definition count_tagging :: "arith \<Rightarrow> py_float \<Rightarrow> rat \<Rightarrow> tally \<Rightarrow> tally" where
  "count_tagging ar polarity weight t =
     (if is_applied polarity
      then t\<lparr>ty_applications := ty_applications t + 1, ty_weighted_input := rnd ar (ty_weighted_input t + weight), ty_weighted_sum := rnd ar (ty_weighted_sum t + weight)\<rparr>
      else if is_disputed polarity
      then t\<lparr>ty_disputes := ty_disputes t + 1, ty_weighted_input := rnd ar (ty_weighted_input t + weight), ty_weighted_sum := rnd ar (ty_weighted_sum t - weight)\<rparr>
      else t)"

text \<open>\<^verbatim>\<open>tally.setdefault\<close>: a dictionary in the order of its first keys.\<close>

fun tally_add :: "arith \<Rightarrow> string \<Rightarrow> py_float \<Rightarrow> rat \<Rightarrow> (string \<times> tally) list \<Rightarrow> (string \<times> tally) list" where
  "tally_add ar target polarity weight [] = [(target, count_tagging ar polarity weight no_tally)]"
| "tally_add ar target polarity weight ((k, t) # ts) =
     (if k = target then (k, count_tagging ar polarity weight t) # ts else (k, t) # tally_add ar target polarity weight ts)"

definition tally_all :: "arith \<Rightarrow> (string \<times> py_float \<times> rat) list \<Rightarrow> (string \<times> tally) list" where
  "tally_all ar taggings = fold (\<lambda>(target, polarity, weight). tally_add ar target polarity weight) taggings []"

definition member_of :: "arith \<Rightarrow> int \<Rightarrow> rat \<Rightarrow> string \<times> tally \<Rightarrow> member option" where
  "member_of ar cutoff rigor pt =
     (let t = snd pt; score = compute_score ar (ty_weighted_sum t) (ty_weighted_input t) rigor in
      if \<not> (cutoff \<le> int (ty_applications t) \<and> ty_disputes t < ty_applications t) then None
      else if score < 1 then None
      else Some \<lparr>mb_pubkey = fst pt, mb_applications = ty_applications t, mb_disputes = ty_disputes t, mb_score = score\<rparr>)"

definition compute_members :: "arith \<Rightarrow> (string \<times> py_float \<times> rat) list \<Rightarrow> int \<Rightarrow> rat \<Rightarrow> member list" where
  "compute_members ar taggings cutoff rigor =
     sort_key (\<lambda>m. (- mb_score m, mb_pubkey m)) (List.map_filter (member_of ar cutoff rigor) (tally_all ar taggings))"

section \<open>Events\<close>

definition build_trusted_list_tags ::
  "string \<Rightarrow> string \<Rightarrow> string \<Rightarrow> string \<Rightarrow> string \<Rightarrow> string \<Rightarrow> member list \<Rightarrow> int \<Rightarrow> int \<Rightarrow> rat \<Rightarrow> bool \<Rightarrow> string list list" where
  "build_trusted_list_tags observer tag_event_id tag_author_pubkey slug name description members cutoff min_rank rigor retracted =
     [[''d'', compute_d_tag observer tag_author_pubkey slug], [''title'', name], [''description'', description], [''metric'', TRUSTED_LIST_METRIC],
      [''observer'', observer], [''source-tag'', tag_event_id, tag_author_pubkey, slug], [''cutoff'', show_int cutoff], [''min-rank'', show_int min_rank]]
     @ (if retracted then [RETRACTED_MARKER]
        else [''rigor'', format_rigor rigor] # map (\<lambda>m. [''p'', mb_pubkey m, [], show_int (mb_score m)]) members)"

definition build_trusted_list_content :: "member list \<Rightarrow> json" where
  "build_trusted_list_content members =
     JObj [(''members'', JList (map (\<lambda>m. JObj [(''pubkey'', JStr (mb_pubkey m)), (''endorsements'', JInt (int (mb_applications m))),
       (''disputes'', JInt (int (mb_disputes m))), (''score'', JInt (mb_score m))]) members))]"

text \<open>\<^verbatim>\<open>(tag_author8, slug)\<close> of a slot of this observer.\<close>

definition parse_d_tag_slug :: "string \<Rightarrow> string \<Rightarrow> (string \<times> string) option" where
  "parse_d_tag_slug d_tag observer =
     (let pre = D_TAG_PREFIX @ ''-'' @ take 8 observer @ ''-'' in
      if take (length pre) d_tag \<noteq> pre then None
      else case partition_on (CHR ''-'') (drop (length pre) d_tag) of
             (author8, _, slug) \<Rightarrow> if author8 = [] \<or> slug = [] then None else Some (author8, slug))"

text \<open>The tags of one event found on the relay: its last \<^verbatim>\<open>d\<close>, and whether it carries the marker. The relay's events are valid, so
  their tags are lists of texts.\<close>

definition slot_of :: "string list list \<Rightarrow> string option \<times> bool" where
  "slot_of tags = fold (\<lambda>tag (d_tag, retracted).
     if tag = [] then (d_tag, retracted)
     else if hd tag = ''d'' \<and> length tag \<ge> 2 then (Some (tag ! 1), retracted)
     else if hd tag = ''status'' \<and> length tag \<ge> 2 \<and> tag ! 1 = ''retracted'' then (d_tag, True)
     else (d_tag, retracted)) tags (None, False)"

text \<open>The slots in the order found, each with whether every copy of it is retracted.\<close>

definition add_slot :: "string list list \<Rightarrow> (string \<times> bool) list \<Rightarrow> (string \<times> bool) list" where
  "add_slot tags slots =
     (case slot_of tags of
        (Some d_tag, retracted) \<Rightarrow>
          if d_tag \<noteq> [] \<and> take (length D_TAG_PREFIX + 1) d_tag = D_TAG_PREFIX @ ''-''
          then (let was = (case map_of slots d_tag of None \<Rightarrow> True | Some b \<Rightarrow> b) in AList.update d_tag (was \<and> retracted) slots)
          else slots
      | _ \<Rightarrow> slots)"

definition fetch_published_tl_slots :: "string list list list \<Rightarrow> (string \<times> bool) list" where
  "fetch_published_tl_slots events = fold add_slot events []"

definition plan_retractions :: "string list \<Rightarrow> string list \<Rightarrow> string list" where
  "plan_retractions published_d_tags current_d_tags = filter (\<lambda>d. d \<notin> set current_d_tags) published_d_tags"

section \<open>A run\<close>

record tag_result =
  tr_slug :: string
  tr_d_tag :: string
  tr_tag_event_id :: string
  tr_status :: string
  tr_taggings_considered :: nat
  tr_member_count :: nat
  tr_error :: "string option"

record trusted_list_run =
  tl_observer :: string
  tl_signing_pubkey :: "string option"
  tl_taggings_in_store :: nat
  tl_qualifying_asserters :: nat
  tl_dictionary_size :: nat
  tl_published :: nat
  tl_failed :: nat
  tl_retracted :: nat
  tl_empty_reason :: "string option"
  tl_tags :: "tag_result list"

definition EMPTY_REASON_NO_TAGGINGS :: string where "EMPTY_REASON_NO_TAGGINGS = ''no_taggings_ingested''"
definition EMPTY_REASON_NO_QUALIFYING_ASSERTERS :: string where "EMPTY_REASON_NO_QUALIFYING_ASSERTERS = ''no_qualifying_asserters''"
definition EMPTY_REASON_NO_TAGS_MET_THRESHOLD :: string where "EMPTY_REASON_NO_TAGS_MET_THRESHOLD = ''no_tags_met_use_threshold''"

text \<open>The settings, the tables and the graph the run reads, with the failure of each read, and the relay: \<open>te_send\<close> the fault of
  the n-th event, and whether it had been stored by then; \<open>te_scan\<close> the tags of the events it gives for the signing key.\<close>

record tl_env =
  te_run :: run_env
  te_py :: py_lib
  te_arith :: arith
  te_dumps :: "json \<Rightarrow> string"
  te_min_rank :: int
  te_min_tag_uses :: int
  te_cutoff :: int
  te_tags :: tag_db
  te_graph :: graph
  te_first_read :: "exn option"
  te_graph_read :: "exn option"
  te_second_read :: "exn option"
  te_pubkey_of :: "string \<Rightarrow> (exn, string) result"
  te_connect :: "string \<Rightarrow> exn option"
  te_send :: "nat \<Rightarrow> (bool \<times> exn) option"
  te_scan :: "string \<Rightarrow> (exn, string list list list) result"

record tl_state =
  tl_session :: run_session
  tl_sends :: nat
  tl_events :: "(string list list \<times> string) list"

type_synonym 'a tl_op = "(tl_env, tl_state, 'a) act"

definition on_db :: "'a run_op \<Rightarrow> 'a tl_op" where
  "on_db m env s = (case m (te_run env) (tl_session s) of (r, w) \<Rightarrow> (r, s\<lparr>tl_session := w\<rparr>))"

definition failing :: "(tl_env \<Rightarrow> exn option) \<Rightarrow> unit tl_op" where
  "failing f env s = (case f env of None \<Rightarrow> (Inr (), s) | Some e \<Rightarrow> (Inl e, s))"

definition tl_answer :: "(tl_env \<Rightarrow> (exn, 'a) result) \<Rightarrow> 'a tl_op" where
  "tl_answer f env s = (f env, s)"

definition publish_list :: "string list list \<Rightarrow> string \<Rightarrow> unit tl_op" where
  "publish_list tags content env s =
     (let event = (filter (\<lambda>t. hd t \<noteq> ''client'') tags @ [CLIENT_TAG], content); s' = s\<lparr>tl_sends := tl_sends s + 1\<rparr> in
      case te_send env (tl_sends s) of
        None \<Rightarrow> (Inr (), s'\<lparr>tl_events := tl_events s @ [event]\<rparr>)
      | Some (stored, e) \<Rightarrow> (Inl e, if stored then s'\<lparr>tl_events := tl_events s @ [event]\<rparr> else s'))"

definition get_qualifying_asserters_for_observer :: "tl_env \<Rightarrow> string list \<Rightarrow> string \<Rightarrow> rat \<Rightarrow> (string \<times> rat) list" where
  "get_qualifying_asserters_for_observer env pubkeys observer min_influence =
     List.map_filter (\<lambda>pk.
       case te_graph env pk of
         None \<Rightarrow> None
       | Some props \<Rightarrow>
           (case props (score_key observer ''influence'') of
              None \<Rightarrow> None
            | Some influence \<Rightarrow>
                if influence \<ge> min_influence
                then Some (pk, rnd (te_arith env) (of_int (round_even (rnd (te_arith env) (influence * 100))) / 100))
                else None)) pubkeys"

text \<open>\<^verbatim>\<open>float(params.rigor)\<close> of the validated parameters.\<close>

definition rigor_value :: "py_lib \<Rightarrow> json \<Rightarrow> (exn, py_float) result" where
  "rigor_value py params =
     (case get_in params ''rigor'' of
        JInt i \<Rightarrow> Inr (Fin (of_int i))
      | JFloat r \<Rightarrow> (case float_of py r of None \<Rightarrow> Inl (ValueError []) | Some f \<Rightarrow> Inr f)
      | _ \<Rightarrow> Inl TypeError)"

definition resolve_rigor :: "py_lib \<Rightarrow> string \<Rightarrow> rat run_op" where
  "resolve_rigor py observer =
     catch (op_bind (read_run (\<lambda>l. get_graperank_preset_by_pubkey_on_db observer (base l))) (\<lambda>stored.
            op_bind (resolve_preset_params (normalize_preset stored) (Some observer)) (\<lambda>(_, params).
            op_bind (lift_result (rigor_value py params)) (\<lambda>rigor.
            ret (case rigor of Fin q \<Rightarrow> if 0 \<le> q \<and> q < 1 then q else DEFAULT_RIGOR | _ \<Rightarrow> DEFAULT_RIGOR)))))
       (\<lambda>_. ret DEFAULT_RIGOR)"

text \<open>The first session: the observer's key, made if there is none, and the rigor. \<open>fault\<close> is that of the reads of the taggings.\<close>

definition read_observer :: "py_lib \<Rightarrow> exn option \<Rightarrow> string \<Rightarrow> (string \<times> rat) run_op" where
  "read_observer py fault observer =
     in_run_session (op_bind (asks run_keys) (\<lambda>keys.
       op_bind (exec_run (\<lambda>l. case get_or_create_brainstorm_observer_nsec_by_pubkey_on_db keys observer (base l) of
                                ((row, _), d) \<Rightarrow> (bn_nsec row, on_base (\<lambda>_. d) l))) (\<lambda>nsec.
       op_bind (lift_result (case fault of None \<Rightarrow> Inr () | Some e \<Rightarrow> Inl e)) (\<lambda>_.
       op_bind (resolve_rigor py observer) (\<lambda>rigor. ret (nsec, rigor))))))"

definition new_tag_result :: "string \<Rightarrow> string \<Rightarrow> string \<Rightarrow> string \<Rightarrow> tag_result" where
  "new_tag_result slug d_tag tag_event_id status = \<lparr>tr_slug = slug, tr_d_tag = d_tag, tr_tag_event_id = tag_event_id, tr_status = status,
     tr_taggings_considered = 0, tr_member_count = 0, tr_error = None\<rparr>"

text \<open>One tag of the dictionary: its members, published; a failure is the tag's own.\<close>

definition publish_entry :: "string \<Rightarrow> (string \<times> rat) list \<Rightarrow> rat \<Rightarrow> dictionary_entry \<Rightarrow> trusted_list_run \<Rightarrow> trusted_list_run tl_op" where
  "publish_entry observer qualifying rigor entry run env s =
     (let taggings = get_taggings_for_tag_on_db (te_tags env) (de_tag_event_id entry) (map fst qualifying);
          weighted = map (\<lambda>(target, polarity, asserter). (target, polarity, case map_of qualifying asserter of None \<Rightarrow> 0 | Some w \<Rightarrow> w)) taggings;
          members = compute_members (te_arith env) weighted (te_cutoff env) rigor;
          result = (new_tag_result (de_slug entry) (compute_d_tag observer (de_tag_author_pubkey entry) (de_slug entry)) (de_tag_event_id entry) ''published'')
            \<lparr>tr_taggings_considered := length taggings, tr_member_count := length members\<rparr> in
      case publish_list (build_trusted_list_tags observer (de_tag_event_id entry) (de_tag_author_pubkey entry) (de_slug entry) (de_name entry)
             (de_description entry) members (te_cutoff env) (te_min_rank env) rigor False) (te_dumps env (build_trusted_list_content members)) env s of
        (Inr _, s') \<Rightarrow> (Inr (run\<lparr>tl_published := tl_published run + 1, tl_tags := tl_tags run @ [result]\<rparr>), s')
      | (Inl e, s') \<Rightarrow> (Inr (run\<lparr>tl_failed := tl_failed run + 1,
          tl_tags := tl_tags run @ [result\<lparr>tr_status := ''failed'', tr_error := Some (exn_text e)\<rparr>]\<rparr>), s'))"

fun publish_entries :: "string \<Rightarrow> (string \<times> rat) list \<Rightarrow> rat \<Rightarrow> dictionary_entry list \<Rightarrow> trusted_list_run \<Rightarrow> trusted_list_run tl_op" where
  "publish_entries observer qualifying rigor [] run = ret run"
| "publish_entries observer qualifying rigor (entry # entries) run =
     op_bind (publish_entry observer qualifying rigor entry run) (publish_entries observer qualifying rigor entries)"

text \<open>One slot that is no longer current.\<close>

definition retract_slot :: "string \<Rightarrow> (string \<times> bool) list \<Rightarrow> string \<Rightarrow> trusted_list_run \<Rightarrow> trusted_list_run tl_op" where
  "retract_slot observer published_slots stale_d_tag run env s =
     (if map_of published_slots stale_d_tag = Some True then (Inr run, s)
      else case parse_d_tag_slug stale_d_tag observer of
             None \<Rightarrow> (Inr run, s)
           | Some (author8, slug) \<Rightarrow>
               (case publish_list (build_trusted_list_tags observer [] author8 slug slug [] [] (te_cutoff env) (te_min_rank env) DEFAULT_RIGOR True) [] env s of
                  (Inr _, s') \<Rightarrow> (Inr (run\<lparr>tl_retracted := tl_retracted run + 1, tl_tags := tl_tags run @ [new_tag_result slug stale_d_tag [] ''retracted'']\<rparr>), s')
                | (Inl e, s') \<Rightarrow> (Inr run, s')))"

fun retract_slots :: "string \<Rightarrow> (string \<times> bool) list \<Rightarrow> string list \<Rightarrow> trusted_list_run \<Rightarrow> trusted_list_run tl_op" where
  "retract_slots observer published_slots [] run = ret run"
| "retract_slots observer published_slots (d # ds) run =
     op_bind (retract_slot observer published_slots d run) (retract_slots observer published_slots ds)"

definition dictionary_for :: "tl_env \<Rightarrow> (string \<times> rat) list \<Rightarrow> dictionary_entry list" where
  "dictionary_for env qualifying = get_dictionary_on_db (te_tags env) (map fst qualifying) (te_min_tag_uses env)"

definition entry_slot :: "string \<Rightarrow> dictionary_entry \<Rightarrow> string" where
  "entry_slot observer entry = compute_d_tag observer (de_tag_author_pubkey entry) (de_slug entry)"

definition qualifying_of :: "tl_env \<Rightarrow> string \<Rightarrow> (string \<times> rat) list" where
  "qualifying_of env observer =
     get_qualifying_asserters_for_observer env (get_asserter_pubkeys_on_db (te_tags env)) observer (rnd (te_arith env) (of_int (te_min_rank env) / 100))"

text \<open>The write phase: connect, publish each tag, then retract what the scan shows and the dictionary does not give.\<close>

definition write_lists :: "string \<Rightarrow> string \<Rightarrow> string \<Rightarrow> (string \<times> rat) list \<Rightarrow> rat \<Rightarrow> dictionary_entry list \<Rightarrow> trusted_list_run \<Rightarrow> trusted_list_run tl_op" where
  "write_lists observer nsec signing_pubkey qualifying rigor dictionary run =
     op_bind (failing (\<lambda>env. te_connect env nsec)) (\<lambda>_.
     op_bind (publish_entries observer qualifying rigor dictionary run) (\<lambda>run.
     op_bind (asks (\<lambda>env. te_scan env signing_pubkey)) (\<lambda>scan.
     case scan of
       Inl _ \<Rightarrow> ret run
     | Inr events \<Rightarrow>
         let slots = fetch_published_tl_slots events in
         retract_slots observer slots (plan_retractions (map fst slots) (map (entry_slot observer) dictionary)) run)))"

definition generate_trusted_lists_for_observer :: "string \<Rightarrow> trusted_list_run tl_op" where
  "generate_trusted_lists_for_observer observer =
     (let run = \<lparr>tl_observer = observer, tl_signing_pubkey = None, tl_taggings_in_store = 0, tl_qualifying_asserters = 0, tl_dictionary_size = 0,
            tl_published = 0, tl_failed = 0, tl_retracted = 0, tl_empty_reason = None, tl_tags = []\<rparr> in
      op_bind (\<lambda>env. on_db (read_observer (te_py env) (te_first_read env) observer) env) (\<lambda>(nsec, rigor).
      op_bind (tl_answer (\<lambda>env. te_pubkey_of env nsec)) (\<lambda>signing_pubkey.
      op_bind (asks (\<lambda>env. count_taggings_on_db (te_tags env))) (\<lambda>stored.
      let run = run\<lparr>tl_signing_pubkey := Some signing_pubkey, tl_taggings_in_store := stored\<rparr> in
      if stored = 0 then ret (run\<lparr>tl_empty_reason := Some EMPTY_REASON_NO_TAGGINGS\<rparr>)
      else op_bind (failing te_graph_read) (\<lambda>_.
      op_bind (asks (\<lambda>env. qualifying_of env observer)) (\<lambda>qualifying.
      let run = run\<lparr>tl_qualifying_asserters := length qualifying\<rparr> in
      if qualifying = [] then ret (run\<lparr>tl_empty_reason := Some EMPTY_REASON_NO_QUALIFYING_ASSERTERS\<rparr>)
      else op_bind (failing te_second_read) (\<lambda>_.
      op_bind (asks (\<lambda>env. dictionary_for env qualifying)) (\<lambda>dictionary.
      write_lists observer nsec signing_pubkey qualifying rigor dictionary
        (run\<lparr>tl_dictionary_size := length dictionary, tl_empty_reason := (if dictionary = [] then Some EMPTY_REASON_NO_TAGS_MET_THRESHOLD else None)\<rparr>)))))))))"

section \<open>Who is a member\<close>

text \<open>What a tagging adds is decided by the target it is about: the reference for one target, apart from every other.\<close>

definition tally_of :: "arith \<Rightarrow> string \<Rightarrow> (string \<times> py_float \<times> rat) list \<Rightarrow> tally" where
  "tally_of ar p taggings = fold (\<lambda>(_, polarity, weight). count_tagging ar polarity weight) (filter (\<lambda>(target, _). target = p) taggings) no_tally"

definition votes :: "(py_float \<Rightarrow> bool) \<Rightarrow> string \<Rightarrow> (string \<times> py_float \<times> rat) list \<Rightarrow> nat" where
  "votes which p taggings = length (filter (\<lambda>(target, polarity, _). target = p \<and> which polarity) taggings)"

definition score_of :: "arith \<Rightarrow> rat \<Rightarrow> string \<Rightarrow> (string \<times> py_float \<times> rat) list \<Rightarrow> int" where
  "score_of ar rigor p taggings =
     (let t = tally_of ar p taggings in compute_score ar (ty_weighted_sum t) (ty_weighted_input t) rigor)"

lemma tally_add_lookup:
  "map_of (tally_add ar target polarity weight ts) p
   = (if p = target then Some (count_tagging ar polarity weight (case map_of ts p of None \<Rightarrow> no_tally | Some t \<Rightarrow> t)) else map_of ts p)"
  by (induction ar target polarity weight ts rule: tally_add.induct) auto

lemma tally_add_keys: "fst ` set (tally_add ar target polarity weight ts) = insert target (fst ` set ts)"
  by (induction ar target polarity weight ts rule: tally_add.induct) auto

lemma tally_add_distinct: "distinct (map fst ts) \<Longrightarrow> distinct (map fst (tally_add ar target polarity weight ts))"
  by (induction ar target polarity weight ts rule: tally_add.induct) (auto simp: tally_add_keys)

lemma tally_of_snoc:
  "tally_of ar p (taggings @ [(target, polarity, weight)])
   = (if target = p then count_tagging ar polarity weight (tally_of ar p taggings) else tally_of ar p taggings)"
  by (simp add: tally_of_def)

lemma tally_all_snoc: "tally_all ar (taggings @ [(target, polarity, weight)]) = tally_add ar target polarity weight (tally_all ar taggings)"
  by (simp add: tally_all_def)

lemma tally_of_absent: "p \<notin> fst ` set taggings \<Longrightarrow> tally_of ar p taggings = no_tally"
proof -
  assume "p \<notin> fst ` set taggings"
  then have "filter (\<lambda>(target, _). target = p) taggings = []" by (force simp: filter_empty_conv)
  then show ?thesis unfolding tally_of_def by (simp only: fold_simps)
qed

lemma tally_all_lookup: "map_of (tally_all ar taggings) p = (if p \<in> fst ` set taggings then Some (tally_of ar p taggings) else None)"
proof (induction taggings rule: rev_induct)
  case Nil
  show ?case by (simp add: tally_all_def)
next
  case (snoc x taggings)
  obtain target polarity weight where x: "x = (target, polarity, weight)" by (cases x)
  show ?case
    using snoc.IH tally_of_absent [of p taggings ar] by (auto simp: x tally_all_snoc tally_add_lookup tally_of_snoc)
qed

lemma tally_all_distinct: "distinct (map fst (tally_all ar taggings))"
  by (induction taggings rule: rev_induct) (auto simp: tally_all_def tally_add_distinct)

lemma disputed_not_applied: "is_disputed x \<Longrightarrow> \<not> is_applied x"
  by (cases x) (simp_all add: APPLY_THRESHOLD_def DISPUTE_THRESHOLD_def)

lemma tally_of_votes:
  "ty_applications (tally_of ar p taggings) = votes is_applied p taggings"
  "ty_disputes (tally_of ar p taggings) = votes is_disputed p taggings"
  by (induction taggings rule: rev_induct) (auto simp: tally_of_def votes_def no_tally_def count_tagging_def disputed_not_applied split: if_splits)

lemma tally_all_pairs: "(p, t) \<in> set (tally_all ar taggings) \<longleftrightarrow> p \<in> fst ` set taggings \<and> t = tally_of ar p taggings"
  using tally_all_lookup [of ar taggings p] by (auto simp: map_of_eq_Some_iff [OF tally_all_distinct, symmetric] split: if_splits)

text \<open>The arithmetic of the machine, as far as the scores rely on it: rounding keeps order and sign, and the numbers that bound a score
  are doubles; a power of a number below one stays between zero and one.\<close>

definition machine :: "arith \<Rightarrow> bool" where
  "machine ar \<longleftrightarrow> (\<forall>x y. x \<le> y \<longrightarrow> rnd ar x \<le> rnd ar y) \<and> (\<forall>x. rnd ar (- x) = - rnd ar x)
     \<and> rnd ar 1 = 1 \<and> rnd ar 100 = 100 \<and> rnd ar (201 / 2) = 201 / 2 \<and> (\<forall>r w. 0 \<le> r \<and> r < 1 \<and> 0 \<le> w \<longrightarrow> 0 \<le> pow ar r w \<and> pow ar r w \<le> 1)"

lemma machine_rnd:
  assumes "machine ar"
  shows "x \<le> y \<Longrightarrow> rnd ar x \<le> rnd ar y" and "rnd ar 0 = 0" and "0 \<le> x \<Longrightarrow> 0 \<le> rnd ar x" and "\<bar>x\<bar> \<le> y \<Longrightarrow> \<bar>rnd ar x\<bar> \<le> rnd ar y"
proof -
  show mono: "x \<le> y \<Longrightarrow> rnd ar x \<le> rnd ar y" for x y using assms by (simp add: machine_def)
  have odd: "rnd ar (- x) = - rnd ar x" for x using assms by (simp add: machine_def)
  from odd [of 0] show zero: "rnd ar 0 = 0" by simp
  from mono [of 0 x] zero show "0 \<le> x \<Longrightarrow> 0 \<le> rnd ar x" by simp
  show "\<bar>x\<bar> \<le> y \<Longrightarrow> \<bar>rnd ar x\<bar> \<le> rnd ar y" using mono [of x y] mono [of "- x" y] odd [of x] by (simp add: abs_le_iff)
qed

lemma tally_of_weights:
  assumes "machine ar" "\<forall>(_, _, w)\<in>set taggings. 0 \<le> w"
  shows "0 \<le> ty_weighted_input (tally_of ar p taggings) \<and> \<bar>ty_weighted_sum (tally_of ar p taggings)\<bar> \<le> ty_weighted_input (tally_of ar p taggings)"
  using assms(2)
proof (induction taggings rule: rev_induct)
  case Nil
  show ?case by (simp add: tally_of_def no_tally_def)
next
  case (snoc x taggings)
  obtain target polarity w where x: "x = (target, polarity, w)" by (cases x)
  let ?t = "tally_of ar p taggings"
  have "0 \<le> w" "0 \<le> ty_weighted_input ?t" "\<bar>ty_weighted_sum ?t\<bar> \<le> ty_weighted_input ?t" using snoc x by auto
  then have "\<bar>ty_weighted_sum ?t + w\<bar> \<le> ty_weighted_input ?t + w" "\<bar>ty_weighted_sum ?t - w\<bar> \<le> ty_weighted_input ?t + w" "0 \<le> ty_weighted_input ?t + w" by auto
  with machine_rnd(3,4) [OF assms(1)] snoc x show ?case by (auto simp: tally_of_snoc count_tagging_def)
qed

lemma compute_score_bounds:
  assumes "machine ar" "0 \<le> rigor" "rigor < 1" "0 \<le> input" "\<bar>total_weight\<bar> \<le> input"
  shows "0 \<le> compute_score ar total_weight input rigor \<and> compute_score ar total_weight input rigor \<le> 100"
proof (cases "input = 0")
  case False
  then have "\<bar>total_weight / input\<bar> \<le> 1" using assms(4,5) by (simp add: divide_le_eq abs_divide)
  then have avg: "\<bar>rnd ar (total_weight / input)\<bar> \<le> 1" using machine_rnd(4) [OF assms(1), of "total_weight / input" 1] assms(1) by (simp add: machine_def)
  have "0 \<le> pow ar rigor input \<and> pow ar rigor input \<le> 1" using assms by (simp add: machine_def)
  then have cert: "0 \<le> rnd ar (1 - pow ar rigor input)" "rnd ar (1 - pow ar rigor input) \<le> 1"
    using machine_rnd(3) [OF assms(1)] machine_rnd(1) [OF assms(1), of "1 - pow ar rigor input" 1] assms(1) by (auto simp: machine_def)
  let ?product = "rnd ar (total_weight / input) * rnd ar (1 - pow ar rigor input)"
  have "\<bar>?product\<bar> \<le> 1 * 1" unfolding abs_mult using avg cert by (intro mult_mono) auto
  then have "rnd ar ?product \<le> 1" using machine_rnd(1) [OF assms(1), of ?product 1] assms(1) by (simp add: machine_def)
  then have m: "0 \<le> max (rnd ar ?product) 0 * 100" "max (rnd ar ?product) 0 * 100 \<le> 100" by auto
  then have v: "0 \<le> rnd ar (max (rnd ar ?product) 0 * 100)" "rnd ar (max (rnd ar ?product) 0 * 100) \<le> 100"
    using machine_rnd(3) [OF assms(1)] machine_rnd(1) [OF assms(1) m(2)] assms(1) by (auto simp: machine_def)
  let ?v = "rnd ar (max (rnd ar ?product) 0 * 100) + 1 / 2"
  have "0 \<le> rnd ar ?v" using v(1) machine_rnd(3) [OF assms(1), of ?v] by simp
  moreover have "rnd ar (201 / 2) = 201 / 2" using assms(1) unfolding machine_def by blast
  then have "rnd ar ?v \<le> 201 / 2" using v(2) machine_rnd(1) [OF assms(1), of ?v "201 / 2"] by linarith
  ultimately have "0 \<le> \<lfloor>rnd ar ?v\<rfloor>" "\<lfloor>rnd ar ?v\<rfloor> \<le> 100" by linarith+
  then show ?thesis using False by (simp add: compute_score_def round_half_up_def Let_def)
qed (simp add: compute_score_def)

lemma member_key: "member_of ar cutoff rigor x = Some m \<Longrightarrow> mb_pubkey m = fst x"
  by (auto simp: member_of_def Let_def split: if_splits)

lemma members_once:
  assumes "distinct (map fst ts)"
  shows "distinct (map mb_pubkey (List.map_filter (member_of ar cutoff rigor) ts))"
    and "mb_pubkey ` set (List.map_filter (member_of ar cutoff rigor) ts) \<subseteq> fst ` set ts"
proof -
  show keys: "mb_pubkey ` set (List.map_filter (member_of ar cutoff rigor) ts) \<subseteq> fst ` set ts" for ts
    by (induction ts) (auto simp: map_filter_simps member_of_def Let_def split: option.splits if_splits)
  show "distinct (map mb_pubkey (List.map_filter (member_of ar cutoff rigor) ts))"
    using assms
  proof (induction ts)
    case (Cons x ts)
    then show ?case using keys [of ts] member_key [of ar cutoff rigor x] by (auto simp: map_filter_simps split: option.splits)
  qed (simp add: map_filter_simps)
qed

text \<open>The predicate of the list, on the taggings alone.\<close>

definition belongs :: "arith \<Rightarrow> int \<Rightarrow> rat \<Rightarrow> (string \<times> py_float \<times> rat) list \<Rightarrow> member \<Rightarrow> bool" where
  "belongs ar cutoff rigor taggings m \<longleftrightarrow>
     mb_applications m = votes is_applied (mb_pubkey m) taggings \<and> mb_disputes m = votes is_disputed (mb_pubkey m) taggings
     \<and> mb_score m = score_of ar rigor (mb_pubkey m) taggings
     \<and> cutoff \<le> int (mb_applications m) \<and> mb_disputes m < mb_applications m \<and> 1 \<le> mb_score m"

lemma members_belong: "m \<in> set (compute_members ar taggings cutoff rigor) \<longleftrightarrow> belongs ar cutoff rigor taggings m"
proof -
  have seen: "p \<in> fst ` set taggings" if "0 < votes is_applied p taggings" for p 
  proof -
    have "filter (\<lambda>(target, polarity, _). target = p \<and> is_applied polarity) taggings \<noteq> []" using that by (auto simp: votes_def)
    then show ?thesis by (force simp: filter_empty_conv)
  qed
  have "m \<in> set (compute_members ar taggings cutoff rigor) \<longleftrightarrow> (\<exists>p t. (p, t) \<in> set (tally_all ar taggings) \<and> member_of ar cutoff rigor (p, t) = Some m)"
    by (auto simp: compute_members_def map_filter_mem)
  also have "\<dots> \<longleftrightarrow> (\<exists>p. p \<in> fst ` set taggings \<and> member_of ar cutoff rigor (p, tally_of ar p taggings) = Some m)"
    by (auto simp: tally_all_pairs)
  also have "\<dots> \<longleftrightarrow> mb_pubkey m \<in> fst ` set taggings \<and> member_of ar cutoff rigor (mb_pubkey m, tally_of ar (mb_pubkey m) taggings) = Some m"
    (is "?some \<longleftrightarrow> ?own")
  proof
    assume ?some
    then obtain p where p: "p \<in> fst ` set taggings" "member_of ar cutoff rigor (p, tally_of ar p taggings) = Some m" by blast
    from member_key [OF p(2)] p show ?own by simp
  qed blast
  also have "\<dots> \<longleftrightarrow> belongs ar cutoff rigor taggings m"
    using seen [of "mb_pubkey m"]
    by (cases m) (auto simp: belongs_def member_of_def Let_def tally_of_votes score_of_def split: if_splits)
  finally show ?thesis .
qed



section \<open>What a run retracts\<close>

text \<open>A slot and its two parts are each other's: the retraction of a slot lands on it.\<close>

lemma partition_on_split:
  "c \<notin> set a \<Longrightarrow> partition_on c (a @ c # b) = (a, True, b)"
  "partition_on c s = (a, found, b) \<Longrightarrow> b \<noteq> [] \<Longrightarrow> s = a @ c # b"
proof -
  show "c \<notin> set a \<Longrightarrow> partition_on c (a @ c # b) = (a, True, b)" by (induction a) (auto simp: partition_on_def)
  show "partition_on c s = (a, found, b) \<Longrightarrow> b \<noteq> [] \<Longrightarrow> s = a @ c # b"
    by (induction s arbitrary: a found) (auto simp: partition_on_def split: if_splits)
qed

lemma d_tag_round_trip:
  assumes "CHR ''-'' \<notin> set (take 8 author)" "take 8 author \<noteq> []" "slug \<noteq> []"
  shows "parse_d_tag_slug (compute_d_tag observer author slug) observer = Some (take 8 author, slug)"
proof -
  define pre where "pre = D_TAG_PREFIX @ ''-'' @ take 8 observer @ ''-''"
  have "compute_d_tag observer author slug = pre @ take 8 author @ CHR ''-'' # slug" by (simp add: compute_d_tag_def pre_def)
  then show ?thesis using assms unfolding parse_d_tag_slug_def Let_def pre_def [symmetric] by (simp add: partition_on_split(1))
qed

lemma parsed_d_tag:
  assumes "parse_d_tag_slug d observer = Some (author8, slug)" "length author8 \<le> 8"
  shows "compute_d_tag observer author8 slug = d"
proof -
  define pre where "pre = D_TAG_PREFIX @ ''-'' @ take 8 observer @ ''-''"
  from assms(1) obtain found where pre: "take (length pre) d = pre" and rest: "partition_on (CHR ''-'') (drop (length pre) d) = (author8, found, slug)" "slug \<noteq> []"
    unfolding parse_d_tag_slug_def Let_def pre_def [symmetric] by (auto split: if_splits prod.splits)
  have "d = pre @ drop (length pre) d" using append_take_drop_id [of "length pre" d] pre by simp
  also have "\<dots> = pre @ author8 @ ''-'' @ slug" using partition_on_split(2) [OF rest] by simp
  finally show ?thesis using assms(2) by (simp add: compute_d_tag_def pre_def)
qed

text \<open>A slot of the run's own making: its author part is not longer than the prefix of a key.\<close>

definition own_slot :: "string \<Rightarrow> string \<Rightarrow> bool" where
  "own_slot observer d \<longleftrightarrow> (\<forall>author8 slug. parse_d_tag_slug d observer = Some (author8, slug) \<longrightarrow> length author8 \<le> 8)"

definition adds :: "tl_env \<Rightarrow> (string list list \<times> string \<Rightarrow> bool) \<Rightarrow> 'a tl_op \<Rightarrow> bool" where
  "adds env P m \<longleftrightarrow> (\<forall>s. set (tl_events (snd (m env s))) \<subseteq> set (tl_events s) \<union> Collect P)"

named_theorems adds_intros \<open>operations that send only events of a kind\<close>

lemma adds_bind [adds_intros]:
  assumes "adds env P m" "\<And>x s s'. m env s = (Inr x, s') \<Longrightarrow> adds env P (f x)"
  shows "adds env P (op_bind m f)"
  unfolding adds_def
proof
  fix s
  obtain r s1 where m: "m env s = (r, s1)" by (cases "m env s")
  with assms(1) have first: "set (tl_events s1) \<subseteq> set (tl_events s) \<union> Collect P" unfolding adds_def by (metis snd_conv)
  show "set (tl_events (snd (op_bind m f env s))) \<subseteq> set (tl_events s) \<union> Collect P"
  proof (cases r)
    case (Inl e)
    then show ?thesis using first m by (simp add: op_bind_def)
  next
    case (Inr x)
    then have "adds env P (f x)" using assms(2) m by blast
    then show ?thesis using first m Inr by (auto simp: op_bind_def adds_def)
  qed
qed

lemma adds_basic [adds_intros]:
  "adds env P (ret x)" "adds env P (asks h)" "adds env P (tl_answer g)" "adds env P (failing k)" "adds env P (on_db n)"
  by (auto simp: adds_def ret_def asks_def tl_answer_def failing_def on_db_def split: option.split prod.split)

lemma adds_publish: "P (filter (\<lambda>t. hd t \<noteq> ''client'') tags @ [CLIENT_TAG], content) \<Longrightarrow> adds env P (publish_list tags content)"
  by (auto simp: adds_def publish_list_def Let_def split: option.split)

lemma adds_branch [adds_intros]:
  "(b \<Longrightarrow> adds env P m) \<Longrightarrow> (\<not> b \<Longrightarrow> adds env P m') \<Longrightarrow> adds env P (if b then m else m')"
  by simp

lemma adds_read: "adds env P (\<lambda>env. on_db (f env) env)"
  by (auto simp: adds_def on_db_def split: prod.split)

text \<open>What an event is: a list, which never has the marker, or the retraction of a slot.\<close>

definition retracts :: "string \<Rightarrow> string list list \<times> string \<Rightarrow> bool" where
  "retracts d event \<longleftrightarrow> slot_of (fst event) = (Some d, True)"

lemma list_not_retracted:
  "\<not> retracts d (filter (\<lambda>t. hd t \<noteq> ''client'') (build_trusted_list_tags observer event_id author slug name description members cutoff min_rank rigor False) @ [CLIENT_TAG], content)"
proof -
  have "fold (\<lambda>tag (d_tag, retracted). if tag = [] then (d_tag, retracted)
      else if hd tag = ''d'' \<and> length tag \<ge> 2 then (Some (tag ! 1), retracted)
      else if hd tag = ''status'' \<and> length tag \<ge> 2 \<and> tag ! 1 = ''retracted'' then (d_tag, True)
      else (d_tag, retracted)) (filter (\<lambda>t. hd t \<noteq> ''client'') (map (\<lambda>m. [''p'', mb_pubkey m, [], show_int (mb_score m)]) members)) x = x" for x
    by (induction members arbitrary: x) auto
  then show ?thesis by (simp add: retracts_def slot_of_def build_trusted_list_tags_def CLIENT_TAG_def)
qed

lemma retraction_slot:
  "retracts d (filter (\<lambda>t. hd t \<noteq> ''client'') (build_trusted_list_tags observer event_id author slug name description members cutoff min_rank rigor True) @ [CLIENT_TAG], content)
   \<longleftrightarrow> d = compute_d_tag observer author slug"
  by (auto simp: retracts_def slot_of_def build_trusted_list_tags_def CLIENT_TAG_def RETRACTED_MARKER_def)

lemma adds_after_publish:
  assumes "adds env P (publish_list tags content)" "\<And>s. snd (m env s) = snd (publish_list tags content env s)"
  shows "adds env P m"
  using assms by (simp add: adds_def)

lemma adds_entries:
  assumes "\<And>event. (\<And>d. \<not> retracts d event) \<Longrightarrow> P event"
  shows "adds env P (publish_entries observer qualifying rigor entries run)"
proof (induction entries arbitrary: run)
  case (Cons entry entries)
  define members where "members = compute_members (te_arith env)
    (map (\<lambda>(target, polarity, asserter). (target, polarity, case map_of qualifying asserter of None \<Rightarrow> 0 | Some w \<Rightarrow> w))
      (get_taggings_for_tag_on_db (te_tags env) (de_tag_event_id entry) (map fst qualifying))) (te_cutoff env) rigor"
  let ?publish = "publish_list (build_trusted_list_tags observer (de_tag_event_id entry) (de_tag_author_pubkey entry) (de_slug entry) (de_name entry)
    (de_description entry) members (te_cutoff env) (te_min_rank env) rigor False) (te_dumps env (build_trusted_list_content members))"
  have "adds env P ?publish" by (rule adds_publish, rule assms, rule list_not_retracted)
  moreover have "snd (publish_entry observer qualifying rigor entry run env s) = snd (?publish env s)" for s
    unfolding publish_entry_def Let_def members_def [symmetric] by (auto split: prod.split sum.split)
  ultimately have "adds env P (publish_entry observer qualifying rigor entry run)" by (rule adds_after_publish)
  with Cons.IH show ?case by (auto intro: adds_bind)
qed (simp add: adds_intros)

lemma adds_slots:
  assumes "list_all (own_slot observer) ds" "\<And>event d. d \<in> set ds \<Longrightarrow> map_of slots d \<noteq> Some True \<Longrightarrow> (\<And>d'. retracts d' event \<longleftrightarrow> d' = d) \<Longrightarrow> P event"
  shows "adds env P (retract_slots observer slots ds run)"
  using assms
proof (induction ds arbitrary: run)
  case (Cons d ds)
  have "adds env P (retract_slot observer slots d run)"
  proof (cases "map_of slots d = Some True \<or> parse_d_tag_slug d observer = None")
    case True
    then have "snd (retract_slot observer slots d run env s) = s" for s by (auto simp: retract_slot_def)
    then show ?thesis by (simp add: adds_def)
  next
    case False
    then obtain author8 slug where parsed: "parse_d_tag_slug d observer = Some (author8, slug)" by auto
    have "compute_d_tag observer author8 slug = d" using parsed_d_tag [OF parsed] Cons.prems(1) parsed by (simp add: own_slot_def)
    then have "adds env P (publish_list (build_trusted_list_tags observer [] author8 slug slug [] [] (te_cutoff env) (te_min_rank env) DEFAULT_RIGOR True) [])"
      using False by (intro adds_publish Cons.prems(2) [of d]) (auto simp: retraction_slot)
    moreover have "snd (retract_slot observer slots d run env s)
        = snd (publish_list (build_trusted_list_tags observer [] author8 slug slug [] [] (te_cutoff env) (te_min_rank env) DEFAULT_RIGOR True) [] env s)" for s
      using False parsed by (auto simp: retract_slot_def split: prod.split sum.split)
    ultimately show ?thesis by (rule adds_after_publish)
  qed
  moreover have "adds env P (retract_slots observer slots ds run)" for run
  proof (rule Cons.IH)
    show "list_all (own_slot observer) ds" using Cons.prems(1) by simp
    show "P event" if "d' \<in> set ds" "map_of slots d' \<noteq> Some True" "\<And>x. retracts x event \<longleftrightarrow> x = d'" for event d'
      using that by (intro Cons.prems(2) [of d']) auto
  qed
  ultimately show ?case by (auto intro!: adds_bind)
qed (simp add: adds_intros)

text \<open>
  C39. A run retracts only what it must. Whatever fails, and wherever: if a run for an observer sends an event that retracts a slot, then
  taggings are stored, some asserter qualifies, the relay's scan showed the slot live, and no tag of the dictionary
  has it, whether that tag's own list could be published or not. The slots are those the code makes.
\<close>
theorem retraction_spares_current:
  assumes "tl_events s = []" "event \<in> set (tl_events (snd (generate_trusted_lists_for_observer observer env s)))" "retracts d event"
    "\<And>signing events. te_scan env signing = Inr events \<Longrightarrow> list_all (own_slot observer) (map fst (fetch_published_tl_slots events))"
  shows "tg_taggings (te_tags env) \<noteq> [] \<and> qualifying_of env observer \<noteq> []
    \<and> (\<exists>signing events. te_scan env signing = Inr events \<and> map_of (fetch_published_tl_slots events) d = Some False)
    \<and> d \<notin> entry_slot observer ` set (dictionary_for env (qualifying_of env observer))" (is "?warranted d")
proof -
  define P where "P = (\<lambda>event. \<forall>d. retracts d event \<longrightarrow> ?warranted d)"
  have lists: "adds env P (write_lists observer nsec signing (qualifying_of env observer) rigor (dictionary_for env (qualifying_of env observer)) run)"
    if "tg_taggings (te_tags env) \<noteq> []" "qualifying_of env observer \<noteq> []" for nsec signing rigor run
  proof -
    have slots: "adds env P (retract_slots observer (fetch_published_tl_slots events)
        (plan_retractions (map fst (fetch_published_tl_slots events)) (map (entry_slot observer) (dictionary_for env (qualifying_of env observer)))) run)"
      if "te_scan env signing = Inr events" for events run
    proof (rule adds_slots)
      show "list_all (own_slot observer) (plan_retractions (map fst (fetch_published_tl_slots events)) (map (entry_slot observer) (dictionary_for env (qualifying_of env observer))))"
        using assms(4) [OF that] by (auto simp: plan_retractions_def list_all_iff)
    next
      fix event d
      assume d: "d \<in> set (plan_retractions (map fst (fetch_published_tl_slots events)) (map (entry_slot observer) (dictionary_for env (qualifying_of env observer))))"
        "map_of (fetch_published_tl_slots events) d \<noteq> Some True" "\<And>d'. retracts d' event \<longleftrightarrow> d' = d"
      then have "map_of (fetch_published_tl_slots events) d = Some False"
        by (cases "map_of (fetch_published_tl_slots events) d") (auto simp: plan_retractions_def map_of_eq_None_iff)
      with d that \<open>tg_taggings (te_tags env) \<noteq> []\<close> \<open>qualifying_of env observer \<noteq> []\<close> show "P event" by (auto simp: P_def plan_retractions_def)
    qed
    show ?thesis unfolding write_lists_def Let_def
      by (intro adds_bind adds_basic adds_entries) (auto simp: P_def [symmetric] asks_def slots split: sum.split intro: adds_basic, simp add: P_def)
  qed
  have none: "adds env P (write_lists observer nsec signing (qualifying_of env observer) rigor [] run)"
    if "tg_taggings (te_tags env) \<noteq> []" "qualifying_of env observer \<noteq> []" "dictionary_for env (qualifying_of env observer) = []" for nsec signing rigor run
    using lists [OF that(1,2), of nsec signing rigor run] that(3) by simp
  have "adds env P (generate_trusted_lists_for_observer observer)"
    unfolding generate_trusted_lists_for_observer_def Let_def
    by (intro adds_bind adds_read adds_basic) (auto simp: asks_def count_taggings_on_db_def intro!: adds_bind adds_basic adds_branch lists none split: prod.split)
  then have "set (tl_events (snd (generate_trusted_lists_for_observer observer env s))) \<subseteq> set (tl_events s) \<union> Collect P" unfolding adds_def by blast
  with assms(1,2) have "P event" by auto
  with assms(3) show ?thesis unfolding P_def by blast
qed

text \<open>An observer with one qualifying asserter, no tag left in the dictionary, and one list live on the relay.\<close>

definition example_tagging :: user_tagging where
  "example_tagging = \<lparr>ut_event_id = ''e1'', ut_asserter_pubkey = ''carol'', ut_d_tag = ''d1'', ut_target_pubkey = ''dave'', ut_tag_event_id = ''t1'', ut_polarity = Fin 1, ut_created_at_unix = 1\<rparr>"

definition example_slot :: string where "example_slot = ''tl-tag-alice-deadbeef-old''"

definition example_lists :: tl_env where
  "example_lists = \<lparr>te_run = example_run_env, te_py = \<lparr>brackets_ok = (\<lambda>_. True), float_int = (\<lambda>_. Inl TypeError), float_of = (\<lambda>_. None), json_loads = (\<lambda>_. None)\<rparr>,
      te_arith = \<lparr>rnd = (\<lambda>x. x), pow = (\<lambda>r w. r ^ nat \<lfloor>w\<rfloor>)\<rparr>, te_dumps = (\<lambda>_. []),
     te_min_rank = 3, te_min_tag_uses = 1, te_cutoff = 1, te_tags = \<lparr>tg_elements = [], tg_taggings = [example_tagging]\<rparr>,
     te_graph = (\<lambda>pk. if pk = ''carol'' then Some (\<lambda>k. if k = ''influence_alice'' then Some 1 else None) else None),
     te_first_read = None, te_graph_read = None, te_second_read = None, te_pubkey_of = (\<lambda>_. Inr ''signer''), te_connect = (\<lambda>_. None),
     te_send = (\<lambda>_. None), te_scan = (\<lambda>_. Inr [[[''d'', example_slot]]])\<rparr>"

definition example_lists_state :: tl_state where
  "example_lists_state = \<lparr>tl_session = example_run_session, tl_sends = 0, tl_events = []\<rparr>"

theorem retraction_spares_current_witness:
  "qualifying_of example_lists ''alice'' \<noteq> [] \<and> example_slot \<notin> entry_slot ''alice'' ` set (dictionary_for example_lists (qualifying_of example_lists ''alice''))"
proof -
  let ?events = "tl_events (snd (generate_trusted_lists_for_observer ''alice'' example_lists example_lists_state))"
  have one: "length ?events = 1" "slot_of (fst (hd ?events)) = (Some example_slot, True)" by code_simp+
  then have "hd ?events \<in> set ?events" by (intro hd_in_set) auto
  moreover have "list_all (own_slot ''alice'') (map fst (fetch_published_tl_slots events))" if "te_scan example_lists signing = Inr events" for signing events
  proof -
    have "fetch_published_tl_slots events = [(example_slot, False)]" using that by (auto simp: example_lists_def) code_simp
    moreover have "parse_d_tag_slug example_slot ''alice'' = Some (''deadbeef'', ''old'')" by code_simp
    ultimately show ?thesis by (simp add: own_slot_def)
  qed
  ultimately show ?thesis
    using retraction_spares_current [of example_lists_state "hd ?events" "''alice''" example_lists example_slot] one(2)
    by (simp add: example_lists_state_def retracts_def)
qed

end
