(* ===== verification/Key_Rotation.thy ===== *)
theory Key_Rotation
  imports Session
begin

text \<open>
  The encryption of users' signing keys at rest (\<^verbatim>\<open>utils/encryption.py\<close>, \<^verbatim>\<open>services/nsec_encryption_service.py\<close>): a file
  of keys, the keys loaded from it, and the column of ciphertexts. A rotation writes a new key before the old one, re-encrypts
  every row and drops the old key. Fernet is a parameter. Every call may fail, and at every \<^verbatim>\<open>await\<close> other requests of the
  process run: a sign-up encrypts a new user's key with what is loaded and commits its row later. The property: whatever fails, no
  ciphertext is left without its key, provided no sign-up is in flight when the keys are reloaded.
\<close>

section \<open>Keys\<close>

text \<open>The two halves of a sign-up, with an \<^verbatim>\<open>await\<close> between them: the row is built, and the transaction commits.\<close>

datatype sign_up = Began string string | Committed string

record key_env =
  kn_encrypt :: "string \<Rightarrow> nat \<Rightarrow> string \<Rightarrow> string"
  kn_decrypt :: "string \<Rightarrow> string \<Rightarrow> string option"
  kn_generate :: "nat \<Rightarrow> string"
  kn_fault :: "nat \<Rightarrow> exn option"
  kn_arrivals :: "nat \<Rightarrow> sign_up list"

record key_state =
  kr_file :: "string option"
  kr_keys :: "string list"
  kr_db :: db
  kr_flight :: "(string \<times> string \<times> string) list"
  kr_steps :: nat

type_synonym 'a key_op = "(key_env, key_state, 'a) act"

definition parse_keys :: "string \<Rightarrow> string list" where
  "parse_keys raw = filter (\<lambda>k. k \<noteq> []) (map strip (split_on (CHR '','') raw))"

definition read_keys_from_file :: "string option \<Rightarrow> string list" where
  "read_keys_from_file file =
     (case file of None \<Rightarrow> [] | Some text \<Rightarrow> let raw = strip text in if raw = [] then [] else parse_keys raw)"

text \<open>\<^verbatim>\<open>MultiFernet\<close>: the first key encrypts, and the first key that opens a token opens it.\<close>

fun mf_decrypt :: "key_env \<Rightarrow> string list \<Rightarrow> string \<Rightarrow> string option" where
  "mf_decrypt env [] token = None"
| "mf_decrypt env (k # ks) token = (case kn_decrypt env k token of Some p \<Rightarrow> Some p | None \<Rightarrow> mf_decrypt env ks token)"

definition encrypt_nsec :: "key_env \<Rightarrow> string list \<Rightarrow> nat \<Rightarrow> string \<Rightarrow> string" where
  "encrypt_nsec env ks n plaintext = (case ks of [] \<Rightarrow> plaintext | k # _ \<Rightarrow> kn_encrypt env k n plaintext)"

definition decrypt_nsec :: "key_env \<Rightarrow> string list \<Rightarrow> string \<Rightarrow> (exn, string) result" where
  "decrypt_nsec env ks value =
     (if take 5 value = ''nsec1'' then Inr value
      else if ks = [] then Inr value
      else case mf_decrypt env ks value of None \<Rightarrow> Inl InvalidToken | Some p \<Rightarrow> Inr p)"

section \<open>Steps\<close>

text \<open>A user who signs in for the first time; both columns are written. A row that came first wins, and the other insert fails.\<close>

fun arrive :: "key_env \<Rightarrow> sign_up \<Rightarrow> key_state \<Rightarrow> key_state" where
  "arrive env (Began pubkey nsec) w =
     (if nsec_of pubkey (kr_db w) = None
      then w\<lparr>kr_flight := (pubkey, nsec, encrypt_nsec env (kr_keys w) (kr_steps w) nsec) # kr_flight w\<rparr> else w)"
| "arrive env (Committed pubkey) w =
     (case map_of (kr_flight w) pubkey of None \<Rightarrow> w | Some row \<Rightarrow>
        w\<lparr>kr_flight := filter (\<lambda>f. fst f \<noteq> pubkey) (kr_flight w),
          kr_db := snd (get_or_create_brainstorm_observer_nsec_by_pubkey_on_db (\<lambda>_. row) pubkey (kr_db w))\<rparr>)"

text \<open>An \<^verbatim>\<open>await\<close>: others run first, then the call may fail. A synchronous call may only fail.\<close>

definition call :: "unit key_op" where
  "call env w =
     (let w' = w\<lparr>kr_steps := kr_steps w + 1\<rparr> in
      case kn_fault env (kr_steps w) of None \<Rightarrow> (Inr (), w') | Some e \<Rightarrow> (Inl e, w'))"

definition await :: "unit key_op" where
  "await env w = call env (fold (arrive env) (kn_arrivals env (kr_steps w)) w)"

definition get_keys :: "(key_state \<Rightarrow> 'a) \<Rightarrow> 'a key_op" where
  "get_keys f env w = (Inr (f w), w)"

definition put_keys :: "(key_state \<Rightarrow> key_state) \<Rightarrow> unit key_op" where
  "put_keys f env w = (Inr (), f w)"

text \<open>The write replaces the file at once or not at all.\<close>

definition write_keys_to_file :: "string list \<Rightarrow> unit key_op" where
  "write_keys_to_file ks = op_bind call (\<lambda>_. put_keys (\<lambda>w. w\<lparr>kr_file := Some (join_with '','' ks)\<rparr>))"

definition load_keys_from_file :: "nat key_op" where
  "load_keys_from_file =
     op_bind call (\<lambda>_. op_bind (put_keys (\<lambda>w. w\<lparr>kr_keys := read_keys_from_file (kr_file w)\<rparr>)) (\<lambda>_. get_keys (\<lambda>w. length (kr_keys w))))"

definition encrypted_rows :: "db \<Rightarrow> (string \<times> string) list" where
  "encrypted_rows d = List.map_filter (\<lambda>r. map_option (\<lambda>c. (bn_pubkey r, c)) (bn_encrypted_nsec r)) (nsecs d)"

record verify_result =
  vr_ok :: nat
  vr_fail :: nat

definition verify_with :: "string list \<Rightarrow> verify_result key_op" where
  "verify_with ks =
     op_bind await (\<lambda>_. \<lambda>env w.
       let opened = map (\<lambda>(_, c). mf_decrypt env ks c \<noteq> None) (encrypted_rows (kr_db w)) in
       (Inr \<lparr>vr_ok = length (filter id opened), vr_fail = length (filter Not opened)\<rparr>, w))"

definition set_encrypted :: "string \<times> string \<Rightarrow> db \<Rightarrow> db" where
  "set_encrypted pc = update_nsec (fst pc) (\<lambda>r. r\<lparr>bn_encrypted_nsec := Some (snd pc)\<rparr>)"

definition reencrypted :: "key_env \<Rightarrow> string list \<Rightarrow> nat \<Rightarrow> (string \<times> string) list \<Rightarrow> (exn, (string \<times> string) list) result" where
  "reencrypted env ks n rows =
     (if list_all (\<lambda>(_, c). mf_decrypt env ks c \<noteq> None) rows
      then Inr (map (\<lambda>(p, c). (p, kn_encrypt env (hd ks) n (the (mf_decrypt env ks c)))) rows)
      else Inl InvalidToken)"

text \<open>Read in one statement, written in one transaction; rows others add meanwhile are untouched.\<close>

definition reencrypt_all :: "string list \<Rightarrow> nat key_op" where
  "reencrypt_all ks =
     op_bind await (\<lambda>_.
     op_bind (get_keys (\<lambda>w. (kr_steps w, encrypted_rows (kr_db w)))) (\<lambda>(n, rows).
     op_bind (\<lambda>env w. (reencrypted env ks n rows, w)) (\<lambda>updates.
     op_bind await (\<lambda>_.
     op_bind (put_keys (\<lambda>w. w\<lparr>kr_db := fold set_encrypted updates (kr_db w)\<rparr>)) (\<lambda>_.
     ret (length updates))))))"

section \<open>Rotation and start\<close>

text \<open>From the two-key file to the one-key file.\<close>

definition finish_rotation :: "string \<Rightarrow> string \<Rightarrow> unit key_op" where
  "finish_rotation new old =
     op_bind (reencrypt_all [new, old]) (\<lambda>_.
     op_bind (verify_with [new]) (\<lambda>post.
     if vr_fail post > 0 then raise (RotationFailed (''post-rotate verify: '' @ show_nat (vr_fail post) @
       '' rows do not decrypt with new key; key file left at [new, old] for investigation''))
     else op_bind (write_keys_to_file [new]) (\<lambda>_.
     op_bind load_keys_from_file (\<lambda>_. ret ()))))"

definition rotate_from :: "string \<Rightarrow> unit key_op" where
  "rotate_from old =
     op_bind (\<lambda>env w. (Inr (kn_generate env (kr_steps w)), w)) (\<lambda>new.
     op_bind (write_keys_to_file [new, old]) (\<lambda>_.
     op_bind load_keys_from_file (\<lambda>_. finish_rotation new old)))"

definition rotate_key :: "unit key_op" where
  "rotate_key =
     op_bind (get_keys kr_keys) (\<lambda>existing.
     if existing = [] then raise (RotationFailed ''no current key loaded; cannot rotate'')
     else op_bind (verify_with existing) (\<lambda>pre.
     if vr_fail pre > 0 then raise (RotationFailed (''pre-flight: '' @ show_nat (vr_fail pre) @ '' of '' @ show_nat (vr_ok pre + vr_fail pre) @
       '' rows do not decrypt with current keys; refusing to rotate''))
     else rotate_from (hd existing)))"

definition verify_keys :: "verify_result key_op" where
  "verify_keys =
     op_bind (get_keys kr_keys) (\<lambda>ks. if ks = [] then raise (RotationFailed ''no keys loaded'') else verify_with [hd ks])"

definition count_encrypted_rows :: "nat key_op" where
  "count_encrypted_rows = op_bind await (\<lambda>_. get_keys (\<lambda>w. length (encrypted_rows (kr_db w))))"

definition encrypt_plaintext_rows :: "nat key_op" where
  "encrypt_plaintext_rows =
     op_bind (get_keys kr_keys) (\<lambda>ks.
     if ks = [] then raise (ValueError ''MultiFernet requires at least one Fernet instance'')
     else op_bind await (\<lambda>_.
     op_bind (\<lambda>env w. (Inr (map (\<lambda>r. (bn_pubkey r, kn_encrypt env (hd ks) (kr_steps w) (bn_nsec r)))
       (filter (\<lambda>r. bn_encrypted_nsec r = None) (nsecs (kr_db w)))), w)) (\<lambda>updates.
     op_bind await (\<lambda>_.
     op_bind (put_keys (\<lambda>w. w\<lparr>kr_db := fold set_encrypted updates (kr_db w)\<rparr>)) (\<lambda>_.
     ret (length updates))))))"

definition bootstrap_keys :: "unit key_op" where
  "bootstrap_keys =
     op_bind load_keys_from_file (\<lambda>loaded.
     if loaded > 0 then ret ()
     else op_bind count_encrypted_rows (\<lambda>n.
     if n > 0 then ret ()
     else op_bind (\<lambda>env w. (Inr (kn_generate env (kr_steps w)), w)) (\<lambda>new.
     op_bind (write_keys_to_file [new]) (\<lambda>_.
     op_bind load_keys_from_file (\<lambda>_.
     op_bind encrypt_plaintext_rows (\<lambda>_. ret ()))))))"

section \<open>No ciphertext is left without its key\<close>

text \<open>What the code relies on of Fernet: what a key made it opens, and a token opens under one key only.\<close>

definition authentic :: "key_env \<Rightarrow> bool" where
  "authentic env \<longleftrightarrow> (\<forall>k n p. kn_decrypt env k (kn_encrypt env k n p) = Some p)
     \<and> (\<forall>k k' c p p'. kn_decrypt env k c = Some p \<and> kn_decrypt env k' c = Some p' \<longrightarrow> k = k')"

lemma opens_once:
  assumes "authentic env" "kn_decrypt env k c = Some p" "kn_decrypt env k' c = Some p'"
  shows "p = p'"
proof -
  have "k = k'" using assms unfolding authentic_def by blast
  with assms(2,3) show ?thesis by simp
qed

lemma mf_decrypt_iff:
  assumes "authentic env"
  shows "mf_decrypt env ks c = Some p \<longleftrightarrow> (\<exists>k\<in>set ks. kn_decrypt env k c = Some p)"
proof (induction ks)
  case (Cons k ks)
  show ?case
  proof (cases "kn_decrypt env k c")
    case (Some q)
    have "p = q" if "kn_decrypt env k' c = Some p" for k'
      by (rule opens_once [OF assms that Some])
    with Some have "(\<exists>k'\<in>set (k # ks). kn_decrypt env k' c = Some p) \<longleftrightarrow> q = p" by (metis list.set_intros(1))
    with Some show ?thesis by simp
  qed (use Cons.IH in simp)
qed simp

text \<open>Every ciphertext opens to its row's own key.\<close>

definition sealed :: "key_env \<Rightarrow> string list \<Rightarrow> db \<Rightarrow> bool" where
  "sealed env ks d \<longleftrightarrow> (\<forall>r\<in>set (nsecs d). \<forall>c. bn_encrypted_nsec r = Some c \<longrightarrow> mf_decrypt env ks c = Some (bn_nsec r))"

lemma sealed_mono: "authentic env \<Longrightarrow> sealed env ks d \<Longrightarrow> set ks \<subseteq> set ks' \<Longrightarrow> sealed env ks' d"
  unfolding sealed_def mf_decrypt_iff by blast

definition keeps_nsecs :: "db \<Rightarrow> db \<Rightarrow> bool" where
  "keeps_nsecs d d' \<longleftrightarrow> (\<forall>p r. nsec_of p d = Some r \<longrightarrow> (\<exists>r'. nsec_of p d' = Some r' \<and> bn_nsec r' = bn_nsec r))"

definition flying :: "key_env \<Rightarrow> string list \<Rightarrow> key_state \<Rightarrow> bool" where
  "flying env ks w \<longleftrightarrow> (\<forall>(p, nsec, c)\<in>set (kr_flight w). mf_decrypt env ks c = Some nsec)"

lemma flying_mono: "authentic env \<Longrightarrow> flying env ks w \<Longrightarrow> set ks \<subseteq> set ks' \<Longrightarrow> flying env ks' w"
  unfolding flying_def mf_decrypt_iff by blast

text \<open>What others do at an \<^verbatim>\<open>await\<close>.\<close>

lemma arrive_keeps [simp]: "kr_file (arrive env e w) = kr_file w" "kr_keys (arrive env e w) = kr_keys w" "kr_steps (arrive env e w) = kr_steps w"
  by (cases e; simp split: option.split)+

lemma arrivals_keep [simp]: "kr_file (fold (arrive env) es w) = kr_file w" "kr_keys (fold (arrive env) es w) = kr_keys w" "kr_steps (fold (arrive env) es w) = kr_steps w"
  by (induction es arbitrary: w) simp_all

lemma arrive_flying:
  assumes "authentic env" "flying env [k] w" "kr_keys w = k # L" shows "flying env [k] (arrive env e w)"
  using assms by (cases e) (auto simp: flying_def encrypt_nsec_def authentic_def split: option.split)

definition grown :: "key_env \<Rightarrow> string \<Rightarrow> db \<Rightarrow> db \<Rightarrow> bool" where
  "grown env k d d' \<longleftrightarrow> (\<exists>extra. nsecs d' = nsecs d @ extra
     \<and> (\<forall>r\<in>set extra. \<exists>c. bn_encrypted_nsec r = Some c \<and> mf_decrypt env [k] c = Some (bn_nsec r))
     \<and> (unique_on bn_pubkey (nsecs d) \<longrightarrow> unique_on bn_pubkey (nsecs d @ extra)))"

lemma arrive_grows:
  assumes "flying env [k] w" shows "grown env k (kr_db w) (kr_db (arrive env e w))"
proof (cases e)
  case (Committed p)
  show ?thesis
  proof (cases "map_of (kr_flight w) p")
    case (Some row)
    with assms have "mf_decrypt env [k] (snd row) = Some (fst row)"
      by (auto simp: flying_def dest!: map_of_SomeD split: prod.splits)
    with Committed Some show ?thesis
      by (auto simp: grown_def get_or_create_brainstorm_observer_nsec_by_pubkey_on_db_def nsec_of_def lookup_by_None fresh_nsec_def Let_def
          unique_on_def split: option.split)
  qed (simp add: Committed grown_def)
qed (simp add: grown_def)

lemma grown_trans:
  assumes "grown env k d d1" "grown env k d1 d2" shows "grown env k d d2"
proof -
  obtain e1 e2 where "nsecs d1 = nsecs d @ e1" "nsecs d2 = nsecs d1 @ e2"
      "\<forall>r\<in>set e1 \<union> set e2. \<exists>c. bn_encrypted_nsec r = Some c \<and> mf_decrypt env [k] c = Some (bn_nsec r)"
      "unique_on bn_pubkey (nsecs d) \<longrightarrow> unique_on bn_pubkey (nsecs d1)" "unique_on bn_pubkey (nsecs d1) \<longrightarrow> unique_on bn_pubkey (nsecs d2)"
    using assms unfolding grown_def by (metis UnE)
  then show ?thesis unfolding grown_def by (intro exI [of _ "e1 @ e2"]) (simp del: mf_decrypt.simps)
qed

lemma arrivals_grow:
  assumes "authentic env" "flying env [k] w" "kr_keys w = k # L"
  shows "flying env [k] (fold (arrive env) es w) \<and> grown env k (kr_db w) (kr_db (fold (arrive env) es w))"
  using assms
proof (induction es arbitrary: w)
  case (Cons e es)
  then show ?case
    using arrive_flying [of env k w L e] arrive_grows [of env k w e] by (auto intro: grown_trans)
qed (simp add: grown_def)

text \<open>A little logic of operations: from states with \<open>I\<close>, a value leaves \<open>Q\<close>, and an error is a fault of a call and leaves \<open>J\<close>.\<close>

definition runs :: "key_env \<Rightarrow> (key_state \<Rightarrow> bool) \<Rightarrow> 'a key_op \<Rightarrow> ('a \<Rightarrow> key_state \<Rightarrow> bool) \<Rightarrow> (key_state \<Rightarrow> bool) \<Rightarrow> bool" where
  "runs env I m Q J \<longleftrightarrow> (\<forall>w. I w \<longrightarrow> (case m env w of (Inr x, w') \<Rightarrow> Q x w' | (Inl e, w') \<Rightarrow> J w' \<and> (\<exists>n. kn_fault env n = Some e)))"

lemma runs_then:
  "runs env I m Q J' \<Longrightarrow> (\<And>w. J' w \<Longrightarrow> J w) \<Longrightarrow> (\<And>x. runs env (Q x) (f x) R J) \<Longrightarrow> runs env I (op_bind m f) R J"
  unfolding runs_def op_bind_def by (fastforce split: prod.splits sum.splits)

lemma runs_bind: "runs env I m Q J \<Longrightarrow> (\<And>x. runs env (Q x) (f x) R J) \<Longrightarrow> runs env I (op_bind m f) R J"
  by (rule runs_then)

lemma runs_post: "runs env I m Q J \<Longrightarrow> (\<And>x w. Q x w \<Longrightarrow> Q' x w) \<Longrightarrow> runs env I m Q' J"
  unfolding runs_def by (fastforce split: prod.splits sum.splits)

lemma runs_pre: "runs env I m Q J \<Longrightarrow> (\<And>w. I' w \<Longrightarrow> I w) \<Longrightarrow> runs env I' m Q J"
  by (simp add: runs_def)

lemma runs_ret: "(\<And>w. I w \<Longrightarrow> Q x w) \<Longrightarrow> runs env I (ret x) Q J"
  by (simp add: runs_def ret_def)

lemma runs_get: "(\<And>w. I w \<Longrightarrow> Q (f w) w) \<Longrightarrow> runs env I (get_keys f) Q J"
  by (simp add: runs_def get_keys_def)

lemma runs_put: "(\<And>w. I w \<Longrightarrow> Q () (g w)) \<Longrightarrow> runs env I (put_keys g) Q J"
  by (simp add: runs_def put_keys_def)

text \<open>The file's keys, the loaded keys, and keys that open every row; a sign-up in flight used the first loaded key. \<open>A\<close> says that there is none.\<close>

definition stands :: "key_env \<Rightarrow> db \<Rightarrow> bool \<Rightarrow> string list \<Rightarrow> string list \<Rightarrow> string list \<Rightarrow> key_state \<Rightarrow> bool" where
  "stands env d A F L K w \<longleftrightarrow> read_keys_from_file (kr_file w) = F \<and> kr_keys w = L \<and> sealed env K (kr_db w)
     \<and> flying env [hd L] w \<and> (A \<longrightarrow> kr_flight w = []) \<and> unique_on bn_pubkey (nsecs (kr_db w)) \<and> keeps_nsecs d (kr_db w)"

lemma call_runs: "runs env (stands env d A F L K) call (\<lambda>_. stands env d A F L K) (stands env d A F L K)"
  by (auto simp: runs_def call_def stands_def flying_def Let_def split: option.split)

lemma keeps_nsecs_append: "keeps_nsecs d d' \<Longrightarrow> nsecs d'' = nsecs d' @ extra \<Longrightarrow> keeps_nsecs d d''"
  by (fastforce simp: keeps_nsecs_def nsec_of_def lookup_by_append)

lemma arrivals_stand:
  assumes "authentic env" "stands env d A F (k # L) K w" "k \<in> set K"
  shows "stands env d False F (k # L) K (fold (arrive env) es w)"
proof -
  have grows: "flying env [k] (fold (arrive env) es w)" "grown env k (kr_db w) (kr_db (fold (arrive env) es w))"
    using arrivals_grow [OF assms(1), of k w L es] assms(2) by (auto simp: stands_def)
  then obtain extra where extra: "nsecs (kr_db (fold (arrive env) es w)) = nsecs (kr_db w) @ extra"
      "\<forall>r\<in>set extra. \<exists>c. bn_encrypted_nsec r = Some c \<and> mf_decrypt env [k] c = Some (bn_nsec r)"
      "unique_on bn_pubkey (nsecs (kr_db w)) \<longrightarrow> unique_on bn_pubkey (nsecs (kr_db w) @ extra)"
    unfolding grown_def by blast
  have "mf_decrypt env K c = Some p" if "mf_decrypt env [k] c = Some p" for c p
    using that assms(1,3) by (auto simp: mf_decrypt_iff simp del: mf_decrypt.simps)
  then have "sealed env K (kr_db (fold (arrive env) es w))"
    using extra(1,2) assms(2) by (fastforce simp: stands_def sealed_def simp del: mf_decrypt.simps)
  with extra grows(1) assms(2) show ?thesis
    using keeps_nsecs_append [OF _ extra(1), of d] by (simp add: stands_def)
qed

lemma await_runs:
  assumes "authentic env" "k \<in> set K"
  shows "runs env (stands env d A F (k # L) K) await (\<lambda>_. stands env d False F (k # L) K) (stands env d False F (k # L) K)"
  unfolding runs_def await_def
proof (intro allI impI)
  fix w assume "stands env d A F (k # L) K w"
  then have "stands env d False F (k # L) K (fold (arrive env) (kn_arrivals env (kr_steps w)) w)" by (rule arrivals_stand [OF assms(1) _ assms(2)])
  then show "case call env (fold (arrive env) (kn_arrivals env (kr_steps w)) w) of
      (Inl e, w') \<Rightarrow> stands env d False F (k # L) K w' \<and> (\<exists>n. kn_fault env n = Some e) | (Inr x, w') \<Rightarrow> stands env d False F (k # L) K w'"
    using call_runs [of env d False F "k # L" K] by (auto simp: runs_def split: prod.splits sum.splits)
qed

lemma encrypted_rows_mem: "(p, c) \<in> set (encrypted_rows d) \<longleftrightarrow> (\<exists>r\<in>set (nsecs d). bn_pubkey r = p \<and> bn_encrypted_nsec r = Some c)"
  by (auto simp: encrypted_rows_def map_filter_mem)

text \<open>A pass over the table finds nothing it cannot open, and leaves in flight what the others left in flight.\<close>

definition lands :: "key_env \<Rightarrow> key_state \<Rightarrow> bool" where
  "lands env w \<longleftrightarrow> kr_flight (fold (arrive env) (kn_arrivals env (kr_steps w)) w) = []"

lemma verify_runs:
  assumes "authentic env" "k \<in> set K" "set K \<subseteq> set ks"
  shows "runs env (\<lambda>w. stands env d False F (k # L) K w \<and> (A \<longrightarrow> lands env w)) (verify_with ks)
     (\<lambda>v w. stands env d A F (k # L) K w \<and> vr_fail v = 0) (stands env d False F (k # L) K)"
  unfolding verify_with_def
proof (rule runs_bind)
  show "runs env (\<lambda>w. stands env d False F (k # L) K w \<and> (A \<longrightarrow> lands env w)) await
      (\<lambda>_. stands env d A F (k # L) K) (stands env d False F (k # L) K)"
    unfolding runs_def
  proof (intro allI impI)
    fix w assume w: "stands env d False F (k # L) K w \<and> (A \<longrightarrow> lands env w)"
    then have "A \<longrightarrow> kr_flight (snd (await env w)) = []"
      by (simp add: lands_def await_def call_def Let_def split: option.split)
    with w show "case await env w of (Inl e, w') \<Rightarrow> stands env d False F (k # L) K w' \<and> (\<exists>n. kn_fault env n = Some e)
        | (Inr x, w') \<Rightarrow> stands env d A F (k # L) K w'"
      using await_runs [OF assms(1,2), of d False F L, unfolded runs_def, rule_format, of w] by (auto simp: stands_def split: prod.splits sum.splits)
  qed
next
  have "filter (Not \<circ> (\<lambda>(_, c). mf_decrypt env ks c \<noteq> None)) (encrypted_rows (kr_db w)) = []" if "stands env d A F (k # L) K w" for w
    using that sealed_mono [OF assms(1) _ assms(3), of "kr_db w"]
    by (fastforce simp: stands_def sealed_def filter_empty_conv encrypted_rows_mem)
  then show "runs env (stands env d A F (k # L) K) (\<lambda>env w. let opened = map (\<lambda>(_, c). mf_decrypt env ks c \<noteq> None) (encrypted_rows (kr_db w)) in
        (Inr \<lparr>vr_ok = length (filter id opened), vr_fail = length (filter Not opened)\<rparr>, w))
      (\<lambda>v w. stands env d A F (k # L) K w \<and> vr_fail v = 0) (stands env d False F (k # L) K)"
    by (simp add: runs_def Let_def filter_map)
qed

text \<open>A key is url-safe base64, so the file gives back the keys written to it.\<close>

definition key_text :: "string \<Rightarrow> bool" where
  "key_text k \<longleftrightarrow> k \<noteq> [] \<and> list_all (\<lambda>c. \<not> py_space c \<and> c \<noteq> CHR '','') k"

lemma key_text_edges: "key_text k \<Longrightarrow> \<not> py_space (hd k) \<and> \<not> py_space (last k)"
  by (simp add: key_text_def list_all_iff)

lemma joined_edges:
  "ks \<noteq> [] \<Longrightarrow> list_all key_text ks \<Longrightarrow> join_with '','' ks \<noteq> [] \<and> hd (join_with '','' ks) = hd (hd ks) \<and> last (join_with '','' ks) = last (last ks)"
  by (induction ks rule: induct_list012) (auto simp: key_text_def hd_append)

lemma keys_read_back:
  assumes "ks \<noteq> []" "list_all key_text ks"
  shows "read_keys_from_file (Some (join_with '','' ks)) = ks"
proof -
  have "strip k = k" if "key_text k" for k
    using key_text_edges [OF that] by (intro strip_id) simp
  moreover have "strip (join_with '','' ks) = join_with '','' ks"
    using joined_edges [OF assms] assms by (intro strip_id) (simp add: list_all_iff key_text_edges)
  moreover have "split_on (CHR '','') (join_with '','' ks) = ks"
    using assms by (intro split_on_join) (auto simp: list_all_iff key_text_def)
  ultimately show ?thesis
    using joined_edges [OF assms] assms
    by (auto simp: read_keys_from_file_def parse_keys_def list_all_iff key_text_def Let_def intro!: filter_True map_idI)
qed

lemma write_runs:
  assumes "ks \<noteq> []" "list_all key_text ks"
  shows "runs env (stands env d A F L K) (write_keys_to_file ks) (\<lambda>_. stands env d A ks L K) (stands env d A F L K)"
  unfolding write_keys_to_file_def
  by (rule runs_bind [OF call_runs]) (rule runs_put, simp add: stands_def flying_def keys_read_back [OF assms])

lemma load_runs:
  assumes "A \<or> hd F = hd L"
  shows "runs env (stands env d A F L K) load_keys_from_file (\<lambda>_. stands env d False F F K) (stands env d A F L K)"
  unfolding load_keys_from_file_def
proof (rule runs_bind [OF call_runs], rule runs_bind)
  show "runs env (stands env d A F L K) (put_keys (\<lambda>w. w\<lparr>kr_keys := read_keys_from_file (kr_file w)\<rparr>)) (\<lambda>_. stands env d False F F K) (stands env d A F L K)"
    by (rule runs_put) (use assms in \<open>auto simp: stands_def flying_def\<close>)
qed (rule runs_get)

text \<open>Re-encryption. Between the read and the write, \<open>pending\<close>: an update carries its row's own key under the new one, and a row
  without an update opens with the new key already.\<close>

lemma set_encrypted_rows:
  "list_all2 (\<lambda>r r'. bn_pubkey r' = bn_pubkey r \<and> bn_nsec r' = bn_nsec r \<and>
       (if bn_pubkey r \<in> fst ` set us then \<exists>c. (bn_pubkey r, c) \<in> set us \<and> bn_encrypted_nsec r' = Some c
        else bn_encrypted_nsec r' = bn_encrypted_nsec r))
     (nsecs d) (nsecs (fold set_encrypted us d))"
proof (induction us rule: rev_induct)
  case (snoc u us)
  then show ?case
    by (cases u) (auto simp: set_encrypted_def update_nsec_def sql_update_def list_all2_map2 elim!: list_all2_mono split: if_splits)
qed (simp add: list_all2_refl)

definition pending :: "key_env \<Rightarrow> string \<Rightarrow> (string \<times> string) list \<Rightarrow> db \<Rightarrow> bool" where
  "pending env new us d \<longleftrightarrow> fst ` set us \<subseteq> bn_pubkey ` set (nsecs d)
     \<and> (\<forall>r\<in>set (nsecs d). (\<forall>c. (bn_pubkey r, c) \<in> set us \<longrightarrow> kn_decrypt env new c = Some (bn_nsec r))
          \<and> (bn_pubkey r \<notin> fst ` set us \<longrightarrow> (\<forall>c. bn_encrypted_nsec r = Some c \<longrightarrow> kn_decrypt env new c = Some (bn_nsec r))))"

lemma list_all2_preimage: "list_all2 P xs ys \<Longrightarrow> y \<in> set ys \<Longrightarrow> \<exists>x\<in>set xs. P x y"
  by (induction rule: list_all2_induct) auto

lemma pending_done:
  assumes "pending env new us d" shows "sealed env [new] (fold set_encrypted us d)"
  unfolding sealed_def
proof (intro ballI allI impI)
  fix r' c assume r': "r' \<in> set (nsecs (fold set_encrypted us d))" "bn_encrypted_nsec r' = Some c"
  then obtain r where "r \<in> set (nsecs d)" "bn_nsec r' = bn_nsec r"
      "if bn_pubkey r \<in> fst ` set us then \<exists>c. (bn_pubkey r, c) \<in> set us \<and> bn_encrypted_nsec r' = Some c
       else bn_encrypted_nsec r' = bn_encrypted_nsec r"
    using list_all2_preimage [OF set_encrypted_rows r'(1)] by blast
  with assms r'(2) show "mf_decrypt env [new] c = Some (bn_nsec r')"
    by (auto simp: pending_def split: if_splits)
qed

lemma set_encrypted_keys: "map bn_pubkey (nsecs (fold set_encrypted us d)) = map bn_pubkey (nsecs d)"
  by (rule list_all2_all_nthI [THEN list_all2_eq [THEN iffD2]]) (use set_encrypted_rows [of us d] in \<open>auto simp: list_all2_conv_all_nth\<close>)

lemma set_encrypted_keeps: "keeps_nsecs d' d \<Longrightarrow> keeps_nsecs d' (fold set_encrypted us d)"
proof -
  have "map_option bn_nsec (nsec_of p (fold set_encrypted us d)) = map_option bn_nsec (nsec_of p d)" for p
    unfolding nsec_of_def using set_encrypted_rows [of us d] by (induction rule: list_all2_induct) auto
  then show "keeps_nsecs d' d \<Longrightarrow> keeps_nsecs d' (fold set_encrypted us d)"
    unfolding keeps_nsecs_def by (metis (no_types, lifting) map_option_eq_Some)
qed

lemma unique_row: "unique_on bn_pubkey rows \<Longrightarrow> r \<in> set rows \<Longrightarrow> r' \<in> set rows \<Longrightarrow> bn_pubkey r = bn_pubkey r' \<Longrightarrow> r = r'"
  by (auto simp: unique_on_def distinct_map dest: inj_onD)

lemma reencrypted_pending:
  assumes "authentic env" "sealed env (new # ks) d" "unique_on bn_pubkey (nsecs d)"
  shows "\<exists>us. reencrypted env (new # ks) n (encrypted_rows d) = Inr us \<and> pending env new us d"
proof -
  define us where "us = map (\<lambda>(p, c). (p, kn_encrypt env new n (the (mf_decrypt env (new # ks) c)))) (encrypted_rows d)"
  have opens: "mf_decrypt env (new # ks) c = Some (bn_nsec r)" if "r \<in> set (nsecs d)" "bn_encrypted_nsec r = Some c" for r c
    using assms(2) that by (simp add: sealed_def)
  have "list_all (\<lambda>(_, c). mf_decrypt env (new # ks) c \<noteq> None) (encrypted_rows d)"
    unfolding list_all_iff by (auto simp: encrypted_rows_mem opens simp del: mf_decrypt.simps)
  then have "reencrypted env (new # ks) n (encrypted_rows d) = Inr us"
    by (simp add: reencrypted_def us_def del: mf_decrypt.simps)
  moreover have carries: "\<exists>r\<in>set (nsecs d). bn_pubkey r = p \<and> kn_decrypt env new c = Some (bn_nsec r)" if "(p, c) \<in> set us" for p c
    using that assms(1) unfolding us_def authentic_def by (fastforce simp: encrypted_rows_mem opens simp del: mf_decrypt.simps)
  moreover have "bn_pubkey r \<in> fst ` set us" if "r \<in> set (nsecs d)" "bn_encrypted_nsec r = Some c" for r c
    using that encrypted_rows_mem [of "bn_pubkey r" c d] by (force simp: us_def image_iff)
  ultimately show ?thesis
    using unique_row [OF assms(3)] unfolding pending_def by (intro exI [of _ us]) (fastforce dest: carries)
qed

lemma pending_arrivals:
  assumes "authentic env" "stands env d False F (new # L) K w" "pending env new us (kr_db w)"
  shows "pending env new us (kr_db (fold (arrive env) es w))"
proof -
  have "grown env new (kr_db w) (kr_db (fold (arrive env) es w))"
    using arrivals_grow [OF assms(1), of new w L es] assms(2) by (auto simp: stands_def)
  then obtain extra where extra: "nsecs (kr_db (fold (arrive env) es w)) = nsecs (kr_db w) @ extra"
      "\<forall>r\<in>set extra. \<exists>c. bn_encrypted_nsec r = Some c \<and> mf_decrypt env [new] c = Some (bn_nsec r)"
      "unique_on bn_pubkey (nsecs (kr_db w)) \<longrightarrow> unique_on bn_pubkey (nsecs (kr_db w) @ extra)"
    unfolding grown_def by blast
  have "bn_pubkey r \<notin> bn_pubkey ` set (nsecs (kr_db w))" if "r \<in> set extra" for r
    using extra(3) assms(2) that by (auto simp: stands_def unique_on_def)
  then have apart: "bn_pubkey r \<notin> fst ` set us" if "r \<in> set extra" for r
    using assms(3) that unfolding pending_def by blast
  have "mf_decrypt env [new] c = kn_decrypt env new c" for c by (simp split: option.split)
  with assms(3) extra(1,2) apart show ?thesis unfolding pending_def by (force simp: image_iff)
qed

lemma pending_await:
  assumes "authentic env" "new \<in> set K"
  shows "runs env (\<lambda>w. stands env d False F (new # L) K w \<and> pending env new us (kr_db w)) await
     (\<lambda>_ w. stands env d False F (new # L) K w \<and> pending env new us (kr_db w)) (stands env d False F (new # L) K)"
  unfolding runs_def
proof (intro allI impI)
  fix w assume w: "stands env d False F (new # L) K w \<and> pending env new us (kr_db w)"
  then have "pending env new us (kr_db (snd (await env w)))"
    using pending_arrivals [OF assms(1)] by (auto simp: await_def call_def Let_def split: option.split)
  with w show "case await env w of (Inl e, w') \<Rightarrow> stands env d False F (new # L) K w' \<and> (\<exists>n. kn_fault env n = Some e)
      | (Inr x, w') \<Rightarrow> stands env d False F (new # L) K w' \<and> pending env new us (kr_db w')"
    using await_runs [OF assms, of d False F L, unfolded runs_def, rule_format, of w] by (auto split: prod.splits sum.splits)
qed

lemma pending_put:
  "stands env d A F L K w \<Longrightarrow> pending env new us (kr_db w) \<Longrightarrow> stands env d A F L [new] (w\<lparr>kr_db := fold set_encrypted us (kr_db w)\<rparr>)"
  by (simp add: stands_def flying_def pending_done set_encrypted_keys set_encrypted_keeps unique_on_def)

lemma reencrypt_runs:
  assumes "authentic env"
  shows "runs env (stands env d False F (new # L) (new # ks)) (reencrypt_all (new # ks)) (\<lambda>_. stands env d False F (new # L) [new])
     (stands env d False F (new # L) (new # ks))" (is "runs env ?S _ _ _")
  unfolding reencrypt_all_def
proof (rule runs_bind [OF await_runs [OF assms]], simp, rule runs_bind)
  show "runs env ?S (get_keys (\<lambda>w. (kr_steps w, encrypted_rows (kr_db w)))) (\<lambda>x w. ?S w \<and> snd x = encrypted_rows (kr_db w)) ?S"
    by (rule runs_get) simp
next
  fix x :: "nat \<times> (string \<times> string) list"
  obtain n rows where x: "x = (n, rows)" by (cases x)
  have "runs env (\<lambda>w. ?S w \<and> rows = encrypted_rows (kr_db w)) (\<lambda>env w. (reencrypted env (new # ks) n rows, w))
      (\<lambda>us w. ?S w \<and> pending env new us (kr_db w)) ?S"
    unfolding runs_def
  proof (intro allI impI)
    fix w assume w: "?S w \<and> rows = encrypted_rows (kr_db w)"
    then obtain us where "reencrypted env (new # ks) n rows = Inr us" "pending env new us (kr_db w)"
      using reencrypted_pending [OF assms, of new ks "kr_db w" n] by (auto simp: stands_def)
    with w show "case (reencrypted env (new # ks) n rows, w) of (Inl e, w') \<Rightarrow> ?S w' \<and> (\<exists>n. kn_fault env n = Some e) | (Inr us, w') \<Rightarrow> ?S w' \<and> pending env new us (kr_db w')"
      by simp
  qed
  moreover have "runs env (\<lambda>w. ?S w \<and> pending env new us (kr_db w)) (op_bind await (\<lambda>_.
      op_bind (put_keys (\<lambda>w. w\<lparr>kr_db := fold set_encrypted us (kr_db w)\<rparr>)) (\<lambda>_. ret (length us))))
      (\<lambda>_. stands env d False F (new # L) [new]) ?S" for us
    by (rule runs_bind [OF pending_await [OF assms]], simp, rule runs_bind, rule runs_put, rule pending_put) (auto intro: runs_ret)
  ultimately show "runs env (\<lambda>w. ?S w \<and> snd x = encrypted_rows (kr_db w)) (case x of (n, rows) \<Rightarrow>
      op_bind (\<lambda>env w. (reencrypted env (new # ks) n rows, w)) (\<lambda>us. op_bind await (\<lambda>_.
      op_bind (put_keys (\<lambda>w. w\<lparr>kr_db := fold set_encrypted us (kr_db w)\<rparr>)) (\<lambda>_. ret (length us)))))
      (\<lambda>_. stands env d False F (new # L) [new]) ?S"
    unfolding x by (simp add: runs_bind eq_commute)
qed

text \<open>Whatever state a fault leaves, the file's keys and the loaded keys open every row, and every row still to come.\<close>

definition readable :: "key_env \<Rightarrow> db \<Rightarrow> key_state \<Rightarrow> bool" where
  "readable env d w \<longleftrightarrow> sealed env (read_keys_from_file (kr_file w)) (kr_db w) \<and> sealed env (kr_keys w) (kr_db w)
     \<and> flying env (read_keys_from_file (kr_file w)) w \<and> flying env (kr_keys w) w \<and> keeps_nsecs d (kr_db w)"

lemma stands_readable:
  assumes "authentic env" "stands env d A F L K w" "L \<noteq> []" "set K \<subseteq> set F" "set K \<subseteq> set L" "hd L \<in> set F"
  shows "readable env d w"
  using assms sealed_mono [OF assms(1), of K "kr_db w"] flying_mono [OF assms(1), of "[hd L]" w] by (auto simp: stands_def readable_def)

lemma stands_widen: "authentic env \<Longrightarrow> stands env d A F L K w \<Longrightarrow> set K \<subseteq> set K' \<Longrightarrow> stands env d A F L K' w"
  unfolding stands_def using sealed_mono by blast

lemma generate_runs:
  "(\<And>n. key_text (kn_generate env n)) \<Longrightarrow> runs env I (\<lambda>env w. (Inr (kn_generate env (kr_steps w)), w)) (\<lambda>k w. I w \<and> key_text k) J"
  by (simp add: runs_def)

lemma runs_assuming: "(A \<Longrightarrow> runs env I m Q J) \<Longrightarrow> runs env (\<lambda>w. I w \<and> A) m Q J"
  by (simp add: runs_def)

lemma runs_checked: "runs env I m Q J \<Longrightarrow> runs env (\<lambda>w. I w \<and> vr_fail v = 0) (if vr_fail v > 0 then n else m) Q J"
  by (simp add: runs_def)

lemma finish_runs:
  assumes "authentic env" "key_text new"
  shows "runs env (stands env d False [new, old] [new, old] [old]) (finish_rotation new old) (\<lambda>_. stands env d False [new] [new] [new]) (readable env d)"
proof -
  let ?Q = "\<lambda>_. stands env d False [new] [new] [new]"
  let ?done = "op_bind (write_keys_to_file [new]) (\<lambda>_. op_bind load_keys_from_file (\<lambda>_. ret ()))"
  note safe = stands_readable [OF assms(1)]
  have "runs env (stands env d False [new] [new, old] [new]) (op_bind load_keys_from_file (\<lambda>_. ret ())) ?Q (readable env d)"
    by (rule runs_then [OF load_runs]) (auto intro: safe runs_ret)
  then have "runs env (stands env d False [new, old] [new, old] [new]) ?done ?Q (readable env d)"
    by (intro runs_then [OF write_runs]) (use assms(2) in \<open>auto intro: safe\<close>)
  then have "runs env (\<lambda>w. stands env d False [new, old] [new, old] [new] w \<and> (False \<longrightarrow> lands env w)) (op_bind (verify_with [new]) (\<lambda>post.
      if vr_fail post > 0 then raise (msg post) else ?done)) ?Q (readable env d)" for msg
    by (intro runs_then [OF verify_runs [OF assms(1)]] runs_checked) (auto intro: safe)
  then show ?thesis
    unfolding finish_rotation_def
    by (intro runs_pre [OF runs_then [OF reencrypt_runs [OF assms(1)]]]) (auto intro: safe stands_widen [OF assms(1)])
qed

lemma rotate_from_runs:
  assumes "authentic env" "\<forall>n. key_text (kn_generate env n)" "key_text old"
  shows "runs env (stands env d True (old # rest) (old # rest) [old]) (rotate_from old) (\<lambda>_ w. \<exists>new. stands env d False [new] [new] [new] w) (readable env d)"
    (is "runs env ?S _ ?Q _")
  unfolding rotate_from_def
proof (rule runs_bind [OF generate_runs], simp add: assms(2), rule runs_assuming)
  fix new assume "key_text new"
  note safe = stands_readable [OF assms(1)]
  have "runs env (stands env d False [new, old] [new, old] [old]) (finish_rotation new old) ?Q (readable env d)"
    by (rule runs_post [OF finish_runs [OF assms(1) \<open>key_text new\<close>]]) blast
  then have "runs env (stands env d True [new, old] (old # rest) [old]) (op_bind load_keys_from_file (\<lambda>_. finish_rotation new old)) ?Q (readable env d)"
    by (intro runs_then [OF load_runs]) (auto intro: safe)
  then show "runs env ?S (op_bind (write_keys_to_file [new, old]) (\<lambda>_. op_bind load_keys_from_file (\<lambda>_. finish_rotation new old))) ?Q (readable env d)"
    by (intro runs_then [OF write_runs]) (use \<open>key_text new\<close> assms(3) in \<open>auto intro: safe\<close>)
qed

lemma rotate_runs:
  assumes "authentic env" "\<forall>n. key_text (kn_generate env n)" "key_text old"
  shows "runs env (\<lambda>w. stands env d False (old # rest) (old # rest) [old] w \<and> lands env w) rotate_key
     (\<lambda>_ w. \<exists>new. stands env d False [new] [new] [new] w) (readable env d)" (is "runs env ?S _ ?Q _")
proof -
  note safe = stands_readable [OF assms(1)]
  have loaded: "kr_keys w = old # rest" if "stands env d False (old # rest) (old # rest) [old] w" for w using that by (simp add: stands_def)
  have "runs env (\<lambda>w. stands env d False (old # rest) (old # rest) [old] w \<and> (True \<longrightarrow> lands env w))
      (op_bind (verify_with (old # rest)) (\<lambda>pre. if vr_fail pre > 0 then raise (msg pre) else rotate_from old)) ?Q (readable env d)" for msg
    by (intro runs_then [OF verify_runs [OF assms(1)]] runs_checked rotate_from_runs assms) (auto intro: safe)
  then show ?thesis
    unfolding rotate_key_def
    by (intro runs_bind [OF runs_get [where Q = "\<lambda>ks w. ?S w \<and> ks = old # rest"]] runs_assuming) (auto simp: loaded cong: if_cong)
qed


text \<open>A stand-in for the cipher, so a table can be written down: a token is its key, with the key's length before it, and the text.\<close>

definition toy_tag :: "string \<Rightarrow> string" where
  "toy_tag k = replicate (length k) (CHR ''a'') @ CHR ''b'' # k"

definition toy_env :: "(nat \<Rightarrow> exn option) \<Rightarrow> (nat \<Rightarrow> sign_up list) \<Rightarrow> key_env" where
  "toy_env faults arrivals = \<lparr>kn_encrypt = \<lambda>k n p. toy_tag k @ p,
     kn_decrypt = \<lambda>k c. if take (length (toy_tag k)) c = toy_tag k then Some (drop (length (toy_tag k)) c) else None,
     kn_generate = \<lambda>n. replicate (n + 1) (CHR ''k''), kn_fault = faults, kn_arrivals = arrivals\<rparr>"

lemma toy_authentic: "authentic (toy_env faults arrivals)"
proof -
  have run: "length (takeWhile (\<lambda>x. x = CHR ''a'') (replicate n (CHR ''a'') @ CHR ''b'' # t)) = n" for n t
    by (induction n) simp_all
  have len: "length (takeWhile (\<lambda>x. x = CHR ''a'') c) = length k" if "take (length (toy_tag k)) c = toy_tag k" for k c
  proof -
    have "c = toy_tag k @ drop (length (toy_tag k)) c" using that by (metis append_take_drop_id)
    then obtain t where "c = toy_tag k @ t" by blast
    then show ?thesis by (simp add: toy_tag_def run)
  qed
  have "k = k'" if "take (length (toy_tag k)) c = toy_tag k" "take (length (toy_tag k')) c = toy_tag k'" for k k' c
    using that len [OF that(1)] len [OF that(2)] by (simp add: toy_tag_def)
  note one = this
  show ?thesis unfolding authentic_def
  proof (intro conjI allI impI)
    show "kn_decrypt (toy_env faults arrivals) k (kn_encrypt (toy_env faults arrivals) k n p) = Some p" for k n p
      by (simp add: toy_env_def)
    show "k = k'" if "kn_decrypt (toy_env faults arrivals) k c = Some p \<and> kn_decrypt (toy_env faults arrivals) k' c = Some p'" for k k' c p p'
      using that by (intro one [of k c]) (simp_all add: toy_env_def split: if_splits)
  qed
qed

definition toy_row :: "string \<Rightarrow> brainstorm_nsec" where
  "toy_row k = fresh_nsec (\<lambda>_. (''nsec1alice'', toy_tag k @ ''nsec1alice'')) ''alice''"

definition toy_state :: "string list \<Rightarrow> string \<Rightarrow> key_state" where
  "toy_state ks k = \<lparr>kr_file = Some (join_with '','' ks), kr_keys = ks, 
     kr_db = \<lparr>nsecs = [toy_row k], schedulings = [], billing_plans = [], user_subscriptions = [], webhook_events = [], next_event_id = 1, next_plan_id = 1\<rparr>,
     kr_flight = [], kr_steps = 0\<rparr>"

lemma toy_starts: "unique_on bn_pubkey (nsecs (kr_db (toy_state ks k)))" "sealed (toy_env faults arrivals) [k] (kr_db (toy_state ks k))"
    "flying env ks' (toy_state ks k)"
  by (simp_all add: toy_state_def toy_row_def sealed_def flying_def fresh_nsec_def unique_on_def toy_env_def)

definition toy_fault :: key_env where
  "toy_fault = toy_env (\<lambda>n. if n = 4 then Some OperationalError else None) (\<lambda>n. if n = 3 then [Began ''bob'' ''nsec1bob'', Committed ''bob''] else [])"


text \<open>
  A rotation that fails between the two writes leaves two keys in use and the rows under the second. Rotating again keeps only the first of
  them beside the new one: the rows lose their key, in the file and in memory.
\<close>

definition outcome :: "key_env \<Rightarrow> key_state \<Rightarrow> (exn, unit) result \<times> string list \<times> (string \<times> string option) list" where
  "outcome env w = (case rotate_key env w of (r, w') \<Rightarrow> (r, read_keys_from_file (kr_file w'),
     map (\<lambda>(p, c). (p, mf_decrypt env (read_keys_from_file (kr_file w')) c)) (encrypted_rows (kr_db w'))))"

lemma rotating_again_strands:
  "outcome toy_fault (toy_state [''old''] ''old'')
     = (Inl OperationalError, [''kk'', ''old''], [(''alice'', Some ''nsec1alice''), (''bob'', Some ''nsec1bob'')])"
  "outcome (toy_env (\<lambda>_. None) (\<lambda>_. [])) (toy_state [''new'', ''old''] ''old'') = (Inl InvalidToken, [''kk'', ''new''], [(''alice'', None)])"
  by code_simp+

text \<open>
  A sign-up that built its row before the reload and commits after the rotation: its row opens with no key that is left.
\<close>

lemma sign_up_in_flight_is_stranded:
  "case rotate_key (toy_env (\<lambda>_. None) (\<lambda>n. if n = 0 then [Began ''bob'' ''nsec1bob''] else [])) (toy_state [''old''] ''old'') of (r, w') \<Rightarrow>
     r = Inr () \<and> (let env = toy_env (\<lambda>_. None) (\<lambda>_. []); w'' = arrive env (Committed ''bob'') w' in
       map (\<lambda>(p, c). (p, mf_decrypt env (read_keys_from_file (kr_file w'')) c)) (encrypted_rows (kr_db w''))
         = [(''alice'', Some ''nsec1alice''), (''bob'', None)])"
  by code_simp

section \<open>Starting without a key file\<close>

lemma arrive_appends: "\<exists>extra. nsecs (kr_db (arrive env e w)) = nsecs (kr_db w) @ extra"
  by (cases e) (auto simp: get_or_create_brainstorm_observer_nsec_by_pubkey_on_db_def Let_def split: option.split)

lemma encrypted_rows_grow: "encrypted_rows (kr_db w) \<noteq> [] \<Longrightarrow> encrypted_rows (kr_db (fold (arrive env) es w)) \<noteq> []"
proof (induction es arbitrary: w)
  case (Cons e es)
  have "encrypted_rows (kr_db (arrive env e w)) \<noteq> []"
    using Cons.prems arrive_appends [of env e w] by (auto simp: encrypted_rows_def map_filter_append)
  from Cons.IH [OF this] show ?case by simp
qed simp

lemma load_file [simp]: "kr_file (snd (load_keys_from_file env w)) = kr_file w" "kr_db (snd (load_keys_from_file env w)) = kr_db w"
  by (simp_all add: load_keys_from_file_def op_bind_def call_def put_keys_def get_keys_def Let_def split: option.split)

lemma count_sees: "encrypted_rows (kr_db w) \<noteq> [] \<Longrightarrow> count_encrypted_rows env w = (Inr n, w') \<Longrightarrow> n > 0 \<and> kr_file w' = kr_file w"
  using encrypted_rows_grow [of w env] by (auto simp: count_encrypted_rows_def op_bind_def await_def call_def get_keys_def Let_def split: option.splits)

lemma count_file: "count_encrypted_rows env w = (r, w') \<Longrightarrow> kr_file w' = kr_file w"
  by (auto simp: count_encrypted_rows_def op_bind_def await_def call_def get_keys_def Let_def split: option.splits)

text \<open>A key file that was lost is never replaced while a ciphertext needs it, whatever fails and whoever signs up.\<close>

lemma bootstrap_spares_ciphertext:
  assumes "encrypted_rows (kr_db w) \<noteq> []" shows "kr_file (snd (bootstrap_keys env w)) = kr_file w"
proof (cases "load_keys_from_file env w")
  case (Pair r w1)
  then have "kr_file w1 = kr_file w" "kr_db w1 = kr_db w"
    using load_file [of env w] by simp_all
  note w1 = this
  obtain c w2 where w2: "count_encrypted_rows env w1 = (c, w2)" by fastforce
  have same: "kr_file w2 = kr_file w" using count_file [OF w2] w1(1) by simp
  show ?thesis
  proof (cases c)
    case (Inr n)
    have "n > 0" using count_sees [of w1 env n w2] w2 assms w1(2) Inr by simp
    with Pair w1 w2 same Inr show ?thesis by (cases r) (simp_all add: bootstrap_keys_def op_bind_def ret_def)
  qed (use Pair w1 w2 same in \<open>cases r; simp add: bootstrap_keys_def op_bind_def ret_def\<close>)
qed

text \<open>With keys loaded, a key opens again to what was sealed; without any it is stored and read as it is.\<close>

lemma nsec_round_trip:
  assumes "authentic env" "take 5 (encrypt_nsec env ks n p) = ''nsec1'' \<longrightarrow> ks = []"
  shows "decrypt_nsec env ks (encrypt_nsec env ks n p) = Inr p"
  using assms by (cases ks) (auto simp: decrypt_nsec_def encrypt_nsec_def authentic_def)

end
