(* ===== verification/Spec2Isabelle.thy ===== *)
theory Spec2Isabelle
  imports Billing_System Subscription_View Leader_Lock Result_Queue Run_Life Assistant_Press Redis_Backfill Event_Transfer Trusted_Lists Key_Rotation
begin

text \<open>
  \<^bold>\<open>Brainstorm server.\<close> The server computes personalised trust scores of Nostr users ("GrapeRank
  runs"), publishes them to a relay as signed assertions, writes them to a graph, and sells
  scheduled recomputation through the payment provider Flash. It is an asynchronous Python
  program over PostgreSQL, Redis and Neo4j. This development models the parts that decide
  something: what a user is entitled to, which runs are started, what becomes of a run's
  result, what is told to the outside, and what the events of other users change.

  \<^bold>\<open>Foundations.\<close>
  \<^item> \<^verbatim>\<open>Prelude\<close>: results, rows and statements of a table (\<open>sql_update\<close>, \<open>sql_upsert\<close>, \<open>lookup_by\<close>,
    uniqueness of a key), stable choices of a maximum; the named collections of the proofs.
  \<^item> \<^verbatim>\<open>Py_Values\<close>, \<^verbatim>\<open>Py_Datetime\<close>: JSON values and truthiness, integers from text, ISO timestamps on
    a microsecond calendar with Python's range.
  \<^item> \<^verbatim>\<open>Errors\<close>: every exception the modelled code raises, as one datatype. A fallible function
    returns \<open>exn + 'a\<close>; a raise is a value, never a missing case.
  \<^item> \<^verbatim>\<open>Session\<close>: a database session as state passing: a transaction on top of the durable state,
    \<open>commit\<close> and \<open>rollback\<close>, operations in a reader/state/error monad (\<open>op_bind\<close>, \<open>catch\<close>).

  \<^bold>\<open>Billing.\<close> \<^verbatim>\<open>Flash_Client\<close> (\<^verbatim>\<open>app/core/flash.py\<close>, \<^verbatim>\<open>flash_mock.py\<close>) reads and writes subscriptions over a
  transport that is a parameter; its properties say when "no subscription" may be believed,
  how often a write is sent, and which of several rows decides. \<^verbatim>\<open>Billing_Store\<close> holds the tables
  and one definition per statement of \<^verbatim>\<open>app/repos/\<close> that the billing code runs. \<^verbatim>\<open>Entitlement\<close>
  (\<^verbatim>\<open>services/billing_service.py\<close>) decides and writes a tier; \<^verbatim>\<open>Webhook\<close> authenticates, records and
  processes a delivery; \<^verbatim>\<open>Billing_Sync\<close> is the periodic sweep, reconciliation and replay;
  \<^verbatim>\<open>Billing_System\<close> composes them as the steps of one transition system and proves invariants of
  every history; \<^verbatim>\<open>Subscription_View\<close> is what a subscriber and the pricing page see, with the
  plan cache behind it.

  \<^bold>\<open>Runs.\<close> \<^verbatim>\<open>Run_Ledger\<close> is the table of runs and its statements; \<^verbatim>\<open>Run_Requests\<close> asks for a run:
  preset, designated keys, the row, the queue, in the order of the source and with what it undoes
  on failure. \<^verbatim>\<open>Scheduler\<close> and \<^verbatim>\<open>Scheduler_Cycle\<close> are the admission of scheduled runs: who is overdue,
  in what order, how many at once, from which lane; \<^verbatim>\<open>Leader_Lock\<close> is the lease that lets one
  instance do it. The worker that computes scores is another program: its result is an
  input. \<^verbatim>\<open>Result_Queue\<close> delivers it under crashes; \<^verbatim>\<open>Result_Stages\<close> records it; \<^verbatim>\<open>Relay_Publisher\<close>
  and \<^verbatim>\<open>Publish\<close> bring the relay into agreement with it; \<^verbatim>\<open>Graph_Scores\<close> writes it to the graph;
  \<^verbatim>\<open>Ledger_Laws\<close> and \<^verbatim>\<open>Run_Life\<close> state what no interleaving of all those sessions can do to a run.

  \<^bold>\<open>Treasure Maps.\<close> A Treasure Map is a signed list of which provider answers for which insight.
  \<^verbatim>\<open>Duty_Keys\<close> is the grammar of its keys, when a key covers an insight and which of two keys is the
  more specific; the finitely many probes it tests are shown to decide every insight.
  \<^verbatim>\<open>Self_Map\<close> (\<^verbatim>\<open>services/self_map_build.py\<close>) decides what an Assistant's own Map should claim,
  from the reader's Map, the offer and what is live. \<^verbatim>\<open>Assistant_Relays\<close> is one spelling per relay, where an
  event of the Assistant goes, and the wire shapes of its Duty Menu and its Map; \<^verbatim>\<open>Assistant_Press\<close>
  (\<^verbatim>\<open>services/assistant_publish.py\<close>, \<^verbatim>\<open>duty_menu_service.py\<close>, \<^verbatim>\<open>self_map_service.py\<close>) is the press that publishes
  them, one at a time per Assistant: what it saves when it raises, what it sent when it answers, and when it succeeds.

  \<^bold>\<open>Events of the relay.\<close> \<^verbatim>\<open>Nostr_Event\<close> reads an event as the code does, tag by tag, raising where it would.
  \<^verbatim>\<open>Tag_Store\<close> (\<^verbatim>\<open>services/tagging_parse.py\<close>, \<^verbatim>\<open>repos/tagging_repo.py\<close>) keeps tags and who applied them to whom: the newest
  event of a coordinate holds, in whatever order events come. \<^verbatim>\<open>Social_Graph\<close>
  (\<^verbatim>\<open>message_queue_tasks/process_strfry_event.py\<close>, \<^verbatim>\<open>services/report_graph_service.py\<close>, \<^verbatim>\<open>report_relay_service.py\<close>) keeps
  follows, mutes, reports and designations in the graph and in Redis, where any write may fail part way: an event
  touches only its author, a report goes only on evidence, and without failures both stores refine the relations the
  events describe. \<^verbatim>\<open>Redis_Backfill\<close> rebuilds the Redis sets from the graph in pages and is shown to end, complete.
  \<^verbatim>\<open>Event_Transfer\<close> (\<^verbatim>\<open>nostr_event_transferer/\<close>) fills the server's relay from another one: when that loop ends, what it
  has passed on by then, and two histories in which it does not end or misses events. \<^verbatim>\<open>Trusted_Lists\<close>
  (\<^verbatim>\<open>services/trusted_list_build.py\<close>, \<^verbatim>\<open>trusted_list_service.py\<close>) publishes, for one observer, who the tags of trusted users
  make a member of what, and retracts the lists that no longer stand.

  \<^bold>\<open>Keys at rest.\<close> \<^verbatim>\<open>Key_Rotation\<close> (\<^verbatim>\<open>services/nsec_encryption_service.py\<close>, \<^verbatim>\<open>utils/encryption.py\<close>) is the file of encryption keys
  and its rotation, with a fault at any call and sign-ups at any await: no ciphertext loses its key, and the two
  histories in which one does lie outside the hypotheses of that property.

  \<^bold>\<open>Interfaces.\<close> A locale states what one part relies on: a choice that is a maximum, a table
  under upserts, the laws a session keeps from one durable state to the next (\<open>ledger_law\<close>,
  \<open>row_law\<close>), delivery with confirmation (\<open>confirmed_delivery\<close>). Each is interpreted on the model's own
  definitions in the theory that provides them.

  \<^bold>\<open>Loops and termination.\<close> Retry loops recurse on the attempts left; the admission loop on the
  budget; reading a payload on the bytes missing; batches on the items left; the paged rebuild on the
  users after its cursor. The loop that fills the relay need not end: it is a partial function, \<^term>\<open>None\<close> where it
  does not return, and that it returns is a property with its own hypothesis. Endless loops of
  jobs are modelled by one round, and by step relations where rounds of several processes
  interleave: a history is then any finite sequence of steps, so no fairness is assumed
  unless a statement says what was answered.

  \<^bold>\<open>Parameters.\<close> The HTTP transport, the relay's and the graph's answers, the clock, the key
  generator, the cipher, signatures, the decoder of queue messages, the validation of preset
  parameters, the rounding of doubles, the faults of each write to the graph and to Redis: each is an argument, and what a property needs of one is a hypothesis that its
  witness discharges on a concrete function.

  \<^bold>\<open>Not modelled.\<close> Wiring of routes, dependency injection, logging and metrics; the schema
  migrations and operator scripts; the admin panel; sign-in and passkeys, which rest on
  cryptographic libraries; support conversations and short links; the read-only graph queries that answer
  exploratory requests, whose meaning is that of their Cypher text.
\<close>

end
